(* ===== verification/OS_Prelude.thy ===== *)
theory OS_Prelude
  imports Main "HOL-Library.Word" "HOL-Library.Monad_Syntax"
begin

unbundle bit_operations_syntax

section \<open>Prelude: C integers and shared list facts\<close>

text \<open>
  The conversions of C's fixed-width integer types that the sources perform
  (\<open>int\<close>, \<open>int16_t\<close>, \<open>size_t\<close>), as functions on \<open>int\<close>, and the generic lemmas on
  lists and options that the components share.  Values of C variables are kept as
  \<open>int\<close>; every place where the C code narrows a value applies the conversion.  The tag
  words of the two allocators and the page table entries go through these conversions.
\<close>

named_theorems cint \<comment> \<open>evaluation of C integer conversions inside their range\<close>

subsection \<open>Integer conversions\<close>

definition s32 :: "int \<Rightarrow> int" where
  "s32 x = (x + 2147483648) mod 4294967296 - 2147483648"

definition s16 :: "int \<Rightarrow> int" where
  "s16 x = (x + 32768) mod 65536 - 32768"

definition u64 :: "int \<Rightarrow> int" where
  "u64 x = x mod 18446744073709551616"

lemma s32_id [cint]: "-2147483648 \<le> x \<Longrightarrow> x < 2147483648 \<Longrightarrow> s32 x = x"
  by (simp add: s32_def)

lemma s16_id [cint]: "-32768 \<le> x \<Longrightarrow> x < 32768 \<Longrightarrow> s16 x = x"
  by (simp add: s16_def)

lemma u64_id [cint]: "0 \<le> x \<Longrightarrow> x < 18446744073709551616 \<Longrightarrow> u64 x = x"
  by (simp add: u64_def)

lemma s32_range: "-2147483648 \<le> s32 x" "s32 x < 2147483648"
  by (simp_all add: s32_def)

lemma s32_mod [simp]: "s32 (x mod 4294967296) = s32 x"
  by (simp add: s32_def mod_simps)

lemma s32_agrees_with_word: "s32 x = sint (word_of_int x :: 32 word)"
  by (simp add: s32_def signed_take_bit_eq_take_bit_shift take_bit_eq_mod sint_uint
      unsigned_word_eqI uint_word_of_int mod_simps)

subsection \<open>The flag bit of a tag word\<close>

lemma or_flag: "even n \<Longrightarrow> n OR of_bool a = n + (of_bool a :: int)"
  by (cases a) (auto simp: or_one_eq)

lemma clear_flag: "even n \<Longrightarrow> (n + of_bool a) AND - 2 = (n :: int)"
proof -
  assume n: "even n"
  then have "(n + of_bool a) AND - 2 = (n OR of_bool a) AND NOT 1" by (simp add: or_flag)
  also have "\<dots> = n"
    using n by (cases a) (auto simp: bit_eq_iff bit_simps bit_0 intro!: gr0I)
  finally show ?thesis .
qed

lemma read_flag: "even n \<Longrightarrow> (n + of_bool a) AND 1 = (of_bool a :: int)"
  by (cases a) (auto simp: and_one_eq)

lemmas flag_simps = or_flag clear_flag clear_flag [where a = True, simplified]
  clear_flag [where a = False, simplified] read_flag

end
