(* ===== verification/C_Memory.thy ===== *)
theory C_Memory
  imports OS_Prelude
begin

section \<open>Byte-addressed memory\<close>

text \<open>
  The storage the allocators work on (\<open>myBlock\<close> of VSmymalloc, \<open>memory\<close> of
  Assignment2): an object of \<open>msize\<close> bytes, addressed by offsets from its start.  An
  access of C's \<open>int\<close> reads or writes four bytes, least significant first; an access that
  leaves the object is undefined behaviour in C and yields \<open>None\<close>.
\<close>

named_theorems memory \<comment> \<open>loads and stores through each other\<close>

type_synonym byte = "8 word"

record mem =
  msize :: int
  mbytes :: "int \<Rightarrow> byte"

definition in_mem :: "mem \<Rightarrow> int \<Rightarrow> int \<Rightarrow> bool" where
  "in_mem m a n \<longleftrightarrow> 0 \<le> a \<and> a + n \<le> msize m"

subsection \<open>Four-byte accesses\<close>

definition ld32 :: "mem \<Rightarrow> int \<Rightarrow> int" where
  "ld32 m a = s32 (uint (mbytes m a) + 256 * uint (mbytes m (a + 1))
     + 65536 * uint (mbytes m (a + 2)) + 16777216 * uint (mbytes m (a + 3)))"

definition st32 :: "mem \<Rightarrow> int \<Rightarrow> int \<Rightarrow> mem" where
  "st32 m a v = m\<lparr>mbytes := (mbytes m)
     (a := word_of_int v, a + 1 := word_of_int (v div 256),
      a + 2 := word_of_int (v div 65536), a + 3 := word_of_int (v div 16777216))\<rparr>"

definition load32 :: "mem \<Rightarrow> int \<Rightarrow> int option" where
  "load32 m a = (if in_mem m a 4 then Some (ld32 m a) else None)"

definition store32 :: "mem \<Rightarrow> int \<Rightarrow> int \<Rightarrow> mem option" where
  "store32 m a v = (if in_mem m a 4 then Some (st32 m a v) else None)"

text \<open>A write through a \<open>char *\<close> stores the low byte.\<close>

definition store8 :: "mem \<Rightarrow> int \<Rightarrow> int \<Rightarrow> mem option" where
  "store8 m a v =
     (if in_mem m a 1 then Some (m\<lparr>mbytes := (mbytes m)(a := word_of_int v)\<rparr>) else None)"

subsection \<open>Laws of loads and stores\<close>

lemma base256:
  "(M::int) = 256 * A + b0 \<Longrightarrow> A = 256 * B + b1 \<Longrightarrow> B = 256 * C + b2 \<Longrightarrow>
     b0 + 256 * b1 + 65536 * b2 + 16777216 * C = M"
  by simp

lemma bytes_of_int:
  "(v::int) mod 256 + 256 * (v div 256 mod 256) + 65536 * (v div 65536 mod 256)
     + 16777216 * (v div 16777216 mod 256) = v mod 4294967296"
proof (rule base256)
  have d: "v div 256 div 256 = v div 65536" "v div 65536 div 256 = v div 16777216"
    using zdiv_zmult2_eq [of 256 v 256] zdiv_zmult2_eq [of 256 v 65536] by simp_all
  show "v mod 4294967296 = 256 * (v div 256 mod 16777216) + v mod 256"
    using zmod_zmult2_eq [of 16777216 v 256] by simp
  show "v div 256 mod 16777216 = 256 * (v div 65536 mod 65536) + v div 256 mod 256"
    using zmod_zmult2_eq [of 65536 "v div 256" 256] unfolding d by simp
  show "v div 65536 mod 65536 = 256 * (v div 16777216 mod 256) + v div 65536 mod 256"
    using zmod_zmult2_eq [of 256 "v div 65536" 256] unfolding d by simp
qed

lemma msize_st32 [simp]: "msize (st32 m a v) = msize m"
  by (simp add: st32_def)

lemma in_mem_st32 [simp]: "in_mem (st32 m a v) b n = in_mem m b n"
  by (simp add: in_mem_def)

lemma ld32_st32_same [simp]: "ld32 (st32 m a v) a = s32 v"
proof -
  have "ld32 (st32 m a v) a = s32 (v mod 4294967296)"
    by (simp add: ld32_def st32_def uint_word_of_int bytes_of_int)
  then show ?thesis by simp
qed

lemma ld32_st32_other [memory]:
  "b + 4 \<le> a \<or> a + 4 \<le> b \<Longrightarrow> ld32 (st32 m a v) b = ld32 m b"
  by (auto simp: ld32_def st32_def)

lemma mbytes_st32_other [memory]:
  "x < a \<or> a + 4 \<le> x \<Longrightarrow> mbytes (st32 m a v) x = mbytes m x"
  by (auto simp: st32_def)

lemma store32_in [memory]: "in_mem m a 4 \<Longrightarrow> store32 m a v = Some (st32 m a v)"
  by (simp add: store32_def)

lemma load32_in [memory]: "in_mem m a 4 \<Longrightarrow> load32 m a = Some (ld32 m a)"
  by (simp add: load32_def)

lemma load32_Some_iff: "load32 m a = Some w \<longleftrightarrow> in_mem m a 4 \<and> ld32 m a = w"
  by (auto simp: load32_def)

lemma load32_out: "load32 m a = None \<longleftrightarrow> \<not> in_mem m a 4"
  by (auto simp: load32_def)

subsection \<open>Block copies and fills\<close>

text \<open>\<open>memcpy\<close> and \<open>memset\<close> on ranges that lie inside the object and, for \<open>memcpy\<close>,
  do not overlap (overlap is undefined behaviour).\<close>

definition cp :: "(int \<Rightarrow> byte) \<Rightarrow> int \<Rightarrow> (int \<Rightarrow> byte) \<Rightarrow> int \<Rightarrow> int \<Rightarrow> (int \<Rightarrow> byte)" where
  "cp d dst s src n = (\<lambda>x. if dst \<le> x \<and> x < dst + n then s (src + (x - dst)) else d x)"

definition memcpy :: "mem \<Rightarrow> int \<Rightarrow> int \<Rightarrow> int \<Rightarrow> mem option" where
  "memcpy m dst src n =
     (if in_mem m dst n \<and> in_mem m src n \<and> 0 \<le> n \<and> (dst + n \<le> src \<or> src + n \<le> dst)
      then Some (m\<lparr>mbytes := cp (mbytes m) dst (mbytes m) src n\<rparr>) else None)"

definition memset :: "mem \<Rightarrow> int \<Rightarrow> byte \<Rightarrow> int \<Rightarrow> mem option" where
  "memset m dst v n =
     (if in_mem m dst n \<and> 0 \<le> n
      then Some (m\<lparr>mbytes := (\<lambda>x. if dst \<le> x \<and> x < dst + n then v else mbytes m x)\<rparr>) else None)"

end
