(* ===== verification/Block_List.thy ===== *)
theory Block_List
  imports C_Memory
begin

section \<open>Abstract heaps: lists of blocks\<close>

text \<open>
  What the two boundary-tag allocators promise, independent of how tags are written: a
  region is a list of blocks, each a size in bytes (tags included) and an allocated flag.
  Allocation takes the first free block that is large enough and splits it when more than
  the two tags would be left; freeing marks a block free and merges it with its free
  neighbours.
\<close>

type_synonym blk = "int \<times> bool"

definition total :: "blk list \<Rightarrow> int" where
  "total bs = sum_list (map fst bs)"

definition tag_size :: "int \<Rightarrow> bool" where
  "tag_size n \<longleftrightarrow> 0 \<le> n \<and> n \<le> 268435456 \<and> 4 dvd n"

definition wf_blocks :: "blk list \<Rightarrow> bool" where
  "wf_blocks bs \<longleftrightarrow> (\<forall>(n, a) \<in> set bs. 12 \<le> n \<and> 4 dvd n)"

fun first_fit :: "int \<Rightarrow> blk list \<Rightarrow> (blk list \<times> int \<times> blk list) option" where
  "first_fit e [] = None"
| "first_fit e ((n, a) # bs) =
     (if \<not> a \<and> e \<le> n then Some ([], n, bs)
      else map_option (\<lambda>(xs, k, ys). ((n, a) # xs, k, ys)) (first_fit e bs))"

definition place :: "int \<Rightarrow> int \<Rightarrow> blk list" where
  "place e n = (if n - e > 8 then [(e, True), (n - e, False)] else [(n, True)])"

definition merge_left :: "blk list \<Rightarrow> int \<Rightarrow> blk list \<times> int" where
  "merge_left xs n =
     (if xs \<noteq> [] \<and> \<not> snd (last xs) then (butlast xs, fst (last xs) + n) else (xs, n))"

definition merge_right :: "int \<Rightarrow> blk list \<Rightarrow> int \<times> blk list" where
  "merge_right n ys =
     (if ys \<noteq> [] \<and> \<not> snd (hd ys) then (n + fst (hd ys), tl ys) else (n, ys))"

definition free_block :: "blk list \<Rightarrow> int \<Rightarrow> blk list \<Rightarrow> blk list" where
  "free_block xs n ys =
     (let (xs', k) = merge_left xs n; (k', ys') = merge_right k ys in xs' @ (k', False) # ys')"

text \<open>No two neighbouring blocks are free: the region is fully coalesced.\<close>

fun coalesced :: "blk list \<Rightarrow> bool" where
  "coalesced ((n, a) # (k, b) # bs) = ((a \<or> b) \<and> coalesced ((k, b) # bs))"
| "coalesced _ = True"

text \<open>The payload bytes of the allocated blocks of a region whose first header is at \<open>h\<close>.\<close>

fun payload :: "int \<Rightarrow> blk list \<Rightarrow> int set" where
  "payload h [] = {}"
| "payload h ((n, a) # bs) = (if a then {h + 4..<h + n - 4} else {}) \<union> payload (h + n) bs"

subsection \<open>Sizes\<close>

lemma total_simps [simp]:
  "total [] = 0" "total ((n, a) # bs) = n + total bs" "total (xs @ ys) = total xs + total ys"
  by (simp_all add: total_def)

lemma wf_blocks_simps [simp]:
  "wf_blocks []" "wf_blocks ((n, a) # bs) \<longleftrightarrow> 12 \<le> n \<and> 4 dvd n \<and> wf_blocks bs"
  "wf_blocks (xs @ ys) \<longleftrightarrow> wf_blocks xs \<and> wf_blocks ys"
  by (auto simp: wf_blocks_def)

lemma total_nonneg: "wf_blocks bs \<Longrightarrow> 0 \<le> total bs"
  by (induction bs) auto

lemma total_dvd: "wf_blocks bs \<Longrightarrow> 4 dvd total bs"
  by (induction bs) auto

lemma payload_append: "payload h (xs @ ys) = payload h xs \<union> payload (h + total xs) ys"
  by (induction h xs rule: payload.induct) (auto simp: algebra_simps)

lemma payload_bounds: "wf_blocks bs \<Longrightarrow> x \<in> payload h bs \<Longrightarrow> h + 4 \<le> x \<and> x < h + total bs - 4"
proof (induction h bs rule: payload.induct)
  case (2 h n a bs)
  then show ?case using total_nonneg [of bs] by (fastforce split: if_splits)
qed simp

subsection \<open>First fit\<close>

lemma first_fit_Some:
  "first_fit e bs = Some (xs, n, ys) \<Longrightarrow> bs = xs @ (n, False) # ys \<and> e \<le> n \<and>
     (\<forall>(k, b) \<in> set xs. b \<or> k < e)"
  by (induction e bs arbitrary: xs rule: first_fit.induct) (auto split: if_splits)

lemma first_fit_None: "first_fit e bs = None \<longleftrightarrow> (\<forall>(k, b) \<in> set bs. b \<or> k < e)"
  by (induction e bs rule: first_fit.induct) auto

lemma total_place [simp]: "total (place e n) = n"
  by (simp add: place_def)

lemma wf_place: "12 \<le> e \<Longrightarrow> 4 dvd e \<Longrightarrow> 12 \<le> n \<Longrightarrow> 4 dvd n \<Longrightarrow> wf_blocks (place e n)"
proof -
  assume a: "12 \<le> e" "4 dvd e" "12 \<le> n" "4 dvd n"
  then have "4 dvd n - e" by simp
  then have "n - e > 8 \<Longrightarrow> 12 \<le> n - e" by presburger
  with a show ?thesis by (auto simp: place_def)
qed

subsection \<open>Freeing and merging\<close>

lemma free_block_cases:
  obtains (none) "xs = [] \<or> snd (last xs)" "ys = [] \<or> snd (hd ys)"
      "free_block xs n ys = xs @ (n, False) # ys"
  | (left) xs' k where "xs = xs' @ [(k, False)]" "ys = [] \<or> snd (hd ys)"
      "free_block xs n ys = xs' @ (k + n, False) # ys"
  | (right) k ys' where "xs = [] \<or> snd (last xs)" "ys = (k, False) # ys'"
      "free_block xs n ys = xs @ (n + k, False) # ys'"
  | (both) xs' k j ys' where "xs = xs' @ [(k, False)]" "ys = (j, False) # ys'"
      "free_block xs n ys = xs' @ (k + n + j, False) # ys'"
proof (cases "xs = [] \<or> snd (last xs)")
  case True
  then have l: "merge_left xs n = (xs, n)" by (auto simp: merge_left_def)
  show ?thesis
  proof (cases "ys = [] \<or> snd (hd ys)")
    case True
    then show ?thesis
      using l \<open>xs = [] \<or> snd (last xs)\<close> by (intro none) (auto simp: free_block_def merge_right_def)
  next
    case False
    then obtain k ys' where "ys = (k, False) # ys'" by (cases ys) auto
    then show ?thesis
      using l True by (intro right [of k ys']) (auto simp: free_block_def merge_right_def)
  qed
next
  case False
  then obtain xs' k where xs: "xs = xs' @ [(k, False)]" by (cases xs rule: rev_cases) auto
  then have l: "merge_left xs n = (xs', k + n)" by (simp add: merge_left_def)
  show ?thesis
  proof (cases "ys = [] \<or> snd (hd ys)")
    case True
    then show ?thesis
      using l xs by (intro left [of xs' k]) (auto simp: free_block_def merge_right_def)
  next
    case False
    then obtain j ys' where "ys = (j, False) # ys'" by (cases ys) auto
    then show ?thesis
      using l xs by (intro both [of xs' k j ys']) (auto simp: free_block_def merge_right_def)
  qed
qed

lemma total_free_block [simp]: "total (free_block xs n ys) = total xs + n + total ys"
  by (rule free_block_cases [of xs ys n]) auto

lemma wf_free_block:
  "wf_blocks xs \<Longrightarrow> 12 \<le> n \<Longrightarrow> 4 dvd n \<Longrightarrow> wf_blocks ys \<Longrightarrow> wf_blocks (free_block xs n ys)"
  by (rule free_block_cases [of xs ys n]) auto

lemma payload_free_block:
  "payload h (free_block xs n ys) = payload h xs \<union> payload (h + total xs + n) ys"
  by (rule free_block_cases [of xs ys n]) (auto simp: payload_append algebra_simps)

lemma coalesced_append:
  "coalesced (xs @ ys) \<longleftrightarrow> coalesced xs \<and> coalesced ys \<and>
     (xs = [] \<or> ys = [] \<or> snd (last xs) \<or> snd (hd ys))"
proof (induction xs)
  case (Cons x xs)
  obtain n a where "x = (n, a)" by (cases x)
  then show ?case using Cons.IH by (cases xs; cases ys) auto
qed simp

lemma coalesced_Cons: "coalesced ((n, a) # bs) \<longleftrightarrow> coalesced bs \<and> (bs = [] \<or> a \<or> snd (hd bs))"
  by (cases bs) auto

lemma coalesced_free_block:
  "coalesced (xs @ (n, True) # ys) \<Longrightarrow> coalesced (free_block xs n ys)"
  by (rule free_block_cases [of xs ys n]) (auto simp: coalesced_append coalesced_Cons)

lemma coalesced_place:
  "coalesced (xs @ (n, False) # ys) \<Longrightarrow> coalesced (xs @ place e n @ ys)"
  by (auto simp: coalesced_append coalesced_Cons place_def)

lemma free_place:
  assumes "coalesced (xs @ (n, False) # ys)"
  shows "free_block xs (fst (hd (place e n))) (tl (place e n) @ ys) = xs @ (n, False) # ys"
  using assms
  by (auto simp: place_def coalesced_append coalesced_Cons free_block_def merge_left_def merge_right_def)

subsection \<open>The allocated blocks\<close>

text \<open>Pointer (start of the payload) and size of every allocated block.\<close>

fun used :: "int \<Rightarrow> blk list \<Rightarrow> (int \<times> int) set" where
  "used h [] = {}"
| "used h ((n, a) # bs) = (if a then {(h + 4, n)} else {}) \<union> used (h + n) bs"

lemma used_append: "used h (xs @ ys) = used h xs \<union> used (h + total xs) ys"
  by (induction h xs rule: used.induct) (auto simp: algebra_simps)

lemma used_decomp:
  "(p, n) \<in> used h bs \<longleftrightarrow> (\<exists>xs ys. bs = xs @ (n, True) # ys \<and> p = h + total xs + 4)"
proof (induction bs arbitrary: h)
  case (Cons b bs)
  obtain k a where b: "b = (k, a)" by (cases b)
  have "(\<exists>xs ys. b # bs = xs @ (n, True) # ys \<and> p = h + total xs + 4) \<longleftrightarrow>
      b = (n, True) \<and> p = h + 4 \<or> (\<exists>xs ys. bs = xs @ (n, True) # ys \<and> p = h + k + total xs + 4)"
    (is "?l \<longleftrightarrow> ?r")
  proof
    assume ?l
    then obtain xs ys where "b # bs = xs @ (n, True) # ys" "p = h + total xs + 4" by blast
    then show ?r using b by (cases xs) (auto simp: algebra_simps)
  next
    assume ?r
    then show ?l
    proof (elim disjE exE conjE)
      fix xs ys assume "bs = xs @ (n, True) # ys" "p = h + k + total xs + 4"
      then show ?l using b by (intro exI [of _ "(k, a) # xs"] exI [of _ ys]) simp
    qed (use b in \<open>auto intro: exI [of _ "[]"]\<close>)
  qed
  then show ?case using Cons.IH b by auto
qed simp

lemma used_bounds:
  "wf_blocks bs \<Longrightarrow> (p, n) \<in> used h bs \<Longrightarrow> h + 4 \<le> p \<and> p + n - 4 \<le> h + total bs \<and> 12 \<le> n"
  using total_nonneg by (fastforce simp: used_decomp)

lemma used_disjoint:
  "wf_blocks bs \<Longrightarrow> (p, n) \<in> used h bs \<Longrightarrow> (q, k) \<in> used h bs \<Longrightarrow>
     (p, n) = (q, k) \<or> p + n \<le> q \<or> q + k \<le> p"
proof (induction h bs rule: used.induct)
  case (2 h j a bs)
  then show ?case
    using used_bounds [of bs p n "h + j"] used_bounds [of bs q k "h + j"] by (auto split: if_splits)
qed simp

lemma used_payload: "(p, n) \<in> used h bs \<Longrightarrow> {p..<p + n - 8} \<subseteq> payload h bs"
  by (induction h bs rule: used.induct) (fastforce split: if_splits)+

lemma used_dvd: "wf_blocks bs \<Longrightarrow> 4 dvd h \<Longrightarrow> (p, n) \<in> used h bs \<Longrightarrow> 4 dvd p"
  by (auto simp: used_decomp total_dvd)

lemma used_place:
  "used h (xs @ place e n @ ys) =
     insert (h + total xs + 4, if n - e > 8 then e else n) (used h (xs @ (n, False) # ys))"
  by (auto simp: used_append place_def algebra_simps)

lemma used_free_block:
  "used h (free_block xs n ys) = used h xs \<union> used (h + total xs + n) ys"
  by (rule free_block_cases [of xs ys n]) (auto simp: used_append algebra_simps)

lemma used_free_block_diff:
  assumes "wf_blocks (xs @ (n, True) # ys)"
  shows "used h (free_block xs n ys) = used h (xs @ (n, True) # ys) - {(h + total xs + 4, n)}"
  using assms used_bounds [of xs "h + total xs + 4" n h]
    used_bounds [of ys "h + total xs + 4" n "h + total xs + n"]
  by (auto simp: used_free_block used_append)

text \<open>A coalesced region in which nothing is allocated is one block.\<close>

lemma coalesced_unused:
  assumes "coalesced bs" "used h bs = {}" "bs \<noteq> []"
  shows "bs = [(total bs, False)]"
proof -
  obtain n a bs' where bs: "bs = (n, a) # bs'" using assms(3) by (cases bs) auto
  moreover have "bs' = []"
  proof (cases bs')
    case (Cons b cs)
    then show ?thesis using assms(1,2) bs by (cases b) (auto split: if_splits)
  qed
  ultimately show ?thesis using assms(2) by (auto split: if_splits)
qed

end
