(* ===== verification/Boundary_Tags.thy ===== *)
theory Boundary_Tags
  imports Block_List
begin

section \<open>Boundary tags in memory\<close>

text \<open>
  How a list of blocks lies in memory: each block starts with a header word and ends with
  a footer word, both holding the encoded size and flag.  The encoding differs between the
  two allocators (\<open>size | flag\<close> in VSmymalloc, \<open>size << 1 | flag\<close> in Assignment2), so it
  is a parameter.  The locale \<open>tag_codec\<close> states what the tag accessors of an allocator
  promise; \<open>boundary_tags\<close> adds the navigation, coalescing and search operations, as
  the equations both sources satisfy, and proves once that they implement the operations on
  block lists.
\<close>

fun blocks_at :: "(int \<Rightarrow> bool \<Rightarrow> int) \<Rightarrow> mem \<Rightarrow> int \<Rightarrow> blk list \<Rightarrow> bool" where
  "blocks_at enc m h [] = True"
| "blocks_at enc m h ((n, a) # bs) =
     (load32 m h = Some (enc n a) \<and> load32 m (h + n - 4) = Some (enc n a) \<and>
      blocks_at enc m (h + n) bs)"

text \<open>A region from the first header at \<open>lo\<close> to the epilogue word at \<open>hi\<close>; the word
  below \<open>lo\<close> has size 0 too (the prologue, or the epilogue of the region before), unless the
  region is at the very start of the memory, where there is no such word.\<close>

definition heap_ok :: "(int \<Rightarrow> bool \<Rightarrow> int) \<Rightarrow> mem \<Rightarrow> int \<Rightarrow> int \<Rightarrow> blk list \<Rightarrow> bool" where
  "heap_ok enc m lo hi bs \<longleftrightarrow>
     blocks_at enc m lo bs \<and> wf_blocks bs \<and> lo + total bs = hi \<and> 0 \<le> lo \<and>
     total bs \<le> 268435456 \<and>
     (0 < lo \<longrightarrow> load32 m (lo - 4) = Some (enc 0 True)) \<and> load32 m hi = Some (enc 0 True)"

subsection \<open>Layout lemmas\<close>

lemma blocks_at_append:
  "blocks_at enc m h (xs @ ys) \<longleftrightarrow> blocks_at enc m h xs \<and> blocks_at enc m (h + total xs) ys"
  by (induction enc m h xs rule: blocks_at.induct) (auto simp: algebra_simps)

text \<open>Only the bytes of the region matter.\<close>

lemma blocks_at_cong:
  assumes "wf_blocks bs" "msize m' = msize m"
    and "\<And>x. h \<le> x \<Longrightarrow> x + 4 \<le> h + total bs \<Longrightarrow> ld32 m' x = ld32 m x"
  shows "blocks_at enc m' h bs = blocks_at enc m h bs"
  using assms
proof (induction enc m h bs rule: blocks_at.induct)
  case (2 enc m h n a bs)
  have "0 \<le> total bs" using 2 by (simp add: total_nonneg)
  moreover have "load32 m' x = load32 m x" if "h \<le> x" "x + 4 \<le> h + n + total bs" for x
    using that 2 by (simp add: load32_def in_mem_def)
  ultimately have "load32 m' h = load32 m h" "load32 m' (h + n - 4) = load32 m (h + n - 4)"
    using "2.prems" by simp_all
  moreover have "blocks_at enc m' (h + n) bs = blocks_at enc m (h + n) bs"
    using 2 by (intro "2.IH") simp_all
  ultimately show ?case by simp
qed simp

lemma blocks_at_st32 [memory]:
  assumes "wf_blocks bs" "a + 4 \<le> h \<or> h + total bs \<le> a"
  shows "blocks_at enc (st32 m a v) h bs = blocks_at enc m h bs"
  using assms by (intro blocks_at_cong) (auto intro: ld32_st32_other)

text \<open>Writes inside the payload of allocated blocks do not disturb the tags.\<close>

definition writes_only :: "int set \<Rightarrow> mem \<Rightarrow> mem \<Rightarrow> bool" where
  "writes_only A m m' \<longleftrightarrow> msize m' = msize m \<and> (\<forall>x. x \<notin> A \<longrightarrow> mbytes m' x = mbytes m x)"

lemma writes_only_ld32:
  "writes_only A m m' \<Longrightarrow> {a..<a + 4} \<inter> A = {} \<Longrightarrow> ld32 m' a = ld32 m a"
proof -
  assume w: "writes_only A m m'" and "{a..<a + 4} \<inter> A = {}"
  then have "x \<notin> A" if "a \<le> x" "x < a + 4" for x using that by (auto simp: disjoint_iff)
  then have "a \<notin> A" "a + 1 \<notin> A" "a + 2 \<notin> A" "a + 3 \<notin> A" by simp_all
  with w show ?thesis by (simp add: writes_only_def ld32_def)
qed

lemma writes_only_load32:
  "writes_only A m m' \<Longrightarrow> {a..<a + 4} \<inter> A = {} \<Longrightarrow> load32 m' a = load32 m a"
  by (simp add: load32_def writes_only_ld32 in_mem_def) (simp add: writes_only_def)

definition keeps :: "int set \<Rightarrow> mem \<Rightarrow> mem \<Rightarrow> bool" where
  "keeps P m m' \<longleftrightarrow> msize m' = msize m \<and> (\<forall>x \<in> P. mbytes m' x = mbytes m x)"

lemma keeps_refl [simp]: "keeps P m m"
  by (simp add: keeps_def)

lemma keeps_st32:
  "keeps P m m1 \<Longrightarrow> (\<And>x. x \<in> P \<Longrightarrow> x < l \<or> u \<le> x) \<Longrightarrow> l \<le> a \<Longrightarrow> a + 4 \<le> u \<Longrightarrow>
     keeps P m (st32 m1 a v)"
  by (force simp: keeps_def memory)

lemma keeps_trans: "keeps P m m1 \<Longrightarrow> keeps P m1 m2 \<Longrightarrow> keeps P m m2"
  by (simp add: keeps_def)

lemma keeps_mono: "keeps P m m' \<Longrightarrow> Q \<subseteq> P \<Longrightarrow> keeps Q m m'"
  by (auto simp: keeps_def)

lemma blocks_at_payload_write:
  assumes "writes_only (payload h bs) m m'" "wf_blocks bs"
  shows "blocks_at enc m' h bs = blocks_at enc m h bs"
proof -
  have "blocks_at enc m' h bs = blocks_at enc m h bs"
    if "writes_only A m m'" "A \<inter> {h..<h + total bs} \<subseteq> payload h bs" "wf_blocks bs" for A
    using that
  proof (induction enc m h bs rule: blocks_at.induct)
    case (2 enc m h n a bs)
    have nn: "0 \<le> total bs" using 2 by (simp add: total_nonneg)
    have out: "x \<notin> payload (h + n) bs" if "x < h + n" for x
      using payload_bounds [of bs x "h + n"] "2.prems" that by auto
    have "{h..<h + 4} \<inter> A = {}" "{h + n - 4..<h + n - 4 + 4} \<inter> A = {}"
      using "2.prems" nn out by (fastforce split: if_splits)+
    then have "load32 m' h = load32 m h" "load32 m' (h + n - 4) = load32 m (h + n - 4)"
      using "2.prems"(1) by (simp_all add: writes_only_load32)
    moreover have "A \<inter> {h + n..<h + n + total bs} \<subseteq> payload (h + n) bs"
      using "2.prems"(2,3) by (fastforce split: if_splits)
    ultimately show ?case using 2 by simp
  qed simp
  then show ?thesis using assms by blast
qed

lemma heap_ok_payload_write:
  assumes "heap_ok enc m lo hi bs" "writes_only (payload lo bs) m m'"
  shows "heap_ok enc m' lo hi bs"
proof -
  have wf: "wf_blocks bs" and hi: "hi = lo + total bs" using assms by (auto simp: heap_ok_def)
  have out: "x \<notin> payload lo bs" if "x < lo + 4 \<or> lo + total bs - 4 \<le> x" for x
    using payload_bounds [OF wf, of x lo] that by auto
  then have "load32 m' (lo - 4) = load32 m (lo - 4)" "load32 m' hi = load32 m hi"
    using assms(2) hi by (auto intro!: writes_only_load32)
  then show ?thesis
    using assms by (auto simp: heap_ok_def blocks_at_payload_write)
qed

subsection \<open>Rewriting regions\<close>

text \<open>Splitting or marking a free block, and the four ways of merging a freed block, as
  sequences of word writes; the tags go through any encoding that fits in an \<open>int\<close>.\<close>

definition fits :: "(int \<Rightarrow> bool \<Rightarrow> int) \<Rightarrow> bool" where
  "fits enc \<longleftrightarrow> (\<forall>n a. tag_size n \<longrightarrow> s32 (enc n a) = enc n a)"

lemma fitsD: "fits enc \<Longrightarrow> tag_size n \<Longrightarrow> s32 (enc n a) = enc n a"
  by (simp add: fits_def)

lemma load32_st32_same [memory]: "in_mem m a 4 \<Longrightarrow> load32 (st32 m a v) a = Some (s32 v)"
  by (simp add: load32_def)

lemma load32_st32_other [memory]:
  "b + 4 \<le> a \<or> a + 4 \<le> b \<Longrightarrow> load32 (st32 m a v) b = load32 m b"
  by (simp add: load32_def ld32_st32_other)

lemma blocks_at_in_mem:
  "blocks_at enc m h bs \<Longrightarrow> wf_blocks bs \<Longrightarrow> bs \<noteq> [] \<Longrightarrow> 0 \<le> h \<and> h + total bs \<le> msize m"
proof (induction enc m h bs rule: blocks_at.induct)
  case (2 enc m h n a bs)
  then show ?case by (cases "bs = []") (auto simp: load32_Some_iff in_mem_def)
qed simp

lemma heap_ok_in_mem: "heap_ok enc m lo hi bs \<Longrightarrow> 0 \<le> lo \<and> hi + 4 \<le> msize m"
  by (auto simp: heap_ok_def load32_Some_iff in_mem_def)

lemma heap_ok_sizes:
  "heap_ok enc m lo hi (xs @ (n, a) # ys) \<Longrightarrow>
     tag_size n \<and> 12 \<le> n \<and> 0 \<le> total xs \<and> 0 \<le> total ys \<and> 4 dvd total xs \<and>
     wf_blocks xs \<and> wf_blocks ys \<and> total xs + n + total ys \<le> 268435456 \<and>
     lo + total xs + n + total ys = hi"
  using total_nonneg [of xs] total_nonneg [of ys] total_dvd [of xs]
  by (auto simp: heap_ok_def tag_size_def)

lemma set_tags:
  \<comment> \<open>writing both tags of a block\<close>
  assumes ok: "heap_ok enc m lo hi (xs @ (n, a) # ys)" and "fits enc"
    and h: "h = lo + total xs"
  shows "heap_ok enc (st32 (st32 m h (enc n b)) (h + n - 4) (enc n b)) lo hi (xs @ (n, b) # ys)"
proof -
  note sz = heap_ok_sizes [OF ok]
  have im: "0 \<le> lo" "hi + 4 \<le> msize m" using heap_ok_in_mem [OF ok] by auto
  have "in_mem m h 4" "in_mem m (h + n - 4) 4" using sz im h by (auto simp: in_mem_def)
  then show ?thesis
    using ok sz assms(2) h
    by (auto simp: heap_ok_def blocks_at_append memory fitsD)
qed

lemma split_tags:
  assumes ok: "heap_ok enc m lo hi (xs @ (n, a) # ys)" and fit: "fits enc"
    and h: "h = lo + total xs" and e: "12 \<le> e" "4 dvd e" "12 \<le> n - e"
  shows "heap_ok enc
     (st32 (st32 (st32 (st32 m (h + n - 4) (enc (n - e) False)) h (enc e True))
       (h + e - 4) (enc e True)) (h + e) (enc (n - e) False))
     lo hi (xs @ (e, True) # (n - e, False) # ys)"
proof -
  note sz = heap_ok_sizes [OF ok]
  have im: "0 \<le> lo" "hi + 4 \<le> msize m" using heap_ok_in_mem [OF ok] by auto
  have im': "in_mem m h 4" "in_mem m (h + n - 4) 4" "in_mem m (h + e - 4) 4" "in_mem m (h + e) 4"
    using sz im h e by (auto simp: in_mem_def)
  have ts: "tag_size e" "tag_size (n - e)" using sz e by (auto simp: tag_size_def)
  have d: "4 dvd n - e" using sz e by (auto simp: tag_size_def)
  have m: "blocks_at enc m lo xs" "blocks_at enc m (h + n) ys"
    "0 < lo \<longrightarrow> load32 m (lo - 4) = Some (enc 0 True)" "load32 m hi = Some (enc 0 True)"
    using ok h by (auto simp: heap_ok_def blocks_at_append algebra_simps)
  show ?thesis
    using sz e d im im' m ts fit h
    by (simp add: heap_ok_def blocks_at_append memory fitsD add.assoc)
qed

lemma merge_left_tags:
  assumes ok: "heap_ok enc m lo hi (xs @ (k, a) # (n, b) # ys)" and fit: "fits enc"
    and h: "h = lo + total xs"
  shows "heap_ok enc
     (st32 (st32 (st32 (st32 m (h + k - 4) (enc 0 False)) h (enc (k + n) False))
       (h + k + n - 4) (enc (k + n) False)) (h + k) (enc 0 False))
     lo hi (xs @ (k + n, False) # ys)"
proof -
  note sz = heap_ok_sizes [OF ok]
  have n: "12 \<le> n" "4 dvd n" "wf_blocks ys" "0 \<le> total ys" using sz total_nonneg [of ys] by auto
  have im: "0 \<le> lo" "hi + 4 \<le> msize m" using heap_ok_in_mem [OF ok] by auto
  have im': "in_mem m h 4" "in_mem m (h + k + n - 4) 4"
    using sz im h n by (auto simp: in_mem_def)
  have ts: "tag_size (k + n)" using sz n by (auto simp: tag_size_def)
  have m: "blocks_at enc m lo xs" "blocks_at enc m (h + k + n) ys"
    "0 < lo \<longrightarrow> load32 m (lo - 4) = Some (enc 0 True)" "load32 m hi = Some (enc 0 True)"
    using ok h by (auto simp: heap_ok_def blocks_at_append algebra_simps)
  have d: "4 dvd k + n" using sz n by (auto simp: tag_size_def)
  show ?thesis
    using sz n d im im' m ts fit h
    by (simp add: heap_ok_def blocks_at_append memory fitsD add.assoc)
qed

lemma merge_right_tags:
  assumes ok: "heap_ok enc m lo hi (xs @ (n, a) # (j, b) # ys)" and fit: "fits enc"
    and h: "h = lo + total xs"
  shows "heap_ok enc
     (st32 (st32 (st32 (st32 m (h + n - 4) (enc 0 False)) h (enc (n + j) False))
       (h + n + j - 4) (enc (n + j) False)) (h + n) (enc 0 False))
     lo hi (xs @ (n + j, False) # ys)"
  using merge_left_tags [OF ok fit h] by simp

lemma merge_both_tags:
  assumes ok: "heap_ok enc m lo hi (xs @ (k, a) # (n, b) # (j, c) # ys)" and fit: "fits enc"
    and h: "h = lo + total xs"
  shows "heap_ok enc
     (st32 (st32 (st32 (st32 (st32 (st32 m (h + k - 4) (enc 0 False)) h (enc (k + n + j) False))
       (h + k + n - 4) (enc 0 False)) (h + k) (enc 0 False))
       (h + k + n + j - 4) (enc (k + n + j) False)) (h + k + n) (enc 0 False))
     lo hi (xs @ (k + n + j, False) # ys)"
proof -
  note sz = heap_ok_sizes [OF ok]
  have n: "12 \<le> n" "4 dvd n" "12 \<le> j" "4 dvd j" "wf_blocks ys" "0 \<le> total ys"
    using sz total_nonneg [of ys] by auto
  have im: "0 \<le> lo" "hi + 4 \<le> msize m" using heap_ok_in_mem [OF ok] by auto
  have im': "in_mem m h 4" "in_mem m (h + k + n + j - 4) 4"
    using sz im h n by (auto simp: in_mem_def)
  have ts: "tag_size (k + n + j)" using sz n by (auto simp: tag_size_def)
  have m: "blocks_at enc m lo xs" "blocks_at enc m (h + k + n + j) ys"
    "0 < lo \<longrightarrow> load32 m (lo - 4) = Some (enc 0 True)" "load32 m hi = Some (enc 0 True)"
    using ok h by (auto simp: heap_ok_def blocks_at_append algebra_simps)
  have d: "4 dvd k + n + j" using sz n by (auto simp: tag_size_def)
  show ?thesis
    using sz n d im im' m ts fit h
    by (simp add: heap_ok_def blocks_at_append memory fitsD add.assoc)
qed

text \<open>A region stands in every memory that contains it with the words before and behind it.\<close>

lemma load32_window:
  assumes "load32 m x = Some w" "x + 4 \<le> msize m'" "\<And>y. x \<le> y \<Longrightarrow> y < x + 4 \<Longrightarrow> mbytes m' y = mbytes m y"
  shows "load32 m' x = Some w"
  using assms(1,2) assms(3) [of x] assms(3) [of "x + 1"] assms(3) [of "x + 2"] assms(3) [of "x + 3"]
  by (auto simp: load32_Some_iff in_mem_def ld32_def)

lemma blocks_at_window:
  assumes "blocks_at enc m h bs" "wf_blocks bs" "h + total bs \<le> msize m'"
    "\<And>y. h \<le> y \<Longrightarrow> y < h + total bs \<Longrightarrow> mbytes m' y = mbytes m y"
  shows "blocks_at enc m' h bs"
  using assms
proof (induction enc m h bs rule: blocks_at.induct)
  case (2 enc m h n a bs)
  have nn: "0 \<le> total bs" "12 \<le> n" using "2.prems" total_nonneg [of bs] by auto
  have "load32 m' h = Some (enc n a)" "load32 m' (h + n - 4) = Some (enc n a)"
    using "2.prems" nn by (auto intro: load32_window [of m])
  moreover have "blocks_at enc m' (h + n) bs"
    using "2.prems" nn by (intro "2.IH") (auto simp: algebra_simps)
  ultimately show ?case by simp
qed simp

lemma heap_ok_window:
  assumes ok: "heap_ok enc m lo hi bs" and "hi + 4 \<le> msize m'"
    and eq: "\<And>y. lo - 4 \<le> y \<Longrightarrow> y < hi + 4 \<Longrightarrow> mbytes m' y = mbytes m y"
  shows "heap_ok enc m' lo hi bs"
proof -
  have h: "blocks_at enc m lo bs" "wf_blocks bs" "lo + total bs = hi" using ok by (simp_all add: heap_ok_def)
  have "0 \<le> total bs" using h(2) by (rule total_nonneg)
  then have "blocks_at enc m' lo bs" "0 < lo \<longrightarrow> load32 m' (lo - 4) = Some (enc 0 True)" "load32 m' hi = Some (enc 0 True)"
    using ok assms(2) eq h by (auto simp: heap_ok_def intro!: blocks_at_window [OF h(1,2)] load32_window [of m])
  then show ?thesis using ok by (simp add: heap_ok_def)
qed

subsection \<open>Interfaces\<close>

text \<open>What the accessors of a tag word promise.\<close>

locale tag_codec =
  fixes enc :: "int \<Rightarrow> bool \<Rightarrow> int"
    and getSize :: "mem \<Rightarrow> int \<Rightarrow> int option"
    and getAllocation :: "mem \<Rightarrow> int \<Rightarrow> int option"
    and footSize :: "mem \<Rightarrow> int \<Rightarrow> int option"
    and setValue :: "mem \<Rightarrow> int \<Rightarrow> int \<Rightarrow> int \<Rightarrow> mem option"
  assumes fits: "fits enc"
    and getSize_tag: "tag_size n \<Longrightarrow> load32 m (p - 4) = Some (enc n a) \<Longrightarrow> getSize m p = Some n"
    and getAllocation_tag:
      "tag_size n \<Longrightarrow> load32 m (p - 4) = Some (enc n a) \<Longrightarrow> getAllocation m p = Some (of_bool a)"
    and footSize_tag: "tag_size n \<Longrightarrow> load32 m q = Some (enc n a) \<Longrightarrow> footSize m q = Some n"
    and setValue_tag:
      "tag_size n \<Longrightarrow> in_mem m q 4 \<Longrightarrow> setValue m q n (of_bool a) = Some (st32 m q (enc n a))"
begin

lemmas setValue_free = setValue_tag [where a = False, simplified]
lemmas setValue_used = setValue_tag [where a = True, simplified]

lemma tag_size_0 [simp]: "tag_size 0"
  by (simp add: tag_size_def)

text \<open>Reading the block at a position of a well-formed region, and the word after the last.\<close>

lemma block_tags:
  assumes ok: "heap_ok enc m lo hi (xs @ (n, a) # ys)" and p: "p = lo + total xs + 4"
  shows "getSize m p = Some n" "getAllocation m p = Some (of_bool a)"
    "footSize m (p + n - 8) = Some n"
proof -
  have "load32 m (p - 4) = Some (enc n a)" "load32 m (p + n - 8) = Some (enc n a)" "tag_size n"
    using ok p heap_ok_sizes [OF ok] by (auto simp: heap_ok_def blocks_at_append algebra_simps)
  then show "getSize m p = Some n" "getAllocation m p = Some (of_bool a)"
    "footSize m (p + n - 8) = Some n"
    by (blast intro: getSize_tag getAllocation_tag footSize_tag)+
qed

lemma end_tags:
  assumes ok: "heap_ok enc m lo hi bs"
  shows "getSize m (hi + 4) = Some 0" "getAllocation m (hi + 4) = Some 1" "0 < lo \<Longrightarrow> footSize m (lo - 4) = Some 0"
proof -
  have "load32 m (hi + 4 - 4) = Some (enc 0 True)" "0 < lo \<Longrightarrow> load32 m (lo - 4) = Some (enc 0 True)"
    using ok by (auto simp: heap_ok_def)
  then show "getSize m (hi + 4) = Some 0" "getAllocation m (hi + 4) = Some 1" "0 < lo \<Longrightarrow> footSize m (lo - 4) = Some 0"
    using getSize_tag [of 0 m "hi + 4" True] getAllocation_tag [of 0 m "hi + 4" True]
      footSize_tag [of 0 m "lo - 4" True] by auto
qed

end

text \<open>
  The operations both allocators build on the tags.  Their equations are those of the two
  sources, with the header of \<open>p\<close> at \<open>p - 4\<close>; a pointer that may be NULL is an option,
  and binding it is dereferencing it.
\<close>

locale boundary_tags = tag_codec +
  fixes getFooter :: "mem \<Rightarrow> int \<Rightarrow> int option"
    and getPrevious getNext :: "mem \<Rightarrow> int \<Rightarrow> int option option"
    and coalesce :: "mem \<Rightarrow> int \<Rightarrow> mem option"
    and search :: "mem \<Rightarrow> int \<Rightarrow> int \<Rightarrow> int \<Rightarrow> int \<Rightarrow> int option option"
  assumes getFooter_eq: "getFooter m p = do { s \<leftarrow> getSize m p; Some (p + s - 8) }"
    and getPrevious_eq: "getPrevious m p =
      do { s \<leftarrow> footSize m (p - 8); Some (if s = 0 then None else Some (p - s)) }"
    and getNext_eq: "getNext m p =
      do { s \<leftarrow> getSize m p; s' \<leftarrow> getSize m (p + s); a \<leftarrow> getAllocation m (p + s);
           Some (if s' = 0 \<and> a = 1 then None else Some (p + s)) }"
    and coalesce_eq: "coalesce m p =
      do {
        previous \<leftarrow> getPrevious m p;
        next \<leftarrow> getNext m p;
        size \<leftarrow> getSize m p;
        allocPrevious \<leftarrow> (case previous of Some q \<Rightarrow> getAllocation m q | None \<Rightarrow> Some 1);
        allocNext \<leftarrow> (case next of Some q \<Rightarrow> getAllocation m q | None \<Rightarrow> Some 1);
        if allocPrevious = 1 \<and> allocNext = 1 then Some m
        else if allocPrevious = 0 \<and> allocNext = 1 then do {
          q \<leftarrow> previous; s \<leftarrow> getSize m q;
          f \<leftarrow> getFooter m q; m \<leftarrow> setValue m f 0 0;
          m \<leftarrow> setValue m (q - 4) (size + s) 0;
          f \<leftarrow> getFooter m p; m \<leftarrow> setValue m f (size + s) 0;
          setValue m (p - 4) 0 0 }
        else if allocPrevious = 1 \<and> allocNext = 0 then do {
          r \<leftarrow> next; s \<leftarrow> getSize m r;
          f \<leftarrow> getFooter m p; m \<leftarrow> setValue m f 0 0;
          m \<leftarrow> setValue m (p - 4) (size + s) 0;
          f \<leftarrow> getFooter m r; m \<leftarrow> setValue m f (size + s) 0;
          setValue m (r - 4) 0 0 }
        else if allocPrevious = 0 \<and> allocNext = 0 then do {
          q \<leftarrow> previous; r \<leftarrow> next; s \<leftarrow> getSize m q; s' \<leftarrow> getSize m r;
          f \<leftarrow> getFooter m q; m \<leftarrow> setValue m f 0 0;
          m \<leftarrow> setValue m (q - 4) (size + s + s') 0;
          f \<leftarrow> getFooter m p; m \<leftarrow> setValue m f 0 0;
          m \<leftarrow> setValue m (p - 4) 0 0;
          f \<leftarrow> getFooter m r; m \<leftarrow> setValue m f (size + s + s') 0;
          setValue m (r - 4) 0 0 }
        else Some m }"
    and search_eq: "search m e p s a =
      (if s \<noteq> 0 then
         if a \<noteq> 1 \<and> s \<ge> e then Some (Some p)
         else do { s' \<leftarrow> getSize m (p + s); a' \<leftarrow> getAllocation m (p + s);
                   search m e (p + s) s' a' }
       else Some None)"
begin

lemma getFooter_block:
  assumes "heap_ok enc m lo hi (xs @ (n, a) # ys)" "p = lo + total xs + 4"
  shows "getFooter m p = Some (p + n - 8)"
  using block_tags [OF assms] by (simp add: getFooter_eq)

lemma getPrevious_block:
  assumes ok: "heap_ok enc m lo hi (xs @ ys)" and p: "p = lo + total xs + 4" and pro: "xs \<noteq> [] \<or> 0 < lo"
  shows "getPrevious m p = Some (if xs = [] then None else Some (p - fst (last xs)))"
proof (cases xs rule: rev_cases)
  case Nil
  then show ?thesis using end_tags [OF ok] p pro by (simp add: getPrevious_eq)
next
  case (snoc zs b)
  obtain k c where b: "b = (k, c)" by (cases b)
  have ok': "heap_ok enc m lo hi (zs @ (k, c) # ys)" using ok snoc b by simp
  then have "footSize m (p - 8) = Some k"
    using block_tags(3) [OF ok' refl] p snoc b by (simp add: algebra_simps)
  then show ?thesis
    using heap_ok_sizes [OF ok'] snoc b by (simp add: getPrevious_eq)
qed

lemma next_tags:
  assumes ok: "heap_ok enc m lo hi (xs @ ys)" and p: "p = lo + total xs + 4"
  shows "getSize m p = Some (if ys = [] then 0 else fst (hd ys))"
    "getAllocation m p = Some (if ys = [] then 1 else of_bool (snd (hd ys)))"
proof -
  have "lo + total xs = hi" if "ys = []" using ok that by (simp add: heap_ok_def)
  then show "getSize m p = Some (if ys = [] then 0 else fst (hd ys))"
    "getAllocation m p = Some (if ys = [] then 1 else of_bool (snd (hd ys)))"
    using end_tags [OF ok] block_tags [of m lo hi xs _ _ _ p] ok p
    by (cases ys; force)+
qed

lemma getNext_block:
  assumes ok: "heap_ok enc m lo hi (xs @ (n, a) # ys)" and p: "p = lo + total xs + 4"
  shows "getNext m p = Some (if ys = [] then None else Some (p + n))"
proof -
  have ok': "heap_ok enc m lo hi ((xs @ [(n, a)]) @ ys)" using ok by simp
  have "ys \<noteq> [] \<Longrightarrow> fst (hd ys) \<noteq> 0"
    using heap_ok_sizes [OF ok] by (cases ys) auto
  then show ?thesis
    using block_tags [OF ok p] next_tags [OF ok', of "p + n"] p by (simp add: getNext_eq)
qed

lemma search_first_fit:
  assumes "heap_ok enc m lo hi (zs @ bs)" "p = lo + total zs + 4"
  shows "search m e p (if bs = [] then 0 else fst (hd bs)) (if bs = [] then 1 else of_bool (snd (hd bs)))
     = Some (map_option (\<lambda>(xs, n, ys). p + total xs) (first_fit e bs))"
  using assms
proof (induction bs arbitrary: zs p)
  case Nil
  show ?case by (subst search_eq) simp
next
  case (Cons b bs)
  obtain n a where b: "b = (n, a)" by (cases b)
  have ok': "heap_ok enc m lo hi ((zs @ [(n, a)]) @ bs)" using Cons.prems b by simp
  note IH = Cons.IH [OF ok', of "p + n"]
  have "p + n = lo + total (zs @ [(n, a)]) + 4" using Cons.prems(2) by simp
  note nt = next_tags [OF ok' this]
  have n: "n \<noteq> 0" using heap_ok_sizes [of enc m lo hi zs n a bs] Cons.prems b by auto
  show ?case
  proof (cases "\<not> a \<and> e \<le> n")
    case True
    then show ?thesis using n b by (simp add: search_eq [of m e p n])
  next
    case False
    then have "search m e p n (of_bool a) = search m e (p + n)
        (if bs = [] then 0 else fst (hd bs)) (if bs = [] then 1 else of_bool (snd (hd bs)))"
      using n nt by (subst search_eq) auto
    then show ?thesis
      using IH Cons.prems(2) b False
      by (auto simp: option.map_comp comp_def case_prod_unfold algebra_simps)
  qed
qed

lemma getFooter_tag:
  "tag_size n \<Longrightarrow> load32 m (p - 4) = Some (enc n a) \<Longrightarrow> getFooter m p = Some (p + n - 8)"
  by (simp add: getFooter_eq getSize_tag)

text \<open>The flags of the neighbours as the code reads them; a missing neighbour counts as
  allocated.\<close>

lemma neighbour_flags:
  assumes ok: "heap_ok enc m lo hi (xs @ (n, a) # ys)" and p: "p = lo + total xs + 4"
  shows "(case if xs = [] then None else Some (p - fst (last xs)) of
        Some q \<Rightarrow> getAllocation m q | None \<Rightarrow> Some 1)
      = Some (of_bool (xs = [] \<or> snd (last xs)))"
    and "(case if ys = [] then None else Some (p + n) of Some q \<Rightarrow> getAllocation m q | None \<Rightarrow> Some 1)
      = Some (of_bool (ys = [] \<or> snd (hd ys)))"
proof -
  show "(case if xs = [] then None else Some (p - fst (last xs)) of
        Some q \<Rightarrow> getAllocation m q | None \<Rightarrow> Some 1)
      = Some (of_bool (xs = [] \<or> snd (last xs)))"
  proof (cases xs rule: rev_cases)
    case (snoc zs b)
    then show ?thesis
      using block_tags(2) [of m lo hi zs "fst b" "snd b" "(n, a) # ys"] ok p
      by (cases b) (auto simp: algebra_simps)
  qed simp
  have ok': "heap_ok enc m lo hi ((xs @ [(n, a)]) @ ys)" using ok by simp
  show "(case if ys = [] then None else Some (p + n) of Some q \<Rightarrow> getAllocation m q | None \<Rightarrow> Some 1)
      = Some (of_bool (ys = [] \<or> snd (hd ys)))"
    using next_tags(2) [OF ok', of "p + n"] p by simp
qed

lemmas coalesce_reads = getNext_block block_tags(1) neighbour_flags

lemma coalesce_none:
  assumes "heap_ok enc m lo hi (xs @ (n, a) # ys)" "p = lo + total xs + 4"
    and "xs = [] \<or> snd (last xs)" "ys = [] \<or> snd (hd ys)" "xs \<noteq> [] \<or> 0 < lo"
  shows "coalesce m p = Some m"
  using assms(3,4) by (simp add: coalesce_eq getPrevious_block [OF assms(1,2,5)] coalesce_reads [OF assms(1,2)])

lemma coalesce_left:
  assumes ok: "heap_ok enc m lo hi ((xs @ [(k, False)]) @ (n, a) # ys)"
    and p: "p = lo + total (xs @ [(k, False)]) + 4" and ys: "ys = [] \<or> snd (hd ys)"
  shows "coalesce m p = Some
     (st32 (st32 (st32 (st32 m (p - 8) (enc 0 False)) (p - k - 4) (enc (k + n) False))
       (p + n - 8) (enc (k + n) False)) (p - 4) (enc 0 False))"
proof -
  have okk: "heap_ok enc m lo hi (xs @ (k, False) # (n, a) # ys)" using ok by simp
  note sz = heap_ok_sizes [OF okk] and szn = heap_ok_sizes [OF ok]
  have im: "0 \<le> lo" "hi + 4 \<le> msize m" using heap_ok_in_mem [OF ok] by auto
  have in': "in_mem m (p - 8) 4" "in_mem m (p - k - 4) 4" "in_mem m (p + n - 8) 4" "in_mem m (p - 4) 4"
    using sz szn im p by (auto simp: in_mem_def)
  have ts: "tag_size (n + k)" using sz szn by (auto simp: tag_size_def)
  have gs: "getSize m (p - k) = Some k" "getAllocation m (p - k) = Some 0" "getFooter m (p - k) = Some (p - 8)"
    using block_tags [OF okk, of "p - k"] getFooter_block [OF okk, of "p - k"] p by auto
  have ld: "load32 m (p - 4) = Some (enc n a)" using ok p by (auto simp: heap_ok_def blocks_at_append add.assoc)
  have "load32 (st32 (st32 m (p - 8) u) (p - k - 4) v) (p - 4) = Some (enc n a)" for u v
    using sz ld by (simp add: memory)
  then have "getFooter (st32 (st32 m (p - 8) u) (p - k - 4) v) p = Some (p + n - 8)" for u v
    using szn by (intro getFooter_tag) auto
  then show ?thesis
    using ys ts gs in'
    by (simp add: coalesce_eq getPrevious_block [OF ok p] coalesce_reads [OF ok p] setValue_free add.commute)
qed

lemma coalesce_right:
  assumes ok: "heap_ok enc m lo hi (xs @ (n, a) # (j, False) # ys)"
    and p: "p = lo + total xs + 4" and xs: "xs = [] \<or> snd (last xs)" and pro: "xs \<noteq> [] \<or> 0 < lo"
  shows "coalesce m p = Some
     (st32 (st32 (st32 (st32 m (p + n - 8) (enc 0 False)) (p - 4) (enc (n + j) False))
       (p + n + j - 8) (enc (n + j) False)) (p + n - 4) (enc 0 False))"
proof -
  have okj: "heap_ok enc m lo hi ((xs @ [(n, a)]) @ (j, False) # ys)" using ok by simp
  note sz = heap_ok_sizes [OF okj] and szn = heap_ok_sizes [OF ok]
  have im: "0 \<le> lo" "hi + 4 \<le> msize m" using heap_ok_in_mem [OF ok] by auto
  have in': "in_mem m (p + n - 8) 4" "in_mem m (p + n + j - 8) 4" "in_mem m (p - 4) 4" "in_mem m (p + n - 4) 4"
    using sz szn im p by (auto simp: in_mem_def)
  have ts: "tag_size (n + j)" using sz szn by (auto simp: tag_size_def)
  have gs: "getSize m (p + n) = Some j" "getAllocation m (p + n) = Some 0" "getFooter m p = Some (p + n - 8)"
    using block_tags [OF okj, of "p + n"] getFooter_block [OF ok p] p by auto
  have ld: "load32 m (p + n - 4) = Some (enc j False)"
    using okj p by (auto simp: heap_ok_def blocks_at_append algebra_simps)
  have "load32 (st32 (st32 m (p + n - 8) u) (p - 4) v) (p + n - 4) = Some (enc j False)" for u v
    using szn ld by (simp add: memory)
  then have "getFooter (st32 (st32 m (p + n - 8) u) (p - 4) v) (p + n) = Some (p + n + j - 8)" for u v
    using sz by (intro getFooter_tag) auto
  then show ?thesis
    using xs ts gs in'
    by (simp add: coalesce_eq getPrevious_block [OF ok p pro] coalesce_reads [OF ok p] setValue_free add.commute)
qed

lemma coalesce_both:
  assumes ok: "heap_ok enc m lo hi ((xs @ [(k, False)]) @ (n, a) # (j, False) # ys)"
    and p: "p = lo + total (xs @ [(k, False)]) + 4"
  shows "coalesce m p = Some
     (st32 (st32 (st32 (st32 (st32 (st32 m (p - 8) (enc 0 False)) (p - k - 4) (enc (k + n + j) False))
       (p + n - 8) (enc 0 False)) (p - 4) (enc 0 False))
       (p + n + j - 8) (enc (k + n + j) False)) (p + n - 4) (enc 0 False))"
proof -
  have okk: "heap_ok enc m lo hi (xs @ (k, False) # (n, a) # (j, False) # ys)"
    and okj: "heap_ok enc m lo hi ((xs @ [(k, False), (n, a)]) @ (j, False) # ys)" using ok by simp_all
  note sz = heap_ok_sizes [OF okk] and szn = heap_ok_sizes [OF ok] and szj = heap_ok_sizes [OF okj]
  have im: "0 \<le> lo" "hi + 4 \<le> msize m" using heap_ok_in_mem [OF ok] by auto
  have in': "in_mem m (p - 8) 4" "in_mem m (p - k - 4) 4" "in_mem m (p + n - 8) 4" "in_mem m (p - 4) 4"
    "in_mem m (p + n + j - 8) 4" "in_mem m (p + n - 4) 4"
    using sz szn szj im p by (auto simp: in_mem_def)
  have ts: "tag_size (n + k + j)" using sz szn szj by (auto simp: tag_size_def)
  have gs: "getSize m (p - k) = Some k" "getAllocation m (p - k) = Some 0" "getFooter m (p - k) = Some (p - 8)"
    using block_tags [OF okk, of "p - k"] getFooter_block [OF okk, of "p - k"] p by auto
  have gj: "getSize m (p + n) = Some j" "getAllocation m (p + n) = Some 0"
    using block_tags [OF okj, of "p + n"] p by auto
  have ld: "load32 m (p - 4) = Some (enc n a)" "load32 m (p + n - 4) = Some (enc j False)"
    using ok p by (auto simp: heap_ok_def blocks_at_append algebra_simps)
  have f1: "getFooter (st32 (st32 m (p - 8) u) (p - k - 4) v) p = Some (p + n - 8)" for u v
    using sz szn ld by (intro getFooter_tag) (auto simp: memory)
  have f2: "getFooter (st32 (st32 (st32 (st32 m (p - 8) u) (p - k - 4) v) (p + n - 8) w) (p - 4) x) (p + n)
      = Some (p + n + j - 8)" for u v w x
    using sz szn szj ld by (intro getFooter_tag) (auto simp: memory)
  show ?thesis
    using ts gs gj in' f1 f2
    by (simp add: coalesce_eq getPrevious_block [OF ok p] coalesce_reads [OF ok p] setValue_free add.commute add.left_commute)
qed

text \<open>Coalescing a freed block gives the merged block list and leaves every allocated
  payload byte as it was.\<close>

lemma coalesce_free_block:
  assumes ok: "heap_ok enc m lo hi (xs @ (n, False) # ys)" and p: "p = lo + total xs + 4" and pro: "xs \<noteq> [] \<or> 0 < lo"
  obtains m' where "coalesce m p = Some m'" "heap_ok enc m' lo hi (free_block xs n ys)"
    "keeps (payload lo xs \<union> payload (p + n - 4) ys \<union> - {lo..<hi}) m m'"
proof (rule free_block_cases [of xs ys n])
  assume c: "xs = [] \<or> snd (last xs)" "ys = [] \<or> snd (hd ys)" "free_block xs n ys = xs @ (n, False) # ys"
  show thesis using that [OF coalesce_none [OF ok p c(1,2) pro]] ok c(3) by simp
next
  fix zs k assume c: "xs = zs @ [(k, False)]" "ys = [] \<or> snd (hd ys)"
    "free_block xs n ys = zs @ (k + n, False) # ys"
  have ok': "heap_ok enc m lo hi (zs @ (k, False) # (n, False) # ys)" using ok c by simp
  have h: "p - k - 4 = lo + total zs" using p c by simp
  have out: "x < p - k - 4 \<or> p + n - 4 \<le> x" if "x \<in> payload lo xs \<union> payload (p + n - 4) ys \<union> - {lo..<hi}" for x
    using that heap_ok_sizes [OF ok'] heap_ok_sizes [OF ok] payload_bounds [of zs x lo] payload_bounds [of ys x "p + n - 4"] h c(1)
    by (auto simp: payload_append)
  show thesis
  proof (rule that [OF coalesce_left [OF ok [unfolded c(1)] p [unfolded c(1)] c(2)]], goal_cases)
    case 1
    show ?case using merge_left_tags [OF ok' fits h] c(3) by (simp add: algebra_simps)
  next
    case 2
    show ?case using heap_ok_sizes [OF ok'] by (intro keeps_st32 [OF _ out] keeps_refl) auto
  qed
next
  fix j zs assume c: "xs = [] \<or> snd (last xs)" "ys = (j, False) # zs"
    "free_block xs n ys = xs @ (n + j, False) # zs"
  note ok' = ok [unfolded c(2)]
  have h: "p - 4 = lo + total xs" using p by simp
  have out: "x < p - 4 \<or> p + n + j - 4 \<le> x" if "x \<in> payload lo xs \<union> payload (p + n - 4) ys \<union> - {lo..<hi}" for x
    using that total_nonneg [of zs] heap_ok_sizes [OF ok'] heap_ok_sizes [OF ok] payload_bounds [of xs x lo] payload_bounds [of zs x "p + n - 4 + j"] h c(2)
    by (auto simp: payload_append)
  show thesis
  proof (rule that [OF coalesce_right [OF ok' p c(1) pro]], goal_cases)
    case 1
    show ?case using merge_right_tags [OF ok' fits h] c(3) by (simp add: algebra_simps)
  next
    case 2
    show ?case using heap_ok_sizes [OF ok'] by (intro keeps_st32 [OF _ out] keeps_refl) auto
  qed
next
  fix zs k j ws assume c: "xs = zs @ [(k, False)]" "ys = (j, False) # ws"
    "free_block xs n ys = zs @ (k + n + j, False) # ws"
  have ok': "heap_ok enc m lo hi (zs @ (k, False) # (n, False) # (j, False) # ws)" using ok c by simp
  have h: "p - k - 4 = lo + total zs" using p c by simp
  have out: "x < p - k - 4 \<or> p + n + j - 4 \<le> x" if "x \<in> payload lo xs \<union> payload (p + n - 4) ys \<union> - {lo..<hi}" for x
    using that total_nonneg [of ws] heap_ok_sizes [OF ok'] heap_ok_sizes [OF ok] payload_bounds [of zs x lo] payload_bounds [of ws x "p + n - 4 + j"] h c(1,2)
    by (auto simp: payload_append)
  show thesis
  proof (rule that [OF coalesce_both [OF ok [unfolded c(1,2)] p [unfolded c(1)]]], goal_cases)
    case 1
    show ?case using merge_both_tags [OF ok' fits h] c(3) by (simp add: algebra_simps)
  next
    case 2
    show ?case using heap_ok_sizes [OF ok'] by (intro keeps_st32 [OF _ out] keeps_refl) auto
  qed
qed

text \<open>The bodies of \<open>free\<close> and of the two placements of \<open>malloc\<close>.\<close>

lemma set_tags_code:
  assumes ok: "heap_ok enc m lo hi (xs @ (n, a) # ys)" and p: "p = lo + total xs + 4"
  shows "do { m \<leftarrow> setValue m (p - 4) n (of_bool b); f \<leftarrow> getFooter m p; setValue m f n (of_bool b) }
      = Some (st32 (st32 m (p - 4) (enc n b)) (p + n - 8) (enc n b))"
    and "keeps (payload lo xs \<union> payload (p + n - 4) ys \<union> - {lo..<hi}) m
      (st32 (st32 m (p - 4) (enc n b)) (p + n - 8) (enc n b))"
proof -
  note sz = heap_ok_sizes [OF ok]
  have im: "0 \<le> lo" "hi + 4 \<le> msize m" using heap_ok_in_mem [OF ok] by auto
  have in': "in_mem m (p - 4) 4" "in_mem m (p + n - 8) 4" using sz im p by (auto simp: in_mem_def)
  then have "load32 (st32 m (p - 4) (enc n b)) (p - 4) = Some (enc n b)"
    using sz fits by (simp add: memory fitsD)
  then have "getFooter (st32 m (p - 4) (enc n b)) p = Some (p + n - 8)"
    using sz by (intro getFooter_tag) auto
  then show "do { m \<leftarrow> setValue m (p - 4) n (of_bool b); f \<leftarrow> getFooter m p; setValue m f n (of_bool b) }
      = Some (st32 (st32 m (p - 4) (enc n b)) (p + n - 8) (enc n b))"
    using in' sz by (simp add: setValue_tag)
  have out: "x < p - 4 \<or> p + n - 4 \<le> x" if "x \<in> payload lo xs \<union> payload (p + n - 4) ys \<union> - {lo..<hi}" for x
    using that sz payload_bounds [of xs x lo] payload_bounds [of ys x "p + n - 4"] p by auto
  show "keeps (payload lo xs \<union> payload (p + n - 4) ys \<union> - {lo..<hi}) m
      (st32 (st32 m (p - 4) (enc n b)) (p + n - 8) (enc n b))"
    using sz by (intro keeps_st32 [OF _ out] keeps_refl) auto
qed

lemma free_code:
  assumes ok: "heap_ok enc m lo hi (xs @ (n, a) # ys)" and p: "p = lo + total xs + 4" and pro: "xs \<noteq> [] \<or> 0 < lo"
  obtains m' where
    "do { m \<leftarrow> setValue m (p - 4) n 0; f \<leftarrow> getFooter m p; m \<leftarrow> setValue m f n 0; coalesce m p } = Some m'"
    "heap_ok enc m' lo hi (free_block xs n ys)"
    "keeps (payload lo xs \<union> payload (p + n - 4) ys \<union> - {lo..<hi}) m m'"
proof -
  let ?m = "st32 (st32 m (p - 4) (enc n False)) (p + n - 8) (enc n False)"
  have ok': "heap_ok enc ?m lo hi (xs @ (n, False) # ys)"
    using set_tags [OF ok fits, of "p - 4" False] p by (simp add: algebra_simps)
  obtain m' where m': "coalesce ?m p = Some m'" "heap_ok enc m' lo hi (free_block xs n ys)"
      "keeps (payload lo xs \<union> payload (p + n - 4) ys \<union> - {lo..<hi}) ?m m'"
    by (rule coalesce_free_block [OF ok' p pro])
  have "do { m \<leftarrow> setValue m (p - 4) n 0; f \<leftarrow> getFooter m p; m \<leftarrow> setValue m f n 0; coalesce m p }
      = do { m \<leftarrow> do { m \<leftarrow> setValue m (p - 4) n 0; f \<leftarrow> getFooter m p; setValue m f n 0 }; coalesce m p }"
    by simp
  also have "\<dots> = Some m'"
    using set_tags_code(1) [OF ok p, of False] m'(1) by simp
  finally show thesis
    using m'(2) keeps_trans [OF set_tags_code(2) [OF ok p] m'(3)] by (rule that)
qed

lemma whole_code:
  assumes ok: "heap_ok enc m lo hi (xs @ (n, a) # ys)" and p: "p = lo + total xs + 4"
  obtains m' where
    "do { m \<leftarrow> setValue m (p - 4) n 1; f \<leftarrow> getFooter m p; setValue m f n 1 } = Some m'"
    "heap_ok enc m' lo hi (xs @ (n, True) # ys)"
    "keeps (payload lo xs \<union> payload (p + n - 4) ys \<union> - {lo..<hi}) m m'"
    "keeps {p..<p + n - 8} m m'"
proof (rule that)
  let ?m = "st32 (st32 m (p - 4) (enc n True)) (p + n - 8) (enc n True)"
  show "do { m \<leftarrow> setValue m (p - 4) n 1; f \<leftarrow> getFooter m p; setValue m f n 1 } = Some ?m"
    "keeps (payload lo xs \<union> payload (p + n - 4) ys \<union> - {lo..<hi}) m ?m"
    using set_tags_code [OF ok p, of True] by simp_all
  show "heap_ok enc ?m lo hi (xs @ (n, True) # ys)"
    using set_tags [OF ok fits, of "p - 4" True] p by (simp add: algebra_simps)
  have "x < p - 4 \<or> p - 4 + 4 \<le> x" "x < p + n - 8 \<or> p + n - 8 + 4 \<le> x" if "x \<in> {p..<p + n - 8}" for x
    using that by auto
  then show "keeps {p..<p + n - 8} m ?m" by (auto simp: keeps_def st32_def)
qed

lemma split_code:
  assumes ok: "heap_ok enc m lo hi (xs @ (n, a) # ys)" and p: "p = lo + total xs + 4"
    and e: "12 \<le> e" "4 dvd e" "8 < n - e"
  obtains m' where
    "do { f \<leftarrow> getFooter m p; m \<leftarrow> setValue m f (n - e) 0; m \<leftarrow> setValue m (p - 4) e 1;
          m \<leftarrow> setValue m (p + e - 8) e 1; setValue m (p + e - 8 + 4) (n - e) 0 } = Some m'"
    "heap_ok enc m' lo hi (xs @ (e, True) # (n - e, False) # ys)"
    "keeps (payload lo xs \<union> payload (p + n - 4) ys \<union> - {lo..<hi}) m m'"
    "keeps {p..<p + e - 8} m m'"
proof -
  note sz = heap_ok_sizes [OF ok]
  have "4 dvd n - e" using sz e by (auto simp: tag_size_def)
  then have e3: "12 \<le> n - e" using e by presburger
  have ts: "tag_size e" "tag_size (n - e)" using sz e e3 by (auto simp: tag_size_def)
  have im: "0 \<le> lo" "hi + 4 \<le> msize m" using heap_ok_in_mem [OF ok] by auto
  have in': "in_mem m (p - 4) 4" "in_mem m (p + n - 8) 4" "in_mem m (p + e - 8) 4" "in_mem m (p + e - 4) 4"
    using sz im p e e3 by (auto simp: in_mem_def)
  have h: "p - 4 = lo + total xs" using p by simp
  have out: "x < p - 4 \<or> p + n - 4 \<le> x" if "x \<in> payload lo xs \<union> payload (p + n - 4) ys \<union> - {lo..<hi}" for x
    using that sz payload_bounds [of xs x lo] payload_bounds [of ys x "p + n - 4"] p by auto
  let ?m = "st32 (st32 (st32 (st32 m (p + n - 8) (enc (n - e) False)) (p - 4) (enc e True))
      (p + e - 8) (enc e True)) (p + e - 4) (enc (n - e) False)"
  show thesis
  proof (rule that [of ?m], goal_cases)
    case 1
    show ?case
      using in' ts getFooter_block [OF ok p] by (simp add: setValue_free setValue_used)
  next
    case 2
    show ?case using split_tags [OF ok fits h e(1,2) e3] by (simp add: algebra_simps)
  next
    case 3
    show ?case using sz e e3 by (intro keeps_st32 [OF _ out] keeps_refl) auto
  next
    case 4
    show ?case using e3 by (auto simp: keeps_def st32_def)
  qed
qed

end

end
