(* ===== verification/VS_Malloc.thy ===== *)
theory VS_Malloc
  imports Boundary_Tags
begin

unbundle bit_operations_syntax

section \<open>The allocator of VSmymalloc/mymalloc.c\<close>

text \<open>
  A first-fit allocator over the 5000-byte array \<open>myBlock\<close>.  Pointers are offsets from
  \<open>myBlock\<close>; NULL is \<open>None\<close>.  Every function returns \<open>None\<close> (of the outer option) when
  the C code would leave the array or not terminate.  The file name and line number that
  the macros pass are only printed by commented-out code and are left out.
\<close>

abbreviation (input) HDRSIZE :: int where "HDRSIZE \<equiv> 4"
abbreviation (input) MEMSIZE :: int where "MEMSIZE \<equiv> 5000"

record vs_state =
  myBlock :: mem
  isInitialized :: int

text \<open>Static storage starts zeroed.\<close>

definition vs_start :: vs_state where
  "vs_start = \<lparr>myBlock = \<lparr>msize = 5000, mbytes = (\<lambda>_. 0)\<rparr>, isInitialized = 0\<rparr>"

subsection \<open>Tag accessors\<close>

definition vs_getHeader :: "int \<Rightarrow> int" where
  "vs_getHeader p = p - HDRSIZE"

definition vs_getSize :: "mem \<Rightarrow> int \<Rightarrow> int option" where
  "vs_getSize m ptr = do { w \<leftarrow> load32 m (vs_getHeader ptr); Some (w AND NOT 1) }"

definition vs_getAllocation :: "mem \<Rightarrow> int \<Rightarrow> int option" where
  "vs_getAllocation m ptr = do { w \<leftarrow> load32 m (vs_getHeader ptr); Some (w AND 1) }"

definition vs_setValue :: "mem \<Rightarrow> int \<Rightarrow> int \<Rightarrow> int \<Rightarrow> mem option" where
  "vs_setValue m p sz allocation = store32 m p (sz OR allocation)"

definition vs_getFooter :: "mem \<Rightarrow> int \<Rightarrow> int option" where
  "vs_getFooter m p = do { size \<leftarrow> vs_getSize m p; Some (p + size - 2 * HDRSIZE) }"

definition vs_getPrevious :: "mem \<Rightarrow> int \<Rightarrow> int option option" where
  "vs_getPrevious m ptr =
     do { w \<leftarrow> load32 m (ptr - 8);
          let size = w AND NOT 1;
          Some (if size = 0 then None else Some (ptr - size)) }"

definition vs_getNext :: "mem \<Rightarrow> int \<Rightarrow> int option option" where
  "vs_getNext m ptr =
     do { size \<leftarrow> vs_getSize m ptr;
          let next = ptr + size;
          nsize \<leftarrow> vs_getSize m next;
          nalloc \<leftarrow> vs_getAllocation m next;
          Some (if nsize = 0 \<and> nalloc = 1 then None else Some next) }"

text \<open>\<open>createExtremities\<close> writes through a \<open>char *\<close>, so each write stores one byte.\<close>

definition vs_createExtremities :: "mem \<Rightarrow> int \<Rightarrow> int \<Rightarrow> int \<Rightarrow> (int \<times> mem) option" where
  "vs_createExtremities m p sz allocated =
     do { m \<leftarrow> store8 m p (sz OR allocated);
          let p = p + sz - HDRSIZE;
          m \<leftarrow> store8 m p (sz OR allocated);
          let p = (p - sz) + 2 * HDRSIZE;
          Some (p, m) }"

subsection \<open>Initialisation\<close>

definition vs_initialize :: "mem \<Rightarrow> mem option" where
  "vs_initialize m =
     do { let memBlock = 0;
          m \<leftarrow> vs_setValue m memBlock 0 1;
          let epilogue = memBlock + MEMSIZE - HDRSIZE;
          m \<leftarrow> vs_setValue m epilogue 0 1;
          let memorySize = MEMSIZE - 2 * HDRSIZE;
          m \<leftarrow> vs_setValue m (memBlock + HDRSIZE) memorySize 0;
          vs_setValue m (epilogue - HDRSIZE) memorySize 0 }"

subsection \<open>First fit\<close>

partial_function (option) vs_findFit_loop ::
    "mem \<Rightarrow> int \<Rightarrow> int \<Rightarrow> int \<Rightarrow> int \<Rightarrow> int option option" where
  "vs_findFit_loop m extendedSize ptr blockSize allocBit =
     (if blockSize \<noteq> 0 then
        if allocBit \<noteq> 1 \<and> blockSize \<ge> extendedSize then Some (Some ptr)
        else do { blockSize' \<leftarrow> vs_getSize m (ptr + blockSize);
                  allocBit' \<leftarrow> vs_getAllocation m (ptr + blockSize);
                  vs_findFit_loop m extendedSize (ptr + blockSize) blockSize' allocBit' }
      else Some None)"

definition vs_findFit :: "mem \<Rightarrow> int \<Rightarrow> int option option" where
  "vs_findFit m extendedSize =
     do { let ptr = 2 * HDRSIZE;
          blockSize \<leftarrow> vs_getSize m ptr;
          allocBit \<leftarrow> vs_getAllocation m ptr;
          vs_findFit_loop m extendedSize ptr blockSize allocBit }"

subsection \<open>Allocation\<close>

text \<open>The block that \<open>findFit\<close> returned is split or taken whole.  \<open>extendedSize\<close> is a
  \<open>size_t\<close>: the comparison with the \<open>int\<close> \<open>oldSize\<close> is unsigned, the difference is
  converted back to \<open>int\<close>.\<close>

definition vs_place :: "mem \<Rightarrow> int \<Rightarrow> int \<Rightarrow> mem option" where
  "vs_place m ptr extendedSize =
     do { oldSize \<leftarrow> vs_getSize m ptr;
          let difference = s32 (oldSize - extendedSize);
          if u64 oldSize > extendedSize \<and> difference > 2 * HDRSIZE then
            do { f \<leftarrow> vs_getFooter m ptr;
                 m \<leftarrow> vs_setValue m f difference 0;
                 m \<leftarrow> vs_setValue m (vs_getHeader ptr) (s32 extendedSize) 1;
                 let footerPointer = ptr + extendedSize - 2 * HDRSIZE;
                 m \<leftarrow> vs_setValue m footerPointer (s32 extendedSize) 1;
                 vs_setValue m (footerPointer + 4) difference 0 }
          else
            do { m \<leftarrow> vs_setValue m (vs_getHeader ptr) oldSize 1;
                 f \<leftarrow> vs_getFooter m ptr;
                 vs_setValue m f oldSize 1 } }"

definition vs_extended :: "int \<Rightarrow> int" where
  "vs_extended sz =
     (let adjustedSize = (HDRSIZE - sz mod HDRSIZE) mod HDRSIZE
      in sz + adjustedSize + 2 * HDRSIZE)"

definition vs_mymalloc :: "vs_state \<Rightarrow> int \<Rightarrow> (int option \<times> vs_state) option" where
  "vs_mymalloc s sz =
     do { s \<leftarrow> (if isInitialized s = 0
                then do { b \<leftarrow> vs_initialize (myBlock s);
                          Some (s\<lparr>myBlock := b, isInitialized := 1\<rparr>) }
                else Some s);
          if sz = 0 then Some (None, s)
          else if sz > MEMSIZE then Some (None, s)
          else do {
            let extendedSize = vs_extended sz;
            r \<leftarrow> vs_findFit (myBlock s) (s32 extendedSize);
            (case r of
               Some ptr \<Rightarrow> do { b \<leftarrow> vs_place (myBlock s) ptr extendedSize;
                              Some (Some ptr, s\<lparr>myBlock := b\<rparr>) }
             | None \<Rightarrow> Some (None, s)) } }"

subsection \<open>Freeing\<close>

definition vs_coalesce :: "mem \<Rightarrow> int \<Rightarrow> mem option" where
  "vs_coalesce m ptr =
     do {
       previous \<leftarrow> vs_getPrevious m ptr;
       next \<leftarrow> vs_getNext m ptr;
       size \<leftarrow> vs_getSize m ptr;
       allocPrevious \<leftarrow> (case previous of Some q \<Rightarrow> vs_getAllocation m q | None \<Rightarrow> Some 1);
       allocNext \<leftarrow> (case next of Some q \<Rightarrow> vs_getAllocation m q | None \<Rightarrow> Some 1);
       if allocPrevious = 1 \<and> allocNext = 1 then Some m
       else if allocPrevious = 0 \<and> allocNext = 1 then do {
         q \<leftarrow> previous; s \<leftarrow> vs_getSize m q;
         let size = size + s;
         f \<leftarrow> vs_getFooter m q; m \<leftarrow> vs_setValue m f 0 0;
         m \<leftarrow> vs_setValue m (vs_getHeader q) size 0;
         f \<leftarrow> vs_getFooter m ptr; m \<leftarrow> vs_setValue m f size 0;
         vs_setValue m (vs_getHeader ptr) 0 0 }
       else if allocPrevious = 1 \<and> allocNext = 0 then do {
         r \<leftarrow> next; s \<leftarrow> vs_getSize m r;
         let size = size + s;
         f \<leftarrow> vs_getFooter m ptr; m \<leftarrow> vs_setValue m f 0 0;
         m \<leftarrow> vs_setValue m (vs_getHeader ptr) size 0;
         f \<leftarrow> vs_getFooter m r; m \<leftarrow> vs_setValue m f size 0;
         vs_setValue m (vs_getHeader r) 0 0 }
       else if allocPrevious = 0 \<and> allocNext = 0 then do {
         q \<leftarrow> previous; r \<leftarrow> next; s \<leftarrow> vs_getSize m q; s' \<leftarrow> vs_getSize m r;
         let size = size + s + s';
         f \<leftarrow> vs_getFooter m q; m \<leftarrow> vs_setValue m f 0 0;
         m \<leftarrow> vs_setValue m (vs_getHeader q) size 0;
         f \<leftarrow> vs_getFooter m ptr; m \<leftarrow> vs_setValue m f 0 0;
         m \<leftarrow> vs_setValue m (vs_getHeader ptr) 0 0;
         f \<leftarrow> vs_getFooter m r; m \<leftarrow> vs_setValue m f size 0;
         vs_setValue m (vs_getHeader r) 0 0 }
       else Some m }"

text \<open>\<open>myfree\<close> takes a pointer or NULL.  The relative address is converted to \<open>int\<close>; in the
  first comparison it is converted again, to the unsigned type of \<open>sizeof\<close>.  A free block
  is not rejected: the test of the allocated bit has only a commented-out print.\<close>

definition vs_myfree :: "vs_state \<Rightarrow> int option \<Rightarrow> vs_state option" where
  "vs_myfree st p =
     (case p of
        None \<Rightarrow> Some st
      | Some ptr \<Rightarrow>
          (let relativeAddress = s32 ptr in
           if u64 relativeAddress > 5000 - 2 * HDRSIZE \<or> relativeAddress < HDRSIZE then Some st
           else do {
             _ \<leftarrow> vs_getAllocation (myBlock st) ptr;
             size \<leftarrow> vs_getSize (myBlock st) ptr;
             m \<leftarrow> vs_setValue (myBlock st) (vs_getHeader ptr) size 0;
             f \<leftarrow> vs_getFooter m ptr;
             m \<leftarrow> vs_setValue m f size 0;
             m \<leftarrow> vs_coalesce m ptr;
             Some (st\<lparr>myBlock := m\<rparr>) }))"

section \<open>Correctness\<close>

text \<open>The tag word that \<open>setValue\<close> writes, and the interface the accessors satisfy.\<close>

definition vs_tag :: "int \<Rightarrow> bool \<Rightarrow> int" where
  "vs_tag n a = n OR of_bool a"

lemma tag_size_even: "tag_size n \<Longrightarrow> even n"
  by (auto simp: tag_size_def elim!: dvdE)

lemma vs_tag_eq: "tag_size n \<Longrightarrow> vs_tag n a = n + of_bool a"
  by (simp add: vs_tag_def flag_simps tag_size_even)

interpretation vs: boundary_tags vs_tag vs_getSize vs_getAllocation
  "\<lambda>m q. do { w \<leftarrow> load32 m q; Some (w AND NOT 1) }" vs_setValue
  vs_getFooter vs_getPrevious vs_getNext vs_coalesce vs_findFit_loop
proof unfold_locales
  show "fits vs_tag"
    by (auto simp: fits_def vs_tag_eq tag_size_def intro!: s32_id)
  show "vs_getSize m p = Some n" if "tag_size n" "load32 m (p - 4) = Some (vs_tag n a)" for n m p a
    using that by (simp add: vs_getSize_def vs_getHeader_def vs_tag_eq flag_simps tag_size_even)
  show "vs_getAllocation m p = Some (of_bool a)"
    if "tag_size n" "load32 m (p - 4) = Some (vs_tag n a)" for n m p a
    using that by (simp add: vs_getAllocation_def vs_getHeader_def vs_tag_eq flag_simps tag_size_even)
  show "do { w \<leftarrow> load32 m q; Some (w AND NOT 1) } = Some n"
    if "tag_size n" "load32 m q = Some (vs_tag n a)" for n m q a
    using that by (simp add: vs_tag_eq flag_simps tag_size_even)
  show "vs_setValue m q n (of_bool a) = Some (st32 m q (vs_tag n a))" if "in_mem m q 4" for n m q a
    using that by (simp add: vs_setValue_def vs_tag_def memory)
  show "vs_getFooter m p = do { s \<leftarrow> vs_getSize m p; Some (p + s - 8) }" for m p
    by (simp add: vs_getFooter_def)
  show "vs_getPrevious m p = do { s \<leftarrow> do { w \<leftarrow> load32 m (p - 8); Some (w AND NOT 1) };
      Some (if s = 0 then None else Some (p - s)) }" for m p
    by (simp add: vs_getPrevious_def Let_def)
  show "vs_getNext m p = do { s \<leftarrow> vs_getSize m p; s' \<leftarrow> vs_getSize m (p + s);
      a \<leftarrow> vs_getAllocation m (p + s); Some (if s' = 0 \<and> a = 1 then None else Some (p + s)) }" for m p
    by (simp add: vs_getNext_def Let_def)
qed (unfold vs_coalesce_def vs_getHeader_def Let_def, rule refl, rule vs_findFit_loop.simps)

subsection \<open>The heap a state stands for\<close>

text \<open>
  Before the first call the array is one free block to be; afterwards the tags in
  \<open>myBlock\<close> describe the list of blocks between the prologue and the epilogue.
\<close>

definition vs_inv :: "vs_state \<Rightarrow> blk list \<Rightarrow> bool" where
  "vs_inv st bs \<longleftrightarrow> msize (myBlock st) = 5000 \<and>
     (if isInitialized st = 0 then bs = [(4992, False)]
      else heap_ok vs_tag (myBlock st) 4 4996 bs)"

definition vs_malloc_spec :: "int \<Rightarrow> blk list \<Rightarrow> int option \<times> blk list" where
  "vs_malloc_spec sz bs =
     (if sz = 0 \<or> sz > 5000 then (None, bs)
      else case first_fit (vs_extended sz) bs of
             None \<Rightarrow> (None, bs)
           | Some (xs, n, ys) \<Rightarrow> (Some (8 + total xs), xs @ place (vs_extended sz) n @ ys))"

lemma vs_initialize_ok:
  assumes "msize m = 5000"
  obtains m' where "vs_initialize m = Some m'" "msize m' = 5000"
    "heap_ok vs_tag m' 4 4996 [(4992, False)]"
proof -
  have im: "in_mem m 0 4" "in_mem m 4996 4" "in_mem m 4 4" "in_mem m 4992 4"
    using assms by (simp_all add: in_mem_def)
  let ?m = "st32 (st32 (st32 (st32 m 0 1) 4996 1) 4 4992) 4992 4992"
  have t: "vs_tag 0 True = 1" "vs_tag 4992 False = 4992" by (simp_all add: vs_tag_def)
  have "vs_initialize m = Some ?m"
    using im by (simp add: vs_initialize_def vs_setValue_def memory)
  moreover have "heap_ok vs_tag ?m 4 4996 [(4992, False)]"
    using im by (simp add: heap_ok_def t memory cint)
  ultimately show thesis using assms by (intro that) auto
qed

lemma vs_extended_bounds:
  assumes "0 < sz" "sz \<le> 5000"
  shows "12 \<le> vs_extended sz" "4 dvd vs_extended sz" "vs_extended sz \<le> 5011"
    "sz + 8 \<le> vs_extended sz" "vs_extended sz < sz + 12"
proof -
  have e: "vs_extended sz = sz + (4 - sz mod 4) mod 4 + 8" by (simp add: vs_extended_def Let_def)
  show d: "4 dvd vs_extended sz" unfolding e by presburger
  show b: "sz + 8 \<le> vs_extended sz" "vs_extended sz < sz + 12" unfolding e by simp_all
  show "12 \<le> vs_extended sz" "vs_extended sz \<le> 5011" using assms b d by presburger+
qed

lemma vs_place_ok:
  assumes ok: "heap_ok vs_tag m lo hi (xs @ (n, False) # ys)" and p: "p = lo + total xs + 4"
    and e: "12 \<le> e" "4 dvd e" "e \<le> n"
  obtains m' where "vs_place m p e = Some m'" "heap_ok vs_tag m' lo hi (xs @ place e n @ ys)"
    "keeps (payload lo xs \<union> payload (p + n - 4) ys \<union> - {lo..<hi}) m m'"
proof -
  note sz = heap_ok_sizes [OF ok] and gs = vs.block_tags(1) [OF ok p]
  have c: "u64 n = n" "s32 (n - e) = n - e" "s32 e = e"
    using sz e by (auto intro!: s32_id u64_id)
  show thesis
  proof (cases "n - e > 8")
    case True
    obtain m' where m': "do { f \<leftarrow> vs_getFooter m p; m \<leftarrow> vs_setValue m f (n - e) 0;
        m \<leftarrow> vs_setValue m (p - 4) e 1; m \<leftarrow> vs_setValue m (p + e - 8) e 1;
        vs_setValue m (p + e - 8 + 4) (n - e) 0 } = Some m'"
      "heap_ok vs_tag m' lo hi (xs @ (e, True) # (n - e, False) # ys)"
      "keeps (payload lo xs \<union> payload (p + n - 4) ys \<union> - {lo..<hi}) m m'" "keeps {p..<p + e - 8} m m'"
      by (rule vs.split_code [OF ok p e(1,2) True])
    show thesis
      using m' True gs c e by (intro that [of m']) (simp_all add: vs_place_def place_def vs_getHeader_def)
  next
    case False
    obtain m' where m': "do { m \<leftarrow> vs_setValue m (p - 4) n 1; f \<leftarrow> vs_getFooter m p;
        vs_setValue m f n 1 } = Some m'"
      "heap_ok vs_tag m' lo hi (xs @ (n, True) # ys)"
      "keeps (payload lo xs \<union> payload (p + n - 4) ys \<union> - {lo..<hi}) m m'" "keeps {p..<p + n - 8} m m'"
      by (rule vs.whole_code [OF ok p])
    show thesis
      using m' False gs c by (intro that [of m']) (simp_all add: vs_place_def place_def vs_getHeader_def)
  qed
qed

lemma vs_findFit_ok:
  assumes ok: "heap_ok vs_tag m 4 hi bs"
  shows "vs_findFit m e = Some (map_option (\<lambda>(xs, n, ys). 8 + total xs) (first_fit e bs))"
  using vs.search_first_fit [of m 4 hi "[]" bs 8 e] vs.next_tags [of m 4 hi "[]" bs 8] ok
  by (simp add: vs_findFit_def)

lemma first_fit_payload:
  assumes "first_fit e bs = Some (xs, n, ys)"
  shows "payload h bs = payload h xs \<union> payload (h + total xs + n) ys"
  using first_fit_Some [OF assms] by (simp add: payload_append)

lemma vs_malloc_initialized:
  assumes inv: "vs_inv st bs" "isInitialized st \<noteq> 0" and sz: "0 \<le> sz"
  obtains r st' where "vs_mymalloc st sz = Some (r, st')" "vs_inv st' (snd (vs_malloc_spec sz bs))"
    "r = fst (vs_malloc_spec sz bs)" "isInitialized st' \<noteq> 0"
    "keeps (payload 4 bs) (myBlock st) (myBlock st')"
proof -
  have ok: "heap_ok vs_tag (myBlock st) 4 4996 bs" and ms: "msize (myBlock st) = 5000"
    using inv by (auto simp: vs_inv_def)
  consider "sz = 0 \<or> sz > 5000" | (none) "0 < sz" "sz \<le> 5000" "first_fit (vs_extended sz) bs = None"
    | (fit) xs n ys where "0 < sz" "sz \<le> 5000" "first_fit (vs_extended sz) bs = Some (xs, n, ys)"
    using sz by (cases "first_fit (vs_extended sz) bs") force+
  then show thesis
  proof cases
    case 1
    then show ?thesis
      using inv by (intro that [of None st]) (auto simp: vs_mymalloc_def vs_malloc_spec_def)
  next
    case none
    then show ?thesis
      using inv vs_extended_bounds [of sz] vs_findFit_ok [OF ok]
      by (intro that [of None st]) (auto simp: vs_mymalloc_def vs_malloc_spec_def s32_id)
  next
    case (fit xs n ys)
    let ?e = "vs_extended sz"
    have bs: "bs = xs @ (n, False) # ys" "?e \<le> n" using first_fit_Some [OF fit(3)] by auto
    have e: "12 \<le> ?e" "4 dvd ?e" "s32 ?e = ?e"
      using vs_extended_bounds [OF fit(1,2)] by (auto intro!: s32_id)
    obtain m' where m': "vs_place (myBlock st) (8 + total xs) ?e = Some m'"
      "heap_ok vs_tag m' 4 4996 (xs @ place ?e n @ ys)"
      "keeps (payload 4 xs \<union> payload (8 + total xs + n - 4) ys \<union> - {4..<4996}) (myBlock st) m'"
      using vs_place_ok [OF ok [unfolded bs(1)] _ e(1,2) bs(2), of "8 + total xs"] by auto
    have "keeps (payload 4 bs) (myBlock st) m'"
      using first_fit_payload [OF fit(3), of 4] by (intro keeps_mono [OF m'(3)]) (simp add: algebra_simps)
    moreover have "msize m' = 5000" using m'(3) ms by (simp add: keeps_def)
    ultimately show ?thesis
      using inv fit m' e vs_findFit_ok [OF ok]
      by (intro that [of "Some (8 + total xs)" "st\<lparr>myBlock := m'\<rparr>"])
        (auto simp: vs_mymalloc_def vs_malloc_spec_def vs_inv_def)
  qed
qed

lemma vs_malloc_init_first:
  assumes "vs_inv st bs" "isInitialized st = 0"
  obtains st1 where "vs_mymalloc st sz = vs_mymalloc st1 sz" "vs_inv st1 bs" "isInitialized st1 \<noteq> 0"
proof -
  have ms: "msize (myBlock st) = 5000" and bs: "bs = [(4992, False)]"
    using assms by (auto simp: vs_inv_def)
  obtain m' where m': "vs_initialize (myBlock st) = Some m'" "msize m' = 5000"
    "heap_ok vs_tag m' 4 4996 [(4992, False)]"
    using vs_initialize_ok [OF ms] by blast
  show thesis
    using assms(2) m' bs
    by (intro that [of "st\<lparr>myBlock := m', isInitialized := 1\<rparr>"]) (auto simp: vs_mymalloc_def vs_inv_def)
qed

lemma vs_free_ok:
  assumes inv: "vs_inv st (xs @ (n, a) # ys)" "isInitialized st \<noteq> 0"
  obtains st' where "vs_myfree st (Some (8 + total xs)) = Some st'" "vs_inv st' (free_block xs n ys)"
    "isInitialized st' \<noteq> 0"
    "keeps (payload 4 xs \<union> payload (4 + total xs + n) ys) (myBlock st) (myBlock st')"
proof -
  have ok: "heap_ok vs_tag (myBlock st) 4 4996 (xs @ (n, a) # ys)" and ms: "msize (myBlock st) = 5000"
    using inv by (auto simp: vs_inv_def)
  let ?p = "8 + total xs"
  have p: "?p = 4 + total xs + 4" by simp
  obtain m' where m':
    "do { m \<leftarrow> vs_setValue (myBlock st) (?p - 4) n 0; f \<leftarrow> vs_getFooter m ?p;
          m \<leftarrow> vs_setValue m f n 0; vs_coalesce m ?p } = Some m'"
    "heap_ok vs_tag m' 4 4996 (free_block xs n ys)"
    "keeps (payload 4 xs \<union> payload (?p + n - 4) ys \<union> - {4..<4996}) (myBlock st) m'"
    by (rule vs.free_code [OF ok p]) auto
  note kept = keeps_mono [OF m'(3) Un_upper1]
  have "0 \<le> total xs" "total xs \<le> 4984" using heap_ok_sizes [OF ok] by auto
  then have "s32 ?p = ?p" "u64 ?p \<le> 4992" by (simp_all add: s32_id u64_id)
  moreover have "msize m' = 5000" using m'(3) ms by (simp add: keeps_def)
  ultimately show thesis
    using m'(1,2) kept vs.block_tags [OF ok p] inv \<open>0 \<le> total xs\<close>
    by (intro that [of "st\<lparr>myBlock := m'\<rparr>"])
      (auto simp: vs_myfree_def vs_inv_def vs_getHeader_def algebra_simps Option.bind_eq_Some_conv)
qed

end
