(* ===== verification/Heap_Client.thy ===== *)
theory Heap_Client
  imports Block_List
begin

section \<open>Clients of a heap\<close>

text \<open>
  What a client of \<open>malloc\<close> and \<open>free\<close> may rely on, proved once from the contract of an allocator: the
  state stands for a list of blocks, an allocation returns NULL or takes a free block that is large
  enough, freeing merges, writes to an allocated payload are the client's own.  \<open>live\<close> maps each
  pointer the client holds to the size it asked for.
\<close>

definition holds_exactly :: "(int \<rightharpoonup> int) \<Rightarrow> (int \<times> int) set \<Rightarrow> bool" where
  "holds_exactly live U \<longleftrightarrow>
     (\<forall>p sz. live p = Some sz \<longrightarrow> (\<exists>n. (p, n) \<in> U \<and> 0 < sz \<and> sz + 8 \<le> n)) \<and>
     (\<forall>(p, n) \<in> U. p \<in> dom live)"

lemma holds_empty: "holds_exactly Map.empty U \<longleftrightarrow> U = {}"
  by (auto simp: holds_exactly_def)

lemma holds_insert:
  "holds_exactly live U \<Longrightarrow> (\<And>n. (p, n) \<notin> U) \<Longrightarrow> 0 < sz \<Longrightarrow> sz + 8 \<le> k \<Longrightarrow>
     holds_exactly (live(p \<mapsto> sz)) (insert (p, k) U)"
  by (auto simp: holds_exactly_def)

lemma holds_delete:
  "holds_exactly live U \<Longrightarrow> (\<And>k. (p, k) \<in> U \<Longrightarrow> k = n) \<Longrightarrow>
     holds_exactly (live(p := None)) (U - {(p, n)})"
  by (auto simp: holds_exactly_def)

lemma free_block_unused:
  "wf_blocks (xs @ (n, False) # ys) \<Longrightarrow> (h + total xs + 4, k) \<notin> used h (xs @ (n, False) # ys)"
  using used_bounds [of xs "h + total xs + 4" k h] used_bounds [of ys "h + total xs + 4" k "h + total xs + n"]
  by (auto simp: used_append)

lemma used_unique:
  "wf_blocks bs \<Longrightarrow> (p, n) \<in> used h bs \<Longrightarrow> (p, k) \<in> used h bs \<Longrightarrow> k = n"
  using used_disjoint [of bs p n h p k] used_bounds [of bs p n h] used_bounds [of bs p k h] by auto

text \<open>Taking a block: the free block of size \<open>n\<close> between \<open>xs\<close> and \<open>ys\<close> serves a request of \<open>sz\<close> bytes
  extended to \<open>e\<close>.\<close>

definition serves :: "int \<Rightarrow> int \<Rightarrow> int \<Rightarrow> bool" where
  "serves sz e n \<longleftrightarrow> 0 < sz \<and> sz + 8 \<le> e \<and> e \<le> n"

locale heap_client =
  fixes inv :: "'s \<Rightarrow> blk list \<Rightarrow> bool"
    and alloc :: "'s \<Rightarrow> int \<Rightarrow> (int option \<times> 's) option"
    and free :: "'s \<Rightarrow> int \<Rightarrow> 's option"
    and poke :: "'s \<Rightarrow> int \<Rightarrow> byte \<Rightarrow> 's option"
    and bytes :: "'s \<Rightarrow> int \<Rightarrow> byte"
    and lo len :: int
  assumes inv_wf: "inv s bs \<Longrightarrow> wf_blocks bs \<and> total bs = len"
    and lo_dvd: "4 dvd lo" and len_pos: "0 < len"
    and alloc_ok: "inv s bs \<Longrightarrow> 0 \<le> sz \<Longrightarrow> \<exists>r s'. alloc s sz = Some (r, s') \<and>
        (r = None \<and> inv s' bs \<or>
         (\<exists>xs n ys e. bs = xs @ (n, False) # ys \<and> serves sz e n \<and> r = Some (lo + total xs + 4) \<and>
            inv s' (xs @ place e n @ ys))) \<and>
        (\<forall>x \<in> payload lo bs. bytes s' x = bytes s x)"
    and free_ok: "inv s (xs @ (n, True) # ys) \<Longrightarrow> \<exists>s'. free s (lo + total xs + 4) = Some s' \<and>
        inv s' (free_block xs n ys) \<and> (\<forall>x \<in> payload lo (free_block xs n ys). bytes s' x = bytes s x)"
    and poke_ok: "inv s bs \<Longrightarrow> x \<in> payload lo bs \<Longrightarrow> \<exists>s'. poke s x v = Some s' \<and> inv s' bs \<and>
        (\<forall>y \<in> payload lo bs. bytes s' y = (if y = x then v else bytes s y))"
begin

text \<open>What every history keeps.\<close>

definition hist :: "'s \<Rightarrow> (int \<rightharpoonup> int) \<Rightarrow> blk list \<Rightarrow> bool" where
  "hist s live bs \<longleftrightarrow> inv s bs \<and> coalesced bs \<and> holds_exactly live (used lo bs)"

lemma hist_start: "inv s [(len, False)] \<Longrightarrow> hist s Map.empty [(len, False)]"
  by (simp add: hist_def holds_empty)

lemma held:
  assumes "hist s live bs" "live p = Some sz"
  obtains n xs ys where "(p, n) \<in> used lo bs" "bs = xs @ (n, True) # ys" "p = lo + total xs + 4" "0 < sz" "sz + 8 \<le> n"
proof -
  obtain n where n: "(p, n) \<in> used lo bs" "0 < sz" "sz + 8 \<le> n"
    using assms unfolding hist_def holds_exactly_def by blast
  then show thesis using that unfolding used_decomp by blast
qed

lemma hist_alloc:
  assumes h: "hist s live bs" and sz: "0 \<le> sz" and m: "alloc s sz = Some (r, s')"
  shows "\<exists>bs'. hist s' (case r of None \<Rightarrow> live | Some p \<Rightarrow> live(p \<mapsto> sz)) bs'"
proof -
  have inv: "inv s bs" "coalesced bs" "wf_blocks bs" "holds_exactly live (used lo bs)"
    using h inv_wf [of s bs] by (auto simp: hist_def)
  consider (null) "r = None" "inv s' bs"
    | (fit) xs n ys e where "bs = xs @ (n, False) # ys" "serves sz e n" "r = Some (lo + total xs + 4)"
        "inv s' (xs @ place e n @ ys)"
    using alloc_ok [OF inv(1) sz] m by auto
  then show ?thesis
  proof cases
    case null
    then show ?thesis using inv by (auto simp: hist_def)
  next
    case (fit xs n ys e)
    have "(lo + total xs + 4, j) \<notin> used lo bs" for j
      using free_block_unused [of xs n ys lo j] inv(3) fit(1) by simp
    then have "holds_exactly (live(lo + total xs + 4 \<mapsto> sz)) (used lo (xs @ place e n @ ys))"
      using fit(1,2) inv(4) by (simp add: holds_insert used_place serves_def)
    then show ?thesis
      using fit inv(2) coalesced_place [of xs n ys] by (auto simp: hist_def intro!: exI [of _ "xs @ place e n @ ys"])
  qed
qed

lemma hist_free:
  assumes h: "hist s live bs" and p: "live p = Some sz" and f: "free s p = Some s'"
  shows "\<exists>bs'. hist s' (live(p := None)) bs'"
proof -
  obtain n xs ys where n: "(p, n) \<in> used lo bs" "bs = xs @ (n, True) # ys" "p = lo + total xs + 4"
    by (rule held [OF h p])
  have inv: "inv s bs" "coalesced bs" "wf_blocks bs" "holds_exactly live (used lo bs)"
    using h inv_wf [of s bs] by (auto simp: hist_def)
  have "inv s' (free_block xs n ys)" using free_ok [OF inv(1) [unfolded n(2)]] f n(3) by auto
  moreover have "holds_exactly (live(p := None)) (used lo (free_block xs n ys))"
    using holds_delete [OF inv(4) used_unique [OF inv(3) n(1)]] used_free_block_diff [of xs n ys lo] inv(3) n
    by simp
  ultimately show ?thesis
    using coalesced_free_block inv(2) n(2) unfolding hist_def by blast
qed

lemma held_payload:
  assumes "hist s live bs" "live p = Some sz" "p \<le> x" "x < p + sz"
  shows "x \<in> payload lo bs"
  by (rule held [OF assms(1,2)]) (use used_payload assms(3,4) in fastforce)

lemma hist_poke:
  assumes "hist s live bs" "live p = Some sz" "p \<le> x" "x < p + sz" "poke s x v = Some s'"
  shows "hist s' live bs"
  using poke_ok [OF _ held_payload [OF assms(1-4)], of s v] assms(1,5) by (auto simp: hist_def)

subsection \<open>What the client gets\<close>

lemma areas:
  assumes h: "hist s live bs" and p: "live p = Some a"
  shows "lo + 4 \<le> p \<and> p + a + 4 \<le> lo + len \<and> 4 dvd p \<and>
     (\<forall>q b. live q = Some b \<and> q \<noteq> p \<longrightarrow> p + a + 8 \<le> q \<or> q + b + 8 \<le> p)"
proof -
  have wf: "wf_blocks bs" "total bs = len" using h inv_wf [of s bs] by (auto simp: hist_def)
  obtain n where n: "(p, n) \<in> used lo bs" "a + 8 \<le> n" by (rule held [OF h p])
  have "p + a + 8 \<le> q \<or> q + b + 8 \<le> p" if q: "live q = Some b" "q \<noteq> p" for q b
  proof -
    obtain k where "(q, k) \<in> used lo bs" "b + 8 \<le> k" by (rule held [OF h q(1)])
    then show ?thesis using used_disjoint [OF wf(1) n(1), of q k] n(2) q(2) by auto
  qed
  then show ?thesis using used_bounds [OF wf(1) n(1)] used_dvd [OF wf(1) lo_dvd n(1)] n(2) wf(2) by auto
qed

lemma calls_return:
  assumes "hist s live bs"
  shows "0 \<le> sz \<Longrightarrow> \<exists>r s'. alloc s sz = Some (r, s')" "p \<in> dom live \<Longrightarrow> \<exists>s'. free s p = Some s'"
    "live p = Some sz \<Longrightarrow> p \<le> x \<Longrightarrow> x < p + sz \<Longrightarrow> \<exists>s'. poke s x v = Some s'"
proof -
  have inv: "inv s bs" using assms by (simp add: hist_def)
  show "0 \<le> sz \<Longrightarrow> \<exists>r s'. alloc s sz = Some (r, s')" using alloc_ok [OF inv] by blast
  show "live p = Some sz \<Longrightarrow> p \<le> x \<Longrightarrow> x < p + sz \<Longrightarrow> \<exists>s'. poke s x v = Some s'"
    using poke_ok [OF inv held_payload [OF assms], of p sz x v] by blast
  assume "p \<in> dom live"
  then obtain a where p: "live p = Some a" by blast
  obtain n xs ys where n: "bs = xs @ (n, True) # ys" "p = lo + total xs + 4" by (rule held [OF assms p])
  show "\<exists>s'. free s p = Some s'" using free_ok [OF inv [unfolded n(1)]] n(2) by blast
qed

lemma contents_kept:
  assumes h: "hist s live bs" and q: "live q = Some b" "q \<le> x" "x < q + b"
  shows "0 \<le> sz \<Longrightarrow> alloc s sz = Some (r, s') \<Longrightarrow> bytes s' x = bytes s x"
    "p \<in> dom live \<Longrightarrow> p \<noteq> q \<Longrightarrow> free s p = Some s' \<Longrightarrow> bytes s' x = bytes s x"
    "live p = Some a \<Longrightarrow> p \<le> y \<Longrightarrow> y < p + a \<Longrightarrow> poke s y v = Some s' \<Longrightarrow>
       bytes s' x = (if x = y then v else bytes s x)"
proof -
  have inv: "inv s bs" "wf_blocks bs" using h inv_wf [of s bs] by (auto simp: hist_def)
  have x: "x \<in> payload lo bs" by (rule held_payload [OF h q])
  show "bytes s' x = bytes s x" if "0 \<le> sz" "alloc s sz = Some (r, s')"
    using alloc_ok [OF inv(1) that(1)] that(2) x by auto
  show "bytes s' x = (if x = y then v else bytes s x)"
    if "live p = Some a" "p \<le> y" "y < p + a" "poke s y v = Some s'"
    using poke_ok [OF inv(1) held_payload [OF h that(1-3)], of v] that(4) x by auto
  assume p: "p \<in> dom live" "p \<noteq> q" "free s p = Some s'"
  then obtain a where "live p = Some a" by blast
  then obtain n xs ys where n: "bs = xs @ (n, True) # ys" "p = lo + total xs + 4" by (rule held [OF h])
  obtain k where k: "(q, k) \<in> used lo bs" "b + 8 \<le> k" by (rule held [OF h q(1)])
  have "(q, k) \<in> used lo (free_block xs n ys)"
    using k(1) used_free_block_diff [of xs n ys lo] inv(2) n p(2) by auto
  then have "x \<in> payload lo (free_block xs n ys)"
    using used_payload [of q k lo] k(2) q(2,3) by fastforce
  then show "bytes s' x = bytes s x" using free_ok [OF inv(1) [unfolded n(1)]] p(3) n(2) by auto
qed

lemma all_freed: "hist s Map.empty bs \<Longrightarrow> bs = [(len, False)]"
proof -
  assume h: "hist s Map.empty bs"
  then have "used lo bs = {}" "total bs = len" using inv_wf [of s bs] by (auto simp: hist_def holds_empty)
  moreover have "bs \<noteq> []" using len_pos \<open>total bs = len\<close> by auto
  ultimately show ?thesis using h coalesced_unused [of bs lo] by (simp add: hist_def)
qed

subsection \<open>Pointers kept in a list\<close>

text \<open>A client that holds exactly the pointers in a list, NULL among them, and never one of them twice.
  Freeing NULL does nothing.\<close>

definition release :: "'s \<Rightarrow> int option \<Rightarrow> 's option" where
  "release s r = (case r of None \<Rightarrow> Some s | Some p \<Rightarrow> free s p)"

definition owns :: "'s \<Rightarrow> int option list \<Rightarrow> bool" where
  "owns s rs \<longleftrightarrow> (\<exists>live bs. hist s live bs \<and> dom live = {p. Some p \<in> set rs} \<and> distinct (filter (\<lambda>r. r \<noteq> None) rs))"

lemma owns_start: "inv s [(len, False)] \<Longrightarrow> owns s []"
  using hist_start [of s] unfolding owns_def by fastforce

lemma owns_end: "owns s [] \<Longrightarrow> inv s [(len, False)]"
proof -
  assume "owns s []"
  then obtain live bs where h: "hist s live bs" "dom live = {}" by (auto simp: owns_def)
  then have "live = Map.empty" by simp
  then show ?thesis using h(1) all_freed [of s bs] by (simp add: hist_def)
qed

lemma alloc_fresh:
  assumes h: "hist s live bs" and sz: "0 \<le> sz" and m: "alloc s sz = Some (Some p, s')"
  shows "p \<notin> dom live"
proof
  assume "p \<in> dom live"
  then obtain a where "live p = Some a" by blast
  then obtain n where n: "(p, n) \<in> used lo bs" by (rule held [OF h])
  have inv: "inv s bs" "wf_blocks bs" using h inv_wf [of s bs] by (auto simp: hist_def)
  obtain xs k ys where "bs = xs @ (k, False) # ys" "p = lo + total xs + 4"
    using alloc_ok [OF inv(1) sz] m by auto
  then show False using free_block_unused [of xs k ys lo n] inv(2) n by simp
qed

lemma owns_alloc:
  assumes "owns s rs" "0 \<le> sz"
  shows "\<exists>r s'. alloc s sz = Some (r, s') \<and> owns s' (rs @ [r])"
proof -
  obtain live bs where h: "hist s live bs" and d: "dom live = {p. Some p \<in> set rs}" "distinct (filter (\<lambda>r. r \<noteq> None) rs)"
    using assms(1) by (auto simp: owns_def)
  obtain r s' where m: "alloc s sz = Some (r, s')" using calls_return(1) [OF h assms(2)] by blast
  show ?thesis
  proof (cases r)
    case None
    then show ?thesis using hist_alloc [OF h assms(2) m] m d unfolding owns_def
      by (intro exI [of _ r] exI [of _ s']) auto
  next
    case (Some p)
    then obtain bs' where h': "hist s' (live(p \<mapsto> sz)) bs'" using hist_alloc [OF h assms(2) m] by auto
    have "Some p \<notin> set rs" using alloc_fresh [OF h assms(2)] m Some d(1) by auto
    moreover have "dom (live(p \<mapsto> sz)) = {q. Some q \<in> set (rs @ [r])}" using Some d(1) by auto
    ultimately show ?thesis using m h' d(2) Some unfolding owns_def
      by (intro exI [of _ r] exI [of _ s'] conjI exI [of _ "live(p \<mapsto> sz)"] exI [of _ bs']) auto
  qed
qed

lemma owns_release:
  assumes "owns s (r # rs)"
  shows "\<exists>s'. release s r = Some s' \<and> owns s' rs"
proof -
  obtain live bs where h: "hist s live bs" and d: "dom live = {p. Some p \<in> set (r # rs)}"
    "distinct (filter (\<lambda>r. r \<noteq> None) (r # rs))"
    using assms by (auto simp: owns_def)
  show ?thesis
  proof (cases r)
    case None
    then show ?thesis using h d by (auto simp: owns_def release_def)
  next
    case (Some p)
    then obtain a where a: "live p = Some a" using d(1) by auto
    then obtain s' where f: "free s p = Some s'" using calls_return(2) [OF h, of p] by blast
    obtain bs' where h': "hist s' (live(p := None)) bs'" using hist_free [OF h a f] by blast
    have "dom (live(p := None)) = {q. Some q \<in> set rs}" using d Some by (auto split: if_splits)
    moreover have "distinct (filter (\<lambda>r. r \<noteq> None) rs)" using d(2) Some by (simp split: if_splits)
    ultimately have "owns s' rs" using h' unfolding owns_def by blast
    then show ?thesis using f Some by (simp add: release_def)
  qed
qed

end

end
