(* ===== verification/VS_History.thy ===== *)
theory VS_History
  imports VS_Malloc Heap_Client
begin

section \<open>Clients of the VSmymalloc allocator\<close>

text \<open>
  Every history of a client that calls \<open>malloc\<close> with any size, frees pointers it holds (or
  NULL) and writes inside the memory it was given.  \<open>live\<close> maps each pointer the client
  holds to the size it asked for.  The properties of the component follow: no call leaves
  the array or hangs, the areas handed out are disjoint and aligned, what the client stored
  stays, and freeing everything restores one free block.
\<close>

definition vs_poke :: "vs_state \<Rightarrow> int \<Rightarrow> byte \<Rightarrow> vs_state" where
  "vs_poke st x v = st\<lparr>myBlock := (myBlock st)\<lparr>mbytes := (mbytes (myBlock st))(x := v)\<rparr>\<rparr>"

inductive vs_run :: "vs_state \<Rightarrow> (int \<rightharpoonup> int) \<Rightarrow> bool" where
  start: "vs_run vs_start Map.empty"
| malloc: "vs_run st live \<Longrightarrow> 0 \<le> sz \<Longrightarrow> vs_mymalloc st sz = Some (Some p, st') \<Longrightarrow>
    vs_run st' (live(p \<mapsto> sz))"
| malloc_null: "vs_run st live \<Longrightarrow> 0 \<le> sz \<Longrightarrow> vs_mymalloc st sz = Some (None, st') \<Longrightarrow>
    vs_run st' live"
| free: "vs_run st live \<Longrightarrow> live p = Some sz \<Longrightarrow> vs_myfree st (Some p) = Some st' \<Longrightarrow>
    vs_run st' (live(p := None))"
| free_null: "vs_run st live \<Longrightarrow> vs_myfree st None = Some st' \<Longrightarrow> vs_run st' live"
| poke: "vs_run st live \<Longrightarrow> live p = Some sz \<Longrightarrow> p \<le> x \<Longrightarrow> x < p + sz \<Longrightarrow>
    vs_run (vs_poke st x v) live"

lemma vs_inv_wf: "vs_inv st bs \<Longrightarrow> wf_blocks bs \<and> total bs = 4992"
  by (auto simp: vs_inv_def heap_ok_def split: if_splits)

text \<open>Calls of \<open>malloc\<close> from any state of a history.\<close>

lemma vs_malloc_any:
  assumes inv: "vs_inv st bs" and sz: "0 \<le> sz"
  obtains r st' where "vs_mymalloc st sz = Some (r, st')" "vs_inv st' (snd (vs_malloc_spec sz bs))"
    "r = fst (vs_malloc_spec sz bs)" "isInitialized st' \<noteq> 0"
    "isInitialized st \<noteq> 0 \<Longrightarrow> keeps (payload 4 bs) (myBlock st) (myBlock st')"
proof (cases "isInitialized st = 0")
  case True
  then obtain st1 where st1: "vs_mymalloc st sz = vs_mymalloc st1 sz" "vs_inv st1 bs" "isInitialized st1 \<noteq> 0"
    using vs_malloc_init_first [OF inv] by blast
  show thesis using vs_malloc_initialized [OF st1(2,3) sz] st1(1) that True by metis
next
  case False
  then show thesis using vs_malloc_initialized [OF inv _ sz] that by metis
qed

lemma malloc_spec_cases:
  assumes "wf_blocks bs" "0 \<le> sz"
  obtains (null) "vs_malloc_spec sz bs = (None, bs)"
  | (fit) xs n ys k where "vs_malloc_spec sz bs = (Some (8 + total xs), xs @ place (vs_extended sz) n @ ys)"
      "bs = xs @ (n, False) # ys"
      "used 4 (xs @ place (vs_extended sz) n @ ys) = insert (8 + total xs, k) (used 4 bs)"
      "0 < sz" "sz + 8 \<le> k" "sz \<le> 5000" "vs_extended sz \<le> n"
proof (cases "sz = 0 \<or> sz > 5000 \<or> first_fit (vs_extended sz) bs = None")
  case True
  then show ?thesis by (intro null) (auto simp: vs_malloc_spec_def)
next
  case False
  then obtain xs n ys where f: "0 < sz" "sz \<le> 5000" "first_fit (vs_extended sz) bs = Some (xs, n, ys)"
    using assms(2) by (cases "first_fit (vs_extended sz) bs") force+
  have bs: "bs = xs @ (n, False) # ys" "vs_extended sz \<le> n" using first_fit_Some [OF f(3)] by auto
  show ?thesis
    using f bs vs_extended_bounds [OF f(1,2)]
    by (intro fit [of xs n ys "if n - vs_extended sz > 8 then vs_extended sz else n"])
      (auto simp: vs_malloc_spec_def used_place)
qed

lemma vs_inv_used: "vs_inv st (xs @ (n, True) # ys) \<Longrightarrow> isInitialized st \<noteq> 0"
  by (cases xs) (auto simp: vs_inv_def)

lemma vs_poke_inv:
  assumes "vs_inv st bs" "x \<in> payload 4 bs"
  shows "vs_inv (vs_poke st x v) bs"
proof -
  have i: "isInitialized st \<noteq> 0" using assms by (auto simp: vs_inv_def split: if_splits)
  have "writes_only (payload 4 bs) (myBlock st) (myBlock (vs_poke st x v))"
    using assms(2) by (auto simp: writes_only_def vs_poke_def)
  then have "heap_ok vs_tag (myBlock (vs_poke st x v)) 4 4996 bs"
    using assms(1) i heap_ok_payload_write by (auto simp: vs_inv_def)
  then show ?thesis using assms(1) i by (auto simp: vs_inv_def vs_poke_def)
qed

interpretation vsc: heap_client vs_inv vs_mymalloc "\<lambda>st p. vs_myfree st (Some p)"
  "\<lambda>st x v. Some (vs_poke st x v)" "\<lambda>st. mbytes (myBlock st)" 4 4992
proof
  fix st bs sz assume inv: "vs_inv st bs" and sz: "(0::int) \<le> sz"
  obtain r st' where st': "vs_mymalloc st sz = Some (r, st')" "vs_inv st' (snd (vs_malloc_spec sz bs))"
    "r = fst (vs_malloc_spec sz bs)" "isInitialized st \<noteq> 0 \<Longrightarrow> keeps (payload 4 bs) (myBlock st) (myBlock st')"
    using vs_malloc_any [OF inv sz] by metis
  have "\<forall>x \<in> payload 4 bs. mbytes (myBlock st') x = mbytes (myBlock st) x"
    using st'(4) inv by (auto simp: keeps_def vs_inv_def split: if_splits)
  moreover have "r = None \<and> vs_inv st' bs \<or> (\<exists>xs n ys e. bs = xs @ (n, False) # ys \<and> serves sz e n \<and>
      r = Some (4 + total xs + 4) \<and> vs_inv st' (xs @ place e n @ ys))"
    using vs_inv_wf [OF inv, THEN conjunct1] sz
  proof (cases rule: malloc_spec_cases)
    case (fit xs n ys k)
    then show ?thesis using st'(2,3) vs_extended_bounds [of sz]
      by (intro disjI2 exI [of _ xs] exI [of _ n] exI [of _ ys] exI [of _ "vs_extended sz"]) (simp add: serves_def)
  qed (use st'(2,3) in simp)
  ultimately show "\<exists>r st'. vs_mymalloc st sz = Some (r, st') \<and> (r = None \<and> vs_inv st' bs \<or>
      (\<exists>xs n ys e. bs = xs @ (n, False) # ys \<and> serves sz e n \<and> r = Some (4 + total xs + 4) \<and>
         vs_inv st' (xs @ place e n @ ys))) \<and>
      (\<forall>x \<in> payload 4 bs. mbytes (myBlock st') x = mbytes (myBlock st) x)" using st'(1) by blast
next
  fix st xs n ys assume inv: "vs_inv st (xs @ (n, True) # ys)"
  show "\<exists>st'. vs_myfree st (Some (4 + total xs + 4)) = Some st' \<and> vs_inv st' (free_block xs n ys) \<and>
      (\<forall>x \<in> payload 4 (free_block xs n ys). mbytes (myBlock st') x = mbytes (myBlock st) x)"
    by (rule vs_free_ok [OF inv vs_inv_used [OF inv]]) (auto simp: keeps_def payload_free_block)
next
  fix st bs x v assume "vs_inv st bs" "x \<in> payload 4 bs"
  then show "\<exists>st'. Some (vs_poke st x v) = Some st' \<and> vs_inv st' bs \<and>
      (\<forall>y \<in> payload 4 bs. mbytes (myBlock st') y = (if y = x then v else mbytes (myBlock st) y))"
    by (simp add: vs_poke_inv) (simp add: vs_poke_def)
qed (use vs_inv_wf in auto)

lemma vs_start_inv: "vs_inv vs_start [(4992, False)]"
  by (simp add: vs_inv_def vs_start_def)

lemma vs_run_hist: "vs_run st live \<Longrightarrow> \<exists>bs. vsc.hist st live bs"
proof (induction rule: vs_run.induct)
  case start
  show ?case using vsc.hist_start [OF vs_start_inv] by blast
next
  case (malloc st live sz p st')
  then obtain bs where "vsc.hist st live bs" by blast
  from vsc.hist_alloc [OF this malloc(2,3)] show ?case by (simp only: option.case)
next
  case (malloc_null st live sz st')
  then obtain bs where "vsc.hist st live bs" by blast
  from vsc.hist_alloc [OF this malloc_null(2,3)] show ?case by simp
next
  case (free st live p sz st')
  then show ?case using vsc.hist_free by blast
next
  case (free_null st live st')
  then show ?case by (simp add: vs_myfree_def)
next
  case (poke st live p sz x v)
  then show ?case using vsc.hist_poke by blast
qed

section \<open>Properties\<close>

text \<open>C6: from any state that stands for a block list, \<open>mymalloc\<close> returns (it never leaves the
  array and its search ends), its result is the one first fit on the block list gives, the
  new state stands for the list with that block split or taken whole, and no byte of an
  allocated payload changes.\<close>

theorem vs_mymalloc_refines:
  assumes "vs_inv st bs" "0 \<le> sz"
  shows "\<exists>st'. vs_mymalloc st sz = Some (fst (vs_malloc_spec sz bs), st') \<and>
     vs_inv st' (snd (vs_malloc_spec sz bs)) \<and> isInitialized st' \<noteq> 0 \<and>
     (isInitialized st \<noteq> 0 \<longrightarrow> keeps (payload 4 bs) (myBlock st) (myBlock st'))"
  using vs_malloc_any [OF assms] by metis

lemma vs_mymalloc_refines_witness:
  "vs_inv vs_start [(4992, False)] \<and>
   (\<exists>st'. vs_mymalloc vs_start 1 = Some (Some 8, st') \<and> vs_inv st' [(12, True), (4980, False)])"
proof -
  have "vs_malloc_spec 1 [(4992, False)] = (Some 8, [(12, True), (4980, False)])"
    by (simp add: vs_malloc_spec_def vs_extended_def place_def)
  then show ?thesis using vs_mymalloc_refines [OF vs_start_inv, of 1] vs_start_inv by auto
qed

text \<open>C12: freeing an allocated block returns, and the new state stands for the list in which the
  block is free and merged with its free neighbours; the payloads of all other allocated
  blocks keep their bytes.\<close>

theorem vs_myfree_refines:
  assumes "vs_inv st (xs @ (n, True) # ys)"
  shows "\<exists>st'. vs_myfree st (Some (8 + total xs)) = Some st' \<and> vs_inv st' (free_block xs n ys) \<and>
     keeps (payload 4 (free_block xs n ys)) (myBlock st) (myBlock st')"
proof -
  from vs_free_ok [OF assms vs_inv_used [OF assms]] show ?thesis by (metis payload_free_block)
qed

lemma vs_myfree_refines_witness:
  "\<exists>st st'. vs_mymalloc vs_start 1 = Some (Some 8, st) \<and> vs_myfree st (Some 8) = Some st' \<and>
     vs_inv st' [(4992, False)]"
proof -
  obtain st where st: "vs_mymalloc vs_start 1 = Some (Some 8, st)" "vs_inv st ([] @ (12, True) # [(4980, False)])"
    using vs_malloc_any [OF vs_start_inv, of 1]
    by (auto simp: vs_malloc_spec_def vs_extended_def place_def)
  from vs_myfree_refines [OF st(2)] obtain st' where
    "vs_myfree st (Some 8) = Some st'" "vs_inv st' (free_block [] 12 [(4980, False)])" by auto
  then show ?thesis using st(1) by (auto simp: free_block_def merge_left_def merge_right_def)
qed

text \<open>C23: in every history, the areas the client holds lie inside the array clear of every tag
  of the region ends, are 4-byte aligned, and no two of them overlap.\<close>

theorem vs_memory_safety:
  assumes "vs_run st live" "live p = Some a"
  shows "8 \<le> p \<and> p + a \<le> 4992 \<and> 4 dvd p \<and>
     (\<forall>q b. live q = Some b \<and> q \<noteq> p \<longrightarrow> p + a + 8 \<le> q \<or> q + b + 8 \<le> p)"
proof -
  obtain bs where "vsc.hist st live bs" using vs_run_hist [OF assms(1)] by blast
  from vsc.areas [OF this assms(2)] show ?thesis by simp
qed

lemma vs_run_malloc1: "\<exists>st. vs_run st [8 \<mapsto> 1]"
  using vs_malloc_any [OF vs_start_inv, of 1] vs_run.malloc [OF vs_run.start, of 1 8]
  by (auto simp: vs_malloc_spec_def vs_extended_def place_def)

lemma vs_memory_safety_witness: "\<exists>st. vs_run st [8 \<mapsto> 1] \<and> (8::int) + 1 \<le> 4992 \<and> 4 dvd (8::int)"
proof -
  obtain st where st: "vs_run st [8 \<mapsto> 1]" using vs_run_malloc1 by blast
  then show ?thesis using vs_memory_safety [OF st, of 8 1] by auto
qed

text \<open>in every history every call returns: \<open>mymalloc\<close> of any size, and \<open>myfree\<close> of any
  pointer the client holds.\<close>

theorem vs_no_fault:
  assumes "vs_run st live"
  shows "(\<forall>sz \<ge> 0. \<exists>r st'. vs_mymalloc st sz = Some (r, st')) \<and>
     (\<forall>p \<in> dom live. \<exists>st'. vs_myfree st (Some p) = Some st')"
proof -
  obtain bs where "vsc.hist st live bs" using vs_run_hist [OF assms] by blast
  note calls = vsc.calls_return [OF this]
  show ?thesis using calls(1,2) by blast
qed

lemma vs_no_fault_witness:
  "\<exists>st. vs_run st [8 \<mapsto> 1] \<and> (\<exists>r st'. vs_mymalloc st 100 = Some (r, st')) \<and>
     (\<exists>st'. vs_myfree st (Some 8) = Some st')"
proof -
  obtain st where st: "vs_run st [8 \<mapsto> 1]" using vs_run_malloc1 by blast
  show ?thesis using vs_no_fault [OF st] st by auto
qed

text \<open>C31: what the client stored in one area survives every call on the others: neither
  \<open>mymalloc\<close> nor \<open>myfree\<close> of another pointer changes a byte of an area the client holds.\<close>

theorem vs_contents_kept:
  assumes "vs_run st live" "live q = Some b" "q \<le> x" "x < q + b"
  shows "(\<forall>sz r st'. 0 \<le> sz \<and> vs_mymalloc st sz = Some (r, st') \<longrightarrow>
            mbytes (myBlock st') x = mbytes (myBlock st) x) \<and>
     (\<forall>p st'. p \<in> dom live \<and> p \<noteq> q \<and> vs_myfree st (Some p) = Some st' \<longrightarrow>
            mbytes (myBlock st') x = mbytes (myBlock st) x)"
proof -
  obtain bs where "vsc.hist st live bs" using vs_run_hist [OF assms(1)] by blast
  note kept = vsc.contents_kept [OF this assms(2-4)]
  show ?thesis using kept(1,2) by blast
qed

lemma vs_contents_kept_witness:
  "\<exists>st r st'. vs_run st [8 \<mapsto> 1] \<and> vs_mymalloc st 100 = Some (r, st') \<and>
     mbytes (myBlock st') 8 = mbytes (myBlock st) 8"
proof -
  obtain st bs where st: "vs_run st [8 \<mapsto> 1]" "vs_inv st bs"
    using vs_run_malloc1 vs_run_hist unfolding vsc.hist_def by blast
  obtain r st' where m: "vs_mymalloc st 100 = Some (r, st')"
    using vs_malloc_any [OF st(2), of 100] by (metis zero_le_numeral)
  have "\<forall>sz r st'. 0 \<le> sz \<and> vs_mymalloc st sz = Some (r, st') \<longrightarrow>
      mbytes (myBlock st') 8 = mbytes (myBlock st) 8"
    using vs_contents_kept [OF st(1), of 8 1 8] by auto
  then have "mbytes (myBlock st') 8 = mbytes (myBlock st) 8" using m by (metis zero_le_numeral)
  then show ?thesis using st(1) m by blast
qed

text \<open>nothing leaks and nothing stays fragmented: when the client has freed everything it
  was given, the array is again one free block of 4992 bytes.\<close>

theorem vs_all_freed:
  assumes "vs_run st Map.empty"
  shows "vs_inv st [(4992, False)]"
proof -
  obtain bs where h: "vsc.hist st Map.empty bs" using vs_run_hist [OF assms] by blast
  then show ?thesis using vsc.all_freed [OF h] by (simp add: vsc.hist_def)
qed

lemma vs_all_freed_witness:
  "\<exists>st. vs_run st Map.empty \<and> isInitialized st \<noteq> 0 \<and> vs_inv st [(4992, False)]"
proof -
  obtain st where st: "vs_mymalloc vs_start 0 = Some (None, st)" "isInitialized st \<noteq> 0"
    using vs_malloc_any [OF vs_start_inv, of 0] by (auto simp: vs_malloc_spec_def)
  have "vs_run st Map.empty" using vs_run.malloc_null [OF vs_run.start _ st(1)] by simp
  then show ?thesis using vs_all_freed [of st] st(2) by blast
qed

text \<open>Allocating and freeing again gives the block list back.\<close>

theorem vs_malloc_free_roundtrip:
  assumes "vs_inv st bs" "coalesced bs" "0 \<le> sz" "vs_mymalloc st sz = Some (Some p, st')"
  shows "\<exists>st''. vs_myfree st' (Some p) = Some st'' \<and> vs_inv st'' bs"
proof -
  have st': "vs_inv st' (snd (vs_malloc_spec sz bs))" "Some p = fst (vs_malloc_spec sz bs)"
      "isInitialized st' \<noteq> 0"
    using vs_malloc_any [OF assms(1,3)] assms(4) by auto
  have wf: "wf_blocks bs" using vs_inv_wf [OF assms(1)] by simp
  from wf assms(3) show ?thesis
  proof (cases rule: malloc_spec_cases)
    case null
    then show ?thesis using st'(2) by simp
  next
    case (fit xs n ys k)
    let ?pl = "place (vs_extended sz) n"
    have pl: "?pl = (fst (hd ?pl), True) # tl ?pl" by (simp add: place_def)
    have inv: "vs_inv st' (xs @ (fst (hd ?pl), True) # (tl ?pl @ ys))"
      using st'(1) fit(1) pl by (metis append_Cons snd_conv)
    have p: "p = 8 + total xs" using st'(2) fit(1) by simp
    obtain st'' where "vs_myfree st' (Some p) = Some st''"
      "vs_inv st'' (free_block xs (fst (hd ?pl)) (tl ?pl @ ys))"
      using vs_free_ok [OF inv st'(3)] p by metis
    then show ?thesis using free_place [of xs n ys "vs_extended sz"] assms(2) fit(2) by auto
  qed
qed

lemma vs_malloc_free_roundtrip_witness:
  "\<exists>st st'. vs_mymalloc vs_start 40 = Some (Some 8, st) \<and> vs_myfree st (Some 8) = Some st' \<and>
     vs_inv st' [(4992, False)]"
proof -
  obtain st where st: "vs_mymalloc vs_start 40 = Some (Some 8, st)"
    using vs_malloc_any [OF vs_start_inv, of 40]
    by (auto simp: vs_malloc_spec_def vs_extended_def place_def)
  then show ?thesis using vs_malloc_free_roundtrip [OF vs_start_inv _ _ st] by auto
qed

text \<open>C32: \<open>mymalloc\<close> fails only for a reason: it returns NULL exactly when the size is 0, exceeds
  the array, or no free block holds the request rounded up to a multiple of four plus
  its two tags.\<close>

theorem vs_malloc_null_iff:
  assumes "vs_inv st bs" "0 \<le> sz"
  shows "(\<exists>st'. vs_mymalloc st sz = Some (None, st')) \<longleftrightarrow>
     sz = 0 \<or> 5000 < sz \<or> (\<forall>(n, a) \<in> set bs. a \<or> n < (sz + 3) div 4 * 4 + 8)"
proof -
  have e: "vs_extended sz = (sz + 3) div 4 * 4 + 8"
    unfolding vs_extended_def Let_def by presburger
  have "(\<exists>st'. vs_mymalloc st sz = Some (None, st')) \<longleftrightarrow> fst (vs_malloc_spec sz bs) = None"
    using vs_malloc_any [OF assms] by (metis option.inject prod.inject)
  also have "\<dots> \<longleftrightarrow> sz = 0 \<or> 5000 < sz \<or> first_fit (vs_extended sz) bs = None"
    by (auto simp: vs_malloc_spec_def split: option.splits)
  finally show ?thesis by (simp add: first_fit_None e)
qed

lemma vs_malloc_null_iff_witness: "\<exists>st'. vs_mymalloc vs_start 4985 = Some (None, st')"
  using vs_malloc_null_iff [OF vs_start_inv, of 4985] by simp

text \<open>\<open>myfree\<close> ignores NULL and every address outside \<open>myBlock + 4\<close> to \<open>myBlock + 4992\<close>:
  the state does not change.\<close>

theorem vs_myfree_rejects:
  "vs_myfree st None = Some st \<and>
   (\<forall>p. -2147483648 \<le> p \<and> p < 2147483648 \<and> (p < 4 \<or> 4992 < p) \<longrightarrow> vs_myfree st (Some p) = Some st)"
proof (intro conjI allI impI)
  fix p :: int assume p: "-2147483648 \<le> p \<and> p < 2147483648 \<and> (p < 4 \<or> 4992 < p)"
  then have "u64 p > 4992 \<or> p < 4" by (auto simp: u64_id)
  then show "vs_myfree st (Some p) = Some st" using p by (auto simp: vs_myfree_def s32_id)
qed (simp add: vs_myfree_def)

lemma vs_myfree_rejects_witness:
  "vs_myfree vs_start (Some 5000) = Some vs_start"
  using vs_myfree_rejects [of vs_start] by simp

end
