(* ===== verification/VS_Memgrind.thy ===== *)
theory VS_Memgrind
  imports VS_History
begin

section \<open>The workloads of VSmymalloc/memgrind.c\<close>

text \<open>
  The six workloads and their repetition, without the clock and the printing.  Each keeps the pointers it is given in an
  array, a list here, and hands them back from the front.  The numbers \<open>rand\<close> delivers, which
  are not negative, are an argument; a workload that needs more of them than there are has no result.
\<close>

subsection \<open>Allocating and freeing in loops\<close>

fun malloc_each :: "int list \<Rightarrow> vs_state \<Rightarrow> (int option list \<times> vs_state) option" where
  "malloc_each [] s = Some ([], s)"
| "malloc_each (sz # szs) s =
     do { (p, s) \<leftarrow> vs_mymalloc s sz; (pointers, s) \<leftarrow> malloc_each szs s; Some (p # pointers, s) }"

fun free_each :: "int option list \<Rightarrow> vs_state \<Rightarrow> vs_state option" where
  "free_each [] s = Some s"
| "free_each (p # pointers) s = do { s \<leftarrow> vs_myfree s p; free_each pointers s }"

text \<open>The first workload counts its successes in an \<open>int\<close> that is never initialised: what it holds before is
  the argument \<open>count\<close>, and an increment past the greatest \<open>int\<close> is undefined.\<close>

fun malloc_count :: "nat \<Rightarrow> int \<Rightarrow> vs_state \<Rightarrow> (int option list \<times> int \<times> vs_state) option" where
  "malloc_count 0 count s = Some ([], count, s)"
| "malloc_count (Suc n) count s =
     do { (p, s) \<leftarrow> vs_mymalloc s 1;
          count \<leftarrow> (if p \<noteq> None then if count < 2147483647 then Some (count + 1) else None else Some count);
          (pointers, count, s) \<leftarrow> malloc_count n count s;
          Some (p # pointers, count, s) }"

definition grindA :: "int \<Rightarrow> vs_state \<Rightarrow> vs_state option" where
  "grindA count s = do { (pointers, count, s) \<leftarrow> malloc_count 3000 count s; free_each pointers s }"

definition grindB :: "vs_state \<Rightarrow> vs_state option" where
  "grindB s = do { (test, s) \<leftarrow> vs_mymalloc s 1; free_each (replicate 3000 test) s }"

text \<open>The loops that draw whether to allocate or to free; \<open>pointers\<close> has \<open>mallocCount\<close> elements.\<close>

fun grindC_loop :: "int list \<Rightarrow> int option list \<Rightarrow> nat \<Rightarrow> vs_state \<Rightarrow> (int option list \<times> nat \<times> vs_state) option" where
  "grindC_loop rs pointers freeCount s =
     (if length pointers < 3000 then
        case rs of
          [] \<Rightarrow> None
        | r # rs \<Rightarrow>
            if r mod 2 = 0 then
              do { (p, s) \<leftarrow> vs_mymalloc s 1; grindC_loop rs (pointers @ [p]) freeCount s }
            else if freeCount < length pointers then
              do { s \<leftarrow> vs_myfree s (pointers ! freeCount); grindC_loop rs pointers (freeCount + 1) s }
            else grindC_loop rs pointers freeCount s
      else Some (pointers, freeCount, s))"

declare grindC_loop.simps [simp del]

definition grindC :: "int list \<Rightarrow> vs_state \<Rightarrow> vs_state option" where
  "grindC rs s =
     do { (pointers, freeCount, s) \<leftarrow> grindC_loop rs [] 0 s; free_each (drop freeCount pointers) s }"

text \<open>The second workload of this kind draws the size as well.\<close>

function grindD_loop :: "int list \<Rightarrow> int option list \<Rightarrow> nat \<Rightarrow> vs_state \<Rightarrow> (int option list \<times> nat \<times> vs_state) option" where
  "grindD_loop rs pointers freeCount s =
     (if length pointers < 3000 then
        case rs of
          [] \<Rightarrow> None
        | r # rs \<Rightarrow>
            if r mod 2 = 0 then
              (case rs of
                 [] \<Rightarrow> None
               | q # rs \<Rightarrow> do { (p, s) \<leftarrow> vs_mymalloc s (q mod 3000); grindD_loop rs (pointers @ [p]) freeCount s })
            else if freeCount < length pointers then
              do { s \<leftarrow> vs_myfree s (pointers ! freeCount); grindD_loop rs pointers (freeCount + 1) s }
            else grindD_loop rs pointers freeCount s
      else Some (pointers, freeCount, s))"
  by pat_completeness auto
termination by (relation "measure (\<lambda>(rs, _). length rs)") auto

declare grindD_loop.simps [simp del]

definition grindD :: "int list \<Rightarrow> vs_state \<Rightarrow> vs_state option" where
  "grindD rs s =
     do { (pointers, freeCount, s) \<leftarrow> grindD_loop rs [] 0 s; free_each (drop freeCount pointers) s }"

text \<open>Each round draws a type and a count; for one remainder of five the element of the array keeps what it
  had before, \<open>pointer\<close>, and it is freed all the same.\<close>

definition grindE_element :: "int \<Rightarrow> int \<Rightarrow> int option \<Rightarrow> vs_state \<Rightarrow> (int option \<times> vs_state) option" where
  "grindE_element r q pointer s =
     (let randNum = r mod 5; randSize = q mod 20 in
      if randNum = 0 then vs_mymalloc s (randSize * 4)
      else if randNum = 1 then vs_mymalloc s (randSize * 4)
      else if randNum = 3 then vs_mymalloc s (randSize * 1)
      else if randNum = 4 then vs_mymalloc s (randSize * 8)
      else Some (pointer, s))"

fun grindE_fill :: "int list \<Rightarrow> int option list \<Rightarrow> vs_state \<Rightarrow> (int option list \<times> vs_state) option" where
  "grindE_fill rs [] s = Some ([], s)"
| "grindE_fill (r # q # rs) (pointer # rest) s =
     do { (p, s) \<leftarrow> grindE_element r q pointer s; (pointers, s) \<leftarrow> grindE_fill rs rest s; Some (p # pointers, s) }"
| "grindE_fill _ (_ # _) s = None"

text \<open>\<open>junk\<close> is what the array of 3000 pointers holds before.\<close>

definition grindE :: "int list \<Rightarrow> int option list \<Rightarrow> vs_state \<Rightarrow> vs_state option" where
  "grindE rs junk s = do { (pointers, s) \<leftarrow> grindE_fill rs junk s; free_each pointers s }"

definition grindF :: "vs_state \<Rightarrow> vs_state option" where
  "grindF s =
     do { (pointers, s) \<leftarrow> malloc_each (map (\<lambda>i. 10 + 5 * int i) [0..<1500]) s;
          s \<leftarrow> free_each pointers s;
          (pointers, s) \<leftarrow> malloc_each (map (\<lambda>i. 10 + 5 * 1500 - 5 * int i) [0..<1500]) s;
          free_each pointers s }"

text \<open>The functions that repeat a workload a hundred times.\<close>

fun repeat_grind :: "(vs_state \<Rightarrow> vs_state option) list \<Rightarrow> vs_state \<Rightarrow> vs_state option" where
  "repeat_grind [] s = Some s"
| "repeat_grind (g # gs) s = do { s \<leftarrow> g s; repeat_grind gs s }"

definition callGrindA :: "int list \<Rightarrow> vs_state \<Rightarrow> vs_state option" where
  "callGrindA counts = repeat_grind (map grindA counts)"

definition callGrindB :: "vs_state \<Rightarrow> vs_state option" where
  "callGrindB = repeat_grind (replicate 100 grindB)"

definition callGrindC :: "int list list \<Rightarrow> vs_state \<Rightarrow> vs_state option" where
  "callGrindC rss = repeat_grind (map grindC rss)"

definition callGrindD :: "int list list \<Rightarrow> vs_state \<Rightarrow> vs_state option" where
  "callGrindD rss = repeat_grind (map grindD rss)"

definition callGrindE :: "(int list \<times> int option list) list \<Rightarrow> vs_state \<Rightarrow> vs_state option" where
  "callGrindE rss = repeat_grind (map (\<lambda>(rs, junk). grindE rs junk) rss)"

definition callGrindF :: "vs_state \<Rightarrow> vs_state option" where
  "callGrindF = repeat_grind (replicate 100 grindF)"

text \<open>The main program asks for ten bytes and writes a string of three letters into them.\<close>

definition vs_main :: "vs_state \<Rightarrow> vs_state option" where
  "vs_main s =
     do { (array, s) \<leftarrow> vs_mymalloc s 10;
          a \<leftarrow> array;
          m \<leftarrow> store8 (myBlock s) a 104;
          m \<leftarrow> store8 m (a + 1) 101;
          m \<leftarrow> store8 m (a + 2) 108;
          m \<leftarrow> store8 m (a + 3) 0;
          Some (s\<lparr>myBlock := m\<rparr>) }"

subsection \<open>Every workload gives back what it took\<close>

lemma vs_release [simp]: "vsc.release s r = vs_myfree s r"
proof -
  have "vs_myfree s None = Some s" by (simp add: vs_myfree_def)
  then show ?thesis by (cases r) (simp_all only: vsc.release_def option.case)
qed

lemmas owns_step = vsc.owns_alloc vsc.owns_release [unfolded vs_release]

lemma malloc_each_ok:
  assumes "vsc.owns s rs" "\<forall>sz \<in> set szs. 0 \<le> sz"
  shows "\<exists>ps s'. malloc_each szs s = Some (ps, s') \<and> vsc.owns s' (rs @ ps)"
  using assms
proof (induction szs arbitrary: s rs)
  case (Cons sz szs)
  obtain r s1 where s1: "vs_mymalloc s sz = Some (r, s1)" "vsc.owns s1 (rs @ [r])"
    using owns_step(1) [OF Cons.prems(1), of sz] Cons.prems(2) by auto
  obtain ps s' where "malloc_each szs s1 = Some (ps, s')" "vsc.owns s' ((rs @ [r]) @ ps)"
    using Cons.IH [OF s1(2)] Cons.prems(2) by auto
  then show ?case using s1(1) by auto
qed simp

lemma free_each_ok: "vsc.owns s ps \<Longrightarrow> \<exists>s'. free_each ps s = Some s' \<and> vsc.owns s' []"
proof (induction ps arbitrary: s)
  case (Cons p ps)
  then obtain s1 where "vs_myfree s p = Some s1" "vsc.owns s1 ps" using owns_step(2) by blast
  then show ?case using Cons.IH by auto
qed simp

text \<open>A workload that is given one free block leaves one free block.\<close>

definition restores :: "(vs_state \<Rightarrow> vs_state option) \<Rightarrow> bool" where
  "restores g \<longleftrightarrow> (\<forall>s. vs_inv s [(4992, False)] \<longrightarrow> (\<exists>s'. g s = Some s' \<and> vs_inv s' [(4992, False)]))"

lemma owns_iff: "vsc.owns s [] \<longleftrightarrow> vs_inv s [(4992, False)]"
  using vsc.owns_start vsc.owns_end by blast

lemma restoresI: "(\<And>s. vsc.owns s [] \<Longrightarrow> \<exists>s'. g s = Some s' \<and> vsc.owns s' []) \<Longrightarrow> restores g"
  by (simp add: restores_def owns_iff)

lemma restoresD: "restores g \<Longrightarrow> vsc.owns s [] \<Longrightarrow> \<exists>s'. g s = Some s' \<and> vsc.owns s' []"
  by (simp add: restores_def owns_iff)

lemma restores_repeat: "\<forall>g \<in> set gs. restores g \<Longrightarrow> restores (repeat_grind gs)"
proof (induction gs)
  case (Cons g gs)
  show ?case
  proof (rule restoresI)
    fix s assume "vsc.owns s []"
    then obtain s1 where "g s = Some s1" "vsc.owns s1 []" using restoresD [of g s] Cons.prems by auto
    then show "\<exists>s'. repeat_grind (g # gs) s = Some s' \<and> vsc.owns s' []"
      using restoresD [OF Cons.IH, of s1] Cons.prems by auto
  qed
qed (simp add: restores_def)

lemma each_then_free:
  assumes "vsc.owns s []" "\<forall>sz \<in> set szs. 0 \<le> sz"
  shows "\<exists>ps s1 s'. malloc_each szs s = Some (ps, s1) \<and> free_each ps s1 = Some s' \<and> vsc.owns s' []"
  using malloc_each_ok [OF assms] free_each_ok by fastforce

text \<open>The counting loop is the plain one when the counter has room for its increments.\<close>

lemma malloc_count_each:
  assumes "malloc_each (replicate n 1) s = Some (ps, s')" "count + int n \<le> 2147483647"
  shows "\<exists>count'. malloc_count n count s = Some (ps, count', s')"
  using assms
proof (induction n arbitrary: s ps count)
  case (Suc n)
  then obtain p s1 ps1 where 1: "vs_mymalloc s 1 = Some (p, s1)" "malloc_each (replicate n 1) s1 = Some (ps1, s')" "ps = p # ps1"
    by (auto simp: bind_eq_Some_conv)
  have "\<exists>count''. malloc_count n count' s1 = Some (ps1, count'', s')" if "count' \<le> count + 1" for count'
    by (rule Suc.IH [OF 1(2)]) (use that Suc.prems(2) in simp)
  then obtain c0 c1 where "malloc_count n count s1 = Some (ps1, c0, s')" "malloc_count n (count + 1) s1 = Some (ps1, c1, s')"
    by (meson order_refl zle_add1_eq_le less_add_one order_less_imp_le)
  then show ?case using 1 Suc.prems(2) by auto
qed simp

lemma grindA_restores:
  assumes "count + 3000 \<le> 2147483647"
  shows "restores (grindA count)"
proof (rule restoresI)
  fix s assume "vsc.owns s []"
  from each_then_free [OF this, of "replicate 3000 1"] obtain ps s1 s2 where
    1: "malloc_each (replicate 3000 1) s = Some (ps, s1)" "free_each ps s1 = Some s2" "vsc.owns s2 []" by auto
  obtain count' where "malloc_count 3000 count s = Some (ps, count', s1)"
    using malloc_count_each [OF 1(1)] assms by auto
  then have "grindA count s = free_each ps s1" unfolding grindA_def by (simp only: bind.bind_lunit prod.case)
  then show "\<exists>s'. grindA count s = Some s' \<and> vsc.owns s' []" using 1(2,3) by simp
qed

lemma grindF_restores: "restores grindF"
proof (rule restoresI)
  fix s assume "vsc.owns s []"
  from each_then_free [OF this, of "map (\<lambda>i. 10 + 5 * int i) [0..<1500]"] obtain ps s1 s2 where
    1: "malloc_each (map (\<lambda>i. 10 + 5 * int i) [0..<1500]) s = Some (ps, s1)" "free_each ps s1 = Some s2" "vsc.owns s2 []"
    by auto
  from each_then_free [OF 1(3), of "map (\<lambda>i. 10 + 5 * 1500 - 5 * int i) [0..<1500]"] obtain qs s3 s4 where
    2: "malloc_each (map (\<lambda>i. 10 + 5 * 1500 - 5 * int i) [0..<1500]) s2 = Some (qs, s3)" "free_each qs s3 = Some s4" "vsc.owns s4 []"
    by auto
  show "\<exists>s'. grindF s = Some s' \<and> vsc.owns s' []"
    unfolding grindF_def 1(1) bind.bind_lunit prod.case 1(2) 2(1) using 2(2,3) by simp
qed

text \<open>The drawing loops: enough even numbers fill the array, and what is not yet freed is owned.\<close>

lemma grindC_loop_ok:
  assumes "vsc.owns s (drop fc ps)" "fc \<le> length ps" "length ps \<le> 3000" "3000 \<le> length ps + length (filter even rs)"
  shows "\<exists>ps' fc' s'. grindC_loop rs ps fc s = Some (ps', fc', s') \<and> vsc.owns s' (drop fc' ps')"
  using assms
proof (induction rs arbitrary: ps fc s)
  case Nil
  then show ?case by (simp add: grindC_loop.simps)
next
  case (Cons r rs)
  note unfold = grindC_loop.simps [of "r # rs" ps fc s]
  show ?case
  proof (cases "length ps < 3000")
    case False
    then show ?thesis using Cons.prems(1) by (simp add: unfold)
  next
    case True
    consider (take) "even r" | (give) "odd r" "fc < length ps" | (skip) "odd r" "\<not> fc < length ps"
      using Cons.prems(2) by linarith
    then show ?thesis
    proof cases
      case take
      obtain p s1 where s1: "vs_mymalloc s 1 = Some (p, s1)" "vsc.owns s1 (drop fc ps @ [p])"
        using owns_step(1) [OF Cons.prems(1), of 1] by auto
      have "vsc.owns s1 (drop fc (ps @ [p]))" using s1(2) Cons.prems(2) by simp
      from Cons.IH [OF this] show ?thesis
        using True take s1(1) Cons.prems by (simp add: unfold even_iff_mod_2_eq_zero)
    next
      case give
      then have "drop fc ps = ps ! fc # drop (fc + 1) ps" by (simp add: Cons_nth_drop_Suc)
      then obtain s1 where s1: "vs_myfree s (ps ! fc) = Some s1" "vsc.owns s1 (drop (fc + 1) ps)"
        using owns_step(2) Cons.prems(1) by metis
      from Cons.IH [OF this(2)] show ?thesis
        using True give s1(1) Cons.prems by (simp add: unfold even_iff_mod_2_eq_zero)
    next
      case skip
      then show ?thesis
        using True Cons.IH [OF Cons.prems(1-3)] Cons.prems(4) by (simp add: unfold even_iff_mod_2_eq_zero)
    qed
  qed
qed

text \<open>The number of allocations for which the fourth workload finds its numbers.\<close>

fun draws :: "int list \<Rightarrow> nat" where
  "draws (r # q # rs) = (if even r then Suc (draws rs) else draws (q # rs))"
| "draws _ = 0"

lemma grindD_loop_ok:
  assumes "vsc.owns s (drop fc ps)" "fc \<le> length ps" "length ps \<le> 3000" "3000 \<le> length ps + draws rs"
  shows "\<exists>ps' fc' s'. grindD_loop rs ps fc s = Some (ps', fc', s') \<and> vsc.owns s' (drop fc' ps')"
  using assms
proof (induction rs arbitrary: ps fc s rule: draws.induct)
  case (1 r q rs)
  note unfold = grindD_loop.simps [of "r # q # rs" ps fc s]
  show ?case
  proof (cases "length ps < 3000")
    case False
    then show ?thesis using 1(3) by (simp add: unfold)
  next
    case True
    consider (take) "even r" | (give) "odd r" "fc < length ps" | (skip) "odd r" "\<not> fc < length ps"
      using 1(4) by linarith
    then show ?thesis
    proof cases
      case take
      obtain p s1 where s1: "vs_mymalloc s (q mod 3000) = Some (p, s1)" "vsc.owns s1 (drop fc ps @ [p])"
        using owns_step(1) [OF 1(3), of "q mod 3000"] by auto
      have "vsc.owns s1 (drop fc (ps @ [p]))" using s1(2) 1(4) by simp
      from 1(1) [OF take this] show ?thesis
        using True take s1(1) 1(4-6) by (simp add: unfold even_iff_mod_2_eq_zero)
    next
      case give
      then have "drop fc ps = ps ! fc # drop (fc + 1) ps" by (simp add: Cons_nth_drop_Suc)
      then obtain s1 where s1: "vs_myfree s (ps ! fc) = Some s1" "vsc.owns s1 (drop (fc + 1) ps)"
        using owns_step(2) 1(3) by metis
      from 1(2) [OF _ this(2)] show ?thesis
        using True give s1(1) 1(4-6) by (simp add: unfold even_iff_mod_2_eq_zero)
    next
      case skip
      then show ?thesis
        using True 1(2) [OF _ 1(3-5)] 1(6) by (simp add: unfold even_iff_mod_2_eq_zero)
    qed
  qed
qed (simp_all add: grindD_loop.simps)

lemma grindC_restores:
  assumes "3000 \<le> length (filter even rs)"
  shows "restores (grindC rs)"
proof (rule restoresI)
  fix s assume "vsc.owns s []"
  then obtain ps fc s1 where "grindC_loop rs [] 0 s = Some (ps, fc, s1)" "vsc.owns s1 (drop fc ps)"
    using grindC_loop_ok [of s 0 "[]" rs] assms by auto
  then show "\<exists>s'. grindC rs s = Some s' \<and> vsc.owns s' []" using free_each_ok by (simp add: grindC_def)
qed

lemma grindD_restores:
  assumes "3000 \<le> draws rs"
  shows "restores (grindD rs)"
proof (rule restoresI)
  fix s assume "vsc.owns s []"
  then obtain ps fc s1 where "grindD_loop rs [] 0 s = Some (ps, fc, s1)" "vsc.owns s1 (drop fc ps)"
    using grindD_loop_ok [of s 0 "[]" rs] assms by auto
  then show "\<exists>s'. grindD rs s = Some s' \<and> vsc.owns s' []" using free_each_ok by (simp add: grindD_def)
qed

text \<open>One pointer freed three thousand times: from the second time on the block is free and has no free
  neighbour, so that nothing changes.\<close>

lemma free_again:
  assumes "vs_inv s [(4992, False)]" "isInitialized s \<noteq> 0"
  shows "\<exists>s'. free_each (replicate n (Some 8)) s = Some s' \<and> vs_inv s' [(4992, False)]"
  using assms
proof (induction n arbitrary: s)
  case (Suc n)
  obtain s1 where "vs_myfree s (Some 8) = Some s1" "vs_inv s1 [(4992, False)]" "isInitialized s1 \<noteq> 0"
    using vs_free_ok [of s "[]" 4992 False "[]"] Suc.prems by (auto simp: free_block_def merge_left_def merge_right_def)
  then show ?case using Suc.IH by simp
qed simp

lemma grindB_restores: "restores grindB"
  unfolding restores_def
proof (intro allI impI)
  fix s assume inv: "vs_inv s [(4992, False)]"
  have spec: "vs_malloc_spec 1 [(4992, False)] = (Some 8, [(12, True), (4980, False)])"
    by (simp add: vs_malloc_spec_def vs_extended_def place_def)
  obtain s1 where s1: "vs_mymalloc s 1 = Some (Some 8, s1)" "vs_inv s1 ([] @ (12, True) # [(4980, False)])" "isInitialized s1 \<noteq> 0"
    using vs_malloc_any [OF inv, of 1] spec by auto
  obtain s2 where s2: "vs_myfree s1 (Some 8) = Some s2" "vs_inv s2 [(4992, False)]" "isInitialized s2 \<noteq> 0"
    using vs_free_ok [OF s1(2,3)] by (auto simp: free_block_def merge_left_def merge_right_def)
  obtain s3 where s3: "free_each (replicate 2999 (Some 8)) s2 = Some s3" "vs_inv s3 [(4992, False)]"
    using free_again [OF s2(2,3)] by blast
  have "replicate 3000 (Some (8::int)) = Some 8 # replicate 2999 (Some 8)"
    using replicate_Suc [of 2999 "Some (8::int)"] by (simp only: numeral_3_eq_3 [symmetric] Suc_numeral semiring_norm)
  then have "grindB s = Some s3" unfolding grindB_def s1(1) bind.bind_lunit prod.case using s2(1) s3(1) by simp
  then show "\<exists>s'. grindB s = Some s' \<and> vs_inv s' [(4992, False)]" using s3(2) by blast
qed

text \<open>The fifth workload, for an array whose elements that are not assigned are NULL.\<close>

lemma owns_null: "vsc.owns s rs \<Longrightarrow> vsc.owns s (rs @ [None])"
  unfolding vsc.owns_def by auto

lemma grindE_element_ok:
  assumes "vsc.owns s rs" "r mod 5 = 2 \<longrightarrow> pointer = None"
  shows "\<exists>p s'. grindE_element r q pointer s = Some (p, s') \<and> vsc.owns s' (rs @ [p])"
proof -
  have a: "\<exists>p s'. vs_mymalloc s (q mod 20 * c) = Some (p, s') \<and> vsc.owns s' (rs @ [p])" if "0 \<le> c" for c
    using owns_step(1) [OF assms(1), of "q mod 20 * c"] that by simp
  have "r mod 5 \<in> {0, 1, 2, 3, 4}" using pos_mod_sign [of 5 r] pos_mod_bound [of 5 r] by auto
  then show ?thesis
    using a [of 1] a [of 4] a [of 8] owns_null [OF assms(1)] assms(2) by (auto simp: grindE_element_def Let_def)
qed

lemma grindE_fill_ok:
  assumes "vsc.owns s os" "2 * length junk \<le> length rs" "\<forall>i < length junk. rs ! (2 * i) mod 5 = 2 \<longrightarrow> junk ! i = None"
  shows "\<exists>ps s'. grindE_fill rs junk s = Some (ps, s') \<and> vsc.owns s' (os @ ps)"
  using assms
proof (induction junk arbitrary: rs os s)
  case (Cons pointer rest)
  obtain r q rs' where rs: "rs = r # q # rs'"
    using Cons.prems(2) by (cases rs; cases "tl rs") auto
  have "r mod 5 = 2 \<longrightarrow> pointer = None" using Cons.prems(3) [rule_format, of 0] rs by simp
  then obtain p s1 where s1: "grindE_element r q pointer s = Some (p, s1)" "vsc.owns s1 (os @ [p])"
    using grindE_element_ok [OF Cons.prems(1)] by blast
  have "\<forall>i < length rest. rs' ! (2 * i) mod 5 = 2 \<longrightarrow> rest ! i = None"
    using Cons.prems(3) rs by fastforce
  then obtain ps s' where "grindE_fill rs' rest s1 = Some (ps, s')" "vsc.owns s' ((os @ [p]) @ ps)"
    using Cons.IH [OF s1(2), of rs'] Cons.prems(2) rs by auto
  then show ?case using rs s1(1) by auto
qed simp

lemma grindE_restores:
  assumes "6000 \<le> length rs"
  shows "restores (grindE rs (replicate 3000 None))"
proof (rule restoresI)
  fix s assume "vsc.owns s []"
  then obtain ps s1 where "grindE_fill rs (replicate 3000 None) s = Some (ps, s1)" "vsc.owns s1 ([] @ ps)"
    using grindE_fill_ok [of s "[]" "replicate 3000 None" rs] assms by auto
  then show "\<exists>s'. grindE rs (replicate 3000 None) s = Some s' \<and> vsc.owns s' []" using free_each_ok by (simp add: grindE_def)
qed

lemma vs_main_ok:
  assumes "vs_inv s [(4992, False)]"
  shows "\<exists>s'. vs_main s = Some s' \<and> map (mbytes (myBlock s')) [8, 9, 10, 11] = [104, 101, 108, 0]"
proof -
  have spec: "vs_malloc_spec 10 [(4992, False)] = (Some 8, [(20, True), (4972, False)])"
    by (simp add: vs_malloc_spec_def vs_extended_def place_def)
  obtain s1 where s1: "vs_mymalloc s 10 = Some (Some 8, s1)" "vs_inv s1 [(20, True), (4972, False)]"
    using vs_malloc_any [OF assms, of 10] spec by auto
  then have "msize (myBlock s1) = 5000" by (simp add: vs_inv_def)
  then show ?thesis using s1(1) by (simp add: vs_main_def store8_def in_mem_def)
qed

subsection \<open>All workloads\<close>

lemma draws_zeros: "draws (replicate (n + n) 0) = n"
  by (induction n) simp_all

text \<open>C37: From an array that is one free block the repetitions of each memgrind workload return and leave one
  free block again: the allocator does not lose or damage anything however allocations of failing and
  succeeding sizes and frees are mixed, and freeing one pointer three thousand times does no harm.  This is so
  under what the workloads do not ensure themselves: in every round of the first one its
  uninitialised counter has room for 3000 increments, in every round of the drawing ones the numbers suffice
  for 3000 allocations, and in every round of the fifth one all elements of its uninitialised pointer array are NULL.
  The main program finds room for its ten bytes and leaves its string there.\<close>

theorem vs_workloads_restore:
  assumes "vs_inv s [(4992, False)]"
    and "\<forall>count \<in> set counts. count + 3000 \<le> 2147483647"
    and "\<forall>rs \<in> set rss. 3000 \<le> length (filter even rs)" "\<forall>rs \<in> set qss. 3000 \<le> draws rs"
    and "\<forall>(rs, junk) \<in> set ess. 6000 \<le> length rs \<and> junk = replicate 3000 None"
  shows "(\<forall>g \<in> {callGrindA counts, callGrindB, callGrindC rss, callGrindD qss, callGrindE ess, callGrindF}.
      \<exists>s'. g s = Some s' \<and> vs_inv s' [(4992, False)]) \<and>
    (\<exists>s'. vs_main s = Some s' \<and> map (mbytes (myBlock s')) [8, 9, 10, 11] = [104, 101, 108, 0])"
proof (intro conjI ballI)
  show "\<exists>s'. vs_main s = Some s' \<and> map (mbytes (myBlock s')) [8, 9, 10, 11] = [104, 101, 108, 0]"
    by (rule vs_main_ok [OF assms(1)])
next
  fix g assume "g \<in> {callGrindA counts, callGrindB, callGrindC rss, callGrindD qss, callGrindE ess, callGrindF}"
  moreover have "restores (callGrindA counts)"
    unfolding callGrindA_def by (rule restores_repeat) (use assms(2) grindA_restores in auto)
  moreover have "restores callGrindB" unfolding callGrindB_def by (rule restores_repeat) (simp add: grindB_restores)
  moreover have "restores (callGrindC rss)"
    unfolding callGrindC_def by (rule restores_repeat) (use assms(3) grindC_restores in auto)
  moreover have "restores (callGrindD qss)"
    unfolding callGrindD_def by (rule restores_repeat) (use assms(4) grindD_restores in auto)
  moreover have "restores (callGrindE ess)"
    unfolding callGrindE_def by (rule restores_repeat) (use assms(5) grindE_restores in fastforce)
  moreover have "restores callGrindF" unfolding callGrindF_def by (rule restores_repeat) (simp add: grindF_restores)
  ultimately have "restores g" by blast
  then show "\<exists>s'. g s = Some s' \<and> vs_inv s' [(4992, False)]" using assms(1) by (simp add: restores_def)
qed

theorem vs_workloads_restore_witness:
  "\<exists>s t. callGrindD (replicate 100 (replicate 6000 0)) vs_start = Some s \<and> vs_inv s [(4992, False)] \<and>
    callGrindA (replicate 100 7) vs_start = Some t \<and> vs_inv t [(4992, False)]"
proof -
  have "draws (replicate 6000 (0::int)) = 3000" using draws_zeros [of 3000] by simp
  then have "\<forall>rs \<in> set (replicate 100 (replicate 6000 (0::int))). 3000 \<le> draws rs" by auto
  from vs_workloads_restore [OF vs_start_inv _ _ this, of "replicate 100 7" "[]" "[]"] show ?thesis by simp
qed

end
