(* ===== verification/Thread_Queue.thy ===== *)
theory Thread_Queue
  imports OS_Prelude
begin

section \<open>The thread queues of my_pthread.c\<close>

text \<open>
  \<open>enqueue\<close>, \<open>dequeue\<close> and \<open>peek\<close> of Assignment1/my_pthread.c on nodes in an explicit
  store, as the code mutates the \<open>next\<close> fields of shared nodes.  A queue is reached through
  the pointer to its most recent node; the oldest node is the end of the \<open>next\<close> chain.
  Using a pointer that names no node is undefined behaviour and yields \<open>None\<close>, as does a walk
  along a cycle.  The interface \<open>fifo\<close> states the laws of a first-in first-out queue of nodes.
\<close>

type_synonym addr = int

record queue_node =
  priority :: int
  thread :: addr
  nextn :: "addr option"
  waiting_id :: int
  join_value :: "addr option"

type_synonym nodes = "addr \<rightharpoonup> queue_node"

subsection \<open>Operations\<close>

definition enqueue :: "nodes \<Rightarrow> addr \<Rightarrow> addr option \<Rightarrow> int \<Rightarrow> (nodes \<times> addr option \<times> int) option" where
  "enqueue h new_node tail queue_size =
     do { nd \<leftarrow> h new_node;
          if tail = None then
            Some (h(new_node \<mapsto> nd\<lparr>nextn := None\<rparr>), Some new_node, s32 (queue_size + 1))
          else
            Some (h(new_node \<mapsto> nd\<lparr>nextn := tail\<rparr>), Some new_node, s32 (queue_size + 1)) }"

text \<open>The walk of \<open>dequeue\<close> with its trailing pointer \<open>prev\<close>, and that of \<open>peek\<close>.\<close>

partial_function (option) dequeue_walk :: "nodes \<Rightarrow> addr option \<Rightarrow> addr \<Rightarrow> (addr option \<times> addr) option" where
  "dequeue_walk h prev iter =
     do { nd \<leftarrow> h iter;
          (case nextn nd of
             Some nx \<Rightarrow> dequeue_walk h (Some iter) nx
           | None \<Rightarrow> Some (prev, iter)) }"

definition dequeue ::
    "nodes \<Rightarrow> addr option \<Rightarrow> int \<Rightarrow> (addr option \<times> nodes \<times> addr option \<times> int) option" where
  "dequeue h tail queue_size =
     (case tail of
        None \<Rightarrow> Some (None, h, tail, queue_size)
      | Some t \<Rightarrow>
          do { (prev, iter) \<leftarrow> dequeue_walk h None t;
               (h, tail) \<leftarrow> (case prev of
                   Some q \<Rightarrow> do { nd \<leftarrow> h q; Some (h(q \<mapsto> nd\<lparr>nextn := None\<rparr>), tail) }
                 | None \<Rightarrow> Some (h, None));
               Some (Some iter, h, tail, s32 (queue_size - 1)) })"

partial_function (option) peek_walk :: "nodes \<Rightarrow> addr \<Rightarrow> addr option" where
  "peek_walk h iter =
     do { nd \<leftarrow> h iter;
          (case nextn nd of Some nx \<Rightarrow> peek_walk h nx | None \<Rightarrow> Some iter) }"

definition peek :: "nodes \<Rightarrow> addr option \<Rightarrow> addr option option" where
  "peek h tail =
     (case tail of
        None \<Rightarrow> Some None
      | Some t \<Rightarrow> do { iter \<leftarrow> peek_walk h t; Some (Some iter) })"

text \<open>\<open>printQueue\<close> visits the nodes from the newest to the oldest; the model returns the
  threads whose string it prints.\<close>

partial_function (option) printQueue :: "nodes \<Rightarrow> addr option \<Rightarrow> addr list option" where
  "printQueue h iter =
     (case iter of
        None \<Rightarrow> Some []
      | Some a \<Rightarrow> do { nd \<leftarrow> h a; ts \<leftarrow> printQueue h (nextn nd); Some (thread nd # ts) })"

declare dequeue_walk.simps [code] peek_walk.simps [code] printQueue.simps [code]

subsection \<open>Queues as lists\<close>

text \<open>The \<open>next\<close> chain from a pointer, and the queue it stands for, oldest node first.\<close>

fun chain :: "nodes \<Rightarrow> addr option \<Rightarrow> addr list \<Rightarrow> bool" where
  "chain h p [] \<longleftrightarrow> p = None"
| "chain h p (a # as) \<longleftrightarrow> p = Some a \<and> (\<exists>nd. h a = Some nd \<and> chain h (nextn nd) as)"

definition queue :: "nodes \<Rightarrow> addr option \<Rightarrow> addr list \<Rightarrow> bool" where
  "queue h p q \<longleftrightarrow> chain h p (rev q)"

lemma chain_unique: "chain h p as \<Longrightarrow> chain h p bs \<Longrightarrow> as = bs"
proof (induction as arbitrary: p bs)
  case Nil
  then show ?case by (cases bs) auto
next
  case (Cons a as)
  then show ?case by (cases bs) auto
qed

lemma chain_suffix: "chain h p (as @ bs) \<Longrightarrow> \<exists>r. chain h r bs"
  by (induction as arbitrary: p) auto

lemma chain_nonrep: "chain h (Some a) (a # as) \<Longrightarrow> a \<notin> set as"
proof
  assume c: "chain h (Some a) (a # as)" and "a \<in> set as"
  then obtain bs cs where as: "as = bs @ a # cs" by (auto dest: split_list)
  then obtain r where r: "chain h r (a # cs)" using c chain_suffix [of h "Some a" "a # bs" "a # cs"] by auto
  then have "r = Some a" by simp
  with r have "a # cs = a # as" using c chain_unique by blast
  then have "length cs = length as" by simp
  then show False using as by simp
qed

lemma chain_distinct: "chain h p as \<Longrightarrow> distinct as"
proof (induction as arbitrary: p)
  case (Cons a as)
  then have "a \<notin> set as" using chain_nonrep [of h a as] by auto
  with Cons show ?case by auto
qed simp

lemma chain_frame: "chain h p as \<Longrightarrow> (\<And>a. a \<in> set as \<Longrightarrow> h' a = h a) \<Longrightarrow> chain h' p as"
  by (induction as arbitrary: p) auto

lemma chain_dom: "chain h p as \<Longrightarrow> a \<in> set as \<Longrightarrow> a \<in> dom h"
  by (induction as arbitrary: p) auto

lemma queue_simps [simp]: "queue h None q \<longleftrightarrow> q = []" "queue h p [] \<longleftrightarrow> p = None"
  by (auto simp: queue_def) (cases q rule: rev_cases; simp)

text \<open>Nodes that agree up to their \<open>next\<close> fields.\<close>

definition same_nodes :: "nodes \<Rightarrow> nodes \<Rightarrow> bool" where
  "same_nodes h h' \<longleftrightarrow>
     (\<forall>a. map_option (nextn_update (\<lambda>_. None)) (h' a) = map_option (nextn_update (\<lambda>_. None)) (h a))"

lemma same_nodes_refl [simp]: "same_nodes h h"
  by (simp add: same_nodes_def)

lemma same_nodes_trans: "same_nodes h h' \<Longrightarrow> same_nodes h' h'' \<Longrightarrow> same_nodes h h''"
  by (simp add: same_nodes_def)

lemma same_nodes_upd: "h a = Some nd \<Longrightarrow> same_nodes h (h(a \<mapsto> nd\<lparr>nextn := n\<rparr>))"
  by (simp add: same_nodes_def)

lemma same_nodes_thread:
  assumes "same_nodes h h'" "h a = Some nd"
  shows "\<exists>nd'. h' a = Some nd' \<and> thread nd' = thread nd"
proof -
  obtain nd' where "h' a = Some nd'" "nd'\<lparr>nextn := None\<rparr> = nd\<lparr>nextn := None\<rparr>"
    using assms by (auto simp: same_nodes_def dest!: spec [of _ a])
  then show ?thesis by (metis queue_node.select_convs(2) queue_node.surjective queue_node.update_convs(3))
qed

subsection \<open>The queue interface\<close>

locale fifo =
  fixes enq :: "nodes \<Rightarrow> addr \<Rightarrow> addr option \<Rightarrow> int \<Rightarrow> (nodes \<times> addr option \<times> int) option"
    and deq :: "nodes \<Rightarrow> addr option \<Rightarrow> int \<Rightarrow> (addr option \<times> nodes \<times> addr option \<times> int) option"
    and front :: "nodes \<Rightarrow> addr option \<Rightarrow> addr option option"
  assumes enq: "queue h p q \<Longrightarrow> a \<in> dom h \<Longrightarrow> a \<notin> set q \<Longrightarrow>
      \<exists>h'. enq h a p n = Some (h', Some a, s32 (n + 1)) \<and> queue h' (Some a) (q @ [a]) \<and>
        (\<forall>b. b \<noteq> a \<longrightarrow> h' b = h b) \<and> same_nodes h h'"
    and deq: "queue h p (x # q) \<Longrightarrow>
      \<exists>h'. deq h p n = Some (Some x, h', if q = [] then None else p, s32 (n - 1)) \<and>
        queue h' (if q = [] then None else p) q \<and> (\<forall>b. b \<notin> set q \<longrightarrow> h' b = h b) \<and> same_nodes h h'"
    and deq_empty: "deq h None n = Some (None, h, None, n)"
    and front: "queue h p q \<Longrightarrow> front h p = Some (if q = [] then None else Some (hd q))"
begin

text \<open>Taking the oldest node and putting it back makes it the newest; nodes of other
  queues are untouched.\<close>

lemma rotate:
  assumes q: "queue h p (x # q)"
  obtains h1 p1 n1 h2 where "deq h p n = Some (Some x, h1, p1, n1)" "enq h1 x p1 n1 = Some (h2, Some x, s32 (s32 (n - 1) + 1))"
    "queue h2 (Some x) (q @ [x])" "\<And>b. b \<notin> set (x # q) \<Longrightarrow> h2 b = h b" "same_nodes h h2"
proof -
  let ?p1 = "if q = [] then None else p"
  obtain h1 where d: "deq h p n = Some (Some x, h1, ?p1, s32 (n - 1))" "queue h1 ?p1 q"
    "\<forall>b. b \<notin> set q \<longrightarrow> h1 b = h b" "same_nodes h h1"
    using deq [OF q] by blast
  have "x \<notin> set q" "x \<in> dom h" using q chain_distinct [of h p "rev (x # q)"] chain_dom [of h p "rev (x # q)" x]
    by (auto simp: queue_def)
  moreover from this have "x \<in> dom h1" using d(3) by (metis domIff)
  ultimately obtain h2 where e: "enq h1 x ?p1 (s32 (n - 1)) = Some (h2, Some x, s32 (s32 (n - 1) + 1))"
    "queue h2 (Some x) (q @ [x])" "\<forall>b. b \<noteq> x \<longrightarrow> h2 b = h1 b" "same_nodes h1 h2"
    using enq [OF d(2)] by blast
  show thesis
    by (rule that [OF d(1) e(1,2)]) (use d e same_nodes_trans in auto)
qed

end

subsection \<open>The implementation satisfies the interface\<close>

lemma dequeue_walk_chain:
  "chain h (Some a) (a # as) \<Longrightarrow>
     dequeue_walk h prev a = Some (if as = [] then prev else Some (last (butlast (a # as))), last (a # as))"
proof (induction as arbitrary: a prev)
  case Nil
  then show ?case by (subst dequeue_walk.simps) auto
next
  case (Cons b as)
  then obtain nd where nd: "h a = Some nd" "nextn nd = Some b" "chain h (Some b) (b # as)" by auto
  have "dequeue_walk h prev a = dequeue_walk h (Some a) b"
    using nd(1,2) by (subst dequeue_walk.simps) simp
  then show ?case using Cons.IH [OF nd(3), of "Some a"] by simp
qed

lemma peek_walk_chain: "chain h (Some a) (a # as) \<Longrightarrow> peek_walk h a = Some (last (a # as))"
proof (induction as arbitrary: a)
  case Nil
  then show ?case by (subst peek_walk.simps) auto
next
  case (Cons b as)
  then obtain nd where nd: "h a = Some nd" "nextn nd = Some b" "chain h (Some b) (b # as)" by auto
  then show ?case using Cons.IH by (subst peek_walk.simps) simp
qed

lemma printQueue_chain:
  "chain h p as \<Longrightarrow> printQueue h p = Some (map (\<lambda>a. thread (the (h a))) as)"
  by (induction as arbitrary: p) (subst printQueue.simps; force)+

lemma chain_cut:
  "chain h p (as @ [b, c]) \<Longrightarrow> h b = Some nd \<Longrightarrow> chain (h(b \<mapsto> nd\<lparr>nextn := None\<rparr>)) p (as @ [b])"
proof (induction as arbitrary: p)
  case (Cons a as)
  then have "a \<noteq> b" using chain_distinct [of h p "(a # as) @ [b, c]"] by auto
  with Cons show ?case by auto
qed auto

lemma dequeue_law:
  assumes "queue h p (x # q)"
  shows "\<exists>h'. dequeue h p n = Some (Some x, h', if q = [] then None else p, s32 (n - 1)) \<and>
    queue h' (if q = [] then None else p) q \<and> (\<forall>b. b \<notin> set q \<longrightarrow> h' b = h b) \<and> same_nodes h h'"
proof (cases q)
  case Nil
  then have "p = Some x" "dequeue_walk h None x = Some (None, x)"
    using assms dequeue_walk_chain [of h x "[]" None] by (auto simp: queue_def)
  then show ?thesis using Nil by (simp add: dequeue_def)
next
  case (Cons y q')
  then have c: "chain h p (rev q' @ [y, x])" using assms by (simp add: queue_def)
  then obtain a as where a: "p = Some a" "rev q' @ [y, x] = a # as" "as \<noteq> []"
    by (cases "rev q'") auto
  have "last (a # as) = x" "last (butlast (a # as)) = y"
    using a(2) by (metis append_is_Nil_conv last_append last_snoc list.distinct(1) append_Cons append_Nil append_assoc,
        metis a(2) append_Cons append_Nil append_assoc butlast_snoc last_snoc)
  then have w: "dequeue_walk h None a = Some (Some y, x)"
    using dequeue_walk_chain [of h a as None] c a by simp
  obtain nd where nd: "h y = Some nd" using chain_dom [OF c, of y] by auto
  have "queue (h(y \<mapsto> nd\<lparr>nextn := None\<rparr>)) p q"
    using chain_cut [OF c nd] Cons by (simp add: queue_def)
  then show ?thesis
    using w nd a(1) Cons same_nodes_upd [of h y nd None]
    by (intro exI [of _ "h(y \<mapsto> nd\<lparr>nextn := None\<rparr>)"]) (simp add: dequeue_def)
qed

lemma enqueue_law:
  assumes "queue h p q" "a \<in> dom h" "a \<notin> set q"
  shows "\<exists>h'. enqueue h a p n = Some (h', Some a, s32 (n + 1)) \<and> queue h' (Some a) (q @ [a]) \<and>
    (\<forall>b. b \<noteq> a \<longrightarrow> h' b = h b) \<and> same_nodes h h'"
proof -
  obtain nd where nd: "h a = Some nd" using assms(2) by auto
  let ?h = "h(a \<mapsto> nd\<lparr>nextn := p\<rparr>)"
  have "chain ?h p (rev q)" by (rule chain_frame [of h]) (use assms in \<open>auto simp: queue_def\<close>)
  then have "queue ?h (Some a) (q @ [a])" by (simp add: queue_def)
  moreover have "enqueue h a p n = Some (?h, Some a, s32 (n + 1))" using nd by (simp add: enqueue_def)
  ultimately show ?thesis using same_nodes_upd [of h a nd p] nd by (intro exI [of _ ?h]) simp
qed

interpretation tq: fifo enqueue dequeue peek
proof unfold_locales
  show "peek h p = Some (if q = [] then None else Some (hd q))" if "queue h p q" for h p q
  proof (cases "rev q")
    case (Cons a as)
    then have "p = Some a" "last (a # as) = hd q"
      using that by (auto simp: queue_def) (metis Cons hd_rev rev_rev_ident list.distinct(1))
    then show ?thesis using that Cons peek_walk_chain [of h a as] by (auto simp: queue_def peek_def)
  qed (use that in \<open>simp add: peek_def\<close>)
  show "dequeue h None n = Some (None, h, None, n)" for h n
    by (simp add: dequeue_def)
qed (rule enqueue_law, assumption+, rule dequeue_law)

end
