(* ===== verification/Sched_State.thy ===== *)
theory Sched_State
  imports Thread_Queue
begin

section \<open>Scheduler state and queue handling\<close>

text \<open>
  The globals of my_pthread.c and the parts of \<open>my_pthread_yield\<close>, \<open>my_pthread_create\<close> and
  \<open>my_pthread_exit\<close> that work on the two ready queues.  Assignment1 and Assignment2 share
  this text; Assignment2 extends the state with its page tables, so the record is
  extensible and the operations are stated for every extension.  Void pointers are
  integers, 0 being NULL.  Memory the library obtains for its structures is represented by
  typed stores; using a pointer that is not in its store is undefined behaviour (\<open>None\<close>).
\<close>

datatype my_pthread_state = ACTIVE | WAITING | COMPLETED

record my_pthread =
  thread_id :: int
  tcontext :: addr
  tstate :: my_pthread_state
  return_value :: "int option" \<comment> \<open>\<open>None\<close> while it has not been assigned\<close>

text \<open>What the library sets in a \<open>ucontext_t\<close>; the main thread's context keeps the process
  stack (\<open>None\<close>), and \<open>uc_entry\<close> holds the function and argument of \<open>makecontext\<close>.\<close>

record ucontext =
  ss_sp :: "addr option"
  ss_size :: int
  uc_entry :: "(int \<times> int) option"

record sched =
  threads :: "addr \<rightharpoonup> my_pthread"
  contexts :: "addr \<rightharpoonup> ucontext"
  stacks :: "addr \<rightharpoonup> int"
  qnodes :: nodes
  current :: "addr option"
  queue_priority_1 :: "addr option"
  queue_priority_2 :: "addr option"
  wait_queue :: "addr option"
  priority1_size :: int
  priority2_size :: int
  wait_size :: int
  threadIDS :: int
  sched_initialized :: int
  timer_usec :: int
  itimer :: int
  vtimer :: int

text \<open>How a call hands over the processor.\<close>

datatype switch = Return | Setcontext addr | Swapcontext addr addr

text \<open>\<open>timer_usec\<close> is what the code puts into both \<open>tv_usec\<close> fields of \<open>timer\<close>; \<open>itimer\<close> and \<open>vtimer\<close> are the
  periods of the process timers \<open>ITIMER_REAL\<close>, which Assignment1 sets, and \<open>ITIMER_VIRTUAL\<close>, which
  Assignment2 sets (0: disarmed).  \<open>setitimer\<close> fails and changes nothing when a \<open>tv_usec\<close> field is not
  below one million.\<close>

definition setitimer :: "int \<Rightarrow> 'a sched_scheme \<Rightarrow> 'a sched_scheme" where
  "setitimer usec s = (if 0 \<le> usec \<and> usec < 1000000 then s\<lparr>itimer := usec\<rparr> else s)"

definition arm_timer :: "int \<Rightarrow> 'a sched_scheme \<Rightarrow> 'a sched_scheme" where
  "arm_timer pr s = setitimer (500000 * pr) (s\<lparr>timer_usec := 500000 * pr\<rparr>)"

subsection \<open>Moving the running thread's node\<close>

definition requeue_p1 :: "'a sched_scheme \<Rightarrow> 'a sched_scheme option" where
  "requeue_p1 s =
     do { (r, h, q, n) \<leftarrow> dequeue (qnodes s) (queue_priority_1 s) (priority1_size s);
          let s = s\<lparr>qnodes := h, queue_priority_1 := q, priority1_size := n\<rparr>;
          current_thread_node \<leftarrow> r;
          nd \<leftarrow> qnodes s current_thread_node;
          t \<leftarrow> threads s (thread nd);
          if tstate t = ACTIVE \<and> tstate t \<noteq> COMPLETED then
            do { let s = s\<lparr>threads := (threads s)(thread nd \<mapsto> t\<lparr>tstate := ACTIVE\<rparr>),
                           qnodes := (qnodes s)(current_thread_node \<mapsto> nd\<lparr>priority := 2\<rparr>)\<rparr>;
                 (h, q, n) \<leftarrow> enqueue (qnodes s) current_thread_node (queue_priority_2 s) (priority2_size s);
                 Some (s\<lparr>qnodes := h, queue_priority_2 := q, priority2_size := n\<rparr>) }
          else Some s }"

definition requeue_p2 :: "'a sched_scheme \<Rightarrow> 'a sched_scheme option" where
  "requeue_p2 s =
     do { (r, h, q, n) \<leftarrow> dequeue (qnodes s) (queue_priority_2 s) (priority2_size s);
          let s = s\<lparr>qnodes := h, queue_priority_2 := q, priority2_size := n\<rparr>;
          current_thread_node \<leftarrow> r;
          nd \<leftarrow> qnodes s current_thread_node;
          t \<leftarrow> threads s (thread nd);
          if tstate t = ACTIVE \<and> tstate t \<noteq> COMPLETED then
            do { let s = s\<lparr>threads := (threads s)(thread nd \<mapsto> t\<lparr>tstate := ACTIVE\<rparr>),
                           qnodes := (qnodes s)(current_thread_node \<mapsto> nd\<lparr>priority := 2\<rparr>)\<rparr>;
                 (h, q, n) \<leftarrow> enqueue (qnodes s) current_thread_node (queue_priority_2 s) (priority2_size s);
                 Some (s\<lparr>qnodes := h, queue_priority_2 := q, priority2_size := n\<rparr>) }
          else Some s }"

text \<open>The next thread: the front of queue 1, else of queue 2.  The code dereferences the node
  it finds, so finding none is a fault.\<close>

definition pick_next :: "'a sched_scheme \<Rightarrow> (int \<times> addr \<times> 'a sched_scheme) option" where
  "pick_next s =
     do { n1 \<leftarrow> peek (qnodes s) (queue_priority_1 s);
          (pr, node) \<leftarrow> (case n1 of
              Some nd \<Rightarrow> Some (1, Some nd)
            | None \<Rightarrow> do { n2 \<leftarrow> peek (qnodes s) (queue_priority_2 s); Some (2, n2) });
          next_thread_node \<leftarrow> node;
          nd \<leftarrow> qnodes s next_thread_node;
          t \<leftarrow> threads s (thread nd);
          Some (pr, thread nd, s\<lparr>threads := (threads s)(thread nd \<mapsto> t\<lparr>tstate := ACTIVE\<rparr>)\<rparr>) }"

definition pick_next_p2 :: "'a sched_scheme \<Rightarrow> (int \<times> addr \<times> 'a sched_scheme) option" where
  "pick_next_p2 s =
     do { node \<leftarrow> peek (qnodes s) (queue_priority_2 s);
          next_thread_node \<leftarrow> node;
          nd \<leftarrow> qnodes s next_thread_node;
          t \<leftarrow> threads s (thread nd);
          Some (2, thread nd, s\<lparr>threads := (threads s)(thread nd \<mapsto> t\<lparr>tstate := ACTIVE\<rparr>)\<rparr>) }"

subsection \<open>Removing the running thread\<close>

text \<open>\<open>my_pthread_exit\<close> up to its final yield: the front node of queue 1 is removed when it is
  the running thread's, otherwise the front node of queue 2, whichever thread it names.\<close>

definition finish_node :: "'a sched_scheme \<Rightarrow> addr \<Rightarrow> int \<Rightarrow> 'a sched_scheme option" where
  "finish_node s removed_node value_ptr =
     do { nd \<leftarrow> qnodes s removed_node;
          t \<leftarrow> threads s (thread nd);
          let t = t\<lparr>tstate := COMPLETED\<rparr>;
          let t = (if value_ptr \<noteq> 0 then t\<lparr>return_value := Some value_ptr\<rparr> else t);
          Some (s\<lparr>threads := (threads s)(thread nd \<mapsto> t), qnodes := (qnodes s)(removed_node := None)\<rparr>) }"

definition exit_dequeue :: "'a sched_scheme \<Rightarrow> int \<Rightarrow> 'a sched_scheme option" where
  "exit_dequeue s value_ptr =
     do { h1 \<leftarrow> peek (qnodes s) (queue_priority_1 s);
          h2 \<leftarrow> peek (qnodes s) (queue_priority_2 s);
          current_thread \<leftarrow> (case h1 of None \<Rightarrow> Some None
            | Some _ \<Rightarrow> do { c \<leftarrow> current s; t \<leftarrow> threads s c; Some (Some (thread_id t)) });
          is1 \<leftarrow> (case h1 of None \<Rightarrow> Some False
            | Some n \<Rightarrow> do { nd \<leftarrow> qnodes s n; t \<leftarrow> threads s (thread nd);
                            Some (current_thread = Some (thread_id t)) });
          if is1 then
            do { (r, h, q, n) \<leftarrow> dequeue (qnodes s) (queue_priority_1 s) (priority1_size s);
                 removed_node \<leftarrow> r;
                 finish_node (s\<lparr>qnodes := h, queue_priority_1 := q, priority1_size := n\<rparr>) removed_node value_ptr }
          else if h2 \<noteq> None then
            do { (r, h, q, n) \<leftarrow> dequeue (qnodes s) (queue_priority_2 s) (priority2_size s);
                 removed_node \<leftarrow> r;
                 finish_node (s\<lparr>qnodes := h, queue_priority_2 := q, priority2_size := n\<rparr>) removed_node value_ptr }
          else Some s }"

subsection \<open>Searching the queues\<close>

text \<open>The loop bodies dequeue a node and put it back unless it is the running thread's.
  \<open>search_pq\<close> looks at queue 2 only when queue 1 is NULL.\<close>

fun search_loop1 :: "nat \<Rightarrow> 'a sched_scheme \<Rightarrow> (addr option \<times> 'a sched_scheme) option" where
  "search_loop1 0 s = Some (None, s)"
| "search_loop1 (Suc i) s =
     do { (r, h, q, n) \<leftarrow> dequeue (qnodes s) (queue_priority_1 s) (priority1_size s);
          let s = s\<lparr>qnodes := h, queue_priority_1 := q, priority1_size := n\<rparr>;
          node \<leftarrow> r;
          nd \<leftarrow> qnodes s node;
          t \<leftarrow> threads s (thread nd);
          c \<leftarrow> current s;
          ct \<leftarrow> threads s c;
          if thread_id t = thread_id ct then Some (Some node, s)
          else do { (h, q, n) \<leftarrow> enqueue (qnodes s) node (queue_priority_1 s) (priority1_size s);
                    search_loop1 i (s\<lparr>qnodes := h, queue_priority_1 := q, priority1_size := n\<rparr>) } }"

fun search_loop2 :: "nat \<Rightarrow> 'a sched_scheme \<Rightarrow> (addr option \<times> 'a sched_scheme) option" where
  "search_loop2 0 s = Some (None, s)"
| "search_loop2 (Suc i) s =
     do { (r, h, q, n) \<leftarrow> dequeue (qnodes s) (queue_priority_2 s) (priority2_size s);
          let s = s\<lparr>qnodes := h, queue_priority_2 := q, priority2_size := n\<rparr>;
          node \<leftarrow> r;
          nd \<leftarrow> qnodes s node;
          t \<leftarrow> threads s (thread nd);
          c \<leftarrow> current s;
          ct \<leftarrow> threads s c;
          if thread_id t = thread_id ct then Some (Some node, s)
          else do { (h, q, n) \<leftarrow> enqueue (qnodes s) node (queue_priority_2 s) (priority2_size s);
                    search_loop2 i (s\<lparr>qnodes := h, queue_priority_2 := q, priority2_size := n\<rparr>) } }"

definition search_pq :: "'a sched_scheme \<Rightarrow> (addr option \<times> 'a sched_scheme) option" where
  "search_pq s =
     (if queue_priority_1 s \<noteq> None then search_loop1 (nat (priority1_size s)) s
      else if queue_priority_2 s \<noteq> None then search_loop2 (nat (priority2_size s)) s
      else Some (None, s))"

fun search_wq_loop :: "nat \<Rightarrow> 'a sched_scheme \<Rightarrow> (int \<times> 'a sched_scheme) option" where
  "search_wq_loop 0 s = Some (0, s)"
| "search_wq_loop (Suc i) s =
     do { (r, h, q, n) \<leftarrow> dequeue (qnodes s) (wait_queue s) (wait_size s);
          let s = s\<lparr>qnodes := h, wait_queue := q, wait_size := n\<rparr>;
          node \<leftarrow> r;
          nd \<leftarrow> qnodes s node;
          t \<leftarrow> threads s (thread nd);
          c \<leftarrow> current s;
          ct \<leftarrow> threads s c;
          (h, q, n) \<leftarrow> enqueue (qnodes s) node (wait_queue s) (wait_size s);
          let s = s\<lparr>qnodes := h, wait_queue := q, wait_size := n\<rparr>;
          if thread_id t = thread_id ct then Some (1, s) else search_wq_loop i s }"

definition search_wq :: "'a sched_scheme \<Rightarrow> (int \<times> 'a sched_scheme) option" where
  "search_wq s =
     (if wait_queue s = None then Some (0, s) else search_wq_loop (nat (wait_size s)) s)"

end
