(* ===== verification/Ready_Queues.thy ===== *)
theory Ready_Queues
  imports Sched_State "HOL-Library.Multiset"
begin

section \<open>Two-level round robin: specification and representation\<close>

text \<open>
  The abstract scheduler works on the running thread and two lists of threads.  \<open>ready_rep\<close>
  relates a concrete state to two lists of queue nodes and their threads; the lemmas show what
  \<open>requeue_p1\<close>, \<open>requeue_p2\<close>, \<open>pick_next\<close> and \<open>exit_dequeue\<close> do to these lists.  They hold for every
  extension of the scheduler state, so both versions of the library use them.
\<close>

subsection \<open>Abstract scheduler\<close>

type_synonym ready = "addr option \<times> addr list \<times> addr list"

fun yield_spec :: "ready \<Rightarrow> ready" where
  "yield_spec (c, t # T1, T2) =
     (if c = Some t then (Some (hd (T1 @ T2 @ [t])), T1, T2 @ [t]) else (Some t, t # T1, T2))"
| "yield_spec (c, [], t # T2) =
     (if c = Some t then (Some (hd (T2 @ [t])), [], T2 @ [t]) else (Some t, [], t # T2))"
| "yield_spec (c, [], []) = (c, [], [])"

definition ready_threads :: "ready \<Rightarrow> addr list" where
  "ready_threads r = fst (snd r) @ snd (snd r)"

text \<open>The thread that runs is the front of queue 1, or of queue 2 when queue 1 is empty.\<close>

definition runs_front :: "ready \<Rightarrow> bool" where
  "runs_front r \<longleftrightarrow> (ready_threads r \<noteq> [] \<longrightarrow> fst r = Some (hd (ready_threads r)))"

lemma yield_spec_mset: "mset (ready_threads (yield_spec r)) = mset (ready_threads r)"
  by (cases r rule: yield_spec.cases) (auto simp: ready_threads_def)

lemma yield_spec_runs_front: "runs_front (yield_spec r)"
  by (cases r rule: yield_spec.cases) (auto simp: ready_threads_def runs_front_def)

text \<open>Once the running thread is the front, each yield moves it to the end of queue 2, so the
  ready list rotates.\<close>

lemma yield_spec_rotate:
  assumes "runs_front r"
  shows "ready_threads (yield_spec r) = rotate1 (ready_threads r)"
  using assms by (cases r rule: yield_spec.cases) (auto simp: ready_threads_def runs_front_def)

lemma yield_spec_iter:
  assumes "runs_front r" "ready_threads r \<noteq> []"
  shows "ready_threads ((yield_spec ^^ n) r) = rotate n (ready_threads r) \<and>
    fst ((yield_spec ^^ n) r) = Some (ready_threads r ! (n mod length (ready_threads r)))"
proof (induction n)
  case 0
  then show ?case using assms by (simp add: runs_front_def hd_conv_nth)
next
  case (Suc n)
  let ?r = "(yield_spec ^^ n) r"
  have rf: "runs_front ?r"
    using assms Suc by (simp add: runs_front_def hd_rotate_conv_nth)
  have e: "ready_threads (yield_spec ?r) = rotate (Suc n) (ready_threads r)"
    using yield_spec_rotate [OF rf] Suc by simp
  moreover have "fst (yield_spec ?r) = Some (hd (ready_threads (yield_spec ?r)))"
    using yield_spec_runs_front [of ?r] e assms by (simp add: runs_front_def)
  ultimately show ?case using assms hd_rotate_conv_nth [of "ready_threads r" "Suc n"] by simp
qed

subsection \<open>Representation\<close>

definition node_thread :: "nodes \<Rightarrow> addr \<Rightarrow> addr" where
  "node_thread h a = thread (the (h a))"

definition tid :: "(addr \<rightharpoonup> my_pthread) \<Rightarrow> addr \<Rightarrow> int" where
  "tid th t = thread_id (the (th t))"

definition thread_ok :: "(addr \<rightharpoonup> my_pthread) \<Rightarrow> (addr \<rightharpoonup> ucontext) \<Rightarrow> addr \<Rightarrow> bool" where
  "thread_ok th cx t \<longleftrightarrow> (case th t of None \<Rightarrow> False
     | Some r \<Rightarrow> tstate r = ACTIVE \<and> tcontext r \<in> dom cx)"

definition threads_ok :: "(addr \<rightharpoonup> my_pthread) \<Rightarrow> (addr \<rightharpoonup> ucontext) \<Rightarrow> addr list \<Rightarrow> bool" where
  "threads_ok th cx T \<longleftrightarrow> (\<forall>t\<in>set T. thread_ok th cx t) \<and> distinct (map (tid th) T)"

lemma threads_ok_perm: "threads_ok th cx T \<Longrightarrow> mset T' = mset T \<Longrightarrow> threads_ok th cx T'"
  unfolding threads_ok_def using mset_eq_setD mset_eq_imp_distinct_iff mset_map by metis

definition ready_rep :: "'a sched_scheme \<Rightarrow> addr list \<Rightarrow> addr list \<Rightarrow> addr list \<Rightarrow> addr list \<Rightarrow> bool" where
  "ready_rep s q1 q2 T1 T2 \<longleftrightarrow>
     queue (qnodes s) (queue_priority_1 s) q1 \<and> queue (qnodes s) (queue_priority_2 s) q2 \<and>
     set q1 \<inter> set q2 = {} \<and> T1 = map (node_thread (qnodes s)) q1 \<and> T2 = map (node_thread (qnodes s)) q2 \<and>
     priority1_size s = int (length q1) \<and> priority2_size s = int (length q2) \<and>
     int (length q1 + length q2) < 2147483647 \<and>
     threads_ok (threads s) (contexts s) (T1 @ T2)"

definition sched_abs :: "'a sched_scheme \<Rightarrow> ready" where
  "sched_abs s = (current s,
     rev (the (printQueue (qnodes s) (queue_priority_1 s))),
     rev (the (printQueue (qnodes s) (queue_priority_2 s))))"

lemma queue_printQueue: "queue h p q \<Longrightarrow> rev (the (printQueue h p)) = map (node_thread h) q"
  by (simp add: queue_def printQueue_chain node_thread_def rev_map)

lemma ready_rep_current [simp]: "ready_rep (s\<lparr>current := c\<rparr>) q1 q2 T1 T2 = ready_rep s q1 q2 T1 T2"
  by (simp add: ready_rep_def)

lemma ready_rep_abs: "ready_rep s q1 q2 T1 T2 \<Longrightarrow> sched_abs s = (current s, T1, T2)"
  by (simp add: ready_rep_def sched_abs_def queue_printQueue)

lemma same_nodes_node_thread: "same_nodes h h' \<Longrightarrow> a \<in> dom h \<Longrightarrow> node_thread h' a = node_thread h a"
  using same_nodes_thread by (fastforce simp: node_thread_def)

lemma same_nodes_dom: "same_nodes h h' \<Longrightarrow> dom h' = dom h"
  unfolding same_nodes_def dom_def by (metis None_eq_map_option_iff)

lemma queue_dom: "queue h p q \<Longrightarrow> a \<in> set q \<Longrightarrow> a \<in> dom h"
  using chain_dom [of h p "rev q" a] by (simp add: queue_def)

lemma queue_distinct: "queue h p q \<Longrightarrow> distinct q"
  using chain_distinct [of h p "rev q"] by (simp add: queue_def)

lemma queue_frame: "queue h p q \<Longrightarrow> (\<And>a. a \<in> set q \<Longrightarrow> h' a = h a) \<Longrightarrow> queue h' p q"
  unfolding queue_def by (rule chain_frame) auto

text \<open>States that differ in the nodes and the two queue pointers and sizes only.\<close>

definition queues_set :: "'a sched_scheme \<Rightarrow> 'a sched_scheme \<Rightarrow> bool" where
  "queues_set s s' \<longleftrightarrow> s' = s\<lparr>qnodes := qnodes s', queue_priority_1 := queue_priority_1 s',
     queue_priority_2 := queue_priority_2 s', priority1_size := priority1_size s',
     priority2_size := priority2_size s'\<rparr> \<and> dom (qnodes s') = dom (qnodes s)"

lemma upd_same: "f a = Some b \<Longrightarrow> f(a \<mapsto> b) = f"
  by auto

lemma active_id: "tstate r = ACTIVE \<Longrightarrow> r\<lparr>tstate := ACTIVE\<rparr> = r"
  by simp

lemma thread_okE:
  assumes "thread_ok th cx t"
  obtains r where "th t = Some r" "tstate r = ACTIVE" "tcontext r \<in> dom cx"
  using assms by (auto simp: thread_ok_def split: option.splits)

lemma queue_front_node:
  assumes "queue h p (x # q)" "node_thread h x = t"
  obtains nd where "h x = Some nd" "thread nd = t"
  using queue_dom [OF assms(1), of x] assms(2) by (auto simp: node_thread_def)

text \<open>Taking the front node of one queue, marking it and appending it to a queue over the
  remaining nodes.\<close>

lemma requeue_nodes:
  assumes q: "queue h p (x # q)" and nd: "h x = Some nd"
    and q': "\<And>h1. (\<And>a. a \<notin> set q \<Longrightarrow> h1 a = h a) \<Longrightarrow> queue h1 (if q = [] then None else p) q \<Longrightarrow> queue h1 p' q'"
    and x: "x \<notin> set q'"
  obtains h1 h3 where "dequeue h p n = Some (Some x, h1, if q = [] then None else p, s32 (n - 1))"
    "h1 x = Some nd"
    "enqueue (h1(x \<mapsto> nd\<lparr>priority := 2\<rparr>)) x p' n' = Some (h3, Some x, s32 (n' + 1))"
    "queue h3 (Some x) (q' @ [x])" "queue h1 (if q = [] then None else p) q" "\<And>a. a \<noteq> x \<Longrightarrow> h3 a = h1 a"
    "\<And>a. a \<in> dom h \<Longrightarrow> node_thread h3 a = node_thread h a" "dom h3 = dom h"
proof -
  obtain h1 where d: "dequeue h p n = Some (Some x, h1, if q = [] then None else p, s32 (n - 1))"
    "queue h1 (if q = [] then None else p) q" "\<forall>b. b \<notin> set q \<longrightarrow> h1 b = h b" "same_nodes h h1"
    using tq.deq [OF q] by blast
  have xq: "x \<notin> set q" using queue_distinct [OF q] by simp
  then have x1: "h1 x = Some nd" using d(3) nd by simp
  let ?h2 = "h1(x \<mapsto> nd\<lparr>priority := 2\<rparr>)"
  have "queue h1 p' q'" using q' d by blast
  then have "queue ?h2 p' q'" by (rule queue_frame) (use x in auto)
  then obtain h3 where e: "enqueue ?h2 x p' n' = Some (h3, Some x, s32 (n' + 1))" "queue h3 (Some x) (q' @ [x])"
    "\<forall>b. b \<noteq> x \<longrightarrow> h3 b = ?h2 b" "same_nodes ?h2 h3"
    using tq.enq [of ?h2 p' q' x n'] x by auto
  have dm: "dom ?h2 = dom h" using same_nodes_dom [OF d(4)] x1 by auto
  have nt: "node_thread h3 a = node_thread h a" if "a \<in> dom h" for a
    using same_nodes_node_thread [OF e(4), of a] same_nodes_node_thread [OF d(4), of a] that dm nd x1
    by (cases "a = x") (auto simp: node_thread_def)
  show thesis
    by (rule that [OF d(1) x1 e(1,2) d(2)]) (use e(3) same_nodes_dom [OF e(4)] dm nt in auto)
qed

lemma requeue_p1_ok:
  assumes rep: "ready_rep s (x # q1) q2 (t # T1) T2"
  obtains s' where "requeue_p1 s = Some s'" "ready_rep s' q1 (q2 @ [x]) T1 (T2 @ [t])" "queues_set s s'"
proof -
  note rep' = rep [unfolded ready_rep_def]
  obtain nd where nd: "qnodes s x = Some nd" "thread nd = t"
    using rep' by (auto elim: queue_front_node [of "qnodes s" "queue_priority_1 s" x q1])
  obtain r where r: "threads s t = Some r" "tstate r = ACTIVE"
    using rep' by (auto simp: threads_ok_def elim: thread_okE)
  let ?p1 = "if q1 = [] then None else queue_priority_1 s"
  have fr: "queue h1 (queue_priority_2 s) q2" if "\<And>a. a \<notin> set q1 \<Longrightarrow> h1 a = qnodes s a" for h1
    by (rule queue_frame [of "qnodes s"]) (use rep' that in auto)
  obtain h1 h3 where h: "dequeue (qnodes s) (queue_priority_1 s) (priority1_size s) =
        Some (Some x, h1, ?p1, s32 (priority1_size s - 1))" "h1 x = Some nd"
    "enqueue (h1(x \<mapsto> nd\<lparr>priority := 2\<rparr>)) x (queue_priority_2 s) (priority2_size s) =
        Some (h3, Some x, s32 (priority2_size s + 1))"
    "queue h3 (Some x) (q2 @ [x])" "queue h1 ?p1 q1" "\<And>a. a \<noteq> x \<Longrightarrow> h3 a = h1 a"
    "\<And>a. a \<in> dom (qnodes s) \<Longrightarrow> node_thread h3 a = node_thread (qnodes s) a" "dom h3 = dom (qnodes s)"
    by (rule requeue_nodes [of "qnodes s" "queue_priority_1 s" x q1 nd "queue_priority_2 s" q2 "priority1_size s" "priority2_size s"])
      (use rep' nd fr in auto)
  let ?s = "s\<lparr>qnodes := h3, queue_priority_1 := ?p1, priority1_size := s32 (priority1_size s - 1),
    queue_priority_2 := Some x, priority2_size := s32 (priority2_size s + 1)\<rparr>"
  have e: "requeue_p1 s = Some ?s"
    using h(1-3) nd r by (simp add: requeue_p1_def upd_same)
  have dx: "x \<notin> set q1" "x \<notin> set q2" using rep' queue_distinct [of "qnodes s" _ "x # q1"] by auto
  have q1: "queue h3 ?p1 q1" by (rule queue_frame [OF h(5)], rule h(6)) (use dx in auto)
  have "map (node_thread h3) q1 = T1" "map (node_thread h3) (q2 @ [x]) = T2 @ [t]"
    using rep' h(7) queue_dom [of "qnodes s"] by (auto simp: node_thread_def)
  moreover have ok: "threads_ok (threads s) (contexts s) (T1 @ T2 @ [t])"
    using rep by (auto simp: ready_rep_def simp del: map_map elim!: threads_ok_perm)
  ultimately have "ready_rep ?s q1 (q2 @ [x]) T1 (T2 @ [t])"
    using rep' h(4) q1 dx ok by (auto simp: ready_rep_def s32_id)
  then show thesis using e h(8) by (intro that [of ?s]) (simp_all add: queues_set_def)
qed

lemma requeue_p2_ok:
  assumes rep: "ready_rep s q1 (x # q2) T1 (t # T2)"
  obtains s' where "requeue_p2 s = Some s'" "ready_rep s' q1 (q2 @ [x]) T1 (T2 @ [t])" "queues_set s s'"
proof -
  note rep' = rep [unfolded ready_rep_def]
  obtain nd where nd: "qnodes s x = Some nd" "thread nd = t"
    using rep' by (auto elim: queue_front_node [of "qnodes s" "queue_priority_2 s" x q2])
  obtain r where r: "threads s t = Some r" "tstate r = ACTIVE"
    using rep' by (auto simp: threads_ok_def elim: thread_okE)
  let ?p2 = "if q2 = [] then None else queue_priority_2 s"
  let ?n2 = "s32 (priority2_size s - 1)"
  have dx: "x \<notin> set q1" "x \<notin> set q2" using rep' queue_distinct [of "qnodes s" _ "x # q2"] by auto
  obtain h1 h3 where h: "dequeue (qnodes s) (queue_priority_2 s) (priority2_size s) = Some (Some x, h1, ?p2, ?n2)"
    "h1 x = Some nd"
    "enqueue (h1(x \<mapsto> nd\<lparr>priority := 2\<rparr>)) x ?p2 ?n2 = Some (h3, Some x, s32 (?n2 + 1))"
    "queue h3 (Some x) (q2 @ [x])" "queue h1 ?p2 q2" "\<And>a. a \<noteq> x \<Longrightarrow> h3 a = h1 a"
    "\<And>a. a \<in> dom (qnodes s) \<Longrightarrow> node_thread h3 a = node_thread (qnodes s) a" "dom h3 = dom (qnodes s)"
    by (rule requeue_nodes [of "qnodes s" "queue_priority_2 s" x q2 nd ?p2 q2 "priority2_size s" ?n2])
      (use rep' nd dx in auto)
  obtain h1' where "dequeue (qnodes s) (queue_priority_2 s) (priority2_size s) = Some (Some x, h1', ?p2, ?n2)"
    "\<forall>b. b \<notin> set q2 \<longrightarrow> h1' b = qnodes s b"
    using tq.deq [of "qnodes s" "queue_priority_2 s" x q2 "priority2_size s"] rep' by auto
  then have h1: "\<And>b. b \<notin> set q2 \<Longrightarrow> h1 b = qnodes s b" using h(1) by simp
  let ?s = "s\<lparr>qnodes := h3, queue_priority_2 := Some x, priority2_size := s32 (?n2 + 1)\<rparr>"
  have e: "requeue_p2 s = Some ?s"
    using h(1-3) nd r by (simp add: requeue_p2_def upd_same)
  have q1: "queue h3 (queue_priority_1 s) q1"
  proof (rule queue_frame [of "qnodes s"])
    show "h3 a = qnodes s a" if "a \<in> set q1" for a
      using h(6) [of a] h1 [of a] dx rep' that by (auto simp: disjoint_iff)
  qed (use rep' in auto)
  have "map (node_thread h3) q1 = T1" "map (node_thread h3) (q2 @ [x]) = T2 @ [t]"
    using rep' h(7) queue_dom [of "qnodes s"] by (auto simp: node_thread_def)
  moreover have ok: "threads_ok (threads s) (contexts s) (T1 @ T2 @ [t])"
    using rep by (auto simp: ready_rep_def simp del: map_map elim!: threads_ok_perm)
  ultimately have "ready_rep ?s q1 (q2 @ [x]) T1 (T2 @ [t])"
    using rep' h(4) q1 dx ok by (auto simp: ready_rep_def s32_id)
  then show thesis using e h(8) by (intro that [of ?s]) (simp_all add: queues_set_def)
qed

subsection \<open>Choosing and removing threads\<close>

lemma threads_ok_remove:
  assumes "threads_ok th cx (t # T)"
  shows "threads_ok (th(t \<mapsto> r)) cx T"
proof -
  have "t \<notin> set T" using assms by (force simp: threads_ok_def)
  then have "\<And>u. u \<in> set T \<Longrightarrow> tid (th(t \<mapsto> r)) u = tid th u \<and> thread_ok (th(t \<mapsto> r)) cx u = thread_ok th cx u"
    by (auto simp: tid_def thread_ok_def)
  then show ?thesis using assms by (auto simp: threads_ok_def cong: map_cong)
qed

lemma threads_ok_mem:
  assumes "threads_ok th cx T" "t \<in> set T"
  obtains r where "th t = Some r" "tstate r = ACTIVE" "tcontext r \<in> dom cx"
  by (rule thread_okE [of th cx t]) (use assms in \<open>auto simp: threads_ok_def\<close>)

lemma threads_ok_same_id:
  assumes "threads_ok th cx T" "t \<in> set T" "u \<in> set T" "th t = Some r" "th u = Some r'"
  shows "thread_id r = thread_id r' \<longleftrightarrow> t = u"
proof -
  have "inj_on (tid th) (set T)" using assms(1) by (simp add: threads_ok_def distinct_map)
  then have "tid th t = tid th u \<longleftrightarrow> t = u" using assms(2,3) by (auto dest: inj_onD)
  then show ?thesis using assms(4,5) by (simp add: tid_def)
qed

lemma ready_rep_ok: "ready_rep s q1 q2 T1 T2 \<Longrightarrow> threads_ok (threads s) (contexts s) (T1 @ T2)"
  unfolding ready_rep_def by blast

lemma ready_rep_thread:
  assumes "ready_rep s q1 q2 T1 T2" "t \<in> set (T1 @ T2)"
  obtains r where "threads s t = Some r" "tstate r = ACTIVE" "tcontext r \<in> dom (contexts s)"
  by (rule threads_ok_mem [of "threads s" "contexts s" "T1 @ T2" t]) (use assms in \<open>auto simp: ready_rep_def\<close>)

lemma pick_next_p2_ok:
  assumes rep: "ready_rep s q1 (x # q2) T1 (t # T2)"
  shows "pick_next_p2 s = Some (2, t, s)"
proof -
  obtain nd where nd: "qnodes s x = Some nd" "thread nd = t"
    using rep by (auto simp: ready_rep_def elim: queue_front_node [of "qnodes s" "queue_priority_2 s" x q2])
  obtain r where "threads s t = Some r" "tstate r = ACTIVE"
    using ready_rep_thread [OF rep, of t] by auto
  moreover have "peek (qnodes s) (queue_priority_2 s) = Some (Some x)"
    using rep tq.front [of "qnodes s" "queue_priority_2 s" "x # q2"] by (simp add: ready_rep_def)
  ultimately show ?thesis using nd by (simp add: pick_next_p2_def upd_same)
qed

lemma pick_next_ok:
  assumes rep: "ready_rep s q1 q2 T1 T2" and ne: "T1 @ T2 \<noteq> []"
  shows "pick_next s = Some (if T1 = [] then 2 else 1, hd (T1 @ T2), s)"
proof (cases q1)
  case Nil
  then obtain x q where q: "q2 = x # q" "T1 = []" using rep ne by (cases q2) (auto simp: ready_rep_def)
  obtain t T where T: "T2 = t # T" using ne q by (cases T2) auto
  have "pick_next_p2 s = Some (2, t, s)" using pick_next_p2_ok [of s q1 x q T1 t T] rep q T by simp
  then show ?thesis using rep q Nil T
    by (simp add: pick_next_def pick_next_p2_def ready_rep_def peek_def bind_eq_Some_conv)
next
  case (Cons x q)
  then obtain t T where T: "T1 = t # T" using rep by (cases T1) (auto simp: ready_rep_def)
  obtain nd where nd: "qnodes s x = Some nd" "thread nd = t"
    using rep Cons T by (auto simp: ready_rep_def elim: queue_front_node [of "qnodes s" "queue_priority_1 s" x q])
  obtain r where "threads s t = Some r" "tstate r = ACTIVE"
    using ready_rep_thread [OF rep, of t] T by auto
  moreover have "peek (qnodes s) (queue_priority_1 s) = Some (Some x)"
    using rep Cons tq.front [of "qnodes s" "queue_priority_1 s" "x # q"] by (simp add: ready_rep_def)
  ultimately show ?thesis using nd T by (simp add: pick_next_def upd_same)
qed

text \<open>What \<open>my_pthread_exit\<close> leaves in the record of the thread it ends.\<close>

definition completed :: "my_pthread \<Rightarrow> int \<Rightarrow> my_pthread" where
  "completed r v = (let r = r\<lparr>tstate := COMPLETED\<rparr> in if v \<noteq> 0 then r\<lparr>return_value := Some v\<rparr> else r)"

definition exit_frame :: "'a sched_scheme \<Rightarrow> addr \<Rightarrow> my_pthread \<Rightarrow> 'a sched_scheme \<Rightarrow> bool" where
  "exit_frame s c r s' \<longleftrightarrow> s' = s\<lparr>qnodes := qnodes s', queue_priority_1 := queue_priority_1 s',
     queue_priority_2 := queue_priority_2 s', priority1_size := priority1_size s',
     priority2_size := priority2_size s', threads := (threads s)(c \<mapsto> r)\<rparr> \<and> dom (qnodes s') \<subseteq> dom (qnodes s)"

lemma exit_nodes:
  assumes q: "queue h p (x # q)" and q': "queue h p' q'" and dj: "x \<notin> set q'" "set q \<inter> set q' = {}"
  obtains h1 where "dequeue h p n = Some (Some x, h1, if q = [] then None else p, s32 (n - 1))"
    "h1 x = h x" "queue (h1(x := None)) (if q = [] then None else p) q" "queue (h1(x := None)) p' q'"
    "\<And>a. a \<in> set q \<union> set q' \<Longrightarrow> node_thread (h1(x := None)) a = node_thread h a" "dom (h1(x := None)) \<subseteq> dom h"
proof -
  obtain h1 where d: "dequeue h p n = Some (Some x, h1, if q = [] then None else p, s32 (n - 1))"
    "queue h1 (if q = [] then None else p) q" "\<forall>b. b \<notin> set q \<longrightarrow> h1 b = h b" "same_nodes h h1"
    using tq.deq [OF q] by blast
  have xq: "x \<notin> set q" using queue_distinct [OF q] by simp
  have 1: "queue (h1(x := None)) (if q = [] then None else p) q"
    by (rule queue_frame [OF d(2)]) (use xq in auto)
  have 2: "queue (h1(x := None)) p' q'"
    by (rule queue_frame [OF q']) (use d(3) dj in \<open>auto simp: disjoint_iff\<close>)
  show thesis
  proof (rule that [OF d(1) _ 1 2])
    show "node_thread (h1(x := None)) a = node_thread h a" if "a \<in> set q \<union> set q'" for a
      using same_nodes_node_thread [OF d(4), of a] queue_dom [OF q, of a] queue_dom [OF q', of a] that xq dj
      by (auto simp: node_thread_def)
  qed (use d(3) xq same_nodes_dom [OF d(4)] in auto)
qed

lemma ready_rep_peek:
  assumes "ready_rep s q1 q2 T1 T2"
  shows "peek (qnodes s) (queue_priority_1 s) = Some (if q1 = [] then None else Some (hd q1))"
    "peek (qnodes s) (queue_priority_2 s) = Some (if q2 = [] then None else Some (hd q2))"
  using assms tq.front by (simp_all add: ready_rep_def)

lemma exit_dequeue_p1:
  assumes rep: "ready_rep s (x # q1) q2 (c # T1) T2" and cur: "current s = Some c"
  obtains s' r where "exit_dequeue s v = Some s'" "threads s c = Some r"
    "ready_rep s' q1 q2 T1 T2" "exit_frame s c (completed r v) s'" "x \<in> dom (qnodes s)" "x \<notin> dom (qnodes s')"
proof -
  note rep' = rep [unfolded ready_rep_def]
  obtain nd where nd: "qnodes s x = Some nd" "thread nd = c"
    using rep' by (auto elim: queue_front_node [of "qnodes s" "queue_priority_1 s" x q1])
  obtain r where r: "threads s c = Some r" using ready_rep_thread [OF rep, of c] by auto
  let ?p = "if q1 = [] then None else queue_priority_1 s"
  obtain h1 where h: "dequeue (qnodes s) (queue_priority_1 s) (priority1_size s) =
        Some (Some x, h1, ?p, s32 (priority1_size s - 1))" "h1 x = qnodes s x"
    "queue (h1(x := None)) ?p q1" "queue (h1(x := None)) (queue_priority_2 s) q2"
    "\<And>a. a \<in> set q1 \<union> set q2 \<Longrightarrow> node_thread (h1(x := None)) a = node_thread (qnodes s) a"
    "dom (h1(x := None)) \<subseteq> dom (qnodes s)"
    by (rule exit_nodes [of "qnodes s" "queue_priority_1 s" x q1 "queue_priority_2 s" q2 "priority1_size s"])
      (use rep' in auto)
  let ?s = "s\<lparr>qnodes := h1(x := None), queue_priority_1 := ?p, priority1_size := s32 (priority1_size s - 1),
    threads := (threads s)(c \<mapsto> completed r v)\<rparr>"
  have e: "exit_dequeue s v = Some ?s"
    using ready_rep_peek [OF rep] cur nd r h(1,2)
    by (simp add: exit_dequeue_def finish_node_def completed_def Let_def)
  have "x \<notin> set q1" "x \<notin> set q2" using rep' queue_distinct [of "qnodes s" "queue_priority_1 s" "x # q1"] by auto
  then have "map (node_thread (h1(x := None))) q1 = T1" "map (node_thread (h1(x := None))) q2 = T2"
    using rep' h(5) by auto
  moreover have "threads_ok ((threads s)(c \<mapsto> completed r v)) (contexts s) (T1 @ T2)"
    by (rule threads_ok_remove) (use ready_rep_ok [OF rep] in simp)
  ultimately have "ready_rep ?s q1 q2 T1 T2" using rep' h(3,4) by (auto simp: ready_rep_def s32_id)
  then show thesis using e r h(6) nd by (intro that [of ?s r]) (simp_all add: exit_frame_def dom_def)
qed

lemma exit_dequeue_p2:
  assumes rep: "ready_rep s q1 (x # q2) T1 (c # T2)" and cur: "current s = Some c"
  obtains s' r where "exit_dequeue s v = Some s'" "threads s c = Some r"
    "ready_rep s' q1 q2 T1 T2" "exit_frame s c (completed r v) s'" "x \<in> dom (qnodes s)" "x \<notin> dom (qnodes s')"
proof -
  note rep' = rep [unfolded ready_rep_def]
  obtain nd where nd: "qnodes s x = Some nd" "thread nd = c"
    using rep' by (auto elim: queue_front_node [of "qnodes s" "queue_priority_2 s" x q2])
  obtain r where r: "threads s c = Some r" using ready_rep_thread [OF rep, of c] by auto
  let ?p = "if q2 = [] then None else queue_priority_2 s"
  obtain h1 where h: "dequeue (qnodes s) (queue_priority_2 s) (priority2_size s) =
        Some (Some x, h1, ?p, s32 (priority2_size s - 1))" "h1 x = qnodes s x"
    "queue (h1(x := None)) ?p q2" "queue (h1(x := None)) (queue_priority_1 s) q1"
    "\<And>a. a \<in> set q1 \<union> set q2 \<Longrightarrow> node_thread (h1(x := None)) a = node_thread (qnodes s) a"
    "dom (h1(x := None)) \<subseteq> dom (qnodes s)"
    by (rule exit_nodes [of "qnodes s" "queue_priority_2 s" x q2 "queue_priority_1 s" q1 "priority2_size s"])
      (use rep' in auto)
  let ?s = "s\<lparr>qnodes := h1(x := None), queue_priority_2 := ?p, priority2_size := s32 (priority2_size s - 1),
    threads := (threads s)(c \<mapsto> completed r v)\<rparr>"
  have e: "exit_dequeue s v = Some ?s"
  proof (cases q1)
    case Nil
    then show ?thesis using ready_rep_peek [OF rep] nd r h(1,2)
      by (simp add: exit_dequeue_def finish_node_def completed_def Let_def)
  next
    case (Cons y q)
    then obtain t T where T: "T1 = t # T" using rep' by (cases T1) auto
    obtain ny where ny: "qnodes s y = Some ny" "thread ny = t"
      using rep' Cons T by (auto elim: queue_front_node [of "qnodes s" "queue_priority_1 s" y q])
    obtain ry where ry: "threads s t = Some ry" using ready_rep_thread [OF rep, of t] T by auto
    have "c \<noteq> t" using rep' T by (auto simp: threads_ok_def)
    moreover have "threads_ok (threads s) (contexts s) (T1 @ c # T2)" by (rule ready_rep_ok [OF rep])
    ultimately have "thread_id r \<noteq> thread_id ry"
      using threads_ok_same_id [of "threads s" "contexts s" "T1 @ c # T2" c t r ry] T r ry by simp
    then show ?thesis using ready_rep_peek [OF rep] cur nd r h(1,2) Cons ny ry
      by (simp add: exit_dequeue_def finish_node_def completed_def Let_def)
  qed
  have "x \<notin> set q1" "x \<notin> set q2" using rep' queue_distinct [of "qnodes s" "queue_priority_2 s" "x # q2"] by auto
  then have "map (node_thread (h1(x := None))) q1 = T1" "map (node_thread (h1(x := None))) q2 = T2"
    using rep' h(5) by auto
  moreover have "threads_ok ((threads s)(c \<mapsto> completed r v)) (contexts s) (T1 @ T2)"
    by (rule threads_ok_remove, rule threads_ok_perm [OF ready_rep_ok [OF rep]]) simp
  ultimately have "ready_rep ?s q1 q2 T1 T2" using rep' h(3,4) by (auto simp: ready_rep_def s32_id)
  then show thesis using e r h(6) nd by (intro that [of ?s r]) (simp_all add: exit_frame_def dom_def)
qed

text \<open>The running thread is the front of the first queue that has one: its node is the one removed.\<close>

lemma exit_dequeue_front:
  assumes rep: "ready_rep s q1 q2 T1 T2" and ne: "T1 @ T2 \<noteq> []" and cur: "current s = Some (hd (T1 @ T2))"
  defines "c \<equiv> hd (T1 @ T2)" and "x \<equiv> hd (q1 @ q2)"
  obtains s' r q1' q2' where "exit_dequeue s v = Some s'" "threads s c = Some r"
    "ready_rep s' q1' q2' (tl T1) (if T1 = [] then tl T2 else T2)" "exit_frame s c (completed r v) s'"
    "x \<in> dom (qnodes s)" "x \<notin> dom (qnodes s')"
proof (cases T1)
  case Nil
  then obtain T where T: "T2 = c # T" using ne by (cases T2) (auto simp: c_def)
  obtain q where q: "q1 = []" "q2 = x # q" using rep Nil T by (cases q2) (auto simp: ready_rep_def x_def)
  have c: "current s = Some c" using cur by (simp add: c_def)
  show thesis
    by (rule exit_dequeue_p2 [OF rep [unfolded T q] c, of v]) (rule that, use Nil T in simp_all)
next
  case (Cons t T)
  then have T: "T1 = c # T" by (simp add: c_def)
  obtain q where q: "q1 = x # q" using rep T by (cases q1) (auto simp: ready_rep_def x_def)
  have c: "current s = Some c" using cur by (simp add: c_def)
  show thesis
    by (rule exit_dequeue_p1 [OF rep [unfolded T q] c, of v]) (rule that, use T in simp_all)
qed

subsection \<open>Adding a thread\<close>

lemma enqueue_fresh:
  assumes q: "queue h p q" and n: "h n = None"
  obtains h' where "enqueue (h(n \<mapsto> nd)) n p k = Some (h', Some n, s32 (k + 1))" "queue h' (Some n) (q @ [n])"
    "\<And>a. a \<noteq> n \<Longrightarrow> h' a = h a" "node_thread h' n = thread nd" "dom h' = insert n (dom h)"
proof -
  let ?h = "h(n \<mapsto> nd)"
  have nq: "n \<notin> set q" using queue_dom [OF q, of n] n by auto
  have "queue ?h p q" by (rule queue_frame [OF q]) (use nq in auto)
  then obtain h' where e: "enqueue ?h n p k = Some (h', Some n, s32 (k + 1))" "queue h' (Some n) (q @ [n])"
    "\<forall>b. b \<noteq> n \<longrightarrow> h' b = ?h b" "same_nodes ?h h'"
    using tq.enq [of ?h p q n k] nq by auto
  show thesis
  proof (rule that [OF e(1,2)])
    show "node_thread h' n = thread nd" using same_nodes_node_thread [OF e(4), of n] by (simp add: node_thread_def)
    show "dom h' = insert n (dom h)" using same_nodes_dom [OF e(4)] by simp
  qed (use e(3) in auto)
qed

lemma ready_rep_enqueue:
  assumes rep: "ready_rep s q1 q2 T1 T2" and n: "qnodes s n = None" and nd: "thread nd = t"
    and ok: "threads_ok (threads s) (contexts s) (T1 @ [t] @ T2)" and sz: "int (length T1 + length T2) + 1 < 2147483647"
  obtains h k where "enqueue ((qnodes s)(n \<mapsto> nd)) n (queue_priority_1 s) (priority1_size s) = Some (h, Some n, k)"
    "ready_rep (s\<lparr>qnodes := h, queue_priority_1 := Some n, priority1_size := k\<rparr>) (q1 @ [n]) q2 (T1 @ [t]) T2"
    "dom h = insert n (dom (qnodes s))"
proof -
  note rep' = rep [unfolded ready_rep_def]
  have nq: "n \<notin> set q1" "n \<notin> set q2" using rep' n queue_dom [of "qnodes s"] by fastforce+
  obtain h where h: "enqueue ((qnodes s)(n \<mapsto> nd)) n (queue_priority_1 s) (priority1_size s) =
      Some (h, Some n, s32 (priority1_size s + 1))" "queue h (Some n) (q1 @ [n])" "\<And>a. a \<noteq> n \<Longrightarrow> h a = qnodes s a"
    "node_thread h n = t" "dom h = insert n (dom (qnodes s))"
    using enqueue_fresh [of "qnodes s" "queue_priority_1 s" q1 n nd "priority1_size s"] rep' n nd by metis
  have hq: "h x = qnodes s x" if "x \<in> set q1 \<union> set q2" for x by (rule h(3)) (use nq that in auto)
  have q2: "queue h (queue_priority_2 s) q2" by (rule queue_frame [of "qnodes s"], use rep' in simp, rule hq) simp
  have "map (node_thread h) (q1 @ [n]) = T1 @ [t]" "map (node_thread h) q2 = T2"
    using rep' h(4) hq by (auto simp: node_thread_def)
  moreover have "length T1 = length q1" "length T2 = length q2" using rep' by auto
  ultimately have "ready_rep (s\<lparr>qnodes := h, queue_priority_1 := Some n, priority1_size := s32 (priority1_size s + 1)\<rparr>)
      (q1 @ [n]) q2 (T1 @ [t]) T2"
    using rep' h(2) q2 nq ok sz by (auto simp: ready_rep_def s32_id)
  then show thesis using h(1,5) by (intro that)
qed

end
