(* ===== verification/Sched_A1.thy ===== *)
theory Sched_A1
  imports Ready_Queues
begin

section \<open>The thread library of Assignment1\<close>

text \<open>
  \<open>my_pthread_create\<close>, \<open>my_pthread_yield\<close>, \<open>my_pthread_exit\<close>, \<open>my_pthread_join\<close> and the two signal
  handlers of Assignment1/my_pthread.c.  The library takes its memory from the C library's
  \<open>malloc\<close>, which is modelled by a supply of fresh addresses (it does not fail); \<open>free\<close> removes an
  address from its store.  A call ends with the context switch it makes; the state it returns is the
  one the thread switched to finds.
\<close>

subsection \<open>Context switches\<close>

definition setcontext :: "'a sched_scheme \<Rightarrow> addr \<Rightarrow> switch option" where
  "setcontext s c = (if contexts s c \<noteq> None then Some (Setcontext c) else None)"

definition swapcontext :: "'a sched_scheme \<Rightarrow> addr \<Rightarrow> addr \<Rightarrow> switch option" where
  "swapcontext s old new =
     (if contexts s old \<noteq> None \<and> contexts s new \<noteq> None then Some (Swapcontext old new) else None)"

subsection \<open>\<open>my_pthread_yield\<close>\<close>

text \<open>The local \<open>priority\<close> is still 0 when the timer is set in the first two branches.\<close>

definition a1_yield_p1 :: "addr \<Rightarrow> 'a sched_scheme \<Rightarrow> (switch \<times> 'a sched_scheme) option" where
  "a1_yield_p1 current_thread_node s =
     do { nd \<leftarrow> qnodes s current_thread_node;
          let current_thread = thread nd;
          ct \<leftarrow> threads s current_thread;
          (case current s of
             None \<Rightarrow>
               do { let s = arm_timer 0 (s\<lparr>current := Some current_thread\<rparr>);
                    sw \<leftarrow> setcontext s (tcontext ct);
                    Some (sw, s) }
           | Some temp \<Rightarrow>
               do { tt \<leftarrow> threads s temp;
                    if thread_id tt \<noteq> thread_id ct then
                      do { let s = arm_timer 0 (s\<lparr>current := Some current_thread\<rparr>);
                           sw \<leftarrow> swapcontext s (tcontext tt) (tcontext ct);
                           Some (sw, s) }
                    else
                      do { s \<leftarrow> requeue_p1 s;
                           (prio, next_thread, s) \<leftarrow> pick_next s;
                           let s = arm_timer prio (s\<lparr>current := Some next_thread\<rparr>);
                           tt \<leftarrow> threads s temp;
                           nt \<leftarrow> threads s next_thread;
                           sw \<leftarrow> swapcontext s (tcontext tt) (tcontext nt);
                           Some (sw, s) } }) }"

definition a1_yield_p2 :: "addr \<Rightarrow> 'a sched_scheme \<Rightarrow> (switch \<times> 'a sched_scheme) option" where
  "a1_yield_p2 current_thread_node s =
     do { nd \<leftarrow> qnodes s current_thread_node;
          let current_thread = thread nd;
          ct \<leftarrow> threads s current_thread;
          (case current s of
             None \<Rightarrow>
               do { let s = arm_timer 0 (s\<lparr>current := Some current_thread\<rparr>);
                    sw \<leftarrow> setcontext s (tcontext ct);
                    Some (sw, s) }
           | Some temp \<Rightarrow>
               do { tt \<leftarrow> threads s temp;
                    if thread_id tt \<noteq> thread_id ct then
                      do { let s = arm_timer 0 (s\<lparr>current := Some current_thread\<rparr>);
                           sw \<leftarrow> swapcontext s (tcontext tt) (tcontext ct);
                           Some (sw, s) }
                    else
                      do { s \<leftarrow> requeue_p2 s;
                           (prio, next_thread, s) \<leftarrow> pick_next_p2 s;
                           let s = arm_timer prio (s\<lparr>current := Some next_thread\<rparr>);
                           tt \<leftarrow> threads s temp;
                           nt \<leftarrow> threads s next_thread;
                           sw \<leftarrow> swapcontext s (tcontext tt) (tcontext nt);
                           Some (sw, s) } }) }"

definition a1_yield :: "'a sched_scheme \<Rightarrow> (switch \<times> 'a sched_scheme) option" where
  "a1_yield s =
     do { n1 \<leftarrow> peek (qnodes s) (queue_priority_1 s);
          (case n1 of
             Some current_thread_node \<Rightarrow> a1_yield_p1 current_thread_node s
           | None \<Rightarrow>
               do { n2 \<leftarrow> peek (qnodes s) (queue_priority_2 s);
                    (case n2 of
                       Some current_thread_node \<Rightarrow> a1_yield_p2 current_thread_node s
                     | None \<Rightarrow> Some (Return, s)) }) }"

definition a1_timer_handler :: "'a sched_scheme \<Rightarrow> (switch \<times> 'a sched_scheme) option" where
  "a1_timer_handler s = a1_yield s"

text \<open>\<open>maintenanceCycle\<close> exchanges the queue pointers, leaves the size counters alone and calls
  \<open>setitimer\<close> with a timer of its own.\<close>

definition a1_maintenanceCycle :: "'a sched_scheme \<Rightarrow> 'a sched_scheme" where
  "a1_maintenanceCycle s =
     setitimer 30000000 (s\<lparr>queue_priority_1 := queue_priority_2 s, queue_priority_2 := queue_priority_1 s\<rparr>)"

subsection \<open>\<open>my_pthread_create\<close>\<close>

record a1_state = sched +
  next_addr :: addr

definition a1_start :: a1_state where
  "a1_start = \<lparr>threads = Map.empty, contexts = Map.empty, stacks = Map.empty, qnodes = Map.empty,
     current = None, queue_priority_1 = None, queue_priority_2 = None, wait_queue = None,
     priority1_size = 0, priority2_size = 0, wait_size = 0, threadIDS = 1, sched_initialized = 0,
     timer_usec = 0, itimer = 0, vtimer = 0, next_addr = 1\<rparr>"

definition a1_malloc :: "a1_state \<Rightarrow> addr \<times> a1_state" where
  "a1_malloc s = (next_addr s, s\<lparr>next_addr := next_addr s + 1\<rparr>)"

text \<open>A new node for a thread, enqueued in queue 1.  The fields \<open>next\<close> and \<open>waiting_id\<close> of the fresh
  node are not assigned here: \<open>enqueue\<close> sets the first and nothing reads the second.\<close>

definition a1_enqueue_new :: "addr \<Rightarrow> a1_state \<Rightarrow> a1_state option" where
  "a1_enqueue_new t s =
     (case a1_malloc s of (new_node, s) \<Rightarrow>
       do { let s = s\<lparr>qnodes := (qnodes s)(new_node \<mapsto>
                  \<lparr>priority = 1, thread = t, nextn = None, waiting_id = 0, join_value = None\<rparr>)\<rparr>;
            (h, q, n) \<leftarrow> enqueue (qnodes s) new_node (queue_priority_1 s) (priority1_size s);
            Some (s\<lparr>qnodes := h, queue_priority_1 := q, priority1_size := n\<rparr>) })"

definition a1_new_thread :: "addr \<Rightarrow> addr \<Rightarrow> int \<Rightarrow> int \<Rightarrow> a1_state \<Rightarrow> a1_state" where
  "a1_new_thread t cx function arg s =
     (case a1_malloc s of (sp, s) \<Rightarrow>
       s\<lparr>stacks := (stacks s)(sp \<mapsto> 100000),
         contexts := (contexts s)(cx \<mapsto> \<lparr>ss_sp = Some sp, ss_size = 100000, uc_entry = Some (function, arg)\<rparr>),
         threads := (threads s)(t \<mapsto> \<lparr>thread_id = threadIDS s, tcontext = cx, tstate = ACTIVE, return_value = None\<rparr>),
         threadIDS := s32 (threadIDS s + 1)\<rparr>)"

definition a1_init_main :: "a1_state \<Rightarrow> a1_state option" where
  "a1_init_main s =
     (let s = s\<lparr>sched_initialized := 1\<rparr> in
      case a1_malloc s of (mainThread, s) \<Rightarrow> case a1_malloc s of (cx, s) \<Rightarrow>
      a1_enqueue_new mainThread
        (s\<lparr>contexts := (contexts s)(cx \<mapsto> \<lparr>ss_sp = None, ss_size = 0, uc_entry = None\<rparr>),
           threads := (threads s)(mainThread \<mapsto> \<lparr>thread_id = 0, tcontext = cx, tstate = ACTIVE, return_value = None\<rparr>),
           current := Some mainThread\<rparr>))"

text \<open>The first argument says whether \<open>getcontext\<close> fails for the new thread.\<close>

definition a1_create :: "bool \<Rightarrow> int \<Rightarrow> int \<Rightarrow> a1_state \<Rightarrow> (int \<times> addr \<times> switch \<times> a1_state) option" where
  "a1_create getcontext_fails function arg s =
     (case a1_malloc s of (t, s) \<Rightarrow> case a1_malloc s of (cx, s) \<Rightarrow>
      if getcontext_fails then Some (-1, t, Return, s)
      else
        do { let s = a1_new_thread t cx function arg s;
             s \<leftarrow> a1_enqueue_new t s;
             s \<leftarrow> (if sched_initialized s = 0 then a1_init_main s else Some s);
             (sw, s) \<leftarrow> a1_yield s;
             Some (0, t, sw, s) })"

subsection \<open>\<open>my_pthread_exit\<close> and \<open>my_pthread_join\<close>\<close>

definition a1_exit :: "int \<Rightarrow> 'a sched_scheme \<Rightarrow> (switch \<times> 'a sched_scheme) option" where
  "a1_exit value_ptr s =
     do { s \<leftarrow> exit_dequeue s value_ptr;
          c \<leftarrow> current s;
          t \<leftarrow> threads s c;
          a1_yield (s\<lparr>current := None\<rparr>) }"

text \<open>One evaluation of the loop condition of \<open>my_pthread_join\<close>: the caller yields and will test
  again, or the call frees the thread and returns 0 with what it stored through \<open>value_ptr\<close>
  (\<open>None\<close> for a NULL \<open>value_ptr\<close>, \<open>Some None\<close> for a value that was never assigned).\<close>

datatype join_result = Waiting switch | Joined int "int option option"

definition a1_join :: "addr \<Rightarrow> bool \<Rightarrow> 'a sched_scheme \<Rightarrow> (join_result \<times> 'a sched_scheme) option" where
  "a1_join t value_wanted s =
     do { r \<leftarrow> threads s t;
          if tstate r \<noteq> COMPLETED then do { (sw, s) \<leftarrow> a1_yield s; Some (Waiting sw, s) }
          else
            do { cx \<leftarrow> contexts s (tcontext r);
                 sp \<leftarrow> ss_sp cx;
                 sz \<leftarrow> stacks s sp;
                 let s = s\<lparr>stacks := (stacks s)(sp := None), contexts := (contexts s)(tcontext r := None),
                           threads := (threads s)(t := None)\<rparr>;
                 Some (Joined 0 (if value_wanted then Some (return_value r) else None), s) } }"

subsection \<open>What a yield does\<close>

definition tctx :: "'a sched_scheme \<Rightarrow> addr \<Rightarrow> addr" where
  "tctx s t = tcontext (the (threads s t))"

definition switch_spec :: "'a sched_scheme \<Rightarrow> addr option \<Rightarrow> switch" where
  "switch_spec s new = (case new of None \<Rightarrow> Return
     | Some n \<Rightarrow> (case current s of None \<Rightarrow> Setcontext (tctx s n) | Some c \<Rightarrow> Swapcontext (tctx s c) (tctx s n)))"

fun timer_spec :: "ready \<Rightarrow> int \<Rightarrow> int" where
  "timer_spec (c, T1, T2) old =
     (if T1 @ T2 = [] then old else if c \<noteq> Some (hd (T1 @ T2)) then 0
      else if tl T1 \<noteq> [] then 500000 else old)"

text \<open>The parts of the state a yield never changes.\<close>

definition yield_frame :: "'a sched_scheme \<Rightarrow> 'a sched_scheme \<Rightarrow> bool" where
  "yield_frame s s' \<longleftrightarrow> s' = s\<lparr>qnodes := qnodes s', queue_priority_1 := queue_priority_1 s',
     queue_priority_2 := queue_priority_2 s', priority1_size := priority1_size s',
     priority2_size := priority2_size s', current := current s', timer_usec := timer_usec s', itimer := itimer s'\<rparr> \<and>
     dom (qnodes s') = dom (qnodes s)"

lemma arm_timer_frame [simp]:
  "threads (arm_timer p s) = threads s" "contexts (arm_timer p s) = contexts s" "qnodes (arm_timer p s) = qnodes s"
  "current (arm_timer p s) = current s" "queue_priority_1 (arm_timer p s) = queue_priority_1 s"
  "queue_priority_2 (arm_timer p s) = queue_priority_2 s" "priority1_size (arm_timer p s) = priority1_size s"
  "priority2_size (arm_timer p s) = priority2_size s"
  by (simp_all add: arm_timer_def setitimer_def)

lemma arm_timer_values: "itimer (arm_timer 0 s) = 0" "itimer (arm_timer 1 s) = 500000" "itimer (arm_timer 2 s) = itimer s"
  by (simp_all add: arm_timer_def setitimer_def)

lemma ready_rep_arm [simp]: "ready_rep (arm_timer p (s\<lparr>current := c\<rparr>)) q1 q2 T1 T2 = ready_rep s q1 q2 T1 T2"
  by (simp add: ready_rep_def)

lemma yield_frame_arm: "queues_set s s' \<Longrightarrow> yield_frame s (arm_timer p (s'\<lparr>current := c\<rparr>))"
  unfolding queues_set_def yield_frame_def
  by (cases s, cases s') (simp add: arm_timer_def setitimer_def)

lemma queues_set_refl [simp]: "queues_set s s"
  by (simp add: queues_set_def)

lemma queues_set_simps:
  assumes "queues_set s s'"
  shows "threads s' = threads s" "contexts s' = contexts s" "current s' = current s" "itimer s' = itimer s"
proof -
  have e: "s' = s\<lparr>qnodes := qnodes s', queue_priority_1 := queue_priority_1 s',
     queue_priority_2 := queue_priority_2 s', priority1_size := priority1_size s', priority2_size := priority2_size s'\<rparr>"
    using assms by (simp add: queues_set_def)
  show "threads s' = threads s" "contexts s' = contexts s" "current s' = current s" "itimer s' = itimer s"
    by (subst e, simp)+
qed

definition yields :: "'a sched_scheme \<Rightarrow> addr list \<Rightarrow> addr list \<Rightarrow> (switch \<times> 'a sched_scheme) option \<Rightarrow> bool" where
  "yields s T1 T2 res \<longleftrightarrow> (\<exists>sw s' q1 q2 T1' T2'. res = Some (sw, s') \<and> ready_rep s' q1 q2 T1' T2' \<and>
     (current s', T1', T2') = yield_spec (current s, T1, T2) \<and> sw = switch_spec s (current s') \<and>
     itimer s' = timer_spec (current s, T1, T2) (itimer s) \<and> yield_frame s s')"

lemma yieldsI:
  assumes "ready_rep s' q1 q2 T1' T2'" "(current s', T1', T2') = yield_spec (current s, T1, T2)"
    "sw = switch_spec s (current s')" "itimer s' = timer_spec (current s, T1, T2) (itimer s)" "yield_frame s s'"
  shows "yields s T1 T2 (Some (sw, s'))"
  unfolding yields_def using assms by blast

text \<open>The running thread is not the front of the queue: switch to the front.\<close>

lemma yields_front:
  assumes rep: "ready_rep s q1 q2 T1 T2" and T: "T1 @ T2 = t # T" and c: "current s \<noteq> Some t"
  shows "yields s T1 T2 (Some (switch_spec s (Some t), arm_timer 0 (s\<lparr>current := Some t\<rparr>)))"
proof -
  have "yield_spec (current s, T1, T2) = (Some t, T1, T2)" "timer_spec (current s, T1, T2) (itimer s) = 0"
    using T c by (cases T1; cases T2; auto)+
  then show ?thesis using rep yield_frame_arm [of s s 0 "Some t"]
    by (intro yieldsI [of _ q1 q2 T1 T2]) (simp_all add: arm_timer_values)
qed

text \<open>The running thread is the front: it has been moved to the end of queue 2.\<close>

lemma yields_moved:
  assumes rep: "ready_rep s' q1 q2 T1' T2'" and fr: "queues_set s s'"
    and T: "yield_spec (current s, T1, T2) = (Some n, T1', T2')" and c: "current s = Some (hd (T1 @ T2))" "T1 @ T2 \<noteq> []"
    and p: "p = (if tl T1 = [] then 2 else 1)" and tt: "temp = hd (T1 @ T2)"
  shows "yields s T1 T2 (Some (Swapcontext (tctx s temp) (tctx s n), arm_timer p (s'\<lparr>current := Some n\<rparr>)))"
proof -
  have "itimer (arm_timer p (s'\<lparr>current := Some n\<rparr>)) = timer_spec (current s, T1, T2) (itimer s)"
    using c p queues_set_simps [OF fr] by (auto simp: arm_timer_values)
  then show ?thesis using rep T yield_frame_arm [OF fr, of p "Some n"] c tt
    by (intro yieldsI [of _ q1 q2 T1' T2']) (simp_all add: switch_spec_def)
qed

lemma a1_yield_p1_ok:
  assumes rep: "ready_rep s (x # q1) q2 (t # T1) T2" and cur: "\<forall>c. current s = Some c \<longrightarrow> c \<in> set (t # T1 @ T2)"
  shows "yields s (t # T1) T2 (a1_yield_p1 x s)"
proof -
  obtain nd where nd: "qnodes s x = Some nd" "thread nd = t"
    using rep by (auto simp: ready_rep_def elim: queue_front_node [of "qnodes s" "queue_priority_1 s" x q1])
  obtain r where r: "threads s t = Some r" "tcontext r \<in> dom (contexts s)" by (rule ready_rep_thread [OF rep, of t]) auto
  consider "current s = None" | c where "current s = Some c" "c \<noteq> t" | "current s = Some t" by (cases "current s") auto
  then show ?thesis
  proof cases
    case 1
    then show ?thesis using yields_front [OF rep, of t "T1 @ T2"] nd r
      by (auto simp: a1_yield_p1_def setcontext_def switch_spec_def tctx_def)
  next
    case (2 c)
    obtain rc where rc: "threads s c = Some rc" "tcontext rc \<in> dom (contexts s)"
      by (rule ready_rep_thread [OF rep, of c]) (use cur 2 in auto)
    have "thread_id rc \<noteq> thread_id r"
      using threads_ok_same_id [OF ready_rep_ok [OF rep], of c t rc r] cur 2 rc(1) r(1) by auto
    then show ?thesis using yields_front [OF rep, of t "T1 @ T2"] nd r rc 2
      by (auto simp: a1_yield_p1_def swapcontext_def switch_spec_def tctx_def)
  next
    case 3
    obtain s' where s': "requeue_p1 s = Some s'" "ready_rep s' q1 (q2 @ [x]) T1 (T2 @ [t])" "queues_set s s'"
      by (rule requeue_p1_ok [OF rep])
    note fr = queues_set_simps [OF s'(3)]
    define n where "n = hd (T1 @ T2 @ [t])"
    have n: "pick_next s' = Some (if T1 = [] then 2 else 1, n, s')" using pick_next_ok [OF s'(2)] by (simp add: n_def)
    have nin: "n \<in> set ((t # T1) @ T2)" using hd_in_set [of "T1 @ T2 @ [t]"] by (auto simp: n_def)
    obtain rn where rn: "threads s n = Some rn" "tcontext rn \<in> dom (contexts s)"
      by (rule ready_rep_thread [OF rep nin])
    have "a1_yield_p1 x s = Some (Swapcontext (tctx s t) (tctx s n),
        arm_timer (if T1 = [] then 2 else 1) (s'\<lparr>current := Some n\<rparr>))"
      using r(2) rn(2) by (simp add: a1_yield_p1_def swapcontext_def tctx_def nd r(1) 3 s'(1) n rn(1) fr domIff)
    moreover have "yield_spec (current s, t # T1, T2) = (Some n, T1, T2 @ [t])" using 3 by (simp add: n_def)
    ultimately show ?thesis using yields_moved [OF s'(2,3), of "t # T1" T2 n "if T1 = [] then 2 else 1" t] 3 by simp
  qed
qed

lemma a1_yield_p2_ok:
  assumes rep: "ready_rep s [] (x # q2) [] (t # T2)" and cur: "\<forall>c. current s = Some c \<longrightarrow> c \<in> set (t # T2)"
  shows "yields s [] (t # T2) (a1_yield_p2 x s)"
proof -
  obtain nd where nd: "qnodes s x = Some nd" "thread nd = t"
    using rep by (auto simp: ready_rep_def elim: queue_front_node [of "qnodes s" "queue_priority_2 s" x q2])
  obtain r where r: "threads s t = Some r" "tcontext r \<in> dom (contexts s)" by (rule ready_rep_thread [OF rep, of t]) auto
  consider "current s = None" | c where "current s = Some c" "c \<noteq> t" | "current s = Some t" by (cases "current s") auto
  then show ?thesis
  proof cases
    case 1
    then show ?thesis using yields_front [OF rep, of t T2] nd r
      by (auto simp: a1_yield_p2_def setcontext_def switch_spec_def tctx_def)
  next
    case (2 c)
    obtain rc where rc: "threads s c = Some rc" "tcontext rc \<in> dom (contexts s)"
      by (rule ready_rep_thread [OF rep, of c]) (use cur 2 in auto)
    have "thread_id rc \<noteq> thread_id r"
      using threads_ok_same_id [OF ready_rep_ok [OF rep], of c t rc r] cur 2 rc(1) r(1) by auto
    then show ?thesis using yields_front [OF rep, of t T2] nd r rc 2
      by (auto simp: a1_yield_p2_def swapcontext_def switch_spec_def tctx_def)
  next
    case 3
    obtain s' where s': "requeue_p2 s = Some s'" "ready_rep s' [] (q2 @ [x]) [] (T2 @ [t])" "queues_set s s'"
      by (rule requeue_p2_ok [OF rep])
    note fr = queues_set_simps [OF s'(3)]
    define n where "n = hd (T2 @ [t])"
    obtain y q T where y: "q2 @ [x] = y # q" "T2 @ [t] = n # T"
      by (cases "q2 @ [x]"; cases "T2 @ [t]") (auto simp: n_def)
    have n: "pick_next_p2 s' = Some (2, n, s')" using pick_next_p2_ok [of s' "[]" y q "[]" n T] s'(2) y by simp
    have nin: "n \<in> set ([] @ t # T2)" using hd_in_set [of "T2 @ [t]"] by (auto simp: n_def)
    obtain rn where rn: "threads s n = Some rn" "tcontext rn \<in> dom (contexts s)"
      by (rule ready_rep_thread [OF rep nin])
    have "a1_yield_p2 x s = Some (Swapcontext (tctx s t) (tctx s n), arm_timer 2 (s'\<lparr>current := Some n\<rparr>))"
      using r(2) rn(2) by (simp add: a1_yield_p2_def swapcontext_def tctx_def nd r(1) 3 s'(1) n rn(1) fr domIff)
    moreover have "yield_spec (current s, [], t # T2) = (Some n, [], T2 @ [t])" using 3 by (simp add: n_def)
    ultimately show ?thesis using yields_moved [OF s'(2,3), of "[]" "t # T2" n 2 t] 3 by simp
  qed
qed

lemma a1_yield_ok:
  assumes rep: "ready_rep s q1 q2 T1 T2" and cur: "\<forall>c. current s = Some c \<longrightarrow> c \<in> set (T1 @ T2)"
  shows "yields s T1 T2 (a1_yield s)"
proof -
  note pk = ready_rep_peek [OF rep]
  consider x q t T where "q1 = x # q" "T1 = t # T" | x q t T where "q1 = []" "T1 = []" "q2 = x # q" "T2 = t # T"
    | "q1 = []" "T1 = []" "q2 = []" "T2 = []"
    using rep by (cases q1; cases q2) (auto simp: ready_rep_def)
  then show ?thesis
  proof cases
    case 1
    then show ?thesis using a1_yield_p1_ok [of s _ _ q2 _ _ T2] rep cur pk by (simp add: a1_yield_def)
  next
    case 2
    then show ?thesis using a1_yield_p2_ok rep cur pk by (simp add: a1_yield_def)
  next
    case 3
    have "yield_frame s s" by (simp add: yield_frame_def)
    then have "yields s T1 T2 (Some (Return, s))"
      using 3 rep cur by (intro yieldsI [OF rep]) (auto simp: switch_spec_def split: option.split)
    then show ?thesis using pk 3 by (simp add: a1_yield_def)
  qed
qed

end
