(* ===== verification/A1_Invariant.thy ===== *)
theory A1_Invariant
  imports Sched_A1
begin

section \<open>Invariant of the Assignment1 thread library\<close>

text \<open>
  The invariant of the library's state and its preservation by every operation.
\<close>

subsection \<open>Invariant\<close>

definition addresses_used :: "a1_state \<Rightarrow> addr set" where
  "addresses_used s = dom (threads s) \<union> dom (contexts s) \<union> dom (stacks s) \<union> dom (qnodes s)"

definition records_ok :: "a1_state \<Rightarrow> bool" where
  "records_ok s \<longleftrightarrow>
     (\<forall>t r. threads s t = Some r \<longrightarrow> 0 \<le> thread_id r \<and> thread_id r < threadIDS s \<and>
        (\<exists>c. contexts s (tcontext r) = Some c \<and> (thread_id r \<noteq> 0 \<longrightarrow> ss_sp c \<noteq> None))) \<and>
     (\<forall>t u r r'. threads s t = Some r \<and> threads s u = Some r' \<and> t \<noteq> u \<longrightarrow>
        thread_id r \<noteq> thread_id r' \<and> tcontext r \<noteq> tcontext r')"

definition stacks_ok :: "a1_state \<Rightarrow> bool" where
  "stacks_ok s \<longleftrightarrow>
     (\<forall>c x p. contexts s c = Some x \<and> ss_sp x = Some p \<longrightarrow> p \<in> dom (stacks s)) \<and>
     (\<forall>c d x y p. contexts s c = Some x \<and> contexts s d = Some y \<and> ss_sp x = Some p \<and> ss_sp y = Some p \<longrightarrow> c = d)"

text \<open>\<open>P\<close> holds the threads whose record exists already but which are not queued yet.\<close>

definition a1_pre :: "a1_state \<Rightarrow> addr set \<Rightarrow> addr list \<Rightarrow> addr list \<Rightarrow> bool" where
  "a1_pre s P T1 T2 \<longleftrightarrow>
     (\<forall>a\<in>addresses_used s. a < next_addr s) \<and> records_ok s \<and> stacks_ok s \<and>
     1 \<le> threadIDS s \<and> threadIDS s \<le> 2147483646 \<and>
     (\<exists>q1 q2. ready_rep s q1 q2 T1 T2) \<and>
     (\<forall>t r. threads s t = Some r \<and> tstate r = ACTIVE \<longrightarrow> t \<in> set (T1 @ T2) \<union> P)"

definition fresh_start :: "a1_state \<Rightarrow> bool" where
  "fresh_start s \<longleftrightarrow> (sched_initialized s = 0 \<longrightarrow> threads s = Map.empty)"

definition a1_inv :: "a1_state \<Rightarrow> bool" where
  "a1_inv s \<longleftrightarrow> fresh_start s \<and> (\<exists>T1 T2. a1_pre s {} T1 T2 \<and>
     current s = (if T1 @ T2 = [] then None else Some (hd (T1 @ T2))))"

lemma a1_pre_rep: "a1_pre s P T1 T2 \<Longrightarrow> \<exists>q1 q2. ready_rep s q1 q2 T1 T2"
  by (simp add: a1_pre_def)

lemma a1_inv_abs:
  assumes "a1_inv s"
  obtains T1 T2 where "a1_pre s {} T1 T2" "sched_abs s = (current s, T1, T2)"
    "current s = (if T1 @ T2 = [] then None else Some (hd (T1 @ T2)))"
  using assms ready_rep_abs unfolding a1_inv_def a1_pre_def by blast

lemma a1_pre_used: "a1_pre s P T1 T2 \<Longrightarrow> a \<in> addresses_used s \<Longrightarrow> a < next_addr s"
  by (simp add: a1_pre_def)

lemma a1_pre_ready:
  assumes "a1_pre s P T1 T2" "t \<in> set (T1 @ T2)"
  shows "t \<in> dom (threads s)"
proof -
  obtain q1 q2 where "ready_rep s q1 q2 T1 T2" using a1_pre_rep [OF assms(1)] by blast
  then show ?thesis by (rule ready_rep_thread [OF _ assms(2)]) blast
qed

lemma yield_frame_simps:
  fixes s :: a1_state
  assumes "yield_frame s s'"
  shows "threads s' = threads s" "contexts s' = contexts s" "stacks s' = stacks s" "dom (qnodes s') = dom (qnodes s)"
    "next_addr s' = next_addr s" "threadIDS s' = threadIDS s" "sched_initialized s' = sched_initialized s"
proof -
  have e: "s' = s\<lparr>qnodes := qnodes s', queue_priority_1 := queue_priority_1 s',
     queue_priority_2 := queue_priority_2 s', priority1_size := priority1_size s',
     priority2_size := priority2_size s', current := current s', timer_usec := timer_usec s', itimer := itimer s'\<rparr>"
    using assms by (simp add: yield_frame_def)
  show "threads s' = threads s" "contexts s' = contexts s" "stacks s' = stacks s" "next_addr s' = next_addr s"
    "threadIDS s' = threadIDS s" "sched_initialized s' = sched_initialized s"
    by (subst e, simp)+
  show "dom (qnodes s') = dom (qnodes s)" using assms by (simp add: yield_frame_def)
qed

lemma a1_pre_yield:
  assumes pre: "a1_pre s {} T1 T2" and cur: "\<forall>c. current s = Some c \<longrightarrow> c \<in> set (T1 @ T2)" and fs: "fresh_start s"
  obtains sw s' where "a1_yield s = Some (sw, s')" "a1_inv s'" "sched_abs s' = yield_spec (current s, T1, T2)"
    "sw = switch_spec s (current s')" "itimer s' = timer_spec (current s, T1, T2) (itimer s)" "yield_frame s s'"
proof -
  obtain q1 q2 where rep: "ready_rep s q1 q2 T1 T2" using a1_pre_rep [OF pre] by blast
  obtain sw s' q1' q2' T1' T2' where y: "a1_yield s = Some (sw, s')" "ready_rep s' q1' q2' T1' T2'"
    "(current s', T1', T2') = yield_spec (current s, T1, T2)" "sw = switch_spec s (current s')"
    "itimer s' = timer_spec (current s, T1, T2) (itimer s)" "yield_frame s s'"
    using a1_yield_ok [OF rep cur] unfolding yields_def by blast
  note fr = yield_frame_simps [OF y(6)]
  have "set (T1' @ T2') = set (T1 @ T2)"
    using mset_eq_setD [OF yield_spec_mset, of "(current s, T1, T2)"]
    by (simp only: y(3) [symmetric] ready_threads_def fst_conv snd_conv)
  moreover have "records_ok s' = records_ok s" "stacks_ok s' = stacks_ok s" "addresses_used s' = addresses_used s"
    by (simp_all add: records_ok_def stacks_ok_def addresses_used_def fr)
  ultimately have pre': "a1_pre s' {} T1' T2'" using pre y(2) by (auto simp: a1_pre_def fr)
  have "T1 @ T2 = [] \<Longrightarrow> current s' = None" using y(3) cur by (cases "current s") auto
  then have "current s' = (if T1' @ T2' = [] then None else Some (hd (T1' @ T2')))"
    using yield_spec_runs_front [of "(current s, T1, T2)"] y(3) [symmetric] \<open>set (T1' @ T2') = set (T1 @ T2)\<close>
    by (auto simp: runs_front_def ready_threads_def)
  then have "a1_inv s'" using pre' fs fr by (auto simp: a1_inv_def fresh_start_def)
  then show thesis using y(1,3,4,5,6) ready_rep_abs [OF y(2)] by (intro that [of sw s']) auto
qed

subsection \<open>Creating threads\<close>

lemma records_okD:
  assumes "records_ok s" "threads s t = Some r"
  obtains c where "0 \<le> thread_id r" "thread_id r < threadIDS s" "contexts s (tcontext r) = Some c"
    "thread_id r \<noteq> 0 \<Longrightarrow> ss_sp c \<noteq> None"
  using assms unfolding records_ok_def by blast

lemma records_threads_ok:
  assumes "records_ok s" "distinct T" "\<And>t. t \<in> set T \<Longrightarrow> \<exists>r. threads s t = Some r \<and> tstate r = ACTIVE"
  shows "threads_ok (threads s) (contexts s) T"
  unfolding threads_ok_def
proof
  show "\<forall>t\<in>set T. thread_ok (threads s) (contexts s) t"
  proof
    fix t assume "t \<in> set T"
    then obtain r where "threads s t = Some r" "tstate r = ACTIVE" using assms(3) by blast
    then show "thread_ok (threads s) (contexts s) t"
      by (auto simp: thread_ok_def intro: records_okD [OF assms(1)])
  qed
  have "inj_on (tid (threads s)) (set T)"
  proof (rule inj_onI, rule ccontr)
    fix t u assume a: "t \<in> set T" "u \<in> set T" "tid (threads s) t = tid (threads s) u" "t \<noteq> u"
    obtain r r' where "threads s t = Some r" "threads s u = Some r'" using assms(3) a by blast
    then show False using a assms(1) by (auto simp: tid_def records_ok_def)
  qed
  then show "distinct (map (tid (threads s)) T)" using assms(2) by (simp add: distinct_map)
qed

lemma ready_count:
  assumes "records_ok s" "threads_ok (threads s) (contexts s) T" "0 \<le> threadIDS s"
  shows "int (length T) \<le> threadIDS s"
proof -
  have "tid (threads s) ` set T \<subseteq> {0..<threadIDS s}"
    using assms by (auto simp: tid_def records_ok_def threads_ok_def thread_ok_def split: option.splits)
  then have "card (tid (threads s) ` set T) \<le> card {0..<threadIDS s}" by (rule card_mono [rotated]) simp
  moreover have "card (tid (threads s) ` set T) = length T"
    using assms(2) distinct_card [of "map (tid (threads s)) T"] by (simp add: threads_ok_def)
  ultimately have "length T \<le> nat (threadIDS s)" by simp
  then show ?thesis using assms(3) by linarith
qed

lemma ready_rep_next: "ready_rep (s\<lparr>next_addr := x\<rparr>) q1 q2 T1 T2 = ready_rep (s :: a1_state) q1 q2 T1 T2"
  by (simp add: ready_rep_def)

lemma a1_enqueue_new_ok:
  assumes pre: "a1_pre s P T1 T2" and r: "threads s t = Some r" "tstate r = ACTIVE" and t: "t \<notin> set (T1 @ T2)"
  obtains h k where "a1_enqueue_new t s =
      Some (s\<lparr>qnodes := h, queue_priority_1 := Some (next_addr s), priority1_size := k, next_addr := next_addr s + 1\<rparr>)"
    "a1_pre (s\<lparr>qnodes := h, queue_priority_1 := Some (next_addr s), priority1_size := k, next_addr := next_addr s + 1\<rparr>)
       (P - {t}) (T1 @ [t]) T2"
proof -
  let ?n = "next_addr s"
  obtain q1 q2 where rep: "ready_rep s q1 q2 T1 T2" using a1_pre_rep [OF pre] by blast
  have n: "qnodes s ?n = None" using pre by (force simp: a1_pre_def addresses_used_def)
  have ro: "records_ok s" using pre by (simp add: a1_pre_def)
  have "\<exists>r. threads s u = Some r \<and> tstate r = ACTIVE" if u: "u \<in> set (T1 @ [t] @ T2)" for u
  proof (cases "u = t")
    case False
    then have "u \<in> set (T1 @ T2)" using u by auto
    then show ?thesis by (rule ready_rep_thread [OF rep]) blast
  qed (use r in auto)
  moreover have "distinct (T1 @ [t] @ T2)"
    using t ready_rep_ok [OF rep] by (auto simp: threads_ok_def distinct_map)
  ultimately have ok: "threads_ok (threads s) (contexts s) (T1 @ [t] @ T2)" by (intro records_threads_ok [OF ro])
  then have sz: "int (length T1 + length T2) + 1 < 2147483647"
    using ready_count [OF ro ok] pre by (simp add: a1_pre_def)
  obtain h k where h: "enqueue ((qnodes s)(?n \<mapsto> \<lparr>priority = 1, thread = t, nextn = None, waiting_id = 0, join_value = None\<rparr>))
      ?n (queue_priority_1 s) (priority1_size s) = Some (h, Some ?n, k)"
    "ready_rep (s\<lparr>qnodes := h, queue_priority_1 := Some ?n, priority1_size := k\<rparr>) (q1 @ [?n]) q2 (T1 @ [t]) T2"
    "dom h = insert ?n (dom (qnodes s))"
    by (rule ready_rep_enqueue [OF rep n _ ok sz, of "\<lparr>priority = 1, thread = t, nextn = None, waiting_id = 0, join_value = None\<rparr>"]) simp
  let ?s = "s\<lparr>qnodes := h, queue_priority_1 := Some ?n, priority1_size := k, next_addr := ?n + 1\<rparr>"
  have e: "a1_enqueue_new t s = Some ?s"
    using h(1) by (simp add: a1_enqueue_new_def a1_malloc_def)
  have "ready_rep ?s (q1 @ [?n]) q2 (T1 @ [t]) T2"
    using ready_rep_next [where s = "s\<lparr>qnodes := h, queue_priority_1 := Some ?n, priority1_size := k\<rparr>"] h(2) by simp
  moreover have "records_ok ?s = records_ok s" "stacks_ok ?s = stacks_ok s"
    by (simp_all add: records_ok_def stacks_ok_def)
  moreover have "addresses_used ?s = insert ?n (addresses_used s)" using h(3) by (auto simp: addresses_used_def)
  ultimately have "a1_pre ?s (P - {t}) (T1 @ [t]) T2"
    using pre by (fastforce simp: a1_pre_def)
  then show thesis using e by (rule that [rotated])
qed

text \<open>Adding the record and the context of a thread at fresh addresses.\<close>

lemma a1_pre_new_record:
  assumes pre: "a1_pre s {} T1 T2" and fr: "t \<notin> addresses_used s" "cx \<notin> addresses_used s"
    and stk: "stk = stacks s \<and> ss_sp c = None \<or> (\<exists>sp. sp \<notin> addresses_used s \<and> stk = (stacks s)(sp \<mapsto> 100000) \<and> ss_sp c = Some sp)"
    and used: "\<forall>a\<in>{t, cx} \<union> dom stk. a < na" "next_addr s \<le> na"
    and i: "0 \<le> i" "i < ids" "threadIDS s \<le> ids" "ids \<le> 2147483646" "i \<noteq> 0 \<Longrightarrow> ss_sp c \<noteq> None"
      "\<And>u r. threads s u = Some r \<Longrightarrow> thread_id r \<noteq> i"
    and s': "s' = s\<lparr>stacks := stk, contexts := (contexts s)(cx \<mapsto> c),
      threads := (threads s)(t \<mapsto> \<lparr>thread_id = i, tcontext = cx, tstate = ACTIVE, return_value = None\<rparr>),
      threadIDS := ids, next_addr := na, sched_initialized := init, current := cur\<rparr>"
  shows "a1_pre s' {t} T1 T2"
proof -
  obtain q1 q2 where rep: "ready_rep s q1 q2 T1 T2" using a1_pre_rep [OF pre] by blast
  have t: "threads s t = None" "contexts s cx = None" using fr by (auto simp: addresses_used_def)
  have ro: "records_ok s" using pre by (simp add: a1_pre_def)
  have cxs: "tcontext r \<noteq> cx" if "threads s u = Some r" for u r
    using records_okD [OF ro that] t by (metis option.distinct(1))
  have new: "\<forall>u r. threads s u = Some r \<longrightarrow> thread_id r \<noteq> i \<and> tcontext r \<noteq> cx" using i(6) cxs by blast
  have "records_ok s'"
    unfolding records_ok_def
  proof (intro conjI allI impI)
    fix u r assume u: "threads s' u = Some r"
    show "0 \<le> thread_id r" using u ro i by (auto simp: s' records_ok_def split: if_splits)
    show "thread_id r < threadIDS s'"
    proof (cases "u = t")
      case False
      then have "thread_id r < threadIDS s" using u records_okD [OF ro, of u r] by (simp add: s')
      then show ?thesis using i(3) by (simp add: s')
    qed (use u i(2) in \<open>auto simp: s'\<close>)
    show "\<exists>c. contexts s' (tcontext r) = Some c \<and> (thread_id r \<noteq> 0 \<longrightarrow> ss_sp c \<noteq> None)"
      using u ro i cxs by (auto simp: s' records_ok_def split: if_splits)
  next
    fix u v r r' assume "threads s' u = Some r \<and> threads s' v = Some r' \<and> u \<noteq> v"
    then show "thread_id r \<noteq> thread_id r'" "tcontext r \<noteq> tcontext r'"
      using ro new [rule_format, of v r'] new [rule_format, of u r]
      by (auto simp: s' records_ok_def split: if_splits)
  qed
  moreover have "stacks_ok s'"
  proof -
    have so: "stacks_ok s" using pre by (simp add: a1_pre_def)
    have "p \<noteq> sp" if "sp \<notin> addresses_used s" "contexts s d = Some x" "ss_sp x = Some p" for sp p d x
      using so that by (auto simp: stacks_ok_def addresses_used_def)
    then show ?thesis using so stk unfolding stacks_ok_def s' by (auto simp: domIff split: if_splits)
  qed
  moreover have "ready_rep s' q1 q2 T1 T2"
  proof -
    have ne: "\<And>u. u \<in> set (T1 @ T2) \<Longrightarrow> u \<noteq> t" using ready_rep_thread [OF rep] t by (metis option.distinct(1))
    then have "map (tid (threads s')) (T1 @ T2) = map (tid (threads s)) (T1 @ T2)"
      by (auto simp: s' tid_def)
    moreover have "\<forall>u\<in>set (T1 @ T2). thread_ok (threads s') (contexts s') u"
      using ne ready_rep_ok [OF rep] by (auto simp: threads_ok_def thread_ok_def s' split: option.splits)
    ultimately have "threads_ok (threads s') (contexts s') (T1 @ T2)"
      using ready_rep_ok [OF rep] by (simp only: threads_ok_def)
    then show ?thesis using rep by (simp add: ready_rep_def s')
  qed
  moreover have "\<forall>a\<in>addresses_used s'. a < next_addr s'"
  proof
    fix a assume "a \<in> addresses_used s'"
    then have "a \<in> addresses_used s \<or> a \<in> {t, cx} \<union> dom stk" by (auto simp: addresses_used_def s' split: if_splits)
    then show "a < next_addr s'" using a1_pre_used [OF pre, of a] used by (auto simp: s')
  qed
  ultimately show ?thesis using pre i unfolding a1_pre_def by (auto simp: s')
qed

lemma not_used:
  assumes "a1_pre s P T1 T2" "next_addr s \<le> a"
  shows "a \<notin> addresses_used s"
  using a1_pre_used [OF assms(1), of a] assms(2) by auto

lemma used_stacks:
  assumes "a1_pre s P T1 T2" "next_addr s \<le> na" "a \<in> dom (stacks s)"
  shows "a < na"
  using a1_pre_used [OF assms(1), of a] assms(2,3) by (simp add: addresses_used_def)

definition new_record :: "int \<Rightarrow> addr \<Rightarrow> my_pthread" where
  "new_record i cx = \<lparr>thread_id = i, tcontext = cx, tstate = ACTIVE, return_value = None\<rparr>"

lemma a1_new_thread_ok:
  assumes pre: "a1_pre s {} T1 T2" and ids: "threadIDS s < 2147483646" and n: "n = next_addr s"
    and s': "s' = a1_new_thread n (n + 1) f arg (s\<lparr>next_addr := n + 2\<rparr>)"
  shows "a1_pre s' {n} T1 T2" "threads s' = (threads s)(n \<mapsto> new_record (threadIDS s) (n + 1))" "current s' = current s"
    "sched_initialized s' = sched_initialized s" "next_addr s' = n + 3" "itimer s' = itimer s" "threadIDS s' = threadIDS s + 1"
proof -
  have s32: "s32 (threadIDS s + 1) = threadIDS s + 1" using pre ids by (simp add: a1_pre_def s32_id)
  have ro: "records_ok s" using pre by (simp add: a1_pre_def)
  let ?c = "\<lparr>ss_sp = Some (n + 2), ss_size = 100000, uc_entry = Some (f, arg)\<rparr>"
  have e: "s' = s\<lparr>stacks := (stacks s)(n + 2 \<mapsto> 100000), contexts := (contexts s)(n + 1 \<mapsto> ?c),
      threads := (threads s)(n \<mapsto> \<lparr>thread_id = threadIDS s, tcontext = n + 1, tstate = ACTIVE, return_value = None\<rparr>),
      threadIDS := threadIDS s + 1, next_addr := n + 3, sched_initialized := sched_initialized s, current := current s\<rparr>"
    unfolding s' by (simp add: a1_new_thread_def a1_malloc_def s32)
  show "a1_pre s' {n} T1 T2"
  proof (rule a1_pre_new_record [OF pre _ _ _ _ _ _ _ _ _ _ _ e])
    show "n \<notin> addresses_used s" "n + 1 \<notin> addresses_used s" using not_used [OF pre] n by simp_all
    show "(stacks s)(n + 2 \<mapsto> 100000) = stacks s \<and> ss_sp ?c = None \<or>
      (\<exists>sp. sp \<notin> addresses_used s \<and> (stacks s)(n + 2 \<mapsto> 100000) = (stacks s)(sp \<mapsto> 100000) \<and> ss_sp ?c = Some sp)"
      using not_used [OF pre, of "n + 2"] n by auto
    show "\<forall>a\<in>{n, n + 1} \<union> dom ((stacks s)(n + 2 \<mapsto> 100000)). a < n + 3"
      using used_stacks [OF pre, of "n + 3"] n by (simp add: Ball_def dom_def)
    show "thread_id r \<noteq> threadIDS s" if "threads s u = Some r" for u r
      by (rule records_okD [OF ro that]) auto
  qed (use pre ids n in \<open>auto simp: a1_pre_def\<close>)
  show "threads s' = (threads s)(n \<mapsto> new_record (threadIDS s) (n + 1))" "current s' = current s"
    "sched_initialized s' = sched_initialized s" "next_addr s' = n + 3" "itimer s' = itimer s" "threadIDS s' = threadIDS s + 1"
    unfolding e by (simp_all add: new_record_def)
qed

lemma a1_init_main_ok:
  assumes pre: "a1_pre s {} T1 T2" and n: "n = next_addr s" and i: "\<And>u r. threads s u = Some r \<Longrightarrow> thread_id r \<noteq> 0"
  obtains s' where "a1_init_main s = Some s'" "a1_pre s' {} (T1 @ [n]) T2" "current s' = Some n"
    "threads s' = (threads s)(n \<mapsto> new_record 0 (n + 1))" "sched_initialized s' = 1" "itimer s' = itimer s"
proof -
  let ?c = "\<lparr>ss_sp = None, ss_size = 0, uc_entry = None\<rparr>"
  let ?s = "s\<lparr>stacks := stacks s, contexts := (contexts s)(n + 1 \<mapsto> ?c),
      threads := (threads s)(n \<mapsto> \<lparr>thread_id = 0, tcontext = n + 1, tstate = ACTIVE, return_value = None\<rparr>),
      threadIDS := threadIDS s, next_addr := n + 2, sched_initialized := 1, current := Some n\<rparr>"
  have pre': "a1_pre ?s {n} T1 T2"
  proof (rule a1_pre_new_record [OF pre _ _ _ _ _ _ _ _ _ _ _ refl])
    show "n \<notin> addresses_used s" "n + 1 \<notin> addresses_used s" using not_used [OF pre] n by simp_all
    show "\<forall>a\<in>{n, n + 1} \<union> dom (stacks s). a < n + 2" using used_stacks [OF pre, of "n + 2"] n by auto
  qed (use pre i n in \<open>auto simp: a1_pre_def\<close>)
  have nT: "n \<notin> set (T1 @ T2)"
    using a1_pre_ready [OF pre, of n] not_used [OF pre, of n] n by (auto simp: addresses_used_def)
  obtain h k where e: "a1_enqueue_new n ?s = Some (?s\<lparr>qnodes := h, queue_priority_1 := Some (next_addr ?s),
      priority1_size := k, next_addr := next_addr ?s + 1\<rparr>)"
    "a1_pre (?s\<lparr>qnodes := h, queue_priority_1 := Some (next_addr ?s), priority1_size := k, next_addr := next_addr ?s + 1\<rparr>)
      ({n} - {n}) (T1 @ [n]) T2"
    by (rule a1_enqueue_new_ok [OF pre', of n]) (use nT in auto)
  have "a1_init_main s = a1_enqueue_new n (s\<lparr>sched_initialized := 1, next_addr := 2 + n, contexts := (contexts s)(n + 1 \<mapsto> ?c),
      threads := (threads s)(n \<mapsto> \<lparr>thread_id = 0, tcontext = n + 1, tstate = ACTIVE, return_value = None\<rparr>),
      current := Some n\<rparr>)" by (simp add: a1_init_main_def a1_malloc_def n)
  also have "\<dots> = a1_enqueue_new n ?s" by (rule arg_cong [of _ _ "a1_enqueue_new n"]) simp
  also note e(1)
  finally show thesis by (rule that) (use e(2) in \<open>simp_all add: new_record_def\<close>)
qed

lemma a1_create_ok:
  assumes inv: "a1_inv s" and ids: "threadIDS s < 2147483646" and n: "n = next_addr s"
  obtains sw s' where "a1_create False f arg s = Some (0, n, sw, s')" "a1_inv s'"
    "sched_abs s' = (if sched_initialized s = 0 then (Some n, [n, n + 4], [])
       else (case sched_abs s of (c, T1, T2) \<Rightarrow> yield_spec (c, T1 @ [n], T2)))"
    "threads s' = (let th = (threads s)(n \<mapsto> new_record (threadIDS s) (n + 1)) in
       if sched_initialized s = 0 then th(n + 4 \<mapsto> new_record 0 (n + 5)) else th)"
    "sched_initialized s' \<noteq> 0"
proof -
  obtain T1 T2 where T: "a1_pre s {} T1 T2" "sched_abs s = (current s, T1, T2)"
    "current s = (if T1 @ T2 = [] then None else Some (hd (T1 @ T2)))" by (rule a1_inv_abs [OF inv])
  have fs: "fresh_start s" using inv by (simp add: a1_inv_def)
  define s1 where "s1 = a1_new_thread n (n + 1) f arg (s\<lparr>next_addr := n + 2\<rparr>)"
  note s1 = a1_new_thread_ok [OF T(1) ids n s1_def]
  have nT: "n \<notin> set (T1 @ T2)"
    using a1_pre_ready [OF T(1), of n] not_used [OF T(1), of n] n by (auto simp: addresses_used_def)
  obtain h k where e: "a1_enqueue_new n s1 = Some (s1\<lparr>qnodes := h, queue_priority_1 := Some (next_addr s1),
      priority1_size := k, next_addr := next_addr s1 + 1\<rparr>)"
    "a1_pre (s1\<lparr>qnodes := h, queue_priority_1 := Some (next_addr s1), priority1_size := k, next_addr := next_addr s1 + 1\<rparr>)
      ({n} - {n}) (T1 @ [n]) T2"
    by (rule a1_enqueue_new_ok [OF s1(1), of n "new_record (threadIDS s) (n + 1)"])
      (use nT s1(2) in \<open>auto simp: new_record_def\<close>)
  define s2 where "s2 = s1\<lparr>qnodes := h, queue_priority_1 := Some (next_addr s1), priority1_size := k, next_addr := next_addr s1 + 1\<rparr>"
  have s2: "a1_pre s2 {} (T1 @ [n]) T2" "threads s2 = threads s1" "current s2 = current s" "next_addr s2 = n + 4"
    "sched_initialized s2 = sched_initialized s" using e(2) s1 by (simp_all add: s2_def)
  have cr: "a1_create False f arg s = do { s \<leftarrow> (if sched_initialized s2 = 0 then a1_init_main s2 else Some s2);
      (sw, s) \<leftarrow> a1_yield s; Some (0, n, sw, s) }"
  proof -
    have "a1_new_thread n (n + 1) f arg (s\<lparr>next_addr := 2 + n\<rparr>) = s1" by (simp add: s1_def add.commute)
    then show ?thesis using e(1) by (simp add: a1_create_def a1_malloc_def n [symmetric] s2_def del: bind_eq_Some_conv)
  qed
  show thesis
  proof (cases "sched_initialized s = 0")
    case True
    then have th: "threads s = Map.empty" using fs by (simp add: fresh_start_def)
    then have "set (T1 @ T2) = {}" using a1_pre_ready [OF T(1)] by (metis dom_empty empty_iff subsetI subset_empty)
    then have TT: "T1 = []" "T2 = []" by auto
    have ids1: "threadIDS s \<noteq> 0" using T(1) by (simp add: a1_pre_def)
    obtain s3 where s3: "a1_init_main s2 = Some s3" "a1_pre s3 {} ((T1 @ [n]) @ [n + 4]) T2" "current s3 = Some (n + 4)"
      "threads s3 = (threads s2)(n + 4 \<mapsto> new_record 0 (n + 4 + 1))" "sched_initialized s3 = 1"
      by (rule a1_init_main_ok [OF s2(1), of "n + 4"])
        (use s1(2) s2(2,4) th ids1 in \<open>auto simp: new_record_def split: if_splits\<close>)
    obtain sw s' where y: "a1_yield s3 = Some (sw, s')" "a1_inv s'"
      "sched_abs s' = yield_spec (current s3, (T1 @ [n]) @ [n + 4], T2)" "yield_frame s3 s'"
      by (rule a1_pre_yield [OF s3(2)]) (use s3 in \<open>auto simp: fresh_start_def\<close>)
    show thesis
      by (rule that [of sw s']) (use cr True s1(2) s2 s3 y TT yield_frame_simps [OF y(4)] in \<open>simp_all add: Let_def add.commute\<close>)
  next
    case False
    have cin: "c \<in> set (T1 @ T2)" if "current s = Some c" for c using T(3) that hd_in_set [of "T1 @ T2"] by (auto split: if_splits)
    obtain sw s' where y: "a1_yield s2 = Some (sw, s')" "a1_inv s'"
      "sched_abs s' = yield_spec (current s2, T1 @ [n], T2)" "yield_frame s2 s'"
      by (rule a1_pre_yield [OF s2(1)]) (use s2 False cin in \<open>auto simp: fresh_start_def\<close>)
    show thesis
      by (rule that [of sw s']) (use cr False T(2) s1(2) s2 y yield_frame_simps [OF y(4)] in \<open>simp_all add: Let_def\<close>)
  qed
qed

subsection \<open>Ending and joining threads\<close>

lemma exit_frame_simps:
  fixes s :: a1_state
  assumes "exit_frame s c r s'"
  shows "threads s' = (threads s)(c \<mapsto> r)" "contexts s' = contexts s" "stacks s' = stacks s"
    "dom (qnodes s') \<subseteq> dom (qnodes s)" "next_addr s' = next_addr s" "threadIDS s' = threadIDS s"
    "sched_initialized s' = sched_initialized s" "current s' = current s" "itimer s' = itimer s"
proof -
  have e: "s' = s\<lparr>qnodes := qnodes s', queue_priority_1 := queue_priority_1 s',
     queue_priority_2 := queue_priority_2 s', priority1_size := priority1_size s',
     priority2_size := priority2_size s', threads := (threads s)(c \<mapsto> r)\<rparr>"
    using assms by (simp add: exit_frame_def)
  show "threads s' = (threads s)(c \<mapsto> r)" "contexts s' = contexts s" "stacks s' = stacks s" "next_addr s' = next_addr s"
    "threadIDS s' = threadIDS s" "sched_initialized s' = sched_initialized s" "current s' = current s" "itimer s' = itimer s"
    by (subst e, simp)+
  show "dom (qnodes s') \<subseteq> dom (qnodes s)" using assms by (simp add: exit_frame_def)
qed

lemma completed_simps [simp]:
  "thread_id (completed r v) = thread_id r" "tcontext (completed r v) = tcontext r" "tstate (completed r v) = COMPLETED"
  "return_value (completed r v) = (if v \<noteq> 0 then Some v else return_value r)"
  by (simp_all add: completed_def Let_def)

lemma records_ok_inj:
  assumes "records_ok s" "threads s t = Some r" "threads s u = Some r'" "t \<noteq> u"
  shows "thread_id r \<noteq> thread_id r'" "tcontext r \<noteq> tcontext r'"
  using assms unfolding records_ok_def by blast+

lemma records_ok_change:
  assumes ok: "records_ok s" and r: "threads s c = Some r" "threads s' = (threads s)(c \<mapsto> r')"
    "thread_id r' = thread_id r" "tcontext r' = tcontext r" "contexts s' = contexts s" "threadIDS s' = threadIDS s"
  shows "records_ok s'"
  unfolding records_ok_def
proof (intro conjI allI impI)
  have old: "\<exists>q. threads s t = Some q \<and> thread_id q = thread_id p \<and> tcontext q = tcontext p"
    if "threads s' t = Some p" for t p using that r by (cases "t = c") auto
  {
    fix t p assume "threads s' t = Some p"
    then obtain q where q: "threads s t = Some q" "thread_id q = thread_id p" "tcontext q = tcontext p" using old by blast
    show "0 \<le> thread_id p" "thread_id p < threadIDS s'"
      "\<exists>c. contexts s' (tcontext p) = Some c \<and> (thread_id p \<noteq> 0 \<longrightarrow> ss_sp c \<noteq> None)"
      by (rule records_okD [OF ok q(1)], use q r in auto)+
  }
  fix t u p p' assume a: "threads s' t = Some p \<and> threads s' u = Some p' \<and> t \<noteq> u"
  then obtain q q' where "threads s t = Some q" "thread_id q = thread_id p" "tcontext q = tcontext p"
    "threads s u = Some q'" "thread_id q' = thread_id p'" "tcontext q' = tcontext p'" using old by meson
  then show "thread_id p \<noteq> thread_id p'" "tcontext p \<noteq> tcontext p'" using records_ok_inj [OF ok] a by metis+
qed

lemma a1_pre_exit:
  assumes pre: "a1_pre s {} T1 T2" and rep: "ready_rep s1 q1 q2 T1' T2'" and fr: "exit_frame s c (completed r v) s1"
    and r: "threads s c = Some r" and T: "set (T1 @ T2) - {c} \<subseteq> set (T1' @ T2')"
  shows "a1_pre (s1\<lparr>current := None\<rparr>) {} T1' T2'"
proof -
  note f = exit_frame_simps [OF fr]
  have "records_ok s" using pre by (simp add: a1_pre_def)
  then have "records_ok (s1\<lparr>current := None\<rparr>)" by (rule records_ok_change [OF _ r, of _ "completed r v"]) (simp_all add: f)
  moreover have "stacks_ok (s1\<lparr>current := None\<rparr>)" using pre by (simp add: a1_pre_def stacks_ok_def f)
  moreover have "addresses_used (s1\<lparr>current := None\<rparr>) \<subseteq> addresses_used s"
    using subsetD [OF f(4)] r by (auto simp: addresses_used_def f)
  moreover have "ready_rep (s1\<lparr>current := None\<rparr>) q1 q2 T1' T2'" using rep by simp
  moreover have "t \<in> set (T1' @ T2')" if "threads s1 t = Some r'" "tstate r' = ACTIVE" for t r'
  proof -
    have "t \<noteq> c" using that f(1) by auto
    moreover from this have "t \<in> set (T1 @ T2)" using pre that f(1) by (auto simp: a1_pre_def)
    ultimately show ?thesis using T by auto
  qed
  ultimately show ?thesis using pre a1_pre_used [OF pre] by (auto simp: a1_pre_def f)
qed

definition remove_front :: "ready \<Rightarrow> ready" where
  "remove_front = (\<lambda>(c, T1, T2). if T1 = [] then (None, [], tl T2) else (None, tl T1, T2))"

lemma a1_exit_ok:
  assumes inv: "a1_inv s" and c: "current s = Some c"
  obtains sw s' r where "a1_exit v s = Some (sw, s')" "threads s c = Some r" "a1_inv s'"
    "sched_abs s' = yield_spec (remove_front (sched_abs s))" "threads s' = (threads s)(c \<mapsto> completed r v)"
    "itimer s' = timer_spec (remove_front (sched_abs s)) (itimer s)"
proof -
  obtain T1 T2 where T: "a1_pre s {} T1 T2" "sched_abs s = (current s, T1, T2)"
    "current s = (if T1 @ T2 = [] then None else Some (hd (T1 @ T2)))" by (rule a1_inv_abs [OF inv])
  have fs: "fresh_start s" using inv by (simp add: a1_inv_def)
  obtain q1 q2 where rep: "ready_rep s q1 q2 T1 T2" using a1_pre_rep [OF T(1)] by blast
  have ne: "T1 @ T2 \<noteq> []" "c = hd (T1 @ T2)" using T(3) c by (auto split: if_splits)
  define T1' T2' where T': "T1' = tl T1" "T2' = (if T1 = [] then tl T2 else T2)"
  obtain s1 r q1' q2' where s1: "exit_dequeue s v = Some s1" "threads s c = Some r" "ready_rep s1 q1' q2' T1' T2'"
    "exit_frame s c (completed r v) s1"
    by (rule exit_dequeue_front [OF rep ne(1), of v]) (use c ne(2) T' in \<open>auto intro: that\<close>)
  have pre1: "a1_pre (s1\<lparr>current := None\<rparr>) {} T1' T2'"
    by (rule a1_pre_exit [OF T(1) s1(3,4,2)]) (use ne T' in \<open>cases T1; cases T2; auto\<close>)
  obtain sw s' where y: "a1_yield (s1\<lparr>current := None\<rparr>) = Some (sw, s')" "a1_inv s'"
    "sched_abs s' = yield_spec (None, T1', T2')" "itimer s' = timer_spec (None, T1', T2') (itimer s1)"
    "yield_frame (s1\<lparr>current := None\<rparr>) s'"
    by (rule a1_pre_yield [OF pre1]) (use fs s1(2) exit_frame_simps [OF s1(4)] in \<open>auto simp: fresh_start_def\<close>)
  have rf: "remove_front (sched_abs s) = (None, T1', T2')" using T(2) T' by (simp add: remove_front_def)
  have "a1_exit v s = Some (sw, s')" using s1(1,2) exit_frame_simps [OF s1(4)] c y(1) by (simp add: a1_exit_def)
  then show thesis
    by (rule that [OF _ s1(2) y(2)])
      (use rf y yield_frame_simps [OF y(5)] exit_frame_simps [OF s1(4)] in \<open>simp_all del: timer_spec.simps\<close>)
qed

lemma a1_pre_free:
  assumes pre: "a1_pre s {} T1 T2" and r: "threads s t = Some r" "tstate r \<noteq> ACTIVE"
    and cx: "contexts s (tcontext r) = Some cx" "ss_sp cx = Some sp"
    and s': "s' = s\<lparr>stacks := (stacks s)(sp := None), contexts := (contexts s)(tcontext r := None),
      threads := (threads s)(t := None)\<rparr>"
  shows "a1_pre s' {} T1 T2"
proof -
  have ro: "records_ok s" and so: "stacks_ok s" using pre by (simp_all add: a1_pre_def)
  obtain q1 q2 where rep: "ready_rep s q1 q2 T1 T2" using a1_pre_rep [OF pre] by blast
  have ctx: "tcontext p \<noteq> tcontext r" if "threads s u = Some p" "u \<noteq> t" for u p
    using records_ok_inj [OF ro that(1) r(1) that(2)] by simp
  have "records_ok s'"
    unfolding records_ok_def
  proof (intro conjI allI impI)
    fix u p assume u: "threads s' u = Some p"
    then have u': "threads s u = Some p" "u \<noteq> t" by (auto simp: s' split: if_splits)
    show "0 \<le> thread_id p" "thread_id p < threadIDS s'"
      "\<exists>c. contexts s' (tcontext p) = Some c \<and> (thread_id p \<noteq> 0 \<longrightarrow> ss_sp c \<noteq> None)"
      by (rule records_okD [OF ro u'(1)], use ctx [OF u'] in \<open>auto simp: s'\<close>)+
  next
    fix u w p p' assume "threads s' u = Some p \<and> threads s' w = Some p' \<and> u \<noteq> w"
    then show "thread_id p \<noteq> thread_id p'" "tcontext p \<noteq> tcontext p'"
      using records_ok_inj [OF ro, of u p w p'] by (auto simp: s' split: if_splits)
  qed
  moreover have "stacks_ok s'"
    unfolding stacks_ok_def
  proof (intro conjI allI impI)
    fix c x p assume c: "contexts s' c = Some x \<and> ss_sp x = Some p"
    then have c': "contexts s c = Some x" "c \<noteq> tcontext r" by (auto simp: s' split: if_splits)
    then have "p \<noteq> sp" using so c cx unfolding stacks_ok_def by blast
    then show "p \<in> dom (stacks s')" using so c c' by (auto simp: stacks_ok_def s')
  next
    fix c d x y p assume "contexts s' c = Some x \<and> contexts s' d = Some y \<and> ss_sp x = Some p \<and> ss_sp y = Some p"
    then have "contexts s c = Some x \<and> contexts s d = Some y \<and> ss_sp x = Some p \<and> ss_sp y = Some p"
      by (auto simp: s' split: if_splits)
    then show "c = d" using so unfolding stacks_ok_def by blast
  qed
  moreover have "ready_rep s' q1 q2 T1 T2"
  proof -
    have ne: "u \<noteq> t" if "u \<in> set (T1 @ T2)" for u
      by (rule ready_rep_thread [OF rep that]) (use r in auto)
    have "thread_ok (threads s') (contexts s') u" if u: "u \<in> set (T1 @ T2)" for u
      by (rule ready_rep_thread [OF rep u])
        (use ne [OF u] ctx in \<open>auto simp: thread_ok_def s' split: option.splits\<close>)
    moreover have "map (tid (threads s')) (T1 @ T2) = map (tid (threads s)) (T1 @ T2)"
      using ne by (auto simp: s' tid_def)
    ultimately have "threads_ok (threads s') (contexts s') (T1 @ T2)"
      using ready_rep_ok [OF rep] by (simp only: threads_ok_def) blast
    then show ?thesis using rep by (simp add: ready_rep_def s')
  qed
  moreover have "addresses_used s' \<subseteq> addresses_used s" by (auto simp: addresses_used_def s' split: if_splits)
  ultimately show ?thesis using pre a1_pre_used [OF pre] r by (auto simp: a1_pre_def s')
qed

lemma a1_join_done:
  assumes inv: "a1_inv s" and r: "threads s t = Some r" "tstate r = COMPLETED" "thread_id r \<noteq> 0"
  obtains s' where "a1_join t w s = Some (Joined 0 (if w then Some (return_value r) else None), s')"
    "a1_inv s'" "sched_abs s' = sched_abs s" "threads s' = (threads s)(t := None)" "tcontext r \<notin> dom (contexts s')"
proof -
  obtain T1 T2 where T: "a1_pre s {} T1 T2" "sched_abs s = (current s, T1, T2)"
    "current s = (if T1 @ T2 = [] then None else Some (hd (T1 @ T2)))" by (rule a1_inv_abs [OF inv])
  have ro: "records_ok s" and so: "stacks_ok s" using T(1) by (simp_all add: a1_pre_def)
  obtain cx where cx: "contexts s (tcontext r) = Some cx" "ss_sp cx \<noteq> None" by (rule records_okD [OF ro r(1)]) (use r in blast)
  then obtain sp where sp: "ss_sp cx = Some sp" by auto
  then obtain sz where sz: "stacks s sp = Some sz" using so cx unfolding stacks_ok_def by blast
  define s' where "s' = s\<lparr>stacks := (stacks s)(sp := None), contexts := (contexts s)(tcontext r := None),
      threads := (threads s)(t := None)\<rparr>"
  have "a1_pre s' {} T1 T2" by (rule a1_pre_free [OF T(1) r(1) _ cx(1) sp s'_def]) (simp add: r(2))
  then have "a1_inv s'" using T(3) inv by (auto simp: a1_inv_def fresh_start_def s'_def)
  then show thesis
    by (intro that [of s']) (use r cx sp sz in \<open>auto simp: a1_join_def s'_def sched_abs_def\<close>)
qed

end
