(* ===== verification/A1_History.thy ===== *)
theory A1_History
  imports A1_Invariant
begin

section \<open>Histories of the Assignment1 thread library\<close>

text \<open>
  Runs of a client program as sequences of library calls, each made by the running thread (a
  timer signal is a yield), and the properties of the scheduler in every state of a run.
\<close>

subsection \<open>Runs\<close>

text \<open>Thread identifiers are assumed not to overflow.  \<open>my_pthread_join\<close> is called for threads
  that were created and not joined before; the main thread cannot be joined, as its context
  names no allocated stack.\<close>

inductive a1_run :: "a1_state \<Rightarrow> bool" where
  start: "a1_run a1_start"
| create: "a1_run s \<Longrightarrow> threadIDS s < 2147483646 \<Longrightarrow> a1_create fails f arg s = Some (rc, t, sw, s') \<Longrightarrow> a1_run s'"
| yield: "a1_run s \<Longrightarrow> a1_yield s = Some (sw, s') \<Longrightarrow> a1_run s'"
| exit: "a1_run s \<Longrightarrow> a1_exit v s = Some (sw, s') \<Longrightarrow> a1_run s'"
| join: "a1_run s \<Longrightarrow> threads s t = Some r \<Longrightarrow> thread_id r \<noteq> 0 \<Longrightarrow> a1_join t w s = Some (res, s') \<Longrightarrow> a1_run s'"

lemma a1_inv_start: "a1_inv a1_start"
proof -
  have "ready_rep a1_start [] [] [] []" by (simp add: ready_rep_def a1_start_def threads_ok_def)
  then have "a1_pre a1_start {} [] []"
    by (auto simp: a1_pre_def a1_start_def addresses_used_def records_ok_def stacks_ok_def)
  then have "\<exists>T1 T2. a1_pre a1_start {} T1 T2 \<and>
      current a1_start = (if T1 @ T2 = [] then None else Some (hd (T1 @ T2)))"
    by (intro exI [of _ "[]"]) (simp add: a1_start_def)
  then show ?thesis by (simp add: a1_inv_def fresh_start_def a1_start_def)
qed

lemma a1_inv_yield:
  assumes inv: "a1_inv s"
  obtains sw s' where "a1_yield s = Some (sw, s')" "a1_inv s'" "sched_abs s' = yield_spec (sched_abs s)"
    "sw = switch_spec s (current s')" "itimer s' = timer_spec (sched_abs s) (itimer s)" "threads s' = threads s"
proof -
  obtain T1 T2 where T: "a1_pre s {} T1 T2" "sched_abs s = (current s, T1, T2)"
    "current s = (if T1 @ T2 = [] then None else Some (hd (T1 @ T2)))" by (rule a1_inv_abs [OF inv])
  have fs: "fresh_start s" using inv by (simp add: a1_inv_def)
  have cin: "c \<in> set (T1 @ T2)" if "current s = Some c" for c
    using T(3) that hd_in_set [of "T1 @ T2"] by (auto split: if_splits)
  obtain sw s' where y: "a1_yield s = Some (sw, s')" "a1_inv s'" "sched_abs s' = yield_spec (current s, T1, T2)"
    "sw = switch_spec s (current s')" "itimer s' = timer_spec (current s, T1, T2) (itimer s)" "yield_frame s s'"
    by (rule a1_pre_yield [OF T(1)]) (use cin fs in auto)
  show thesis by (rule that [OF y(1,2) _ y(4)]) (use y T(2) yield_frame_simps [OF y(6)] in simp_all)
qed

lemma a1_inv_create_failed:
  assumes inv: "a1_inv s" and c: "a1_create True f arg s = Some (rc, t, sw, s')"
  shows "a1_inv s'"
proof -
  have s': "s' = s\<lparr>next_addr := next_addr s + 2\<rparr>" using c by (auto simp: a1_create_def a1_malloc_def)
  obtain T1 T2 where T: "a1_pre s {} T1 T2" "current s = (if T1 @ T2 = [] then None else Some (hd (T1 @ T2)))"
    by (rule a1_inv_abs [OF inv])
  have "ready_rep s' q1 q2 T1 T2 = ready_rep s q1 q2 T1 T2" "records_ok s' = records_ok s" "stacks_ok s' = stacks_ok s"
    "addresses_used s' = addresses_used s" for q1 q2
    by (simp_all add: s' ready_rep_def records_ok_def stacks_ok_def addresses_used_def)
  then have "a1_pre s' {} T1 T2" using T(1) a1_pre_used [OF T(1)] by (fastforce simp: a1_pre_def s')
  then show ?thesis using inv T(2) by (auto simp: a1_inv_def fresh_start_def s')
qed

lemma a1_exit_current: "a1_exit v s = Some x \<Longrightarrow> a1_inv s \<Longrightarrow> current s \<noteq> None"
proof
  assume e: "a1_exit v s = Some x" and inv: "a1_inv s" and c: "current s = None"
  obtain T1 T2 where T: "a1_pre s {} T1 T2" "current s = (if T1 @ T2 = [] then None else Some (hd (T1 @ T2)))"
    by (rule a1_inv_abs [OF inv])
  then have "T1 = []" "T2 = []" using c by (auto split: if_splits)
  then have "\<exists>q1 q2. ready_rep s q1 q2 [] []" using a1_pre_rep [OF T(1)] by simp
  then have "queue_priority_1 s = None" "queue_priority_2 s = None" by (auto simp: ready_rep_def)
  then have "exit_dequeue s v = Some s" by (simp add: exit_dequeue_def peek_def)
  then show False using e c by (simp add: a1_exit_def)
qed

lemma a1_run_inv: "a1_run s \<Longrightarrow> a1_inv s"
proof (induction rule: a1_run.induct)
  case start
  show ?case by (rule a1_inv_start)
next
  case (create s fails f arg rc t sw s')
  show ?case
  proof (cases fails)
    case True
    then show ?thesis using a1_inv_create_failed [of s f arg rc t sw s'] create by simp
  next
    case False
    obtain sw1 s1 where "a1_create False f arg s = Some (0, next_addr s, sw1, s1)" "a1_inv s1"
      by (rule a1_create_ok [OF create.IH create.hyps(2) refl])
    then show ?thesis using create False by simp
  qed
next
  case (yield s sw s')
  then show ?case using a1_inv_yield [OF yield.IH] by (metis option.inject prod.inject)
next
  case (exit s v sw s')
  then obtain c where "current s = Some c" using a1_exit_current by blast
  then show ?case using a1_exit_ok [OF exit.IH, of c v] exit by (metis option.inject prod.inject)
next
  case (join s t r w res s')
  show ?case
  proof (cases "tstate r = COMPLETED")
    case True
    then show ?thesis using a1_join_done [OF join.IH join.hyps(2) True join.hyps(3), of w] join
      by (metis option.inject prod.inject)
  next
    case False
    obtain sw1 s1 where "a1_yield s = Some (sw1, s1)" "a1_inv s1" by (rule a1_inv_yield [OF join.IH])
    then show ?thesis using join False by (simp add: a1_join_def)
  qed
qed

subsection \<open>A concrete run\<close>

text \<open>The first \<open>my_pthread_create\<close> of a program, and the exit of the thread it created.\<close>

definition one_thread :: a1_state where
  "one_thread = (case a1_create False 7 8 a1_start of Some (rc, t, sw, s) \<Rightarrow> s | None \<Rightarrow> a1_start)"

definition one_exited :: a1_state where
  "one_exited = (case a1_exit 42 one_thread of Some (sw, s) \<Rightarrow> s | None \<Rightarrow> a1_start)"

lemma one_thread:
  "a1_run one_thread" "sched_abs one_thread = (Some 1, [1, 5], [])" "threads one_thread 1 = Some (new_record 1 2)"
  "current one_thread = Some 1"
proof -
  obtain sw s where c: "a1_create False 7 8 a1_start = Some (0, 1, sw, s)" "sched_abs s = (Some 1, [1, 1 + 4], [])"
    "threads s 1 = Some (new_record 1 (1 + 1))"
    by (rule a1_create_ok [OF a1_inv_start, of 1 7 8]) (auto simp: a1_start_def)
  have "a1_run s" by (rule a1_run.create [OF a1_run.start _ c(1)]) (simp add: a1_start_def)
  then show "a1_run one_thread" "sched_abs one_thread = (Some 1, [1, 5], [])"
    "threads one_thread 1 = Some (new_record 1 2)" "current one_thread = Some 1"
    using c by (auto simp: one_thread_def sched_abs_def)
qed

lemma one_exited:
  "a1_run one_exited" "threads one_exited 1 = Some (completed (new_record 1 2) 42)"
  "sched_abs one_exited = (Some 5, [5], [])"
proof -
  obtain sw s where e: "a1_exit 42 one_thread = Some (sw, s)" "sched_abs s = yield_spec (remove_front (sched_abs one_thread))"
    "threads s = (threads one_thread)(1 \<mapsto> completed (new_record 1 2) 42)"
    by (rule a1_exit_ok [OF a1_run_inv [OF one_thread(1)] one_thread(4), of 42]) (use one_thread(3) in auto)
  have "a1_run s" by (rule a1_run.exit [OF one_thread(1) e(1)])
  then show "a1_run one_exited" "threads one_exited 1 = Some (completed (new_record 1 2) 42)"
    "sched_abs one_exited = (Some 5, [5], [])"
    using e one_thread(2) by (simp_all add: one_exited_def remove_front_def)
qed

subsection \<open>Properties\<close>

text \<open>C5: In every state of a run \<open>my_pthread_yield\<close> returns, and it is one step of the two-level round
  robin: a running thread at the front goes to the end of queue 2 and the next front thread
  runs, otherwise the front thread runs; the context switch made is from the old running
  thread's context to the new one's.\<close>

theorem a1_yield_refines:
  assumes "a1_run s"
  shows "\<exists>sw s'. a1_yield s = Some (sw, s') \<and> sched_abs s' = yield_spec (sched_abs s) \<and>
    sw = switch_spec s (current s') \<and> threads s' = threads s"
  by (rule a1_inv_yield [OF a1_run_inv [OF assms]]) blast

theorem a1_yield_refines_witness:
  "a1_run one_thread \<and> (\<exists>sw s'. a1_yield one_thread = Some (sw, s') \<and> sched_abs s' = (Some 5, [5], [1]))"
  using a1_yield_refines [OF one_thread(1)] one_thread by auto

text \<open>The process timer after a yield: switching to a thread that was not running disarms it,
  moving the running thread down while queue 1 has more threads sets half a second, and in
  every other case the setting is left as it was, since the period asked for is rejected.\<close>

theorem a1_yield_timer:
  assumes "a1_run s" "sched_abs s = (c, T1, T2)" "a1_yield s = Some (sw, s')"
  shows "itimer s' = (if T1 @ T2 = [] then itimer s else if c \<noteq> Some (hd (T1 @ T2)) then 0
      else if tl T1 \<noteq> [] then 500000 else itimer s)"
  using a1_inv_yield [OF a1_run_inv [OF assms(1)]] assms by (metis option.inject prod.inject timer_spec.simps)

theorem a1_yield_timer_witness:
  "\<exists>sw s'. a1_yield one_thread = Some (sw, s') \<and> itimer s' = 500000"
proof -
  obtain sw s' where y: "a1_yield one_thread = Some (sw, s')"
    by (rule a1_inv_yield [OF a1_run_inv [OF one_thread(1)]])
  show ?thesis using a1_yield_timer [OF one_thread(1,2) y] y by auto
qed

text \<open>C22: In every state of a run the two queues together hold exactly the threads that were created
  and have not ended, each once, and the running thread is the front of queue 1, or of queue 2
  when queue 1 is empty.\<close>

theorem a1_no_thread_lost:
  assumes "a1_run s"
  shows "distinct (ready_threads (sched_abs s)) \<and>
    set (ready_threads (sched_abs s)) = {t. \<exists>r. threads s t = Some r \<and> tstate r = ACTIVE} \<and>
    current s = (if ready_threads (sched_abs s) = [] then None else Some (hd (ready_threads (sched_abs s))))"
proof -
  obtain T1 T2 where T: "a1_pre s {} T1 T2" "sched_abs s = (current s, T1, T2)"
    "current s = (if T1 @ T2 = [] then None else Some (hd (T1 @ T2)))" by (rule a1_inv_abs [OF a1_run_inv [OF assms]])
  obtain q1 q2 where rep: "ready_rep s q1 q2 T1 T2" using a1_pre_rep [OF T(1)] by blast
  have "distinct (T1 @ T2)" using ready_rep_ok [OF rep] by (auto simp: threads_ok_def distinct_map)
  moreover have "set (T1 @ T2) = {t. \<exists>r. threads s t = Some r \<and> tstate r = ACTIVE}" (is "_ = ?A")
  proof (intro subset_antisym subsetI)
    show "t \<in> ?A" if "t \<in> set (T1 @ T2)" for t by (rule ready_rep_thread [OF rep that]) blast
    show "t \<in> set (T1 @ T2)" if "t \<in> ?A" for t using T(1) that unfolding a1_pre_def by blast
  qed
  ultimately show ?thesis using T(2,3) by (simp only: ready_threads_def fst_conv snd_conv)
qed

theorem a1_no_thread_lost_witness:
  "a1_run one_thread \<and> {t. \<exists>r. threads one_thread t = Some r \<and> tstate r = ACTIVE} = {1, 5}"
  using a1_no_thread_lost [OF one_thread(1)] one_thread by (auto simp: ready_threads_def)

text \<open>C33: \<open>my_pthread_create\<close> returns 0 with a new thread of a new identifier; the thread is put at the
  end of queue 1, the first call also enters the main thread behind it, and the call then
  yields.\<close>

theorem a1_create_refines:
  assumes "a1_run s" "threadIDS s < 2147483646"
  shows "\<exists>sw s' t. a1_create False f arg s = Some (0, t, sw, s') \<and> t \<notin> dom (threads s) \<and>
    (\<exists>cx. threads s' t = Some \<lparr>thread_id = threadIDS s, tcontext = cx, tstate = ACTIVE, return_value = None\<rparr>) \<and>
    (\<forall>u r. threads s u = Some r \<longrightarrow> threads s' u = Some r \<and> thread_id r \<noteq> threadIDS s) \<and>
    sched_abs s' = (if sched_initialized s = 0 then (Some t, [t, t + 4], [])
      else (case sched_abs s of (c, T1, T2) \<Rightarrow> yield_spec (c, T1 @ [t], T2)))"
proof -
  have inv: "a1_inv s" by (rule a1_run_inv [OF assms(1)])
  define n where "n = next_addr s"
  obtain sw s' where c: "a1_create False f arg s = Some (0, n, sw, s')"
    "sched_abs s' = (if sched_initialized s = 0 then (Some n, [n, n + 4], [])
       else (case sched_abs s of (c, T1, T2) \<Rightarrow> yield_spec (c, T1 @ [n], T2)))"
    "threads s' = (let th = (threads s)(n \<mapsto> new_record (threadIDS s) (n + 1)) in
       if sched_initialized s = 0 then th(n + 4 \<mapsto> new_record 0 (n + 5)) else th)"
    by (rule a1_create_ok [OF inv assms(2) n_def])
  obtain T1 T2 where pre: "a1_pre s {} T1 T2" by (rule a1_inv_abs [OF inv])
  then have ro: "records_ok s" by (simp add: a1_pre_def)
  have n: "n \<notin> dom (threads s)" "n + 4 \<notin> dom (threads s)"
    using not_used [OF pre, of n] not_used [OF pre, of "n + 4"] by (auto simp: n_def addresses_used_def)
  have "threads s' u = Some r \<and> thread_id r \<noteq> threadIDS s" if "threads s u = Some r" for u r
    by (rule records_okD [OF ro that]) (use that n c(3) in \<open>auto simp: Let_def\<close>)
  then show ?thesis using c n by (auto simp: Let_def new_record_def)
qed

theorem a1_create_refines_witness:
  "\<exists>sw s' t. a1_create False 9 9 one_thread = Some (0, t, sw, s') \<and> sched_abs s' = (Some 5, [5, t], [1])"
proof -
  have "sched_initialized one_thread \<noteq> 0"
    using one_thread(3) a1_run_inv [OF one_thread(1)] by (auto simp: a1_inv_def fresh_start_def)
  moreover have "threadIDS one_thread < 2147483646" by code_simp
  ultimately show ?thesis using a1_create_refines [OF one_thread(1), of 9 9] one_thread(2) by auto
qed

text \<open>C27: \<open>my_pthread_exit\<close> ends exactly the running thread: it returns, takes that thread out of its
  queue, marks it completed with the value unless that is NULL, and the front thread of the rest
  runs next.\<close>

theorem a1_exit_refines:
  assumes "a1_run s" "current s = Some c" "threads s c = Some r"
  shows "\<exists>sw s'. a1_exit v s = Some (sw, s') \<and> threads s' = (threads s)(c \<mapsto> completed r v) \<and>
    ready_threads (sched_abs s') = remove1 c (ready_threads (sched_abs s)) \<and> runs_front (sched_abs s')"
proof -
  obtain sw s' where e: "a1_exit v s = Some (sw, s')" "sched_abs s' = yield_spec (remove_front (sched_abs s))"
    "threads s' = (threads s)(c \<mapsto> completed r v)"
    by (rule a1_exit_ok [OF a1_run_inv [OF assms(1)] assms(2), of v]) (use assms(3) in auto)
  obtain T1 T2 where T: "sched_abs s = (current s, T1, T2)"
    "current s = (if T1 @ T2 = [] then None else Some (hd (T1 @ T2)))" by (rule a1_inv_abs [OF a1_run_inv [OF assms(1)]])
  then have "T1 @ T2 \<noteq> []" "c = hd (T1 @ T2)" using assms(2) by (auto split: if_splits)
  then have "ready_threads (yield_spec (remove_front (sched_abs s))) = remove1 c (T1 @ T2)"
    using T(1) by (cases T1; cases T2; cases "tl T1"; cases "tl T2") (auto simp: remove_front_def ready_threads_def)
  then show ?thesis using e T(1) yield_spec_runs_front by (simp add: ready_threads_def)
qed

theorem a1_exit_refines_witness:
  "\<exists>sw s'. a1_exit 42 one_thread = Some (sw, s') \<and> ready_threads (sched_abs s') = [5]"
  using a1_exit_refines [OF one_thread(1,4,3), of 42] one_thread(2) by (auto simp: ready_threads_def)

primrec a1_yields :: "nat \<Rightarrow> a1_state \<Rightarrow> a1_state option" where
  "a1_yields 0 s = Some s"
| "a1_yields (Suc n) s = do { s \<leftarrow> a1_yields n s; (sw, s) \<leftarrow> a1_yield s; Some s }"

lemma a1_yields_ok:
  "a1_run s \<Longrightarrow> \<exists>s'. a1_yields n s = Some s' \<and> a1_run s' \<and> sched_abs s' = (yield_spec ^^ n) (sched_abs s) \<and> threads s' = threads s"
proof (induction n)
  case (Suc n)
  then obtain s1 where s1: "a1_yields n s = Some s1" "a1_run s1" "sched_abs s1 = (yield_spec ^^ n) (sched_abs s)"
    "threads s1 = threads s" by blast
  obtain sw s2 where "a1_yield s1 = Some (sw, s2)" "sched_abs s2 = yield_spec (sched_abs s1)" "threads s2 = threads s1"
    by (rule a1_inv_yield [OF a1_run_inv [OF s1(2)]])
  moreover from this(1) have "a1_run s2" by (rule a1_run.yield [OF s1(2)])
  ultimately show ?case using s1 by simp
qed simp

text \<open>C30: No ready thread starves: when the running threads only yield (by a call or by the timer),
  every ready thread runs after fewer yields than there are ready threads, and again after each
  further round.\<close>

theorem a1_every_thread_runs:
  assumes "a1_run s" "threads s t = Some r" "tstate r = ACTIVE"
  shows "\<exists>n < length (ready_threads (sched_abs s)). \<forall>k. \<exists>s'.
    a1_yields (n + k * length (ready_threads (sched_abs s))) s = Some s' \<and> current s' = Some t"
proof -
  let ?T = "ready_threads (sched_abs s)"
  obtain T1 T2 where T: "a1_pre s {} T1 T2" "sched_abs s = (current s, T1, T2)"
    "current s = (if T1 @ T2 = [] then None else Some (hd (T1 @ T2)))" by (rule a1_inv_abs [OF a1_run_inv [OF assms(1)]])
  have "t \<in> set ?T" using T(1,2) assms(2,3) unfolding a1_pre_def ready_threads_def by auto
  then obtain n where n: "n < length ?T" "?T ! n = t" by (auto simp: in_set_conv_nth)
  then have ne: "?T \<noteq> []" by auto
  have rf: "runs_front (sched_abs s)" using T(2,3) by (auto simp: runs_front_def ready_threads_def)
  have "\<exists>s'. a1_yields (n + k * length ?T) s = Some s' \<and> current s' = Some t" for k
  proof -
    obtain s' where "a1_yields (n + k * length ?T) s = Some s'" "sched_abs s' = (yield_spec ^^ (n + k * length ?T)) (sched_abs s)"
      using a1_yields_ok [OF assms(1)] by blast
    moreover have "fst (sched_abs s') = current s'" by (simp add: sched_abs_def)
    ultimately show ?thesis using yield_spec_iter [OF rf ne, of "n + k * length ?T"] n by simp
  qed
  then show ?thesis using n by blast
qed

theorem a1_every_thread_runs_witness:
  "\<exists>n < 2. \<exists>s'. a1_yields (n + 5 * 2) one_thread = Some s' \<and> current s' = Some 1"
proof -
  have "tstate (new_record 1 2) = ACTIVE" by (simp add: new_record_def)
  moreover have "length (ready_threads (sched_abs one_thread)) = 2" using one_thread(2) by (simp add: ready_threads_def)
  ultimately show ?thesis using a1_every_thread_runs [OF one_thread(1,3)] by metis
qed

text \<open>\<open>my_pthread_join\<close> of a thread that has ended returns 0, hands over its return value (an
  indeterminate one if the thread passed NULL to \<open>my_pthread_exit\<close>), releases its stack,
  context and record and leaves the scheduler's queues alone; for a thread that has not ended it
  yields.\<close>

theorem a1_join_behaviour:
  assumes "a1_run s" "threads s t = Some r" "thread_id r \<noteq> 0"
  shows "(tstate r = COMPLETED \<longrightarrow> (\<exists>s'. a1_join t w s = Some (Joined 0 (if w then Some (return_value r) else None), s') \<and>
      sched_abs s' = sched_abs s \<and> threads s' = (threads s)(t := None) \<and> tcontext r \<notin> dom (contexts s'))) \<and>
    (tstate r \<noteq> COMPLETED \<longrightarrow> (\<exists>sw s'. a1_yield s = Some (sw, s') \<and> a1_join t w s = Some (Waiting sw, s')))"
proof (intro conjI impI)
  note inv = a1_run_inv [OF assms(1)]
  show "\<exists>s'. a1_join t w s = Some (Joined 0 (if w then Some (return_value r) else None), s') \<and>
      sched_abs s' = sched_abs s \<and> threads s' = (threads s)(t := None) \<and> tcontext r \<notin> dom (contexts s')"
    if "tstate r = COMPLETED"
    by (rule a1_join_done [OF inv assms(2) that assms(3), of w]) blast
  show "\<exists>sw s'. a1_yield s = Some (sw, s') \<and> a1_join t w s = Some (Waiting sw, s')" if "tstate r \<noteq> COMPLETED"
    by (rule a1_inv_yield [OF inv]) (use that assms(2) in \<open>simp add: a1_join_def\<close>)
qed

theorem a1_join_behaviour_witness:
  "\<exists>s'. a1_join 1 True one_exited = Some (Joined 0 (Some (Some 42)), s') \<and> sched_abs s' = (Some 5, [5], [])"
  using a1_join_behaviour [OF one_exited(1,2), of True] one_exited(3) by (auto simp: new_record_def)

text \<open>C34: What a thread passes to \<open>my_pthread_exit\<close> is what a later \<open>my_pthread_join\<close> delivers, however
  many yields happen in between: a non-NULL value exactly, and NULL as a value that was never
  assigned.\<close>

theorem a1_exit_join_roundtrip:
  assumes "a1_run s" "current s = Some c" "threads s c = Some r" "thread_id r \<noteq> 0" "return_value r = None"
  shows "\<exists>sw s1 s2 s3. a1_exit v s = Some (sw, s1) \<and> a1_yields n s1 = Some s2 \<and>
    a1_join c True s2 = Some (Joined 0 (Some (if v \<noteq> 0 then Some v else None)), s3)"
proof -
  obtain sw s1 where e: "a1_exit v s = Some (sw, s1)" "threads s1 = (threads s)(c \<mapsto> completed r v)"
    by (rule a1_exit_ok [OF a1_run_inv [OF assms(1)] assms(2), of v]) (use assms(3) in auto)
  have "a1_run s1" by (rule a1_run.exit [OF assms(1) e(1)])
  then obtain s2 where s2: "a1_yields n s1 = Some s2" "a1_run s2" "threads s2 = threads s1" using a1_yields_ok by blast
  then have "threads s2 c = Some (completed r v)" using e(2) by simp
  then obtain s3 where "a1_join c True s2 = Some (Joined 0 (Some (return_value (completed r v))), s3)"
    using a1_join_done [OF a1_run_inv [OF s2(2)], of c "completed r v" True] assms(4) by auto
  then show ?thesis using e(1) s2(1) assms(5) by (auto split: if_splits)
qed

theorem a1_exit_join_roundtrip_witness:
  "\<exists>sw s1 s2 s3. a1_exit 42 one_thread = Some (sw, s1) \<and> a1_yields 3 s1 = Some s2 \<and>
    a1_join 1 True s2 = Some (Joined 0 (Some (Some 42)), s3)"
  using a1_exit_join_roundtrip [OF one_thread(1,4,3), of 42 3] by (auto simp: new_record_def)

text \<open>\<open>maintenanceCycle\<close> exchanges the contents of the two queues but not their size counters, which
  afterwards are right only if both queues have the same length; its own timer request is
  rejected, so the process timer stays as it was.\<close>

theorem a1_maintenance_sizes:
  assumes "a1_run s" "sched_abs s = (c, T1, T2)"
  shows "sched_abs (a1_maintenanceCycle s) = (c, T2, T1) \<and>
    priority1_size (a1_maintenanceCycle s) = int (length T1) \<and> priority2_size (a1_maintenanceCycle s) = int (length T2) \<and>
    itimer (a1_maintenanceCycle s) = itimer s"
proof -
  obtain U1 U2 where U: "a1_pre s {} U1 U2" "sched_abs s = (current s, U1, U2)" by (rule a1_inv_abs [OF a1_run_inv [OF assms(1)]])
  obtain q1 q2 where "ready_rep s q1 q2 U1 U2" using a1_pre_rep [OF U(1)] by blast
  then have "priority1_size s = int (length U1)" "priority2_size s = int (length U2)" by (auto simp: ready_rep_def)
  then show ?thesis using assms(2) U(2) by (auto simp: a1_maintenanceCycle_def setitimer_def sched_abs_def)
qed

theorem a1_maintenance_sizes_witness:
  "sched_abs (a1_maintenanceCycle one_thread) = (Some 1, [], [1, 5]) \<and> priority1_size (a1_maintenanceCycle one_thread) = 2"
  using a1_maintenance_sizes [OF one_thread(1,2)] by simp

end
