(* ===== verification/Ticket_Mutex.thy ===== *)
theory Ticket_Mutex
  imports OS_Prelude
begin

section \<open>The ticket mutex\<close>

text \<open>
  \<open>my_pthread_mutex_init\<close>, \<open>my_pthread_mutex_lock\<close>, \<open>my_pthread_mutex_unlock\<close> and
  \<open>my_pthread_mutex_destroy\<close> of my_pthread.c (the same text in both assignments).  The two
  counters are machine words, so tickets wrap around.  A call of the lock function takes its
  ticket in one atomic step and then tests the turn, yielding between the tests; the step
  relation interleaves such calls of any number of threads below \<open>2 ^ 32\<close>.
\<close>

record my_pthread_mutex =
  ticket :: "32 word"
  turn :: "32 word"

definition mutex_init :: "my_pthread_mutex \<Rightarrow> int \<times> my_pthread_mutex" where
  "mutex_init m = (0, m\<lparr>ticket := 0, turn := 0\<rparr>)"

text \<open>The \<open>__sync_fetch_and_add\<close> of \<open>my_pthread_mutex_lock\<close>, and its loop test: \<open>Some 0\<close> is the return
  value, \<open>None\<close> another round through \<open>my_pthread_yield\<close>.\<close>

definition mutex_take :: "my_pthread_mutex \<Rightarrow> 32 word \<times> my_pthread_mutex" where
  "mutex_take m = (ticket m, m\<lparr>ticket := ticket m + 1\<rparr>)"

definition mutex_test :: "my_pthread_mutex \<Rightarrow> 32 word \<Rightarrow> int option" where
  "mutex_test m myturn = (if turn m \<noteq> myturn then None else Some 0)"

text \<open>\<open>turn\<close> is a signed \<open>int\<close> of C: past \<open>2 ^ 31 - 1\<close> its increment is undefined there, and the model
  takes what the compiled addition does, which is to wrap around as the atomic one of \<open>ticket\<close> does.\<close>

definition mutex_unlock :: "my_pthread_mutex \<Rightarrow> int \<times> my_pthread_mutex" where
  "mutex_unlock m = (0, m\<lparr>turn := turn m + 1\<rparr>)"

text \<open>Only the parameter is set to NULL.\<close>

definition mutex_destroy :: "my_pthread_mutex \<Rightarrow> int \<times> my_pthread_mutex" where
  "mutex_destroy m = (0, m)"

subsection \<open>Interleaving of calls\<close>

datatype lock_status = Idle | Spinning "32 word" | Holding

record lock_sys =
  mutex :: my_pthread_mutex
  status :: "nat \<Rightarrow> lock_status"

inductive lock_step :: "nat \<Rightarrow> lock_sys \<Rightarrow> nat \<Rightarrow> lock_sys \<Rightarrow> bool" for N where
  take: "t < N \<Longrightarrow> status s t = Idle \<Longrightarrow> mutex_take (mutex s) = (w, m) \<Longrightarrow>
    lock_step N s t (s\<lparr>mutex := m, status := (status s)(t := Spinning w)\<rparr>)"
| acquire: "status s t = Spinning w \<Longrightarrow> mutex_test (mutex s) w = Some rc \<Longrightarrow>
    lock_step N s t (s\<lparr>status := (status s)(t := Holding)\<rparr>)"
| spin: "status s t = Spinning w \<Longrightarrow> mutex_test (mutex s) w = None \<Longrightarrow> lock_step N s t s"
| unlock: "status s t = Holding \<Longrightarrow> mutex_unlock (mutex s) = (rc, m) \<Longrightarrow>
    lock_step N s t (s\<lparr>mutex := m, status := (status s)(t := Idle)\<rparr>)"

inductive_cases lock_stepE: "lock_step N s t s'"

inductive lock_run :: "nat \<Rightarrow> lock_sys \<Rightarrow> bool" for N where
  init: "mutex_init m0 = (rc, m) \<Longrightarrow> lock_run N \<lparr>mutex = m, status = (\<lambda>t. Idle)\<rparr>"
| step: "lock_run N s \<Longrightarrow> lock_step N s t s' \<Longrightarrow> lock_run N s'"

subsection \<open>The queue of tickets\<close>

text \<open>\<open>lock_rep s qs\<close>: \<open>qs\<close> lists the threads inside a lock call or the critical section in the order
  of their tickets; only the first can hold the mutex.\<close>

definition lock_rep :: "nat \<Rightarrow> lock_sys \<Rightarrow> nat list \<Rightarrow> bool" where
  "lock_rep N s qs \<longleftrightarrow> distinct qs \<and> set qs \<subseteq> {..<N} \<and> (\<forall>t. t \<notin> set qs \<longrightarrow> status s t = Idle) \<and>
     ticket (mutex s) = turn (mutex s) + of_nat (length qs) \<and>
     (\<forall>i < length qs. status s (qs ! i) = Spinning (turn (mutex s) + of_nat i) \<or> (i = 0 \<and> status s (qs ! 0) = Holding))"

lemma lock_rep_length: "lock_rep N s qs \<Longrightarrow> length qs \<le> N"
  using card_mono [of "{..<N}" "set qs"] by (simp add: lock_rep_def distinct_card)

lemma of_nat_word_inj: "i < 4294967296 \<Longrightarrow> j < 4294967296 \<Longrightarrow> (of_nat i :: 32 word) = of_nat j \<longleftrightarrow> i = j"
  by (simp add: word_of_nat_eq_iff take_bit_nat_eq_self)

lemma lock_status_cases:
  assumes "lock_rep N s qs" "status s t \<noteq> Idle"
  obtains i where "i < length qs" "qs ! i = t"
    "status s t = Spinning (turn (mutex s) + of_nat i) \<or> (i = 0 \<and> status s t = Holding)"
proof -
  have "t \<in> set qs" using assms by (auto simp: lock_rep_def)
  then obtain i where "i < length qs" "qs ! i = t" by (auto simp: in_set_conv_nth)
  then show thesis using assms(1) that unfolding lock_rep_def by blast
qed

text \<open>With fewer threads than ticket values, the thread whose ticket is up is the first one.\<close>

lemma lock_first:
  assumes rep: "lock_rep N s qs" and N: "N < 4294967296" and t: "status s t = Spinning (turn (mutex s))"
  shows "qs \<noteq> [] \<and> hd qs = t"
proof -
  obtain i where i: "i < length qs" "qs ! i = t" "status s t = Spinning (turn (mutex s) + of_nat i)"
    by (rule lock_status_cases [OF rep, of t]) (use t in auto)
  then have "(of_nat i :: 32 word) = of_nat 0" using t by simp
  then have "i = 0" using of_nat_word_inj [of i 0] i(1) lock_rep_length [OF rep] N by simp
  then show ?thesis using i by (auto simp: hd_conv_nth)
qed

lemma lock_holder:
  assumes "lock_rep N s qs" "status s t = Holding"
  shows "qs \<noteq> [] \<and> hd qs = t"
  by (rule lock_status_cases [OF assms(1), of t]) (use assms(2) in \<open>auto simp: hd_conv_nth\<close>)

lemma lock_rep_front:
  assumes "lock_rep N s qs" "0 < length qs"
  shows "status s (qs ! 0) = Spinning (turn (mutex s)) \<or> status s (qs ! 0) = Holding"
proof -
  have "\<forall>i < length qs. status s (qs ! i) = Spinning (turn (mutex s) + of_nat i) \<or> (i = 0 \<and> status s (qs ! 0) = Holding)"
    using assms(1) by (simp add: lock_rep_def)
  from this [rule_format, OF assms(2)] show ?thesis by simp
qed

lemma lock_rep_set: "lock_rep N s qs \<Longrightarrow> set qs = {u. status s u \<noteq> Idle}"
  by (auto simp: lock_rep_def in_set_conv_nth) (metis lock_status.distinct(1,3))+

lemma rep_take:
  assumes rep: "lock_rep N s qs" and t: "t < N" "status s t = Idle" "mutex_take (mutex s) = (w, m)"
  shows "lock_rep N (s\<lparr>mutex := m, status := (status s)(t := Spinning w)\<rparr>) (qs @ [t])"
proof -
  have "t \<notin> set qs" using rep t(2) by (auto simp: lock_rep_def in_set_conv_nth)
  then show ?thesis using rep t by (auto simp: lock_rep_def mutex_take_def nth_append less_Suc_eq algebra_simps)
qed

lemma rep_acquire:
  assumes rep: "lock_rep N s qs" and N: "N < 4294967296" and t: "status s t = Spinning w" "mutex_test (mutex s) w = Some rc"
  shows "lock_rep N (s\<lparr>status := (status s)(t := Holding)\<rparr>) qs"
proof -
  have "qs \<noteq> [] \<and> hd qs = t" by (rule lock_first [OF rep N]) (use t in \<open>auto simp: mutex_test_def split: if_splits\<close>)
  then obtain q where q: "qs = t # q" by (cases qs) auto
  have "t \<notin> set q" using rep q by (simp add: lock_rep_def)
  then have "\<forall>i. i < Suc (length q) \<and> (t # q) ! i = t \<longrightarrow> i = 0" by (metis Suc_less_eq not0_implies_Suc nth_Cons_Suc nth_mem)
  then show ?thesis using rep q unfolding lock_rep_def by (auto simp: fun_upd_def)
qed

lemma rep_unlock:
  assumes rep: "lock_rep N s qs" and t: "status s t = Holding" "mutex_unlock (mutex s) = (rc, m)"
  shows "lock_rep N (s\<lparr>mutex := m, status := (status s)(t := Idle)\<rparr>) (tl qs)"
proof -
  obtain q where q: "qs = t # q" using lock_holder [OF rep t(1)] by (cases qs) auto
  have "status s (q ! i) = Spinning (turn (mutex s) + of_nat (Suc i))" if "i < length q" for i
    using rep that q unfolding lock_rep_def by (metis Suc_less_eq length_Cons nat.distinct(1) nth_Cons_Suc)
  then show ?thesis using rep q t by (auto simp: lock_rep_def mutex_unlock_def algebra_simps)
qed

lemma lock_step_rep:
  assumes rep: "lock_rep N s qs" and N: "N < 4294967296" and st: "lock_step N s t s'"
  shows "lock_rep N s' (qs @ [t]) \<or> lock_rep N s' qs \<or> (qs \<noteq> [] \<and> hd qs = t \<and> lock_rep N s' (tl qs))"
  using st
proof cases
  case (take w m)
  then show ?thesis using rep_take [OF rep take(2-4)] by simp
next
  case (acquire w rc)
  then show ?thesis using rep_acquire [OF rep N acquire(2,3)] by simp
next
  case (spin w)
  then show ?thesis using rep by simp
next
  case (unlock rc m)
  then show ?thesis using rep_unlock [OF rep unlock(2,3)] lock_holder [OF rep unlock(2)] by simp
qed

lemma lock_run_rep: "lock_run N s \<Longrightarrow> N < 4294967296 \<Longrightarrow> \<exists>qs. lock_rep N s qs"
proof (induction rule: lock_run.induct)
  case (init m0 rc m)
  have "lock_rep N \<lparr>mutex = m, status = \<lambda>t. Idle\<rparr> []" using init by (auto simp: lock_rep_def mutex_init_def)
  then show ?case by blast
next
  case (step s t s')
  then show ?case using lock_step_rep by blast
qed

subsection \<open>Properties\<close>

lemma filter_one:
  assumes "distinct xs" "x \<in> set xs" "\<And>y. P y = (y = x)"
  shows "filter P xs = [x]"
proof -
  obtain ys zs where xs: "xs = ys @ x # zs" "x \<notin> set ys" "x \<notin> set zs"
    using assms(1) split_list [OF assms(2)] by auto
  then have "filter P ys = []" "filter P zs = []" by (auto simp: filter_empty_conv assms(3))
  then show ?thesis using xs(1) by (simp add: assms(3))
qed

text \<open>A run in which thread 0 holds the mutex and thread 1 waits.\<close>

definition fresh_mutex :: lock_sys where
  "fresh_mutex = \<lparr>mutex = \<lparr>ticket = 0, turn = 0\<rparr>, status = (\<lambda>t. Idle)\<rparr>"

definition contended :: lock_sys where
  "contended = \<lparr>mutex = \<lparr>ticket = 2, turn = 0\<rparr>, status = (\<lambda>t. Idle)(0 := Holding, 1 := Spinning 1)\<rparr>"

lemma contended_run: "lock_run 2 contended"
proof -
  have "lock_run 2 fresh_mutex" using lock_run.init [of "mutex fresh_mutex" 0 _ 2] by (simp add: mutex_init_def fresh_mutex_def)
  from lock_run.step [OF this lock_step.take [of 0]]
  have "lock_run 2 \<lparr>mutex = \<lparr>ticket = 1, turn = 0\<rparr>, status = (\<lambda>t. Idle)(0 := Spinning 0)\<rparr>"
    by (simp add: fresh_mutex_def mutex_take_def)
  from lock_run.step [OF this lock_step.acquire [of _ 0]]
  have "lock_run 2 \<lparr>mutex = \<lparr>ticket = 1, turn = 0\<rparr>, status = (\<lambda>t. Idle)(0 := Holding)\<rparr>"
    by (simp add: mutex_test_def)
  from lock_run.step [OF this lock_step.take [of 1]]
  show ?thesis by (simp add: mutex_take_def contended_def)
qed

text \<open>C16: Mutual exclusion: with fewer than \<open>2 ^ 32\<close> threads, however their calls are interleaved, at most
  one thread is between the return of its lock call and its unlock call, also when the ticket
  counters have wrapped around.\<close>

theorem mutex_mutual_exclusion:
  assumes "lock_run N s" "N < 2 ^ 32" "status s t = Holding" "status s u = Holding"
  shows "t = u"
proof -
  obtain qs where "lock_rep N s qs" using lock_run_rep [OF assms(1)] assms(2) by auto
  then show ?thesis using lock_holder assms(3,4) by metis
qed

theorem mutex_mutual_exclusion_witness: "{u. status contended u = Holding} = {0}"
proof -
  have "status contended 0 = Holding" by (simp add: contended_def)
  then show ?thesis using mutex_mutual_exclusion [OF contended_run, of 0] by auto
qed

text \<open>The threads in the order in which they are served, read off the tickets: for every ticket given
  out and not used up, from the turn on, the threads that hold it.\<close>

definition holds_ticket :: "lock_sys \<Rightarrow> 32 word \<Rightarrow> nat \<Rightarrow> bool" where
  "holds_ticket s w t = (case status s t of Idle \<Rightarrow> False | Spinning v \<Rightarrow> v = w | Holding \<Rightarrow> turn (mutex s) = w)"

definition lock_queue :: "nat \<Rightarrow> lock_sys \<Rightarrow> nat list" where
  "lock_queue N s = concat (map (\<lambda>i. filter (holds_ticket s (turn (mutex s) + of_nat i)) [0..<N])
     [0..<unat (ticket (mutex s) - turn (mutex s))])"

lemma lock_rep_queue:
  assumes rep: "lock_rep N s qs" and N: "N < 4294967296"
  shows "lock_queue N s = qs"
proof -
  note len = lock_rep_length [OF rep]
  have part: "filter (holds_ticket s (turn (mutex s) + of_nat i)) [0..<N] = [qs ! i]" if i: "i < length qs" for i
  proof (rule filter_one)
    show "qs ! i \<in> set [0..<N]" using rep nth_mem [OF i] by (auto simp: lock_rep_def)
    show "holds_ticket s (turn (mutex s) + of_nat i) t = (t = qs ! i)" for t
    proof
      assume "holds_ticket s (turn (mutex s) + of_nat i) t"
      then have t: "status s t = Spinning (turn (mutex s) + of_nat i) \<or> status s t = Holding \<and> (of_nat i :: 32 word) = of_nat 0"
        by (auto simp: holds_ticket_def split: lock_status.splits)
      obtain j where j: "j < length qs" "qs ! j = t"
        "status s t = Spinning (turn (mutex s) + of_nat j) \<or> (j = 0 \<and> status s t = Holding)"
        by (rule lock_status_cases [OF rep, of t]) (use t in auto)
      have "(of_nat i :: 32 word) = of_nat j" using t j(3) by auto
      then show "t = qs ! i" using of_nat_word_inj [of i j] i j len N by auto
    next
      assume "t = qs ! i"
      then show "holds_ticket s (turn (mutex s) + of_nat i) t" using rep i by (auto simp: lock_rep_def holds_ticket_def)
    qed
  qed simp
  have "ticket (mutex s) - turn (mutex s) = of_nat (length qs)" using rep by (simp add: lock_rep_def)
  then have "unat (ticket (mutex s) - turn (mutex s)) = length qs"
    using len N by (simp add: unsigned_of_nat take_bit_nat_eq_self)
  then have "lock_queue N s = concat (map (\<lambda>i. filter (holds_ticket s (turn (mutex s) + of_nat i)) [0..<N]) [0..<length qs])"
    by (simp add: lock_queue_def)
  also have "\<dots> = concat (map (\<lambda>i. [qs ! i]) [0..<length qs])"
    by (rule arg_cong [of _ _ concat], rule map_cong) (simp_all add: part)
  also have "\<dots> = qs" by (simp add: concat_map_singleton map_nth)
  finally show ?thesis .
qed

text \<open>C29: The mutex serves its callers in the order of their tickets.  \<open>lock_queue\<close> reads this order off the
  tickets that are given out and not used up.  In every reachable state the queue holds exactly the
  threads inside a lock call or the critical section, each once; a thread that takes a ticket
  joins at its end; the holder is its first thread, and its unlock removes it; the step of a waiting
  thread leaves the queue alone and lets the thread in exactly when it is the first.\<close>

theorem mutex_fifo:
  assumes "lock_run N s" "N < 2 ^ 32" "lock_step N s t s'"
  shows "set (lock_queue N s) = {u. status s u \<noteq> Idle} \<and> distinct (lock_queue N s) \<and>
    (status s t = Idle \<longrightarrow> lock_queue N s' = lock_queue N s @ [t]) \<and>
    (status s t = Holding \<longrightarrow> lock_queue N s = t # lock_queue N s') \<and>
    (\<forall>w. status s t = Spinning w \<longrightarrow> lock_queue N s' = lock_queue N s \<and>
       (status s' t = Holding \<longleftrightarrow> hd (lock_queue N s) = t))"
proof -
  have N: "N < 4294967296" using assms(2) by simp
  obtain qs where rep: "lock_rep N s qs" using lock_run_rep [OF assms(1) N] by blast
  have inside: "set (lock_queue N s) = {u. status s u \<noteq> Idle} \<and> distinct (lock_queue N s)"
    using lock_rep_set [OF rep] rep by (simp add: lock_rep_queue [OF rep N] lock_rep_def)
  show ?thesis
    using assms(3)
  proof cases
    case (take w m)
    then show ?thesis using inside lock_rep_queue [OF rep N] lock_rep_queue [OF rep_take [OF rep take(2-4)] N] by simp
  next
    case (acquire w rc)
    have "status s t = Spinning (turn (mutex s))" using acquire by (auto simp: mutex_test_def split: if_splits)
    then show ?thesis using inside acquire lock_first [OF rep N]
        lock_rep_queue [OF rep N] lock_rep_queue [OF rep_acquire [OF rep N acquire(2,3)] N] by simp
  next
    case (spin w)
    have "hd qs \<noteq> t"
    proof
      assume hd: "hd qs = t"
      have "0 < length qs" using lock_rep_set [OF rep] spin(2) by (cases qs) auto
      then have "status s t = Spinning (turn (mutex s))" using lock_rep_front [OF rep] hd spin(2) by (auto simp: hd_conv_nth)
      then show False using spin(2,3) by (simp add: mutex_test_def)
    qed
    then show ?thesis using inside spin lock_rep_queue [OF rep N] by simp
  next
    case (unlock rc m)
    have "qs = t # tl qs" using lock_holder [OF rep unlock(2)] by (cases qs) auto
    then show ?thesis using inside unlock lock_rep_queue [OF rep N]
        lock_rep_queue [OF rep_unlock [OF rep unlock(2,3)] N] by simp
  qed
qed

text \<open>The mutex never blocks everybody: whenever a thread is inside a lock call, the mutex is held
  or some waiting thread's next test of the turn succeeds.\<close>

theorem mutex_no_deadlock:
  assumes "lock_run N s" "N < 2 ^ 32" "status s t = Spinning w"
  shows "(\<exists>u. status s u = Holding) \<or> (\<exists>u v. status s u = Spinning v \<and> mutex_test (mutex s) v = Some 0)"
proof -
  obtain qs where rep: "lock_rep N s qs" using lock_run_rep [OF assms(1)] assms(2) by auto
  then have "t \<in> set qs" using assms(3) by (auto simp: lock_rep_def)
  then have "0 < length qs" by (cases qs) auto
  from lock_rep_front [OF rep this] show ?thesis by (auto simp: mutex_test_def)
qed

theorem mutex_no_deadlock_witness:
  "(\<exists>u. status contended u = Holding) \<or> (\<exists>u v. status contended u = Spinning v \<and> mutex_test (mutex contended) v = Some 0)"
  by (rule mutex_no_deadlock [OF contended_run, of 1 1]) (simp_all add: contended_def)

theorem mutex_fifo_witness:
  "\<exists>s'. lock_step 2 contended 0 s' \<and> lock_queue 2 contended = [0, 1] \<and> lock_queue 2 s' = [1]"
proof -
  have st: "lock_step 2 contended 0
      (contended\<lparr>mutex := \<lparr>ticket = 2, turn = 1\<rparr>, status := (status contended)(0 := Idle)\<rparr>)" (is "lock_step 2 contended 0 ?s")
    by (rule lock_step.unlock [of _ _ 0]) (simp_all add: contended_def mutex_unlock_def)
  have "lock_queue 2 contended = [0, 1]"
  proof -
    have two: "[0..<2] = [0, 1::nat]" by (simp add: upt_rec)
    have "unat (2::32 word) = 2" by simp
    then show ?thesis by (simp add: lock_queue_def contended_def two holds_ticket_def)
  qed
  moreover have "(2::nat) < 2 ^ 32" "status contended 0 = Holding" by (simp_all add: contended_def)
  ultimately have "lock_queue 2 ?s = [1]" using mutex_fifo [OF contended_run _ st] by simp
  then show ?thesis using st \<open>lock_queue 2 contended = [0, 1]\<close> by blast
qed

end
