(* ===== verification/A2_Tags.thy ===== *)
theory A2_Tags
  imports Boundary_Tags
begin

unbundle bit_operations_syntax

section \<open>The allocator of Assignment2/mymalloc.c\<close>

text \<open>
  The tag accessors, first fit, placement and coalescing of the Assignment2 allocator.  A tag is
  \<open>size << 1 | flag\<close>.  The memory it works on is partly protected: an access may raise SIGSEGV and
  be repeated after the handler has changed page tables and memory.  The functions are therefore
  written over the machine's word read \<open>rd\<close> and word write \<open>wr\<close>, which may change the state; the
  operating-system region is never protected and is accessed with \<open>prd\<close> and \<open>pwr\<close>, plain accesses
  of a memory.  Pointers are offsets from \<open>memory\<close>; NULL is \<open>None\<close>; leaving the memory or not
  terminating is \<open>None\<close> of the outer option.
\<close>

type_synonym 's rd = "'s \<Rightarrow> int \<Rightarrow> (int \<times> 's) option"
type_synonym 's wr = "'s \<Rightarrow> int \<Rightarrow> int \<Rightarrow> 's option"

subsection \<open>Tag accessors\<close>

definition a2_getHeader :: "int \<Rightarrow> int" where
  "a2_getHeader p = p - 4"

definition a2_getSize :: "'s rd \<Rightarrow> 's \<Rightarrow> int \<Rightarrow> (int \<times> 's) option" where
  "a2_getSize rd s ptr =
     do { (w, s) \<leftarrow> rd s (a2_getHeader ptr);
          let size = w AND NOT 1;
          let size = drop_bit 1 size;
          Some (size, s) }"

definition a2_getOtherSize :: "'s rd \<Rightarrow> 's \<Rightarrow> int \<Rightarrow> (int \<times> 's) option" where
  "a2_getOtherSize rd s ptr =
     do { (w, s) \<leftarrow> rd s ptr;
          let size = w AND NOT 1;
          let size = drop_bit 1 size;
          Some (size, s) }"

definition a2_getAllocation :: "'s rd \<Rightarrow> 's \<Rightarrow> int \<Rightarrow> (int \<times> 's) option" where
  "a2_getAllocation rd s ptr = do { (w, s) \<leftarrow> rd s (a2_getHeader ptr); Some (w AND 1, s) }"

definition a2_getOtherAllocation :: "'s rd \<Rightarrow> 's \<Rightarrow> int \<Rightarrow> (int \<times> 's) option" where
  "a2_getOtherAllocation rd s ptr = do { (w, s) \<leftarrow> rd s ptr; Some (w AND 1, s) }"

definition a2_setValue :: "'s rd \<Rightarrow> 's wr \<Rightarrow> 's \<Rightarrow> int \<Rightarrow> int \<Rightarrow> int \<Rightarrow> 's option" where
  "a2_setValue rd wr s p sz allocation =
     do { s \<leftarrow> wr s p sz;
          (w, s) \<leftarrow> rd s p;
          s \<leftarrow> wr s p (s32 (push_bit 1 w));
          (w, s) \<leftarrow> rd s p;
          wr s p (w OR allocation) }"

definition a2_getFooter :: "'s rd \<Rightarrow> 's \<Rightarrow> int \<Rightarrow> (int \<times> 's) option" where
  "a2_getFooter rd s p = do { (size, s) \<leftarrow> a2_getSize rd s p; Some (p + size - 2 * 4, s) }"

definition a2_getPrevious :: "'s rd \<Rightarrow> 's \<Rightarrow> int \<Rightarrow> (int option \<times> 's) option" where
  "a2_getPrevious rd s ptr =
     do { (size, s) \<leftarrow> a2_getOtherSize rd s (ptr - 8);
          Some (if size = 0 then None else Some (ptr - size), s) }"

text \<open>The allocated bit is read only when the size is 0.\<close>

definition a2_getNext :: "'s rd \<Rightarrow> 's \<Rightarrow> int \<Rightarrow> (int option \<times> 's) option" where
  "a2_getNext rd s ptr =
     do { (size, s) \<leftarrow> a2_getSize rd s ptr;
          let next = ptr + size;
          (nsize, s) \<leftarrow> a2_getSize rd s next;
          if nsize = 0 then
            do { (nalloc, s) \<leftarrow> a2_getAllocation rd s next;
                 Some (if nalloc = 1 then None else Some next, s) }
          else Some (Some next, s) }"

text \<open>\<open>createExtremities\<close> writes through a \<open>char *\<close>, one byte at a time.\<close>

definition a2_createExtremities :: "mem \<Rightarrow> int \<Rightarrow> int \<Rightarrow> int \<Rightarrow> (int \<times> mem) option" where
  "a2_createExtremities m p sz allocated =
     do { m \<leftarrow> store8 m p (sz OR allocated);
          let p = p + sz - 4;
          m \<leftarrow> store8 m p (sz OR allocated);
          let p = (p - sz) + 2 * 4;
          Some (p, m) }"

subsection \<open>First fit and placement\<close>

partial_function (option) a2_findFit_loop ::
    "'s rd \<Rightarrow> 's \<Rightarrow> int \<Rightarrow> int \<Rightarrow> int \<Rightarrow> int \<Rightarrow> (int option \<times> 's) option" where
  "a2_findFit_loop rd s extendedSize ptr blockSize allocBit =
     (if blockSize \<noteq> 0 then
        if allocBit \<noteq> 1 \<and> blockSize \<ge> extendedSize then Some (Some ptr, s)
        else do { (blockSize', s) \<leftarrow> a2_getSize rd s (ptr + blockSize);
                  (allocBit', s) \<leftarrow> a2_getAllocation rd s (ptr + blockSize);
                  a2_findFit_loop rd s extendedSize (ptr + blockSize) blockSize' allocBit' }
      else Some (None, s))"

declare a2_findFit_loop.simps [code]

definition a2_findFit :: "'s rd \<Rightarrow> 's \<Rightarrow> int \<Rightarrow> int \<Rightarrow> (int option \<times> 's) option" where
  "a2_findFit rd s whichMemory extendedSize =
     do { let ptr = whichMemory + 4;
          (blockSize, s) \<leftarrow> a2_getSize rd s ptr;
          (allocBit, s) \<leftarrow> a2_getAllocation rd s ptr;
          a2_findFit_loop rd s extendedSize ptr blockSize allocBit }"

text \<open>The placement in \<open>myallocate\<close>: \<open>None\<close> when the size fits exactly, since both branches ask for
  a strictly larger block; otherwise the header and footer addresses of the block.\<close>

definition a2_place :: "'s rd \<Rightarrow> 's wr \<Rightarrow> 's \<Rightarrow> int \<Rightarrow> int \<Rightarrow> ((int \<times> int) option \<times> 's) option" where
  "a2_place rd wr s ptr extendedSize =
     do { (oldSize, s) \<leftarrow> a2_getSize rd s ptr;
          let difference = s32 (oldSize - extendedSize);
          if u64 oldSize > extendedSize \<and> difference > 2 * 4 then
            do { (f, s) \<leftarrow> a2_getFooter rd s ptr;
                 s \<leftarrow> a2_setValue rd wr s f difference 0;
                 s \<leftarrow> a2_setValue rd wr s (a2_getHeader ptr) (s32 extendedSize) 1;
                 let footerPointer = ptr + extendedSize - 2 * 4;
                 s \<leftarrow> a2_setValue rd wr s footerPointer (s32 extendedSize) 1;
                 s \<leftarrow> a2_setValue rd wr s (footerPointer + 4) difference 0;
                 (f, s) \<leftarrow> a2_getFooter rd s ptr;
                 Some (Some (a2_getHeader ptr, f), s) }
          else if u64 oldSize > extendedSize \<and> difference \<ge> 0 \<and> difference \<le> 2 * 4 then
            do { s \<leftarrow> a2_setValue rd wr s (a2_getHeader ptr) oldSize 1;
                 (f, s) \<leftarrow> a2_getFooter rd s ptr;
                 s \<leftarrow> a2_setValue rd wr s f oldSize 1;
                 (f, s) \<leftarrow> a2_getFooter rd s ptr;
                 Some (Some (a2_getHeader ptr, f), s) }
          else Some (None, s) }"

definition a2_extended :: "int \<Rightarrow> int" where
  "a2_extended sz = (let adjustedSize = (4 - sz mod 4) mod 4 in sz + adjustedSize + 2 * 4)"

text \<open>\<open>initialize\<close> lays out a region like that of VSmymalloc at the start of \<open>memory\<close>; nothing calls
  it.\<close>

definition a2_initialize :: "'s rd \<Rightarrow> 's wr \<Rightarrow> int \<Rightarrow> 's \<Rightarrow> 's option" where
  "a2_initialize rd wr USR_SIZE s =
     do { let memBlock = 0;
          s \<leftarrow> a2_setValue rd wr s memBlock 0 1;
          let epilogue = memBlock + USR_SIZE - 4;
          s \<leftarrow> a2_setValue rd wr s epilogue 0 1;
          let memorySize = USR_SIZE - 2 * 4;
          s \<leftarrow> a2_setValue rd wr s (memBlock + 4) memorySize 0;
          a2_setValue rd wr s (epilogue - 4) memorySize 0 }"

subsection \<open>Coalescing and freeing\<close>

definition a2_coalesce :: "'s rd \<Rightarrow> 's wr \<Rightarrow> 's \<Rightarrow> int \<Rightarrow> 's option" where
  "a2_coalesce rd wr s ptr =
     do {
       (previous, s) \<leftarrow> a2_getPrevious rd s ptr;
       (next, s) \<leftarrow> a2_getNext rd s ptr;
       (size, s) \<leftarrow> a2_getSize rd s ptr;
       (allocPrevious, s) \<leftarrow> (case previous of Some q \<Rightarrow> a2_getAllocation rd s q | None \<Rightarrow> Some (1, s));
       (allocNext, s) \<leftarrow> (case next of Some q \<Rightarrow> a2_getAllocation rd s q | None \<Rightarrow> Some (1, s));
       if allocPrevious = 1 \<and> allocNext = 1 then Some s
       else if allocPrevious = 0 \<and> allocNext = 1 then do {
         q \<leftarrow> previous; (k, s) \<leftarrow> a2_getSize rd s q;
         let size = size + k;
         (f, s) \<leftarrow> a2_getFooter rd s q; s \<leftarrow> a2_setValue rd wr s f 0 0;
         s \<leftarrow> a2_setValue rd wr s (a2_getHeader q) size 0;
         (f, s) \<leftarrow> a2_getFooter rd s ptr; s \<leftarrow> a2_setValue rd wr s f size 0;
         a2_setValue rd wr s (a2_getHeader ptr) 0 0 }
       else if allocPrevious = 1 \<and> allocNext = 0 then do {
         r \<leftarrow> next; (k, s) \<leftarrow> a2_getSize rd s r;
         let size = size + k;
         (f, s) \<leftarrow> a2_getFooter rd s ptr; s \<leftarrow> a2_setValue rd wr s f 0 0;
         s \<leftarrow> a2_setValue rd wr s (a2_getHeader ptr) size 0;
         (f, s) \<leftarrow> a2_getFooter rd s r; s \<leftarrow> a2_setValue rd wr s f size 0;
         a2_setValue rd wr s (a2_getHeader r) 0 0 }
       else if allocPrevious = 0 \<and> allocNext = 0 then do {
         q \<leftarrow> previous; r \<leftarrow> next; (k, s) \<leftarrow> a2_getSize rd s q; (j, s) \<leftarrow> a2_getSize rd s r;
         let size = size + k + j;
         (f, s) \<leftarrow> a2_getFooter rd s q; s \<leftarrow> a2_setValue rd wr s f 0 0;
         s \<leftarrow> a2_setValue rd wr s (a2_getHeader q) size 0;
         (f, s) \<leftarrow> a2_getFooter rd s ptr; s \<leftarrow> a2_setValue rd wr s f 0 0;
         s \<leftarrow> a2_setValue rd wr s (a2_getHeader ptr) 0 0;
         (f, s) \<leftarrow> a2_getFooter rd s r; s \<leftarrow> a2_setValue rd wr s f size 0;
         a2_setValue rd wr s (a2_getHeader r) 0 0 }
       else Some s }"

text \<open>\<open>mydeallocate\<close> relative to the region chosen by its caller's identifier; an address outside
  the accepted range is refused, a block that is free already is not.\<close>

definition a2_deallocate :: "'s rd \<Rightarrow> 's wr \<Rightarrow> int \<Rightarrow> int \<Rightarrow> int \<Rightarrow> 's \<Rightarrow> int option \<Rightarrow> 's option" where
  "a2_deallocate rd wr OS_SIZE USR_SIZE whichMemory s p =
     (case p of
        None \<Rightarrow> Some s
      | Some ptr \<Rightarrow>
          (let relativeAddress = s32 (ptr - whichMemory) in
           if relativeAddress > (OS_SIZE + USR_SIZE) - 2 * 4 \<or> relativeAddress < 4 then Some s
           else do {
             (a, s) \<leftarrow> a2_getAllocation rd s ptr;
             (size, s) \<leftarrow> a2_getSize rd s ptr;
             s \<leftarrow> a2_setValue rd wr s (a2_getHeader ptr) size 0;
             (f, s) \<leftarrow> a2_getFooter rd s ptr;
             s \<leftarrow> a2_setValue rd wr s f size 0;
             a2_coalesce rd wr s ptr }))"

section \<open>Plain memory\<close>

definition prd :: "mem rd" where
  "prd m a = do { w \<leftarrow> load32 m a; Some (w, m) }"

definition pwr :: "mem wr" where
  "pwr m a v = store32 m a v"

text \<open>Reads of a plain memory leave it alone: the value read, alone.\<close>

definition p_getSize :: "mem \<Rightarrow> int \<Rightarrow> int option" where
  "p_getSize m p = do { w \<leftarrow> load32 m (p - 4); Some (drop_bit 1 (w AND NOT 1)) }"

definition p_getOtherSize :: "mem \<Rightarrow> int \<Rightarrow> int option" where
  "p_getOtherSize m p = do { w \<leftarrow> load32 m p; Some (drop_bit 1 (w AND NOT 1)) }"

definition p_getAllocation :: "mem \<Rightarrow> int \<Rightarrow> int option" where
  "p_getAllocation m p = do { w \<leftarrow> load32 m (p - 4); Some (w AND 1) }"

definition p_getFooter :: "mem \<Rightarrow> int \<Rightarrow> int option" where
  "p_getFooter m p = map_option fst (a2_getFooter prd m p)"

definition p_getPrevious :: "mem \<Rightarrow> int \<Rightarrow> int option option" where
  "p_getPrevious m p = map_option fst (a2_getPrevious prd m p)"

definition p_getNext :: "mem \<Rightarrow> int \<Rightarrow> int option option" where
  "p_getNext m p = map_option fst (a2_getNext prd m p)"

definition p_search :: "mem \<Rightarrow> int \<Rightarrow> int \<Rightarrow> int \<Rightarrow> int \<Rightarrow> int option option" where
  "p_search m e p s a = map_option fst (a2_findFit_loop prd m e p s a)"

named_theorems plain \<comment> \<open>the allocator's functions on plain memory\<close>

lemma bind_pair: "(map_option (\<lambda>n. (n, m)) x \<bind> f) = (x \<bind> (\<lambda>n. f (n, m)))"
  by (cases x) auto

lemma case_pair:
  "(case pv of Some q \<Rightarrow> map_option (\<lambda>n. (n, m)) (g q) | None \<Rightarrow> Some (c, m)) =
     map_option (\<lambda>n. (n, m)) (case pv of Some q \<Rightarrow> g q | None \<Rightarrow> Some c)"
  by (cases pv) auto

lemma plain_read [plain]:
  "a2_getSize prd m p = map_option (\<lambda>n. (n, m)) (p_getSize m p)"
  "a2_getOtherSize prd m p = map_option (\<lambda>n. (n, m)) (p_getOtherSize m p)"
  "a2_getAllocation prd m p = map_option (\<lambda>n. (n, m)) (p_getAllocation m p)"
  by (cases "load32 m (p - 4)"; cases "load32 m p";
      simp add: a2_getSize_def a2_getOtherSize_def a2_getAllocation_def prd_def a2_getHeader_def
        p_getSize_def p_getOtherSize_def p_getAllocation_def)+

lemma plain_getFooter [plain]: "a2_getFooter prd m p = map_option (\<lambda>n. (n, m)) (p_getFooter m p)"
  by (cases "p_getSize m p") (simp_all add: p_getFooter_def a2_getFooter_def plain)

lemma plain_getPrevious [plain]: "a2_getPrevious prd m p = map_option (\<lambda>n. (n, m)) (p_getPrevious m p)"
  by (cases "p_getOtherSize m (p - 8)") (simp_all add: p_getPrevious_def a2_getPrevious_def plain)

lemma p_alloc_size: "p_getSize m p = Some n \<Longrightarrow> \<exists>a. p_getAllocation m p = Some a"
  by (auto simp: p_getSize_def p_getAllocation_def bind_eq_Some_conv)

lemma plain_getNext [plain]: "a2_getNext prd m p = map_option (\<lambda>n. (n, m)) (p_getNext m p)"
proof (cases "p_getSize m p")
  case (Some n)
  then show ?thesis using p_alloc_size [of m "p + n" 0]
    by (cases "p_getSize m (p + n)") (auto simp: p_getNext_def a2_getNext_def plain Let_def)
qed (simp add: p_getNext_def a2_getNext_def plain)

text \<open>The tag word that \<open>setValue\<close> leaves.\<close>

definition a2_tag :: "int \<Rightarrow> bool \<Rightarrow> int" where
  "a2_tag n a = 2 * n + of_bool a"

lemma plain_setValue [plain]:
  assumes "tag_size n" "in_mem m q 4"
  shows "a2_setValue prd pwr m q n (of_bool a) = Some (st32 m q (a2_tag n a))"
proof -
  have s: "s32 n = n" "s32 (n * 2) = n * 2" using assms(1) by (auto simp: tag_size_def intro!: s32_id)
  have st: "st32 (st32 m q u) q v = st32 m q v" for u v
    by (simp add: st32_def fun_upd_def fun_eq_iff)
  show ?thesis
    using assms(2) s or_flag [of "n * 2" a]
    by (simp add: a2_setValue_def prd_def pwr_def memory st a2_tag_def push_bit_eq_mult mult.commute)
qed

interpretation a2: boundary_tags a2_tag p_getSize p_getAllocation p_getOtherSize "a2_setValue prd pwr"
  p_getFooter p_getPrevious p_getNext "a2_coalesce prd pwr" p_search
proof unfold_locales
  show "fits a2_tag" by (auto simp: fits_def a2_tag_def tag_size_def intro!: s32_id)
  have d: "drop_bit 1 (a2_tag n a AND NOT 1) = n" for n a
    by (simp add: a2_tag_def flag_simps drop_bit_eq_div)
  show "p_getSize m p = Some n" if "load32 m (p - 4) = Some (a2_tag n a)" for n m p a
    using that d by (simp add: p_getSize_def)
  show "p_getAllocation m p = Some (of_bool a)" if "load32 m (p - 4) = Some (a2_tag n a)" for n m p a
    using that by (simp add: p_getAllocation_def a2_tag_def flag_simps)
  show "p_getOtherSize m q = Some n" if "load32 m q = Some (a2_tag n a)" for n m q a
    using that d by (simp add: p_getOtherSize_def)
  show "p_getFooter m p = do { s \<leftarrow> p_getSize m p; Some (p + s - 8) }" for m p
    by (cases "p_getSize m p") (simp_all add: p_getFooter_def a2_getFooter_def plain)
  show "p_getPrevious m p = do { s \<leftarrow> p_getOtherSize m (p - 8); Some (if s = 0 then None else Some (p - s)) }" for m p
    by (cases "p_getOtherSize m (p - 8)") (simp_all add: p_getPrevious_def a2_getPrevious_def plain)
  show "p_getNext m p = do { s \<leftarrow> p_getSize m p; s' \<leftarrow> p_getSize m (p + s); a \<leftarrow> p_getAllocation m (p + s);
      Some (if s' = 0 \<and> a = 1 then None else Some (p + s)) }" for m p
  proof (cases "p_getSize m p")
    case (Some n)
    then show ?thesis using p_alloc_size [of m "p + n"]
      by (cases "p_getSize m (p + n)"; cases "p_getAllocation m (p + n)") (auto simp: p_getNext_def a2_getNext_def plain Let_def)
  qed (simp add: p_getNext_def a2_getNext_def plain)
  show "p_search m e p s a = (if s \<noteq> 0 then if a \<noteq> 1 \<and> s \<ge> e then Some (Some p)
         else do { s' \<leftarrow> p_getSize m (p + s); a' \<leftarrow> p_getAllocation m (p + s); p_search m e (p + s) s' a' }
       else Some None)" for m e p s a
    by (subst p_search_def, subst a2_findFit_loop.simps, cases "p_getSize m (p + s)"; cases "p_getAllocation m (p + s)")
      (simp_all add: plain p_search_def)
qed (rule plain_setValue, assumption+,
    simp only: a2_coalesce_def plain_read plain_getFooter plain_getPrevious plain_getNext bind_pair case_pair prod.case
      a2_getHeader_def Let_def)

section \<open>Correctness on plain memory\<close>

text \<open>\<open>myallocate\<close> between the choice of the region and the page handling: the guards, first fit and
  placement; the result is the pointer with the addresses of header and footer.\<close>

definition a2_alloc_block ::
    "'s rd \<Rightarrow> 's wr \<Rightarrow> int \<Rightarrow> int \<Rightarrow> 's \<Rightarrow> int \<Rightarrow> ((int \<times> int \<times> int) option \<times> 's) option" where
  "a2_alloc_block rd wr USR_SIZE whichMemory s sz =
     (if sz = 0 then Some (None, s)
      else if sz > USR_SIZE then Some (None, s)
      else do { let extendedSize = a2_extended sz;
                (r, s) \<leftarrow> a2_findFit rd s whichMemory (s32 extendedSize);
                (case r of
                   None \<Rightarrow> Some (None, s)
                 | Some ptr \<Rightarrow>
                     do { (hf, s) \<leftarrow> a2_place rd wr s ptr extendedSize;
                          Some (map_option (\<lambda>hf. (ptr, hf)) hf, s) }) })"

definition a2_alloc_spec :: "int \<Rightarrow> int \<Rightarrow> int \<Rightarrow> blk list \<Rightarrow> (int \<times> int) option \<times> blk list" where
  "a2_alloc_spec USR_SIZE lo sz bs =
     (if sz = 0 \<or> sz > USR_SIZE then (None, bs)
      else case first_fit (a2_extended sz) bs of
             None \<Rightarrow> (None, bs)
           | Some (xs, n, ys) \<Rightarrow>
               if n = a2_extended sz then (None, bs)
               else (Some (lo + total xs + 4, if n - a2_extended sz > 8 then a2_extended sz else n),
                     xs @ place (a2_extended sz) n @ ys))"

lemma a2_extended_bounds:
  assumes "0 < sz" "sz \<le> 6291456"
  shows "12 \<le> a2_extended sz" "4 dvd a2_extended sz" "a2_extended sz < sz + 12" "sz + 8 \<le> a2_extended sz"
    "s32 (a2_extended sz) = a2_extended sz"
proof -
  have e: "a2_extended sz = sz + (4 - sz mod 4) mod 4 + 8" by (simp add: a2_extended_def Let_def)
  show d: "4 dvd a2_extended sz" unfolding e by presburger
  show b: "a2_extended sz < sz + 12" "sz + 8 \<le> a2_extended sz" unfolding e by simp_all
  show "12 \<le> a2_extended sz" using assms b d by presburger
  show "s32 (a2_extended sz) = a2_extended sz" using assms b by (intro s32_id) simp_all
qed

lemma plain_findFit_loop: "a2_findFit_loop prd m e p s a = map_option (\<lambda>r. (r, m)) (p_search m e p s a)"
proof -
  have "m' = m" if "a2_findFit_loop prd m e p s a = Some (r, m')" for r m'
  proof -
    have "prd = prd \<longrightarrow> snd (r, m') = m"
      using that
    proof (rule a2_findFit_loop.raw_induct [of "\<lambda>rd m e p s a y. rd = prd \<longrightarrow> snd y = m", rotated])
      fix loop and rd :: "mem rd" and m e p s a y
      assume IH: "\<And>rd m e p s a y. loop rd m e p s a = Some y \<Longrightarrow> rd = prd \<longrightarrow> snd y = m"
        and eq: "(if s \<noteq> 0 then if a \<noteq> 1 \<and> e \<le> s then Some (Some p, m)
          else a2_getSize rd m (p + s) \<bind> (\<lambda>(blockSize', s'). a2_getAllocation rd s' (p + s) \<bind>
            (\<lambda>(allocBit', s''). loop rd s'' e (p + s) blockSize' allocBit')) else Some (None, m)) = Some y"
      have IH': "snd y = m" if "loop prd m e p s a = Some y" for m e p s a y using IH that by blast
      show "rd = prd \<longrightarrow> snd y = m"
        using eq by (auto simp: plain_read bind_pair bind_eq_Some_conv split: if_splits dest: IH')
    qed
    then show ?thesis by simp
  qed
  then show ?thesis by (cases "a2_findFit_loop prd m e p s a") (auto simp: p_search_def)
qed

lemma plain_findFit:
  assumes ok: "heap_ok a2_tag m lo hi bs"
  shows "a2_findFit prd m lo e = Some (map_option (\<lambda>(xs, n, ys). lo + 4 + total xs) (first_fit e bs), m)"
  using a2.search_first_fit [of m lo hi "[]" bs "lo + 4" e] a2.next_tags [of m lo hi "[]" bs "lo + 4"] ok
  by (simp add: a2_findFit_def plain bind_pair plain_findFit_loop)

lemma plain_place:
  assumes ok: "heap_ok a2_tag m lo hi (xs @ (n, False) # ys)" and p: "p = lo + total xs + 4"
    and e: "12 \<le> e" "4 dvd e" "e < n"
  obtains m' where "a2_place prd pwr m p e = Some (Some (p - 4, p + (if n - e > 8 then e else n) - 8), m')"
    "heap_ok a2_tag m' lo hi (xs @ place e n @ ys)"
    "keeps (payload lo xs \<union> payload (p + n - 4) ys \<union> - {lo..<hi}) m m'"
    "keeps {p..<p + (if n - e > 8 then e else n) - 8} m m'"
proof -
  note sz = heap_ok_sizes [OF ok] and gs = a2.block_tags(1) [OF ok p]
  have c: "u64 n = n" "s32 (n - e) = n - e" "s32 e = e"
    using sz e by (auto intro!: s32_id u64_id)
  show thesis
  proof (cases "n - e > 8")
    case True
    obtain m' where m': "do { f \<leftarrow> p_getFooter m p; m \<leftarrow> a2_setValue prd pwr m f (n - e) 0;
        m \<leftarrow> a2_setValue prd pwr m (p - 4) e 1; m \<leftarrow> a2_setValue prd pwr m (p + e - 8) e 1;
        a2_setValue prd pwr m (p + e - 8 + 4) (n - e) 0 } = Some m'"
      "heap_ok a2_tag m' lo hi (xs @ (e, True) # (n - e, False) # ys)"
      "keeps (payload lo xs \<union> payload (p + n - 4) ys \<union> - {lo..<hi}) m m'" "keeps {p..<p + e - 8} m m'"
      by (rule a2.split_code [OF ok p e(1,2) True])
    have f: "p_getFooter m' p = Some (p + e - 8)" using a2.getFooter_block [OF m'(2) p] .
    show thesis
      by (rule that [of m']) (use m' True gs c e f in
          \<open>auto simp: a2_place_def place_def a2_getHeader_def plain_read plain_getFooter bind_pair Let_def bind_eq_Some_conv\<close>)
  next
    case False
    obtain m' where m': "do { m \<leftarrow> a2_setValue prd pwr m (p - 4) n 1; f \<leftarrow> p_getFooter m p;
        a2_setValue prd pwr m f n 1 } = Some m'"
      "heap_ok a2_tag m' lo hi (xs @ (n, True) # ys)"
      "keeps (payload lo xs \<union> payload (p + n - 4) ys \<union> - {lo..<hi}) m m'" "keeps {p..<p + n - 8} m m'"
      by (rule a2.whole_code [OF ok p])
    have f: "p_getFooter m' p = Some (p + n - 8)" using a2.getFooter_block [OF m'(2) p] .
    show thesis
      by (rule that [of m']) (use m' False gs c e f in
          \<open>auto simp: a2_place_def place_def a2_getHeader_def plain_read plain_getFooter bind_pair Let_def bind_eq_Some_conv\<close>)
  qed
qed

lemma plain_alloc:
  assumes ok: "heap_ok a2_tag m lo hi bs" and sz: "0 \<le> sz" and us: "US \<le> 6291456"
  obtains m' where "a2_alloc_block prd pwr US lo m sz =
      Some (map_option (\<lambda>(p, k). (p, p - 4, p + k - 8)) (fst (a2_alloc_spec US lo sz bs)), m')"
    "heap_ok a2_tag m' lo hi (snd (a2_alloc_spec US lo sz bs))" "keeps (payload lo bs \<union> - {lo..<hi}) m m'"
    "\<And>p k. fst (a2_alloc_spec US lo sz bs) = Some (p, k) \<Longrightarrow> keeps {p..<p + k - 8} m m'"
proof -
  let ?e = "a2_extended sz"
  consider "sz = 0 \<or> sz > US" | (none) "0 < sz" "sz \<le> US" "first_fit ?e bs = None"
    | (fit) xs n ys where "0 < sz" "sz \<le> US" "first_fit ?e bs = Some (xs, n, ys)"
    using sz by (cases "first_fit ?e bs") force+
  then show thesis
  proof cases
    case 1
    then show ?thesis using ok by (intro that [of m]) (auto simp: a2_alloc_block_def a2_alloc_spec_def)
  next
    case none
    then show ?thesis using ok us a2_extended_bounds(5) [of sz] plain_findFit [OF ok, of ?e]
      by (intro that [of m]) (auto simp: a2_alloc_block_def a2_alloc_spec_def)
  next
    case (fit xs n ys)
    have e: "12 \<le> ?e" "4 dvd ?e" "s32 ?e = ?e" using a2_extended_bounds [of sz] fit us by auto
    have bs: "bs = xs @ (n, False) # ys" "?e \<le> n" using first_fit_Some [OF fit(3)] by auto
    note ok' = ok [unfolded bs(1)]
    have p: "lo + 4 + total xs = lo + total xs + 4" by simp
    have pl: "payload lo bs = payload lo xs \<union> payload (lo + total xs + n) ys"
      unfolding bs(1) by (simp add: payload_append)
    show ?thesis
    proof (cases "n = ?e")
      case True
      then have "a2_place prd pwr m (lo + 4 + total xs) ?e = Some (None, m)"
        using a2.block_tags(1) [OF ok' p] heap_ok_sizes [OF ok']
        by (auto simp: a2_place_def plain_read bind_pair Let_def u64_id s32_id)
      then show ?thesis using ok fit True us e plain_findFit [OF ok, of ?e]
        by (intro that [of m]) (auto simp: a2_alloc_block_def a2_alloc_spec_def)
    next
      case False
      obtain m' where m': "a2_place prd pwr m (lo + 4 + total xs) ?e =
          Some (Some (lo + 4 + total xs - 4, lo + 4 + total xs + (if n - ?e > 8 then ?e else n) - 8), m')"
        "heap_ok a2_tag m' lo hi (xs @ place ?e n @ ys)"
        "keeps (payload lo xs \<union> payload (lo + 4 + total xs + n - 4) ys \<union> - {lo..<hi}) m m'"
        "keeps {lo + 4 + total xs..<lo + 4 + total xs + (if n - ?e > 8 then ?e else n) - 8} m m'"
        by (rule plain_place [OF ok' p e(1,2)]) (use False bs in auto)
      then show ?thesis using fit False e plain_findFit [OF ok, of ?e] pl
        by (intro that [of m']) (auto simp: a2_alloc_block_def a2_alloc_spec_def algebra_simps)
    qed
  qed
qed

lemma plain_free:
  assumes ok: "heap_ok a2_tag m lo hi (xs @ (n, a) # ys)" and p: "p = lo + total xs + 4"
    and pro: "xs \<noteq> [] \<or> 0 < lo" and hi: "hi - lo < OS + US" "0 \<le> OS + US" "OS + US \<le> 268435456"
  obtains m' where "a2_deallocate prd pwr OS US lo m (Some p) = Some m'" "heap_ok a2_tag m' lo hi (free_block xs n ys)"
    "keeps (payload lo xs \<union> payload (p + n - 4) ys \<union> - {lo..<hi}) m m'"
proof -
  obtain m' where m': "do { m \<leftarrow> a2_setValue prd pwr m (p - 4) n 0; f \<leftarrow> p_getFooter m p;
      m \<leftarrow> a2_setValue prd pwr m f n 0; a2_coalesce prd pwr m p } = Some m'"
    "heap_ok a2_tag m' lo hi (free_block xs n ys)"
    "keeps (payload lo xs \<union> payload (p + n - 4) ys \<union> - {lo..<hi}) m m'"
    by (rule a2.free_code [OF ok p pro])
  note sz = heap_ok_sizes [OF ok]
  have "s32 (p - lo) = total xs + 4" using sz p by (intro trans [OF s32_id]) auto
  then show thesis
    using m' a2.block_tags [OF ok p] sz hi
    by (intro that [of m'])
      (auto simp: a2_deallocate_def a2_getHeader_def plain_read plain_getFooter bind_pair Let_def)
qed

end
