(* ===== verification/A2_Paging.thy ===== *)
theory A2_Paging
  imports A2_Tags Sched_State
begin

section \<open>Paged memory of Assignment2\<close>

text \<open>
  The 8 MB arena \<open>memory\<close>: an operating-system region of \<open>OS_SIZE\<close> bytes and a user region of
  \<open>MEMORYPAGES\<close> pages, which \<open>mprotect\<close> opens and closes page by page; the swap file behind it; the
  master table, one flag for each of the \<open>TOTALPAGES\<close> frames; and one page table for each thread,
  which maps the thread's page \<open>i\<close> to the frame that holds it, 6969 meaning none.  The page size is
  4096, the size the constants of the code assume.  Addresses are offsets from \<open>memory\<close>.  The tables
  are kept apart from the bytes of the operating-system region they are allocated in.  Indexing a
  table outside its bounds, following a NULL pointer and using the missing result of
  \<open>nextFreePage\<close> are \<open>None\<close>.
\<close>

abbreviation (input) OS_SIZE :: int where "OS_SIZE \<equiv> 2097152"
abbreviation (input) USR_SIZE :: int where "USR_SIZE \<equiv> 6291456"
abbreviation (input) PAGESIZE :: int where "PAGESIZE \<equiv> 4096"
abbreviation (input) MEMORYPAGES :: int where "MEMORYPAGES \<equiv> 1536"
abbreviation (input) TOTALPAGES :: int where "TOTALPAGES \<equiv> 5632"
abbreviation (input) MAXTHREADS :: int where "MAXTHREADS \<equiv> 128"

record a2_state = sched +
  memory :: mem
  prot :: "int \<Rightarrow> bool"
  swapfile :: mem
  pageTables :: "int \<rightharpoonup> addr"
  tables :: "addr \<rightharpoonup> (int \<Rightarrow> int)"
  masterTable :: "int \<Rightarrow> char"
  mainEnqueued :: int
  exited :: "addr option"
  file_open :: bool
  memoryInitialized :: int

subsection \<open>Tables\<close>

definition mt_get :: "a2_state \<Rightarrow> int \<Rightarrow> char option" where
  "mt_get s i = (if 0 \<le> i \<and> i < TOTALPAGES then Some (masterTable s i) else None)"

definition mt_set :: "a2_state \<Rightarrow> int \<Rightarrow> char \<Rightarrow> a2_state option" where
  "mt_set s i c = (if 0 \<le> i \<and> i < TOTALPAGES then Some (s\<lparr>masterTable := (masterTable s)(i := c)\<rparr>) else None)"

definition pt_table :: "a2_state \<Rightarrow> int \<Rightarrow> (addr \<times> (int \<Rightarrow> int)) option" where
  "pt_table s tid =
     (if 0 \<le> tid \<and> tid < MAXTHREADS then do { a \<leftarrow> pageTables s tid; t \<leftarrow> tables s a; Some (a, t) } else None)"

definition pt_get :: "a2_state \<Rightarrow> int \<Rightarrow> int \<Rightarrow> int option" where
  "pt_get s tid i = do { (a, t) \<leftarrow> pt_table s tid; if 0 \<le> i \<and> i < MEMORYPAGES then Some (t i) else None }"

definition pt_set :: "a2_state \<Rightarrow> int \<Rightarrow> int \<Rightarrow> int \<Rightarrow> a2_state option" where
  "pt_set s tid i v =
     do { (a, t) \<leftarrow> pt_table s tid;
          if 0 \<le> i \<and> i < MEMORYPAGES then Some (s\<lparr>tables := (tables s)(a \<mapsto> t(i := s16 v))\<rparr>) else None }"

text \<open>\<open>mprotect\<close> on the page of the arena with the given index; the arena has one page more than
  the user region.  An index beyond it is an address outside the arena.\<close>

definition mprotect :: "a2_state \<Rightarrow> int \<Rightarrow> bool \<Rightarrow> a2_state option" where
  "mprotect s page acc =
     (if 0 \<le> page \<and> page \<le> MEMORYPAGES then Some (s\<lparr>prot := (prot s)(page := acc)\<rparr>) else None)"

definition nextFreePage :: "a2_state \<Rightarrow> int option" where
  "nextFreePage s = map_option int (find (\<lambda>i. masterTable s (int i) = CHR ''0'') [0..<5632])"

subsection \<open>Swapping\<close>

definition user_page :: "int \<Rightarrow> int" where
  "user_page i = OS_SIZE + i * PAGESIZE"

text \<open>\<open>read\<close> and \<open>write\<close> of whole pages at a position of the swap file.  Their results are ignored: on
  a closed descriptor they fail and change nothing.\<close>

definition file_read :: "a2_state \<Rightarrow> int \<Rightarrow> int \<Rightarrow> a2_state option" where
  "file_read s pos dst =
     (if \<not> file_open s then Some s
      else if in_mem (swapfile s) pos PAGESIZE \<and> in_mem (memory s) dst PAGESIZE
      then Some (s\<lparr>memory := (memory s)\<lparr>mbytes := cp (mbytes (memory s)) dst (mbytes (swapfile s)) pos PAGESIZE\<rparr>\<rparr>)
      else None)"

definition file_write :: "a2_state \<Rightarrow> int \<Rightarrow> int \<Rightarrow> a2_state option" where
  "file_write s pos src =
     (if \<not> file_open s then Some s
      else if in_mem (swapfile s) pos PAGESIZE \<and> in_mem (memory s) src PAGESIZE
      then Some (s\<lparr>swapfile := (swapfile s)\<lparr>mbytes := cp (mbytes (swapfile s)) pos (mbytes (memory s)) src PAGESIZE\<rparr>\<rparr>)
      else None)"

definition swap_in :: "a2_state \<Rightarrow> int \<Rightarrow> int \<Rightarrow> a2_state option" where
  "swap_in s newPage des =
     do { let desPtr = user_page des;
          s \<leftarrow> mprotect s des True;
          s \<leftarrow> (if newPage < MEMORYPAGES then
                  do { let pagePtr = user_page newPage;
                       s \<leftarrow> mprotect s newPage True;
                       m \<leftarrow> memcpy (memory s) desPtr pagePtr PAGESIZE;
                       m \<leftarrow> memset m pagePtr 0 PAGESIZE;
                       Some (s\<lparr>memory := m\<rparr>) }
                else if newPage < TOTALPAGES then
                  do { let newPage = s16 (newPage - MEMORYPAGES);
                       file_read s (newPage * PAGESIZE) desPtr }
                else Some s);
          mprotect s des True }"

definition swap_out :: "a2_state \<Rightarrow> int \<Rightarrow> (int \<times> a2_state) option" where
  "swap_out s page =
     do { freePage \<leftarrow> nextFreePage s;
          let pagePtr = user_page page;
          s \<leftarrow> mprotect s page True;
          if freePage < MEMORYPAGES then
            do { let desPtr = user_page freePage;
                 s \<leftarrow> mprotect s freePage True;
                 m \<leftarrow> memcpy (memory s) desPtr pagePtr PAGESIZE;
                 s \<leftarrow> mprotect (s\<lparr>memory := m\<rparr>) freePage False;
                 m \<leftarrow> memset (memory s) pagePtr 0 PAGESIZE;
                 Some (freePage, s\<lparr>memory := m\<rparr>) }
          else if freePage < TOTALPAGES then
            do { s \<leftarrow> file_write s ((freePage - MEMORYPAGES) * PAGESIZE) pagePtr;
                 m \<leftarrow> memset (memory s) pagePtr 0 PAGESIZE;
                 Some (freePage, s\<lparr>memory := m\<rparr>) }
          else Some (6969, s) }"

subsection \<open>Taking a frame from its owner\<close>

text \<open>The loops over all page tables that \<open>myallocate\<close> and \<open>my_pthread_yield\<close> run before they use
  frame \<open>i\<close>: in each table the first entry that names the frame is swapped out.  The first number is
  how many slots of \<open>pageTables\<close> are left; reading past its end is an access outside the array.\<close>

fun evict :: "nat \<Rightarrow> int \<Rightarrow> a2_state \<Rightarrow> a2_state option" where
  "evict 0 i s = None"
| "evict (Suc n) i s =
     (let j = MAXTHREADS - int (Suc n) in
      case pageTables s j of
        None \<Rightarrow> Some s
      | Some a \<Rightarrow>
          do { t \<leftarrow> tables s a;
               s \<leftarrow> (case find (\<lambda>k. t (int k) = i) [0..<1536] of
                       Some k \<Rightarrow> do { (newAddr, s) \<leftarrow> swap_out s i;
                                    s \<leftarrow> pt_set s j (int k) newAddr;
                                    mt_set s newAddr CHR ''1'' }
                     | None \<Rightarrow> Some s);
               evict n i s })"

subsection \<open>The SIGSEGV handler\<close>

definition current_id :: "a2_state \<Rightarrow> int option" where
  "current_id s = do { c \<leftarrow> current s; t \<leftarrow> threads s c; Some (thread_id t) }"

text \<open>Integer division of C, which truncates.\<close>

definition cdiv :: "int \<Rightarrow> int \<Rightarrow> int" where
  "cdiv a b = (if 0 \<le> a then a div b else - ((- a) div b))"

text \<open>The inner loop: the position of the frame in one table before the first entry 6969; running
  past the end of the table is an access outside the array.\<close>

fun seg_scan :: "nat \<Rightarrow> a2_state \<Rightarrow> int \<Rightarrow> int \<Rightarrow> int option option" where
  "seg_scan 0 s i offset = None"
| "seg_scan (Suc n) s i offset =
     do { let j = MEMORYPAGES - int (Suc n);
          v \<leftarrow> pt_get s i j;
          if v = 6969 then Some None
          else if v = offset then Some (Some j)
          else seg_scan n s i offset }"

text \<open>The search through the tables: \<open>Some (Some s)\<close> when the handler returns, \<open>Some None\<close> when it
  ends the process.  A frame found in the last entry of a table is moved, but the search goes on
  and its page is not opened.\<close>

fun seg_tables :: "nat \<Rightarrow> a2_state \<Rightarrow> int \<Rightarrow> a2_state option option" where
  "seg_tables 0 s offset = None"
| "seg_tables (Suc n) s offset =
     (let i = MAXTHREADS - int (Suc n) in
      case pageTables s i of
        None \<Rightarrow> Some None
      | Some a \<Rightarrow>
          do { r \<leftarrow> seg_scan 1536 s i offset;
               (case r of
                  Some j \<Rightarrow>
                    do { (newAddr, s) \<leftarrow> swap_out s offset;
                         s \<leftarrow> mt_set s offset CHR ''0'';
                         s \<leftarrow> pt_set s i j newAddr;
                         s \<leftarrow> mt_set s newAddr CHR ''1'';
                         c \<leftarrow> current_id s;
                         s \<leftarrow> pt_set s c offset offset;
                         s \<leftarrow> mt_set s offset CHR ''1'';
                         s \<leftarrow> mprotect s offset True;
                         Some (Some s) }
                | None \<Rightarrow>
                    do { v \<leftarrow> pt_get s i (MEMORYPAGES - 1);
                         s \<leftarrow> (if v = offset then
                                 do { (newAddr, s) \<leftarrow> swap_out s offset;
                                      s \<leftarrow> mt_set s offset CHR ''0'';
                                      s \<leftarrow> pt_set s i (MEMORYPAGES - 1) newAddr;
                                      s \<leftarrow> mt_set s newAddr CHR ''1'';
                                      c \<leftarrow> current_id s;
                                      s \<leftarrow> pt_set s c offset offset;
                                      mt_set s offset CHR ''1'' }
                               else Some s);
                         seg_tables n s offset }) })"

definition seg_handler :: "a2_state \<Rightarrow> int \<Rightarrow> a2_state option option" where
  "seg_handler s si_addr =
     do { let offset = s16 (cdiv (si_addr - OS_SIZE) PAGESIZE);
          f \<leftarrow> mt_get s offset;
          if f = CHR ''0'' then
            do { s \<leftarrow> mprotect s offset True;
                 c \<leftarrow> current_id s;
                 s \<leftarrow> pt_set s c offset offset;
                 s \<leftarrow> mt_set s offset CHR ''1'';
                 Some (Some s) }
          else seg_tables 128 s offset }"

subsection \<open>Memory accesses\<close>

text \<open>An access to a closed page raises SIGSEGV; when the handler returns the access is repeated.  An
  access that would fault again, and one for which the handler ends the process, do not return.\<close>

definition accessible :: "a2_state \<Rightarrow> int \<Rightarrow> bool" where
  "accessible s x \<longleftrightarrow> x < OS_SIZE \<or> prot s ((x - OS_SIZE) div PAGESIZE)"

definition touch :: "a2_state \<Rightarrow> int \<Rightarrow> a2_state option" where
  "touch s x =
     (if accessible s x then Some s
      else do { r \<leftarrow> seg_handler s x; s \<leftarrow> r; if accessible s x then Some s else None })"

definition a2_rd :: "a2_state rd" where
  "a2_rd s a =
     do { s \<leftarrow> touch s a; s \<leftarrow> touch s (a + 3); w \<leftarrow> load32 (memory s) a; Some (w, s) }"

definition a2_wr :: "a2_state wr" where
  "a2_wr s a v =
     do { s \<leftarrow> touch s a; s \<leftarrow> touch s (a + 3); m \<leftarrow> store32 (memory s) a v; Some (s\<lparr>memory := m\<rparr>) }"

subsection \<open>Initialisation\<close>

text \<open>\<open>initializeMemory\<close> after \<open>posix_memalign\<close> has succeeded: the bytes of the new arena are those of
  the argument, and all its pages are accessible.  When it fails the arena pointer stays NULL and the
  next access is undefined.  The argument also says whether \<open>open\<close> delivers a descriptor for the swap
  file: if it does the file is filled with 16 MB of zeroes, if not the writes fail, and so does every
  later access.\<close>

record a2_arena = mem +
  swap_opens :: bool

definition shifted :: "mem \<Rightarrow> int \<Rightarrow> int \<Rightarrow> mem option" where
  "shifted m p v = do { m \<leftarrow> store32 m p v; w \<leftarrow> load32 m p; store32 m p (s32 (push_bit 1 w)) }"

definition initializeMemory :: "a2_arena \<Rightarrow> a2_state \<Rightarrow> a2_state option" where
  "initializeMemory arena s =
     do { let s = s\<lparr>memoryInitialized := 1\<rparr>;
          let m = mem.truncate arena;
          let ptr = 0;
          let adjustedSize = OS_SIZE - 4;
          m \<leftarrow> shifted m ptr adjustedSize;
          let ptr = ptr + OS_SIZE - 4;
          m \<leftarrow> store32 m ptr 1;
          let ptr = ptr - 4;
          m \<leftarrow> shifted m ptr adjustedSize;
          let ptr = OS_SIZE;
          m \<leftarrow> shifted m ptr USR_SIZE;
          let ptr = ptr + USR_SIZE;
          m \<leftarrow> store32 m ptr 1;
          let ptr = ptr - 4;
          m \<leftarrow> shifted m ptr USR_SIZE;
          Some (s\<lparr>memory := m, prot := (\<lambda>_. True), file_open := swap_opens arena,
                  swapfile := (if swap_opens arena then \<lparr>msize = 16777216, mbytes = (\<lambda>_. 0)\<rparr> else swapfile s)\<rparr>) }"

text \<open>The headers of the first and the last page of a new thread.  For frames in the swap file the
  code hands \<open>write\<close> eight bytes of a four-byte variable, which is undefined.  The in-memory
  branch of \<open>createPageFooter\<close> writes at the start of the page, as \<open>createPageHeader\<close> does.\<close>

definition createPageHeader :: "a2_state \<Rightarrow> int \<Rightarrow> a2_state option" where
  "createPageHeader s offset =
     (let adjustedSize = USR_SIZE - 2 * 4 in
      if offset < MEMORYPAGES then
        do { let p = user_page offset;
             s \<leftarrow> a2_wr s p adjustedSize;
             (w, s) \<leftarrow> a2_rd s p;
             a2_wr s p (s32 (push_bit 1 w)) }
      else None)"

definition createPageFooter :: "a2_state \<Rightarrow> int \<Rightarrow> a2_state option" where
  "createPageFooter s offset =
     (let adjustedSize = USR_SIZE - 2 * 4 in
      if offset < MEMORYPAGES then
        do { let p = user_page offset;
             s \<leftarrow> a2_wr s p adjustedSize;
             (w, s) \<leftarrow> a2_rd s p;
             a2_wr s p (s32 (push_bit 1 w)) }
      else None)"

end
