(* ===== verification/A2_Sched.thy ===== *)
theory A2_Sched
  imports A2_Paging Sched_A1
begin

section \<open>Allocation and threads of Assignment2\<close>

text \<open>
  \<open>myallocate\<close> and \<open>mydeallocate\<close> with their page handling, and the thread library of
  Assignment2/my_pthread.c, which keeps its structures in the operating-system region and moves
  the pages of the threads on every switch.  The queue operations and the parts of yield and exit
  that work on the queues are those of the theories \<open>Thread_Queue\<close> and \<open>Sched_State\<close>.  Parameters:
  \<open>arena\<close> holds the bytes \<open>posix_memalign\<close> delivers and whether the swap file can be opened, \<open>uc\<close> is the size of a \<open>ucontext_t\<close>.
\<close>

subsection \<open>\<open>myallocate\<close> and \<open>mydeallocate\<close>\<close>

definition map_page :: "a2_state \<Rightarrow> int \<Rightarrow> int \<Rightarrow> a2_state option" where
  "map_page s c i = do { s \<leftarrow> pt_set s c i i; s \<leftarrow> mt_set s i CHR ''1''; mprotect s i True }"

text \<open>The loop over the pages of the new block; the number counts the pages left.\<close>

fun map_pages :: "nat \<Rightarrow> int \<Rightarrow> a2_state \<Rightarrow> a2_state option" where
  "map_pages 0 i s = Some s"
| "map_pages (Suc n) i s =
     do { f \<leftarrow> mt_get s i;
          c \<leftarrow> current_id s;
          if f = CHR ''1'' then
            do { v \<leftarrow> pt_get s c i;
                 if v = i then map_pages n (i + 1) s
                 else do { s \<leftarrow> evict 128 i s; s \<leftarrow> map_page s c i; map_pages n (i + 1) s } }
          else do { s \<leftarrow> map_page s c i; map_pages n (i + 1) s } }"

text \<open>\<open>myallocate\<close> once the memory has been initialised.\<close>

definition a2_allocate :: "a2_state \<Rightarrow> int \<Rightarrow> int \<Rightarrow> (int option \<times> a2_state) option" where
  "a2_allocate s sz caller =
     (let whichMemory = (if caller = 999 then OS_SIZE else 0) in
      do { (r, s) \<leftarrow> a2_alloc_block a2_rd a2_wr USR_SIZE whichMemory s sz;
           (case r of
              None \<Rightarrow> Some (None, s)
            | Some (ptr, headerAddress, footerAddress) \<Rightarrow>
                if whichMemory = OS_SIZE then
                  do { let headerPage = s16 ((headerAddress - OS_SIZE) div PAGESIZE);
                       let footerPage = s16 ((footerAddress - OS_SIZE) div PAGESIZE);
                       s \<leftarrow> map_pages (nat (footerPage - headerPage + 1)) headerPage s;
                       Some (Some ptr, s) }
                else Some (Some ptr, s)) })"

definition a2_mydeallocate :: "a2_state \<Rightarrow> int option \<Rightarrow> int \<Rightarrow> a2_state option" where
  "a2_mydeallocate s p caller =
     (let whichMemory = (if caller = 999 then OS_SIZE else 0) in
      a2_deallocate a2_rd a2_wr OS_SIZE USR_SIZE whichMemory s p)"

text \<open>A structure of the library: a NULL result would be dereferenced at once.\<close>

definition os_alloc :: "a2_state \<Rightarrow> int \<Rightarrow> (addr \<times> a2_state) option" where
  "os_alloc s sz = do { (r, s) \<leftarrow> a2_allocate s sz 69; p \<leftarrow> r; Some (p, s) }"

text \<open>The slots of the new array \<open>pageTables\<close> are never cleared.  What they hold at first is what the bytes of its
  block spell, which are those \<open>posix_memalign\<close> has delivered: eight zero bytes are NULL, anything
  else is a pointer to no table, for which the address -1 stands.\<close>

definition fresh_slots :: "mem \<Rightarrow> int \<Rightarrow> int \<rightharpoonup> addr" where
  "fresh_slots m p i =
     (if 0 \<le> i \<and> i < MAXTHREADS \<and> (\<exists>k \<in> {0..7}. mbytes m (p + 8 * i + k) \<noteq> 0) then Some (- 1) else None)"

definition initializeScheduler :: "int \<Rightarrow> a2_state \<Rightarrow> a2_state option" where
  "initializeScheduler uc s =
     (if sched_initialized s = 0 then
        do { let s = s\<lparr>sched_initialized := 1\<rparr>;
             (p, s) \<leftarrow> os_alloc s 1024;
             let s = s\<lparr>pageTables := fresh_slots (memory s) p\<rparr>;
             (q, s) \<leftarrow> os_alloc s 5632;
             let s = s\<lparr>masterTable := (\<lambda>_. CHR ''0'')\<rparr>;
             let s = s\<lparr>prot := (\<lambda>i. if 0 \<le> i \<and> i < MEMORYPAGES then False else prot s i)\<rparr>;
             (t0, s) \<leftarrow> os_alloc s 3072;
             let s = s\<lparr>pageTables := (pageTables s)(0 \<mapsto> t0)\<rparr>;
             (mainThread, s) \<leftarrow> os_alloc s 32;
             (cx, s) \<leftarrow> os_alloc s uc;
             let s = s\<lparr>contexts := (contexts s)(cx \<mapsto> \<lparr>ss_sp = None, ss_size = 0, uc_entry = None\<rparr>),
                       threads := (threads s)(mainThread \<mapsto>
                         \<lparr>thread_id = 0, tcontext = cx, tstate = ACTIVE, return_value = None\<rparr>),
                       current := Some mainThread,
                       tables := (tables s)(t0 \<mapsto>
                         (\<lambda>i. if i = 0 then 0 else if i = MEMORYPAGES - 1 then MEMORYPAGES - 1 else 6969))\<rparr>;
             s \<leftarrow> mt_set s 0 CHR ''1'';
             s \<leftarrow> mt_set s (MEMORYPAGES - 1) CHR ''1'';
             s \<leftarrow> mprotect s 0 True;
             mprotect s (MEMORYPAGES - 1) True }
      else Some s)"

definition a2_myallocate :: "a2_arena \<Rightarrow> int \<Rightarrow> a2_state \<Rightarrow> int \<Rightarrow> int \<Rightarrow> (int option \<times> a2_state) option" where
  "a2_myallocate arena uc s sz caller =
     do { s \<leftarrow> (if memoryInitialized s = 0 then
                  do { s \<leftarrow> initializeMemory arena s;
                       s \<leftarrow> initializeScheduler uc s;
                       Some (s\<lparr>memoryInitialized := 1\<rparr>) }
                else Some s);
          a2_allocate s sz caller }"

subsection \<open>Moving the pages of threads\<close>

text \<open>Resuming a thread after an exit: its frames are brought to their places, other threads' pages
  found there are swapped out first.  The number counts the entries left; a table without an entry
  6969 is read past its end.\<close>

fun load_loop :: "nat \<Rightarrow> int \<Rightarrow> a2_state \<Rightarrow> a2_state option" where
  "load_loop 0 ti s = None"
| "load_loop (Suc n) ti s =
     do { let i = MEMORYPAGES - int (Suc n);
          v \<leftarrow> pt_get s ti i;
          if v = 6969 then Some s
          else
            do { s \<leftarrow> (if v \<noteq> i then
                         do { s \<leftarrow> evict 128 i s;
                              v \<leftarrow> pt_get s ti i;
                              s \<leftarrow> swap_in s v i;
                              mt_set s v CHR ''0'' }
                       else Some s);
                 s \<leftarrow> pt_set s ti i i;
                 s \<leftarrow> mt_set s i CHR ''1'';
                 load_loop n ti s } }"

fun evict_last :: "nat \<Rightarrow> a2_state \<Rightarrow> a2_state option" where
  "evict_last 0 s = None"
| "evict_last (Suc n) s =
     (let j = MAXTHREADS - int (Suc n) in
      case pageTables s j of
        None \<Rightarrow> Some s
      | Some a \<Rightarrow>
          do { v \<leftarrow> pt_get s j (MEMORYPAGES - 1);
               if v = MEMORYPAGES - 1 then
                 do { (newAddr, s) \<leftarrow> swap_out s (MEMORYPAGES - 1);
                      s \<leftarrow> pt_set s j (MEMORYPAGES - 1) newAddr;
                      mt_set s newAddr CHR ''1'' }
               else evict_last n s })"

definition resume_pages :: "int \<Rightarrow> a2_state \<Rightarrow> a2_state option" where
  "resume_pages ti s =
     do { s \<leftarrow> load_loop 1536 ti s;
          v \<leftarrow> pt_get s ti (MEMORYPAGES - 1);
          s \<leftarrow> (if v \<noteq> MEMORYPAGES - 1 then
                  do { s \<leftarrow> evict_last 128 s;
                       v \<leftarrow> pt_get s ti (MEMORYPAGES - 1);
                       s \<leftarrow> swap_in s v (MEMORYPAGES - 1);
                       mt_set s v CHR ''0'' }
                else Some s);
          s \<leftarrow> pt_set s ti (MEMORYPAGES - 1) (MEMORYPAGES - 1);
          mt_set s (MEMORYPAGES - 1) CHR ''1'' }"

text \<open>Switching: the pages of the thread that stops are swapped out, then those of the next thread
  are brought in, without looking for other owners of their places.\<close>

fun save_loop :: "nat \<Rightarrow> int \<Rightarrow> a2_state \<Rightarrow> (int \<times> a2_state) option" where
  "save_loop 0 ti s = None"
| "save_loop (Suc n) ti s =
     do { let i = MEMORYPAGES - int (Suc n);
          v \<leftarrow> pt_get s ti i;
          if v = 6969 then Some (i, s)
          else
            do { (newAddr, s) \<leftarrow> swap_out s i;
                 s \<leftarrow> pt_set s ti i newAddr;
                 s \<leftarrow> mt_set s newAddr CHR ''1'';
                 save_loop n ti s } }"

definition save_pages :: "int \<Rightarrow> a2_state \<Rightarrow> a2_state option" where
  "save_pages ti s =
     do { (storedi, s) \<leftarrow> save_loop 1536 ti s;
          (newAddr, s) \<leftarrow> swap_out s (MEMORYPAGES - 1);
          s \<leftarrow> mt_set s (MEMORYPAGES - 1) CHR ''0'';
          s \<leftarrow> pt_set s ti (MEMORYPAGES - 1) newAddr;
          s \<leftarrow> mt_set s newAddr CHR ''1'';
          Some (s\<lparr>masterTable := (\<lambda>i. if 0 \<le> i \<and> i < storedi then CHR ''0'' else masterTable s i)\<rparr>) }"

fun restore_loop :: "nat \<Rightarrow> int \<Rightarrow> a2_state \<Rightarrow> a2_state option" where
  "restore_loop 0 ti s = None"
| "restore_loop (Suc n) ti s =
     do { let i = MEMORYPAGES - int (Suc n);
          v \<leftarrow> pt_get s ti i;
          if v = 6969 then Some s
          else
            do { s \<leftarrow> (if v \<noteq> i then do { s \<leftarrow> swap_in s v i; mt_set s v CHR ''0'' } else Some s);
                 s \<leftarrow> pt_set s ti i i;
                 s \<leftarrow> mt_set s i CHR ''1'';
                 restore_loop n ti s } }"

definition restore_pages :: "int \<Rightarrow> a2_state \<Rightarrow> a2_state option" where
  "restore_pages ti s =
     do { s \<leftarrow> restore_loop 1536 ti s;
          v \<leftarrow> pt_get s ti (MEMORYPAGES - 1);
          s \<leftarrow> (if v \<noteq> MEMORYPAGES - 1 then
                  do { s \<leftarrow> swap_in s v (MEMORYPAGES - 1); mt_set s v CHR ''0'' }
                else Some s);
          s \<leftarrow> pt_set s ti (MEMORYPAGES - 1) (MEMORYPAGES - 1);
          mt_set s (MEMORYPAGES - 1) CHR ''1'' }"

subsection \<open>\<open>my_pthread_yield\<close>\<close>

text \<open>Unlike Assignment1 the code sets \<open>ITIMER_VIRTUAL\<close>, whose signal is not the one it handles.\<close>

definition setitimer_virtual :: "int \<Rightarrow> 'a sched_scheme \<Rightarrow> 'a sched_scheme" where
  "setitimer_virtual usec s = (if 0 \<le> usec \<and> usec < 1000000 then s\<lparr>vtimer := usec\<rparr> else s)"

definition a2_arm_timer :: "int \<Rightarrow> 'a sched_scheme \<Rightarrow> 'a sched_scheme" where
  "a2_arm_timer pr s = setitimer_virtual (500000 * pr) (s\<lparr>timer_usec := 500000 * pr\<rparr>)"

text \<open>The branch after an exit, and the switch to a front thread that is not running; the code has
  them once for each queue.\<close>

definition a2_resume :: "addr \<Rightarrow> my_pthread \<Rightarrow> a2_state \<Rightarrow> (switch \<times> a2_state) option" where
  "a2_resume current_thread ct s =
     do { let s = a2_arm_timer 0 (s\<lparr>current := Some current_thread\<rparr>);
          s \<leftarrow> resume_pages (thread_id ct) s;
          sw \<leftarrow> setcontext s (tcontext ct);
          Some (sw, s) }"

definition a2_switch :: "my_pthread \<Rightarrow> addr \<Rightarrow> my_pthread \<Rightarrow> a2_state \<Rightarrow> (switch \<times> a2_state) option" where
  "a2_switch tt current_thread ct s =
     do { let s = a2_arm_timer 0 (s\<lparr>current := Some current_thread\<rparr>);
          s \<leftarrow> save_pages (thread_id tt) s;
          s \<leftarrow> restore_pages (thread_id ct) s;
          sw \<leftarrow> swapcontext s (tcontext tt) (tcontext ct);
          Some (sw, s) }"

definition a2_rotate_p1 :: "addr \<Rightarrow> a2_state \<Rightarrow> (switch \<times> a2_state) option" where
  "a2_rotate_p1 temp s =
     do { s \<leftarrow> requeue_p1 s;
          (prio, next_thread, s) \<leftarrow> pick_next s;
          let s = a2_arm_timer prio (s\<lparr>current := Some next_thread\<rparr>);
          tt \<leftarrow> threads s temp;
          nt \<leftarrow> threads s next_thread;
          s \<leftarrow> save_pages (thread_id tt) s;
          s \<leftarrow> restore_pages (thread_id nt) s;
          sw \<leftarrow> swapcontext s (tcontext tt) (tcontext nt);
          Some (sw, s) }"

definition a2_rotate_p2 :: "addr \<Rightarrow> a2_state \<Rightarrow> (switch \<times> a2_state) option" where
  "a2_rotate_p2 temp s =
     do { s \<leftarrow> requeue_p2 s;
          (prio, next_thread, s) \<leftarrow> pick_next_p2 s;
          let s = a2_arm_timer prio (s\<lparr>current := Some next_thread\<rparr>);
          tt \<leftarrow> threads s temp;
          nt \<leftarrow> threads s next_thread;
          s \<leftarrow> save_pages (thread_id tt) s;
          s \<leftarrow> restore_pages (thread_id nt) s;
          sw \<leftarrow> swapcontext s (tcontext tt) (tcontext nt);
          Some (sw, s) }"

definition a2_yield_p1 :: "addr \<Rightarrow> a2_state \<Rightarrow> (switch \<times> a2_state) option" where
  "a2_yield_p1 current_thread_node s =
     do { nd \<leftarrow> qnodes s current_thread_node;
          let current_thread = thread nd;
          ct \<leftarrow> threads s current_thread;
          (case current s of
             None \<Rightarrow> a2_resume current_thread ct s
           | Some temp \<Rightarrow>
               do { tt \<leftarrow> threads s temp;
                    if thread_id tt \<noteq> thread_id ct then a2_switch tt current_thread ct s
                    else a2_rotate_p1 temp s }) }"

definition a2_yield_p2 :: "addr \<Rightarrow> a2_state \<Rightarrow> (switch \<times> a2_state) option" where
  "a2_yield_p2 current_thread_node s =
     do { nd \<leftarrow> qnodes s current_thread_node;
          let current_thread = thread nd;
          ct \<leftarrow> threads s current_thread;
          (case current s of
             None \<Rightarrow> a2_resume current_thread ct s
           | Some temp \<Rightarrow>
               do { tt \<leftarrow> threads s temp;
                    if thread_id tt \<noteq> thread_id ct then a2_switch tt current_thread ct s
                    else a2_rotate_p2 temp s }) }"

definition a2_yield :: "a2_state \<Rightarrow> (switch \<times> a2_state) option" where
  "a2_yield s =
     do { n1 \<leftarrow> peek (qnodes s) (queue_priority_1 s);
          (case n1 of
             Some current_thread_node \<Rightarrow> a2_yield_p1 current_thread_node s
           | None \<Rightarrow>
               do { n2 \<leftarrow> peek (qnodes s) (queue_priority_2 s);
                    (case n2 of
                       Some current_thread_node \<Rightarrow> a2_yield_p2 current_thread_node s
                     | None \<Rightarrow> Some (Return, s)) }) }"

definition a2_timer_handler :: "a2_state \<Rightarrow> (switch \<times> a2_state) option" where
  "a2_timer_handler s = a2_yield s"

subsection \<open>\<open>my_pthread_create\<close>\<close>

text \<open>A node for a thread in queue 1, as in Assignment1 but in the operating-system region.\<close>

definition a2_enqueue_new :: "addr \<Rightarrow> a2_state \<Rightarrow> a2_state option" where
  "a2_enqueue_new t s =
     do { (new_node, s) \<leftarrow> os_alloc s 40;
          let s = s\<lparr>qnodes := (qnodes s)(new_node \<mapsto>
                \<lparr>priority = 1, thread = t, nextn = None, waiting_id = 0, join_value = None\<rparr>)\<rparr>;
          (h, q, n) \<leftarrow> enqueue (qnodes s) new_node (queue_priority_1 s) (priority1_size s);
          Some (s\<lparr>qnodes := h, queue_priority_1 := q, priority1_size := n\<rparr>) }"

text \<open>The page table and the first and last page of a new thread.  The entries of the new table are
  all assigned before one is read.\<close>

definition new_page_table :: "int \<Rightarrow> a2_state \<Rightarrow> a2_state option" where
  "new_page_table ti s =
     do { (a, s) \<leftarrow> os_alloc s 3072;
          s \<leftarrow> (if 0 \<le> ti \<and> ti < MAXTHREADS
                then Some (s\<lparr>pageTables := (pageTables s)(ti \<mapsto> a), tables := (tables s)(a \<mapsto> (\<lambda>_. 0))\<rparr>) else None);
          pageIndex \<leftarrow> nextFreePage s;
          s \<leftarrow> pt_set s ti 0 pageIndex;
          s \<leftarrow> mt_set s pageIndex CHR ''1'';
          s \<leftarrow> mprotect s pageIndex True;
          s \<leftarrow> createPageHeader s pageIndex;
          endIndex \<leftarrow> nextFreePage s;
          s \<leftarrow> pt_set s ti (MEMORYPAGES - 1) endIndex;
          s \<leftarrow> mt_set s endIndex CHR ''1'';
          s \<leftarrow> mprotect s endIndex True;
          s \<leftarrow> createPageFooter s endIndex;
          (a, t) \<leftarrow> pt_table s ti;
          let s = s\<lparr>tables := (tables s)(a \<mapsto> (\<lambda>i. if 1 \<le> i \<and> i < MEMORYPAGES - 1 then 6969 else t i))\<rparr>;
          s \<leftarrow> mprotect s pageIndex False;
          mprotect s endIndex False }"

definition a2_create ::
    "a2_arena \<Rightarrow> int \<Rightarrow> bool \<Rightarrow> int \<Rightarrow> int \<Rightarrow> a2_state \<Rightarrow> (int \<times> addr \<times> switch \<times> a2_state) option" where
  "a2_create arena uc getcontext_fails function arg s =
     do { (r, s) \<leftarrow> a2_myallocate arena uc s 32 69;
          t \<leftarrow> r;
          (cx, s) \<leftarrow> os_alloc s uc;
          if getcontext_fails then Some (-1, t, Return, s)
          else
            do { (sp, s) \<leftarrow> os_alloc s 10000;
                 let i = threadIDS s;
                 let s = s\<lparr>stacks := (stacks s)(sp \<mapsto> 10000),
                           contexts := (contexts s)(cx \<mapsto>
                             \<lparr>ss_sp = Some sp, ss_size = 10000, uc_entry = Some (function, arg)\<rparr>),
                           threads := (threads s)(t \<mapsto>
                             \<lparr>thread_id = i, tcontext = cx, tstate = ACTIVE, return_value = None\<rparr>),
                           threadIDS := s32 (threadIDS s + 1)\<rparr>;
                 s \<leftarrow> a2_enqueue_new t s;
                 s \<leftarrow> (if mainEnqueued s = 0 then
                         do { let s = s\<lparr>mainEnqueued := 1\<rparr>; c \<leftarrow> current s; a2_enqueue_new c s }
                       else Some s);
                 s \<leftarrow> new_page_table i s;
                 (sw, s) \<leftarrow> a2_yield s;
                 Some (0, t, sw, s) } }"

subsection \<open>\<open>my_pthread_exit\<close> and \<open>my_pthread_join\<close>\<close>

text \<open>The node that exit takes out of its queue, for releasing its memory.\<close>

definition exit_node :: "a2_state \<Rightarrow> addr option" where
  "exit_node s =
     do { h1 \<leftarrow> peek (qnodes s) (queue_priority_1 s);
          h2 \<leftarrow> peek (qnodes s) (queue_priority_2 s);
          (case h1 of
             Some n \<Rightarrow> do { c \<leftarrow> current s; ct \<leftarrow> threads s c; nd \<leftarrow> qnodes s n; t \<leftarrow> threads s (thread nd);
                          if thread_id ct = thread_id t then h1 else h2 }
           | None \<Rightarrow> h2) }"

definition a2_exit :: "int \<Rightarrow> a2_state \<Rightarrow> (switch \<times> a2_state) option" where
  "a2_exit value_ptr s =
     do { let removed_node = exit_node s;
          s \<leftarrow> exit_dequeue s value_ptr;
          s \<leftarrow> (case removed_node of Some n \<Rightarrow> a2_mydeallocate s (Some n) 69 | None \<Rightarrow> Some s);
          c \<leftarrow> current s;
          t \<leftarrow> threads s c;
          let s = (if thread_id t = 0 then s\<lparr>file_open := False\<rparr> else s);
          a2_yield (s\<lparr>exited := Some c, current := None\<rparr>) }"

text \<open>Giving the frames of an ended thread back.\<close>

fun release_loop :: "nat \<Rightarrow> int \<Rightarrow> a2_state \<Rightarrow> a2_state option" where
  "release_loop 0 ti s = None"
| "release_loop (Suc n) ti s =
     do { let i = MEMORYPAGES - int (Suc n);
          v \<leftarrow> pt_get s ti i;
          if v = 6969 then Some s
          else
            do { s \<leftarrow> (if v < MEMORYPAGES then mprotect s v True else Some s);
                 s \<leftarrow> mt_set s v CHR ''0'';
                 release_loop n ti s } }"

definition release_pages :: "int \<Rightarrow> a2_state \<Rightarrow> a2_state option" where
  "release_pages ti s =
     do { s \<leftarrow> release_loop 1536 ti s;
          v \<leftarrow> pt_get s ti (MEMORYPAGES - 1);
          s \<leftarrow> (if v < MEMORYPAGES then mprotect s v True else Some s);
          mt_set s v CHR ''0'' }"

text \<open>The slot of \<open>pageTables\<close> keeps the pointer to the released table.  A context whose stack pointer was never
  assigned, that of the main thread, hands an unassigned pointer to \<open>mydeallocate\<close>.  A structure whose block
  has been given back has no meaning here, although its bytes stay in the arena for some time.\<close>

definition a2_join :: "addr \<Rightarrow> bool \<Rightarrow> a2_state \<Rightarrow> (join_result \<times> a2_state) option" where
  "a2_join t value_wanted s =
     do { r \<leftarrow> threads s t;
          if tstate r \<noteq> COMPLETED then do { (sw, s) \<leftarrow> a2_yield s; Some (Waiting sw, s) }
          else
            do { s \<leftarrow> release_pages (thread_id r) s;
                 (a, tb) \<leftarrow> pt_table s (thread_id r);
                 s \<leftarrow> a2_mydeallocate s (Some a) 69;
                 let s = s\<lparr>tables := (tables s)(a := None)\<rparr>;
                 cx \<leftarrow> contexts s (tcontext r);
                 sp \<leftarrow> ss_sp cx;
                 s \<leftarrow> a2_mydeallocate s (Some sp) 69;
                 let s = s\<lparr>stacks := (stacks s)(sp := None)\<rparr>;
                 s \<leftarrow> a2_mydeallocate s (Some (tcontext r)) 69;
                 let s = s\<lparr>contexts := (contexts s)(tcontext r := None)\<rparr>;
                 s \<leftarrow> a2_mydeallocate s (Some t) 69;
                 let s = s\<lparr>threads := (threads s)(t := None)\<rparr>;
                 Some (Joined 0 (if value_wanted then Some (return_value r) else None), s) } }"

end
