(* ===== verification/A2_Frames.thy ===== *)
theory A2_Frames
  imports A2_Sched
begin

section \<open>Frames, flags and page tables\<close>

text \<open>
  What the paging code of Assignment2 works on, without the layout in memory: the contents of the 5632
  frames, the flags of the master table and the entries of the page tables.  Each operation is
  given a rule for total correctness: under its precondition it returns, and in a state that satisfies
  what the caller needs.
\<close>

named_theorems wp \<comment> \<open>total correctness rules\<close>

subsection \<open>Total correctness\<close>

definition returns :: "'a option \<Rightarrow> ('a \<Rightarrow> bool) \<Rightarrow> bool" where
  "returns x P \<longleftrightarrow> (\<exists>y. x = Some y \<and> P y)"

lemma returns_Some [simp]: "returns (Some y) P = P y"
  by (simp add: returns_def)

lemma returns_None [simp]: "\<not> returns None P"
  by (simp add: returns_def)

lemma returns_bind [simp]: "returns (x \<bind> f) P = returns x (\<lambda>y. returns (f y) P)"
  by (cases x) (auto simp: returns_def)

lemma returns_if [simp]: "returns (if b then x else y) P = (if b then returns x P else returns y P)"
  by simp

lemma returns_mono: "returns x P \<Longrightarrow> (\<And>y. x = Some y \<Longrightarrow> P y \<Longrightarrow> Q y) \<Longrightarrow> returns x Q"
  by (auto simp: returns_def)

subsection \<open>The abstract pages\<close>

record pages =
  fr :: "int \<Rightarrow> int \<Rightarrow> byte"
  mt :: "int \<Rightarrow> char"
  en :: "int \<Rightarrow> int \<Rightarrow> int"

definition frame_at :: "a2_state \<Rightarrow> int \<Rightarrow> int \<Rightarrow> byte" where
  "frame_at s f x =
     (if 0 \<le> x \<and> x < PAGESIZE then
        if 0 \<le> f \<and> f < MEMORYPAGES then mbytes (memory s) (user_page f + x)
        else if MEMORYPAGES \<le> f \<and> f < TOTALPAGES then mbytes (swapfile s) ((f - MEMORYPAGES) * PAGESIZE + x)
        else 0
      else 0)"

definition entry_at :: "a2_state \<Rightarrow> int \<Rightarrow> int \<Rightarrow> int" where
  "entry_at s u i = (case pt_table s u of None \<Rightarrow> 0 | Some (a, t) \<Rightarrow> t i)"

definition pages_of :: "a2_state \<Rightarrow> pages" where
  "pages_of s = \<lparr>fr = frame_at s, mt = masterTable s, en = entry_at s\<rparr>"

text \<open>The first \<open>n\<close> threads have page tables, all different; arena and swap file have their sizes.  \<open>pt\<close> is the
  array \<open>pageTables\<close>, which the moves of pages leave alone.  Its slots behind the first \<open>n\<close> are as
  they were when its block was obtained: NULL, or a pointer to no table.\<close>

definition paged_in :: "(int \<rightharpoonup> addr) \<Rightarrow> int \<Rightarrow> a2_state \<Rightarrow> bool" where
  "paged_in pt n s \<longleftrightarrow> pageTables s = pt \<and> 0 \<le> n \<and> n < MAXTHREADS \<and>
     msize (memory s) = OS_SIZE + USR_SIZE + PAGESIZE \<and> msize (swapfile s) = (TOTALPAGES - MEMORYPAGES) * PAGESIZE \<and> file_open s \<and>
     (\<forall>u. u < 0 \<or> n \<le> u \<longrightarrow> pt u = None \<or> pt u = Some (- 1)) \<and> - 1 \<notin> dom (tables s) \<and>
     (\<forall>u. 0 \<le> u \<and> u < n \<longrightarrow> (\<exists>a. pt u = Some a \<and> a \<in> dom (tables s))) \<and>
     inj_on pt {0..<n}"

definition paged :: "int \<Rightarrow> a2_state \<Rightarrow> bool" where
  "paged n s = paged_in (pageTables s) n s"

lemma paged_inD: "paged_in pt n s \<Longrightarrow> pageTables s = pt \<and> paged n s"
  by (auto simp: paged_in_def paged_def)

lemma paged_tables: "dom T = dom (tables s) \<Longrightarrow> paged_in pt n (s\<lparr>tables := T\<rparr>) = paged_in pt n s"
  by (simp add: paged_in_def)

lemma dom_entry: "tables s a = Some t \<Longrightarrow> dom ((tables s)(a \<mapsto> t')) = dom (tables s)"
  by auto

lemma paged_table:
  assumes "paged_in pt n s" "0 \<le> u" "u < n"
  obtains a t where "pageTables s u = Some a" "tables s a = Some t" "pt_table s u = Some (a, t)" "entry_at s u = t"
proof -
  have "\<exists>a. pageTables s u = Some a \<and> a \<in> dom (tables s)" using assms unfolding paged_in_def by blast
  then obtain a t where t: "pageTables s u = Some a" "tables s a = Some t" by blast
  have "u < MAXTHREADS" using assms by (simp add: paged_in_def)
  then have "pt_table s u = Some (a, t)" using t assms by (simp add: pt_table_def)
  then show ?thesis using that [OF t] by (simp add: entry_at_def fun_eq_iff)
qed

lemma paged_get:
  assumes "paged_in pt n s" "0 \<le> u" "u < n" "0 \<le> i" "i < MEMORYPAGES"
  shows "pt_get s u i = Some (en (pages_of s) u i)"
  by (rule paged_table [OF assms(1-3)]) (use assms(4,5) in \<open>simp add: pt_get_def pages_of_def\<close>)

lemma paged_flags [simp]:
  "paged_in pt n (s\<lparr>masterTable := x\<rparr>) = paged_in pt n s" "paged_in pt n (s\<lparr>prot := y\<rparr>) = paged_in pt n s"
  "paged n (s\<lparr>masterTable := x\<rparr>) = paged n s" "paged n (s\<lparr>prot := y\<rparr>) = paged n s"
  "pages_of (s\<lparr>masterTable := x\<rparr>) = (pages_of s)\<lparr>mt := x\<rparr>" "pages_of (s\<lparr>prot := y\<rparr>) = pages_of s"
  by (auto simp: paged_in_def paged_def pages_of_def frame_at_def entry_at_def pt_table_def fun_eq_iff)

lemma pages_of_sel: "masterTable s = mt (pages_of s)"
  by (simp add: pages_of_def)

subsection \<open>Tables\<close>

lemma mt_set_returns [wp]:
  assumes "paged_in pt n s" "0 \<le> i" "i < TOTALPAGES"
    "\<And>s'. paged_in pt n s' \<Longrightarrow> pages_of s' = (pages_of s)\<lparr>mt := (mt (pages_of s))(i := c)\<rparr> \<Longrightarrow> P s'"
  shows "returns (mt_set s i c) P"
  using assms by (auto simp: mt_set_def pages_of_sel)

lemma mprotect_returns [wp]:
  assumes "paged_in pt n s" "0 \<le> i" "i \<le> MEMORYPAGES"
    "\<And>s'. paged_in pt n s' \<Longrightarrow> pages_of s' = pages_of s \<Longrightarrow> memory s' = memory s \<Longrightarrow> P s'"
  shows "returns (mprotect s i acc) P"
  using assms by (auto simp: mprotect_def)

lemma pt_set_returns [wp]:
  assumes "paged_in pt n s" "0 \<le> u" "u < n" "0 \<le> i" "i < MEMORYPAGES" "0 \<le> v" "v < 32768"
    "\<And>s'. paged_in pt n s' \<Longrightarrow> pages_of s' = (pages_of s)\<lparr>en := (en (pages_of s))(u := (en (pages_of s) u)(i := v))\<rparr> \<Longrightarrow> P s'"
  shows "returns (pt_set s u i v) P"
proof -
  obtain a t where t: "pageTables s u = Some a" "tables s a = Some t" "pt_table s u = Some (a, t)" "entry_at s u = t"
    using paged_table [OF assms(1-3)] .
  let ?s = "s\<lparr>tables := (tables s)(a \<mapsto> t(i := v))\<rparr>"
  have other: "pageTables s w \<noteq> Some a" if "w \<noteq> u" for w
  proof (cases "0 \<le> w \<and> w < n")
    case True
    then show ?thesis using assms(1-3) that t(1) by (auto simp: paged_in_def inj_on_def)
  next
    case False
    then have "pageTables s w = None \<or> pageTables s w = Some (- 1)" "tables s (- 1) = None"
      using assms(1) unfolding paged_in_def not_le by (metis domIff linorder_not_le)+
    then show ?thesis using t(2) by auto
  qed
  have "pages_of ?s = (pages_of s)\<lparr>en := (en (pages_of s))(u := (en (pages_of s) u)(i := v))\<rparr>"
  proof -
    have "entry_at ?s w = entry_at s w" if "w \<noteq> u" for w
      using other [OF that] by (auto simp: entry_at_def pt_table_def fun_eq_iff split: option.splits Option.bind_splits)
    moreover have "entry_at ?s u = t(i := v)"
      using t(1,3) by (auto simp: entry_at_def pt_table_def split: if_splits)
    ultimately have "entry_at ?s = (entry_at s)(u := t(i := v))" by (auto simp: fun_eq_iff)
    moreover have "frame_at ?s = frame_at s" by (intro ext) (simp add: frame_at_def)
    ultimately show ?thesis by (simp add: pages_of_def t(4))
  qed
  moreover have "paged_in pt n ?s" unfolding paged_tables [OF dom_entry [of s a t "t(i := v)", OF t(2)]] by (rule assms(1))
  ultimately show ?thesis using assms(4-8) t(3) by (simp add: pt_set_def s16_id)
qed

subsection \<open>Free frames\<close>

definition free_frames :: "pages \<Rightarrow> int set" where
  "free_frames p = {f. 0 \<le> f \<and> f < TOTALPAGES \<and> mt p f = CHR ''0''}"

lemma finite_free [simp]: "finite (free_frames p)"
  by (rule finite_subset [of _ "{0..<TOTALPAGES}"]) (auto simp: free_frames_def)

lemma find_first:
  assumes "find Q [0..<k] = Some i"
  shows "i < k \<and> Q i \<and> (\<forall>j < i. \<not> Q j)"
  using assms by (auto simp: find_Some_iff)

lemma nextFreePage_Some:
  assumes "nextFreePage s = Some f"
  shows "f \<in> free_frames (pages_of s) \<and> (\<forall>g \<in> free_frames (pages_of s). f \<le> g)"
proof -
  obtain i where i: "find (\<lambda>i. masterTable s (int i) = CHR ''0'') [0..<5632] = Some i" "f = int i"
    using assms by (auto simp: nextFreePage_def)
  from find_first [OF i(1)] have *: "i < 5632" "masterTable s (int i) = CHR ''0''"
    "\<And>j. j < i \<Longrightarrow> masterTable s (int j) \<noteq> CHR ''0''" by auto
  have "f \<le> g" if "g \<in> free_frames (pages_of s)" for g
  proof (rule ccontr)
    assume "\<not> f \<le> g"
    then have "nat g < i" using that i(2) by (auto simp: free_frames_def)
    then show False using *(3) [of "nat g"] that by (auto simp: free_frames_def pages_of_def)
  qed
  then show ?thesis using * i(2) by (auto simp: free_frames_def pages_of_def)
qed

lemma nextFreePage_None: "nextFreePage s = None \<Longrightarrow> free_frames (pages_of s) = {}"
proof (rule ccontr)
  assume none: "nextFreePage s = None" and "free_frames (pages_of s) \<noteq> {}"
  then obtain g where g: "0 \<le> g" "g < 5632" "masterTable s g = CHR ''0''"
    by (auto simp: free_frames_def pages_of_def)
  have "\<not> (\<exists>i. i \<in> set [0..<5632] \<and> masterTable s (int i) = CHR ''0'')"
    using none by (simp add: nextFreePage_def find_None_iff del: set_upt)
  then show False using g by (auto dest!: spec [of _ "nat g"])
qed

lemma nextFreePage_returns:
  assumes "free_frames (pages_of s) \<noteq> {}"
    "\<And>f. f \<in> free_frames (pages_of s) \<Longrightarrow> (\<And>g. g \<in> free_frames (pages_of s) \<Longrightarrow> f \<le> g) \<Longrightarrow> P f"
  shows "returns (nextFreePage s) P"
proof (cases "nextFreePage s")
  case None
  then show ?thesis using nextFreePage_None assms(1) by blast
next
  case (Some f)
  then show ?thesis using assms(2) [of f] nextFreePage_Some [OF Some] by simp
qed

subsection \<open>Swapping\<close>

lemma user_page_inj:
  "0 \<le> x \<Longrightarrow> x < PAGESIZE \<Longrightarrow> user_page p \<le> user_page g + x \<and> user_page g + x < user_page p + PAGESIZE \<longleftrightarrow> g = p"
  by (auto simp: user_page_def)

lemma in_arena:
  assumes "msize m = OS_SIZE + USR_SIZE + PAGESIZE" "0 \<le> i" "i < MEMORYPAGES"
  shows "in_mem m (user_page i) PAGESIZE"
  using assms by (simp add: in_mem_def user_page_def)

lemma paged_memory:
  "paged_in pt n (s\<lparr>memory := m\<rparr>) \<longleftrightarrow> msize m = OS_SIZE + USR_SIZE + PAGESIZE \<and> paged_in pt n (s\<lparr>memory := m\<rparr>)"
  by (auto simp: paged_in_def)

definition copy_frame :: "int \<Rightarrow> int \<Rightarrow> pages \<Rightarrow> pages" where
  "copy_frame a b p = p\<lparr>fr := (fr p)(b := fr p a)\<rparr>"

definition clear_frame :: "int \<Rightarrow> pages \<Rightarrow> pages" where
  "clear_frame a p = p\<lparr>fr := (fr p)(a := (\<lambda>_. 0))\<rparr>"

lemma memcpy_frame [wp]:
  assumes "paged_in pt n s" "0 \<le> a" "a < MEMORYPAGES" "0 \<le> b" "b < MEMORYPAGES" "a \<noteq> b"
    "\<And>m. paged_in pt n (s\<lparr>memory := m\<rparr>) \<Longrightarrow> pages_of (s\<lparr>memory := m\<rparr>) = copy_frame a b (pages_of s) \<Longrightarrow> P m"
  shows "returns (memcpy (memory s) (user_page b) (user_page a) PAGESIZE) P"
proof -
  have sz: "msize (memory s) = OS_SIZE + USR_SIZE + PAGESIZE" using assms(1) by (simp add: paged_in_def)
  let ?m = "(memory s)\<lparr>mbytes := cp (mbytes (memory s)) (user_page b) (mbytes (memory s)) (user_page a) PAGESIZE\<rparr>"
  have "memcpy (memory s) (user_page b) (user_page a) PAGESIZE = Some ?m"
    using in_arena [OF sz assms(2,3)] in_arena [OF sz assms(4,5)] assms(6) by (auto simp: memcpy_def user_page_def)
  moreover have "frame_at (s\<lparr>memory := ?m\<rparr>) = (frame_at s)(b := frame_at s a)"
    using assms(2-5) by (intro ext) (auto simp: frame_at_def cp_def user_page_inj)
  then have "pages_of (s\<lparr>memory := ?m\<rparr>) = copy_frame a b (pages_of s)"
    by (simp add: pages_of_def copy_frame_def entry_at_def pt_table_def fun_eq_iff)
  moreover have "paged_in pt n (s\<lparr>memory := ?m\<rparr>)" using assms(1) by (auto simp: paged_in_def)
  ultimately show ?thesis using assms(7) by simp
qed

lemma memset_frame [wp]:
  assumes "paged_in pt n s" "0 \<le> a" "a < MEMORYPAGES"
    "\<And>m. paged_in pt n (s\<lparr>memory := m\<rparr>) \<Longrightarrow> pages_of (s\<lparr>memory := m\<rparr>) = clear_frame a (pages_of s) \<Longrightarrow> P m"
  shows "returns (memset (memory s) (user_page a) 0 PAGESIZE) P"
proof -
  have sz: "msize (memory s) = OS_SIZE + USR_SIZE + PAGESIZE" using assms(1) by (simp add: paged_in_def)
  let ?m = "(memory s)\<lparr>mbytes := (\<lambda>x. if user_page a \<le> x \<and> x < user_page a + PAGESIZE then 0 else mbytes (memory s) x)\<rparr>"
  have "memset (memory s) (user_page a) 0 PAGESIZE = Some ?m"
    using in_arena [OF sz assms(2,3)] by (auto simp: memset_def)
  moreover have "frame_at (s\<lparr>memory := ?m\<rparr>) = (frame_at s)(a := (\<lambda>_. 0))"
    using assms(2-3) by (intro ext) (auto simp: frame_at_def user_page_inj)
  then have "pages_of (s\<lparr>memory := ?m\<rparr>) = clear_frame a (pages_of s)"
    by (simp add: pages_of_def clear_frame_def entry_at_def pt_table_def fun_eq_iff)
  moreover have "paged_in pt n (s\<lparr>memory := ?m\<rparr>)" using assms(1) by (auto simp: paged_in_def)
  ultimately show ?thesis using assms(4) by simp
qed

lemma file_read_frame [wp]:
  assumes "paged_in pt n s" "MEMORYPAGES \<le> a" "a < TOTALPAGES" "0 \<le> b" "b < MEMORYPAGES"
    "\<And>s'. paged_in pt n s' \<Longrightarrow> pages_of s' = copy_frame a b (pages_of s) \<Longrightarrow> P s'"
  shows "returns (file_read s ((a - MEMORYPAGES) * PAGESIZE) (user_page b)) P"
proof -
  have sz: "msize (memory s) = OS_SIZE + USR_SIZE + PAGESIZE" "in_mem (swapfile s) ((a - MEMORYPAGES) * PAGESIZE) PAGESIZE" "file_open s"
    using assms(1-3) by (auto simp: paged_in_def in_mem_def)
  let ?s = "s\<lparr>memory := (memory s)\<lparr>mbytes :=
    cp (mbytes (memory s)) (user_page b) (mbytes (swapfile s)) ((a - MEMORYPAGES) * PAGESIZE) PAGESIZE\<rparr>\<rparr>"
  have "file_read s ((a - MEMORYPAGES) * PAGESIZE) (user_page b) = Some ?s"
    using in_arena [OF sz(1) assms(4,5)] sz(2,3) by (simp add: file_read_def)
  moreover have "frame_at ?s = (frame_at s)(b := frame_at s a)"
    using assms(2-5) by (intro ext) (auto simp: frame_at_def cp_def user_page_inj)
  then have "pages_of ?s = copy_frame a b (pages_of s)"
    by (simp add: pages_of_def copy_frame_def entry_at_def pt_table_def fun_eq_iff)
  moreover have "paged_in pt n ?s" using assms(1) by (auto simp: paged_in_def)
  ultimately show ?thesis using assms(6) by simp
qed

lemma file_page_inj:
  "0 \<le> x \<Longrightarrow> x < PAGESIZE \<Longrightarrow> (p - MEMORYPAGES) * PAGESIZE \<le> (g - MEMORYPAGES) * PAGESIZE + x \<and>
    (g - MEMORYPAGES) * PAGESIZE + x < (p - MEMORYPAGES) * PAGESIZE + PAGESIZE \<longleftrightarrow> g = p"
  by auto

lemma file_write_frame [wp]:
  assumes "paged_in pt n s" "MEMORYPAGES \<le> b" "b < TOTALPAGES" "0 \<le> a" "a < MEMORYPAGES"
    "\<And>s'. paged_in pt n s' \<Longrightarrow> pages_of s' = copy_frame a b (pages_of s) \<Longrightarrow> P s'"
  shows "returns (file_write s ((b - MEMORYPAGES) * PAGESIZE) (user_page a)) P"
proof -
  have sz: "msize (memory s) = OS_SIZE + USR_SIZE + PAGESIZE" "in_mem (swapfile s) ((b - MEMORYPAGES) * PAGESIZE) PAGESIZE" "file_open s"
    using assms(1-3) by (auto simp: paged_in_def in_mem_def)
  let ?s = "s\<lparr>swapfile := (swapfile s)\<lparr>mbytes :=
    cp (mbytes (swapfile s)) ((b - MEMORYPAGES) * PAGESIZE) (mbytes (memory s)) (user_page a) PAGESIZE\<rparr>\<rparr>"
  have "file_write s ((b - MEMORYPAGES) * PAGESIZE) (user_page a) = Some ?s"
    using in_arena [OF sz(1) assms(4,5)] sz(2,3) by (simp add: file_write_def)
  moreover have "frame_at ?s = (frame_at s)(b := frame_at s a)"
    using assms(2-5) by (intro ext) (auto simp: frame_at_def cp_def file_page_inj)
  then have "pages_of ?s = copy_frame a b (pages_of s)"
    by (simp add: pages_of_def copy_frame_def entry_at_def pt_table_def fun_eq_iff)
  moreover have "paged_in pt n ?s" using assms(1) by (auto simp: paged_in_def)
  ultimately show ?thesis using assms(6) by simp
qed

lemmas file_frame_norm [wp] = file_read_frame [simplified] file_write_frame [simplified]

lemma move_frame [wp]:
  assumes "paged_in pt n s" "0 \<le> a" "a < MEMORYPAGES" "0 \<le> b" "b < MEMORYPAGES" "a \<noteq> b"
    "\<And>m. paged_in pt n (s\<lparr>memory := m\<rparr>) \<Longrightarrow> pages_of (s\<lparr>memory := m\<rparr>) = clear_frame a (copy_frame a b (pages_of s)) \<Longrightarrow> P m"
  shows "returns (memcpy (memory s) (user_page b) (user_page a) PAGESIZE) (\<lambda>m. returns (memset m (user_page a) 0 PAGESIZE) P)"
proof (rule memcpy_frame [OF assms(1-6)])
  fix m
  assume m: "paged_in pt n (s\<lparr>memory := m\<rparr>)" "pages_of (s\<lparr>memory := m\<rparr>) = copy_frame a b (pages_of s)"
  show "returns (memset m (user_page a) 0 PAGESIZE) P"
    using memset_frame [OF m(1) assms(2,3), of P] assms(7) m(2) by simp
qed

lemma free_range: "f \<in> free_frames p \<Longrightarrow> 0 \<le> f \<and> f < TOTALPAGES"
  by (simp add: free_frames_def)

lemma swap_out_returns:
  assumes "paged_in pt n s" "0 \<le> p" "p < MEMORYPAGES" "p \<notin> free_frames (pages_of s)" "free_frames (pages_of s) \<noteq> {}"
    "\<And>f s'. f \<in> free_frames (pages_of s) \<Longrightarrow> (\<And>g. g \<in> free_frames (pages_of s) \<Longrightarrow> f \<le> g) \<Longrightarrow> paged_in pt n s' \<Longrightarrow>
       pages_of s' = clear_frame p (copy_frame p f (pages_of s)) \<Longrightarrow> P (f, s')"
  shows "returns (swap_out s p) P"
  unfolding swap_out_def Let_def returns_bind
proof (rule nextFreePage_returns [OF assms(5)])
  fix f
  assume f: "f \<in> free_frames (pages_of s)" "\<And>g. g \<in> free_frames (pages_of s) \<Longrightarrow> f \<le> g"
  have fp: "p \<noteq> f" "0 \<le> f" "f < TOTALPAGES" using f(1) assms(4) free_range by blast+
  show "returns (mprotect s p True) (\<lambda>s. returns (if f < MEMORYPAGES then
      do { s \<leftarrow> mprotect s f True; m \<leftarrow> memcpy (memory s) (user_page f) (user_page p) PAGESIZE;
           s \<leftarrow> mprotect (s\<lparr>memory := m\<rparr>) f False; m \<leftarrow> memset (memory s) (user_page p) 0 PAGESIZE;
           Some (f, s\<lparr>memory := m\<rparr>) }
    else if f < TOTALPAGES then
      do { s \<leftarrow> file_write s ((f - MEMORYPAGES) * PAGESIZE) (user_page p);
           m \<leftarrow> memset (memory s) (user_page p) 0 PAGESIZE; Some (f, s\<lparr>memory := m\<rparr>) }
    else Some (6969, s)) P)"
    using assms(1-3) fp
    by (auto simp: intro!: wp [where n = n] assms(6) [OF f])
qed

lemma swap_in_returns:
  assumes "paged_in pt n s" "0 \<le> v" "v < TOTALPAGES" "0 \<le> d" "d < MEMORYPAGES" "v \<noteq> d"
    "\<And>s'. paged_in pt n s' \<Longrightarrow>
       pages_of s' = (if v < MEMORYPAGES then clear_frame v else id) (copy_frame v d (pages_of s)) \<Longrightarrow> P s'"
  shows "returns (swap_in s v d) P"
  using assms(1-6) unfolding swap_in_def Let_def returns_bind
  by (auto simp: s16_id intro!: wp [where n = n] assms(7))

end
