(* ===== verification/A2_Yield.thy ===== *)
theory A2_Yield
  imports A2_Sched
begin

section \<open>Scheduling in Assignment2\<close>

text \<open>
  The scheduler of Assignment2 is that of Assignment1 with page moves in between: whatever a yield
  does to the scheduler's part of the state, it is the step Assignment1 makes there.
\<close>

text \<open>The scheduler's part of the state, as Assignment1 has it: the timer this library sets is
  \<open>ITIMER_VIRTUAL\<close>, so its period takes the place of that of \<open>ITIMER_REAL\<close>.\<close>

definition sched_part :: "'a sched_scheme \<Rightarrow> sched" where
  "sched_part s = (sched.truncate s)\<lparr>itimer := vtimer s, vtimer := itimer s\<rparr>"

named_theorems paging \<comment> \<open>operations that change pages only\<close>

subsection \<open>Moving pages leaves the scheduler alone\<close>

lemma sched_part_pages [simp]:
  "sched_part (s\<lparr>memory := m\<rparr>) = sched_part s"
  "sched_part (s\<lparr>masterTable := x\<rparr>) = sched_part s"
  "sched_part (s\<lparr>tables := y\<rparr>) = sched_part s"
  "sched_part (s\<lparr>pageTables := z\<rparr>) = sched_part s"
  "sched_part (s\<lparr>file_open := b\<rparr>) = sched_part s"
  "sched_part (s\<lparr>exited := e\<rparr>) = sched_part s"
  by (simp_all add: sched_part_def sched.truncate_def)

lemma tables_paging [paging]:
  "mt_set s i c = Some s' \<Longrightarrow> sched_part s' = sched_part s"
  "pt_set s ti i v = Some s' \<Longrightarrow> sched_part s' = sched_part s"
  "mprotect s p acc = Some s' \<Longrightarrow> sched_part s' = sched_part s"
  "file_read s q d = Some s' \<Longrightarrow> sched_part s' = sched_part s"
  "file_write s q d = Some s' \<Longrightarrow> sched_part s' = sched_part s"
  by (auto simp: mt_set_def pt_set_def mprotect_def file_read_def file_write_def sched_part_def sched.truncate_def
      bind_eq_Some_conv split: if_splits)

lemma swap_paging [paging]:
  "swap_in s n d = Some s' \<Longrightarrow> sched_part s' = sched_part s"
  "swap_out s p = Some (k, s') \<Longrightarrow> sched_part s' = sched_part s"
  unfolding swap_in_def swap_out_def
  by (auto simp: bind_eq_Some_conv Let_def split: if_splits dest!: paging)

lemma evict_paging [paging]: "evict n i s = Some s' \<Longrightarrow> sched_part s' = sched_part s"
  by (induction n arbitrary: s)
    (fastforce simp: bind_eq_Some_conv Let_def split: option.splits dest!: paging)+

lemma evict_last_paging [paging]: "evict_last n s = Some s' \<Longrightarrow> sched_part s' = sched_part s"
  by (induction n arbitrary: s)
    (auto simp: bind_eq_Some_conv Let_def split: option.splits if_splits dest!: paging)

lemma load_loop_paging [paging]: "load_loop n ti s = Some s' \<Longrightarrow> sched_part s' = sched_part s"
  by (induction n arbitrary: s)
    (fastforce simp: bind_eq_Some_conv Let_def split: if_splits dest!: paging)+

lemma save_loop_paging [paging]: "save_loop n ti s = Some (k, s') \<Longrightarrow> sched_part s' = sched_part s"
  by (induction n arbitrary: s)
    (fastforce simp: bind_eq_Some_conv Let_def split: if_splits dest!: paging)+

lemma restore_loop_paging [paging]: "restore_loop n ti s = Some s' \<Longrightarrow> sched_part s' = sched_part s"
  by (induction n arbitrary: s)
    (fastforce simp: bind_eq_Some_conv Let_def split: if_splits dest!: paging)+

lemma pages_paging [paging]:
  "resume_pages ti s = Some s' \<Longrightarrow> sched_part s' = sched_part s"
  "save_pages ti s = Some s' \<Longrightarrow> sched_part s' = sched_part s"
  "restore_pages ti s = Some s' \<Longrightarrow> sched_part s' = sched_part s"
  unfolding resume_pages_def save_pages_def restore_pages_def
  by (auto simp: bind_eq_Some_conv Let_def split: if_splits dest!: paging)

subsection \<open>The scheduler's operations see only their part\<close>

lemma sched_part_sel [simp]:
  "threads (sched_part s) = threads s" "contexts (sched_part s) = contexts s" "stacks (sched_part s) = stacks s"
  "qnodes (sched_part s) = qnodes s" "current (sched_part s) = current s"
  "queue_priority_1 (sched_part s) = queue_priority_1 s" "queue_priority_2 (sched_part s) = queue_priority_2 s"
  "priority1_size (sched_part s) = priority1_size s" "priority2_size (sched_part s) = priority2_size s" "wait_queue (sched_part s) = wait_queue s" "wait_size (sched_part s) = wait_size s"
  "threadIDS (sched_part s) = threadIDS s" "sched_initialized (sched_part s) = sched_initialized s"
  "timer_usec (sched_part s) = timer_usec s" "itimer (sched_part s) = vtimer s" "vtimer (sched_part s) = itimer s"
  by (simp_all add: sched_part_def sched.truncate_def)

lemma sched_part_upd:
  "sched_part (s\<lparr>threads := a\<rparr>) = (sched_part s)\<lparr>threads := a\<rparr>"
  "sched_part (s\<lparr>qnodes := b\<rparr>) = (sched_part s)\<lparr>qnodes := b\<rparr>"
  "sched_part (s\<lparr>current := c\<rparr>) = (sched_part s)\<lparr>current := c\<rparr>"
  "sched_part (s\<lparr>queue_priority_1 := d\<rparr>) = (sched_part s)\<lparr>queue_priority_1 := d\<rparr>"
  "sched_part (s\<lparr>queue_priority_2 := e\<rparr>) = (sched_part s)\<lparr>queue_priority_2 := e\<rparr>"
  "sched_part (s\<lparr>priority1_size := f\<rparr>) = (sched_part s)\<lparr>priority1_size := f\<rparr>"
  "sched_part (s\<lparr>priority2_size := g\<rparr>) = (sched_part s)\<lparr>priority2_size := g\<rparr>"
  "sched_part (s\<lparr>timer_usec := i\<rparr>) = (sched_part s)\<lparr>timer_usec := i\<rparr>"
  "sched_part (s\<lparr>vtimer := j\<rparr>) = (sched_part s)\<lparr>itimer := j\<rparr>"
  by (simp_all add: sched_part_def sched.truncate_def)

lemma sched_part_arm: "sched_part (a2_arm_timer p s) = arm_timer p (sched_part s)"
  by (simp add: arm_timer_def setitimer_def a2_arm_timer_def setitimer_virtual_def sched_part_upd)

lemma sched_part_switch:
  "setcontext (sched_part s) c = setcontext s c" "swapcontext (sched_part s) c d = swapcontext s c d"
  by (simp_all add: setcontext_def swapcontext_def)

text \<open>Two computations that agree up to a map of their results.\<close>

lemma bind_mapped:
  assumes "\<And>y. x = Some y \<Longrightarrow> f y = map_option h (g y)"
  shows "x \<bind> f = map_option h (x \<bind> g)"
  using assms by (cases x) auto

lemma sched_part_requeue:
  "requeue_p1 (sched_part s) = map_option sched_part (requeue_p1 s)"
  "requeue_p2 (sched_part s) = map_option sched_part (requeue_p2 s)"
  unfolding requeue_p1_def requeue_p2_def
  by (auto simp: sched_part_upd Let_def intro!: bind_mapped)

lemma sched_part_pick:
  "pick_next (sched_part s) = map_option (map_prod id (map_prod id sched_part)) (pick_next s)"
  "pick_next_p2 (sched_part s) = map_option (map_prod id (map_prod id sched_part)) (pick_next_p2 s)"
  unfolding pick_next_def pick_next_p2_def
  by (auto simp: sched_part_upd Let_def cong: option.case_cong intro!: bind_mapped)

lemma switch_timer [simp]:
  "setcontext (a2_arm_timer p s) c = setcontext s c" "swapcontext (a2_arm_timer p s) c d = swapcontext s c d"
  "setcontext (arm_timer p s) c = setcontext s c" "swapcontext (arm_timer p s) c d = swapcontext s c d"
  "setcontext (s\<lparr>current := x\<rparr>) c = setcontext s c" "swapcontext (s\<lparr>current := x\<rparr>) c d = swapcontext s c d"
  "threads (a2_arm_timer p s) = threads s"
  by (simp_all add: setcontext_def swapcontext_def a2_arm_timer_def setitimer_virtual_def arm_timer_def setitimer_def)

lemma switch_same:
  "sched_part s' = sched_part s \<Longrightarrow> setcontext s' c = setcontext s c"
  "sched_part s' = sched_part s \<Longrightarrow> swapcontext s' c d = swapcontext s c d"
  by (metis sched_part_switch(1)) (metis sched_part_switch(2))

text \<open>Assignment1 leaves \<open>ITIMER_VIRTUAL\<close> alone.\<close>

lemma queues_vtimer:
  "requeue_p1 s = Some s' \<Longrightarrow> vtimer s' = vtimer s" "requeue_p2 s = Some s' \<Longrightarrow> vtimer s' = vtimer s"
  "pick_next s = Some (p, t, s') \<Longrightarrow> vtimer s' = vtimer s" "pick_next_p2 s = Some (p, t, s') \<Longrightarrow> vtimer s' = vtimer s"
  unfolding requeue_p1_def requeue_p2_def pick_next_def pick_next_p2_def
  by (auto simp: bind_eq_Some_conv Let_def split: if_splits)

lemma arm_vtimer [simp]: "vtimer (arm_timer p s) = vtimer s"
  by (simp add: arm_timer_def setitimer_def)

lemma a1_yield_vtimer: "a1_yield s = Some (sw, s') \<Longrightarrow> vtimer s' = vtimer s"
  unfolding a1_yield_def a1_yield_p1_def a1_yield_p2_def
  by (auto simp: bind_eq_Some_conv Let_def queues_vtimer split: option.splits if_splits)

subsection \<open>Simulation\<close>

text \<open>Whenever the first computation returns, the second one returns the same switch and the
  scheduler's part of its state.\<close>

definition simulates :: "(switch \<times> 'a sched_scheme) option \<Rightarrow> (switch \<times> sched) option \<Rightarrow> bool" where
  "simulates x y \<longleftrightarrow> (\<forall>sw s'. x = Some (sw, s') \<longrightarrow> y = Some (sw, sched_part s'))"

lemma simulates_bind [intro]:
  "(\<And>y. x = Some y \<Longrightarrow> simulates (f y) (g y)) \<Longrightarrow> simulates (x \<bind> f) (x \<bind> g)"
  by (cases x) (auto simp: simulates_def)

lemma simulates_bind_mapped:
  "(\<And>y. x = Some y \<Longrightarrow> simulates (f y) (g (h y))) \<Longrightarrow> simulates (x \<bind> f) (map_option h x \<bind> g)"
  by (cases x) (auto simp: simulates_def)

text \<open>What follows the choice of the next thread: pages move, then the context switch.\<close>

lemma move_pages_part:
  assumes "save_pages i s = Some s1" "restore_pages j s1 = Some s'"
  shows "sched_part s' = sched_part s" "swapcontext s' c d = swapcontext s c d"
proof -
  show "sched_part s' = sched_part s" using paging assms by metis
  then show "swapcontext s' c d = swapcontext s c d" by (rule switch_same)
qed

lemma switch_simulates:
  "simulates (do { s \<leftarrow> save_pages i s; s \<leftarrow> restore_pages j s; sw \<leftarrow> swapcontext s c d; Some (sw, s) })
     (do { sw \<leftarrow> swapcontext s c d; Some (sw, sched_part s) })"
  by (auto simp: simulates_def bind_eq_Some_conv move_pages_part)

lemma resume_simulates:
  "simulates (do { s \<leftarrow> resume_pages i s; sw \<leftarrow> setcontext s c; Some (sw, s) })
     (do { sw \<leftarrow> setcontext s c; Some (sw, sched_part s) })"
proof -
  have "setcontext s' c = setcontext s c \<and> sched_part s' = sched_part s" if "resume_pages i s = Some s'" for s'
    using that paging switch_same(1) by metis
  then show ?thesis by (auto simp: simulates_def bind_eq_Some_conv)
qed

lemmas yield_branches = a2_resume_def a2_switch_def a2_rotate_p1_def a2_rotate_p2_def Let_def

lemmas yield_parts = sched_part_arm [symmetric] sched_part_upd [symmetric] sched_part_switch sched_part_requeue sched_part_pick

lemmas resume_leaf = resume_simulates [of _ "a2_arm_timer p (s\<lparr>current := c\<rparr>)" for p s c, simplified]

lemmas switch_leaf = switch_simulates [of _ "a2_arm_timer p (s\<lparr>current := c\<rparr>)" for p s c, simplified]

lemma a2_yield_p1_simulates: "simulates (a2_yield_p1 n s) (a1_yield_p1 n (sched_part s))"
  unfolding a2_yield_p1_def a1_yield_p1_def yield_branches sched_part_sel
  by (auto simp: yield_parts split: option.split
      intro!: simulates_bind simulates_bind_mapped switch_leaf resume_leaf)

lemma a2_yield_p2_simulates: "simulates (a2_yield_p2 n s) (a1_yield_p2 n (sched_part s))"
  unfolding a2_yield_p2_def a1_yield_p2_def yield_branches sched_part_sel
  by (auto simp: yield_parts split: option.split
      intro!: simulates_bind simulates_bind_mapped switch_leaf resume_leaf)

lemma simulates_return: "simulates (Some (sw, s)) (Some (sw, sched_part s))"
  by (simp add: simulates_def)

lemma a2_yield_simulation: "simulates (a2_yield s) (a1_yield (sched_part s))"
  unfolding a2_yield_def a1_yield_def sched_part_sel
  by (auto split: option.split
      intro!: simulates_bind a2_yield_p1_simulates a2_yield_p2_simulates simulates_return)

end
