(* ===== verification/A2_Memory.thy ===== *)
theory A2_Memory
  imports A2_Frames A2_Yield
begin

section \<open>Every thread keeps its memory\<close>

text \<open>
  The pages of the threads while the scheduler moves them.  Thread \<open>u\<close> uses its pages \<open>0\<close> to
  \<open>K u - 1\<close> and its last page; the running thread has each page in the frame of the same number.  A
  switch must bring the pages of the next thread to their frames without touching the contents
  of any page of any thread.
\<close>

abbreviation (input) LAST :: int where "LAST \<equiv> 1535"

definition homes :: "(int \<Rightarrow> int) \<Rightarrow> int \<Rightarrow> int set" where
  "homes K u = {i. 0 \<le> i \<and> i < K u \<or> i = LAST}"

definition is_page :: "int \<Rightarrow> (int \<Rightarrow> int) \<Rightarrow> int \<Rightarrow> int \<Rightarrow> bool" where
  "is_page n K u i \<longleftrightarrow> 0 \<le> u \<and> u < n \<and> i \<in> homes K u"

definition owned :: "int \<Rightarrow> (int \<Rightarrow> int) \<Rightarrow> pages \<Rightarrow> int set" where
  "owned n K p = {en p u i | u i. is_page n K u i}"

definition page_inv :: "int \<Rightarrow> (int \<Rightarrow> int) \<Rightarrow> pages \<Rightarrow> bool" where
  "page_inv n K p \<longleftrightarrow>
     (\<forall>u. 0 \<le> u \<and> u < n \<longrightarrow> 0 \<le> K u \<and> K u < LAST \<and> (\<forall>i. K u \<le> i \<and> i < LAST \<longrightarrow> en p u i = 6969)) \<and>
     (\<forall>f \<in> owned n K p. 0 \<le> f \<and> f < TOTALPAGES \<and> f \<notin> free_frames p) \<and>
     (\<forall>u i w j. is_page n K u i \<longrightarrow> is_page n K w j \<longrightarrow> en p u i = en p w j \<longrightarrow> u = w \<and> i = j)"

text \<open>The bytes of page \<open>i\<close> of thread \<open>u\<close>, wherever the page is.\<close>

definition view :: "pages \<Rightarrow> int \<Rightarrow> int \<Rightarrow> int \<Rightarrow> byte" where
  "view p u i = fr p (en p u i)"

definition same_views :: "int \<Rightarrow> (int \<Rightarrow> int) \<Rightarrow> pages \<Rightarrow> pages \<Rightarrow> bool" where
  "same_views n K p p' \<longleftrightarrow> (\<forall>u i. is_page n K u i \<longrightarrow> view p' u i = view p u i)"

definition at_home :: "(int \<Rightarrow> int) \<Rightarrow> pages \<Rightarrow> int \<Rightarrow> bool" where
  "at_home K p u \<longleftrightarrow> (\<forall>i \<in> homes K u. en p u i = i)"

lemma same_views_refl [simp]: "same_views n K p p"
  by (simp add: same_views_def)

lemma same_views_trans: "same_views n K p q \<Longrightarrow> same_views n K q r \<Longrightarrow> same_views n K p r"
  by (simp add: same_views_def)

lemma ownedI: "is_page n K u i \<Longrightarrow> en p u i \<in> owned n K p"
  by (auto simp: owned_def)

lemma page_inv_size: "page_inv n K p \<Longrightarrow> 0 \<le> u \<Longrightarrow> u < n \<Longrightarrow> 0 \<le> K u \<and> K u < LAST"
  by (simp add: page_inv_def)

lemma page_inv_unused:
  "page_inv n K p \<Longrightarrow> 0 \<le> u \<Longrightarrow> u < n \<Longrightarrow> K u \<le> i \<Longrightarrow> i < LAST \<Longrightarrow> en p u i = 6969"
  by (simp add: page_inv_def)

lemma page_range: "page_inv n K p \<Longrightarrow> is_page n K u i \<Longrightarrow> 0 \<le> i \<and> i < MEMORYPAGES"
  using page_inv_size [of n K p u] by (auto simp: is_page_def homes_def)

lemma owned_range: "page_inv n K p \<Longrightarrow> f \<in> owned n K p \<Longrightarrow> 0 \<le> f \<and> f < TOTALPAGES \<and> f \<notin> free_frames p"
  by (simp add: page_inv_def)

lemma entry_range:
  "page_inv n K p \<Longrightarrow> is_page n K u i \<Longrightarrow> 0 \<le> en p u i \<and> en p u i < TOTALPAGES \<and> en p u i \<notin> free_frames p"
  using owned_range ownedI by metis

lemma owner_unique:
  "page_inv n K p \<Longrightarrow> is_page n K u i \<Longrightarrow> is_page n K w j \<Longrightarrow> en p u i = en p w j \<Longrightarrow> u = w \<and> i = j"
  unfolding page_inv_def by blast

text \<open>The flags are exact: a frame that is not free holds a page, except the frames of \<open>X\<close>.\<close>

definition exact :: "int \<Rightarrow> (int \<Rightarrow> int) \<Rightarrow> int set \<Rightarrow> pages \<Rightarrow> bool" where
  "exact n K X p \<longleftrightarrow> {0..<TOTALPAGES} \<subseteq> free_frames p \<union> owned n K p \<union> X"

lemma exact_move:
  assumes "exact n K X p" "owned n K q = insert b (owned n K p - {a})" "free_frames p - {b} \<subseteq> free_frames q"
    "a \<in> free_frames q \<or> a \<in> Y \<or> a = b" "X - {b} \<subseteq> Y"
  shows "exact n K Y q"
  using assms by (auto simp: exact_def)

subsection \<open>Moving one page\<close>

text \<open>\<open>relocated u i b p q\<close>: page \<open>i\<close> of thread \<open>u\<close> has moved to frame \<open>b\<close>; its old frame may have any
  contents and flag now.\<close>

definition relocated :: "int \<Rightarrow> int \<Rightarrow> int \<Rightarrow> pages \<Rightarrow> pages \<Rightarrow> bool" where
  "relocated u i b p q \<longleftrightarrow> en q = (en p)(u := (en p u)(i := b)) \<and>
     (\<forall>f. f \<noteq> en p u i \<longrightarrow> fr q f = (if f = b then fr p (en p u i) else fr p f)) \<and>
     (\<forall>f. f \<noteq> en p u i \<longrightarrow> f \<in> free_frames q \<longrightarrow> f \<noteq> b \<and> f \<in> free_frames p)"

lemma relocated_entry: "relocated u i b p q \<Longrightarrow> en q w j = (if w = u \<and> j = i then b else en p w j)"
  by (simp add: relocated_def)

lemma relocated_owned:
  assumes "page_inv n K p" "is_page n K u i" "relocated u i b p q"
  shows "owned n K q = insert b (owned n K p - {en p u i})"
proof (rule set_eqI)
  fix f
  have "en p w j = en p u i \<longleftrightarrow> w = u \<and> j = i" if "is_page n K w j" for w j
    using owner_unique [OF assms(1) that assms(2)] by auto
  then show "f \<in> owned n K q \<longleftrightarrow> f \<in> insert b (owned n K p - {en p u i})"
    using assms(2) by (auto simp: owned_def relocated_entry [OF assms(3)])
qed

lemma relocated_ok:
  assumes inv: "page_inv n K p" and pg: "is_page n K u i" and mv: "relocated u i b p q"
    and b: "0 \<le> b" "b < TOTALPAGES" "b \<notin> owned n K p"
  shows "page_inv n K q" "same_views n K p q"
proof -
  have old: "en p w j \<noteq> en p u i" if "is_page n K w j" "\<not> (w = u \<and> j = i)" for w j
    using owner_unique [OF inv that(1) pg] that(2) by auto
  have new: "en p w j \<noteq> b" if "is_page n K w j" for w j
    using ownedI [OF that] b(3) by metis
  have "en p u i \<noteq> b" using new [OF pg] .
  have fq: "f \<noteq> b \<and> f \<in> free_frames p" if "f \<noteq> en p u i" "f \<in> free_frames q" for f
    using mv that by (simp add: relocated_def)
  show "page_inv n K q"
    unfolding page_inv_def
  proof (intro conjI)
    show "\<forall>w. 0 \<le> w \<and> w < n \<longrightarrow> 0 \<le> K w \<and> K w < LAST \<and> (\<forall>j. K w \<le> j \<and> j < LAST \<longrightarrow> en q w j = 6969)"
      using inv pg page_inv_size [OF inv] page_inv_unused [OF inv]
      by (auto simp: relocated_entry [OF mv] is_page_def homes_def)
    show "\<forall>f \<in> owned n K q. 0 \<le> f \<and> f < TOTALPAGES \<and> f \<notin> free_frames q"
      using owned_range [OF inv] b(1,2) fq \<open>en p u i \<noteq> b\<close> unfolding relocated_owned [OF inv pg mv]
      by (metis Diff_iff insert_iff)
    show "\<forall>w j v k. is_page n K w j \<longrightarrow> is_page n K v k \<longrightarrow> en q w j = en q v k \<longrightarrow> w = v \<and> j = k"
      using owner_unique [OF inv] new by (auto simp: relocated_entry [OF mv] dest: new [THEN not_sym] split: if_splits)
  qed
  have "fr q (en q w j) = fr p (en p w j)" if "is_page n K w j" for w j
    using mv old [OF that] new [OF that] \<open>en p u i \<noteq> b\<close>
    by (auto simp: relocated_entry [OF mv] relocated_def)
  then show "same_views n K p q" by (simp add: same_views_def view_def)
qed

subsection \<open>Swapping a thread out\<close>

text \<open>Copying a page from its home to a free frame, as \<open>swap_out\<close> and the two table updates after it
  do.\<close>

lemma relocated_out:
  assumes "en p u i = a" "a \<noteq> f" "q = clear_frame a (copy_frame a f p)"
    "r = q\<lparr>en := (en q)(u := (en q u)(i := f))\<rparr>" "t = r\<lparr>mt := (mt r)(f := CHR ''1'')\<rparr>"
  shows "relocated u i f p t" "free_frames t = free_frames p - {f}"
  using assms by (auto simp: relocated_def clear_frame_def copy_frame_def free_frames_def)

definition page_out :: "int \<Rightarrow> int \<Rightarrow> int \<Rightarrow> a2_state \<Rightarrow> a2_state option" where
  "page_out a u i s =
     do { (newAddr, s) \<leftarrow> swap_out s a; s \<leftarrow> pt_set s u i newAddr; mt_set s newAddr CHR ''1'' }"

lemma page_out_returns:
  assumes "paged_in pt n s" "page_inv n K (pages_of s)" "is_page n K u i" "en (pages_of s) u i = a" "a < MEMORYPAGES"
    "free_frames (pages_of s) \<noteq> {}"
    "\<And>f s'. f \<in> free_frames (pages_of s) \<Longrightarrow> (\<And>g. g \<in> free_frames (pages_of s) \<Longrightarrow> f \<le> g) \<Longrightarrow> paged_in pt n s' \<Longrightarrow>
       page_inv n K (pages_of s') \<Longrightarrow> same_views n K (pages_of s) (pages_of s') \<Longrightarrow>
       owned n K (pages_of s') = insert f (owned n K (pages_of s) - {a}) \<Longrightarrow>
       free_frames (pages_of s') = free_frames (pages_of s) - {f} \<Longrightarrow>
       en (pages_of s') = (en (pages_of s))(u := (en (pages_of s) u)(i := f)) \<Longrightarrow> P s'"
  shows "returns (page_out a u i s) P"
proof -
  let ?p = "pages_of s"
  have a: "0 \<le> a" "a \<notin> free_frames ?p" using entry_range [OF assms(2,3)] assms(4) by auto
  have u: "0 \<le> u" "u < n" "0 \<le> i" "i < MEMORYPAGES" using assms(3) page_range [OF assms(2,3)] by (auto simp: is_page_def)
  show ?thesis
    unfolding page_out_def returns_bind
  proof (rule swap_out_returns [OF assms(1) a(1) assms(5) a(2) assms(6)], unfold prod.case returns_bind)
    fix f s1
    assume f: "f \<in> free_frames ?p" "\<And>g. g \<in> free_frames ?p \<Longrightarrow> f \<le> g"
      and s1: "paged_in pt n s1" "pages_of s1 = clear_frame a (copy_frame a f ?p)"
    have fr: "0 \<le> f" "f < TOTALPAGES" "f \<notin> owned n K ?p"
      using free_range [OF f(1)] owned_range [OF assms(2)] f(1) by auto
    have "f < 32768" using fr by simp
    show "returns (pt_set s1 u i f) (\<lambda>s. returns (mt_set s f CHR ''1'') P)"
    proof (rule pt_set_returns [OF s1(1) u fr(1) \<open>f < 32768\<close>], rule mt_set_returns [OF _ fr(1,2)], assumption)
      fix s2 s3
      assume s2: "pages_of s2 = (pages_of s1)\<lparr>en := (en (pages_of s1))(u := (en (pages_of s1) u)(i := f))\<rparr>"
        and s3: "paged_in pt n s3" "pages_of s3 = (pages_of s2)\<lparr>mt := (mt (pages_of s2))(f := CHR ''1'')\<rparr>"
      have "a \<noteq> f" using a(2) f(1) by auto
      note mv = relocated_out [OF assms(4) this s1(2) s2 s3(2)]
      show "P s3"
        using assms(7) [OF f s3(1) relocated_ok [OF assms(2,3) mv(1) fr]] relocated_owned [OF assms(2,3) mv(1)] mv
          assms(4) by (simp add: relocated_def)
    qed
  qed
qed

lemma page_out_bind:
  "swap_out s a \<bind> (\<lambda>(x, s). pt_set s u i x \<bind> (\<lambda>s. mt_set s x CHR ''1'' \<bind> R)) = page_out a u i s \<bind> R"
  by (simp add: page_out_def split_def)

text \<open>Frame \<open>LAST\<close> is kept for last pages.\<close>

definition last_reserved :: "int \<Rightarrow> (int \<Rightarrow> int) \<Rightarrow> pages \<Rightarrow> bool" where
  "last_reserved n K p \<longleftrightarrow> LAST \<notin> free_frames p \<and> (\<forall>u i. is_page n K u i \<longrightarrow> en p u i = LAST \<longrightarrow> i = LAST)"

lemma last_reserved_out:
  assumes "last_reserved n K p" "f \<in> free_frames p" "free_frames q = free_frames p - {f}"
    "en q = (en p)(u := (en p u)(i := f))"
  shows "last_reserved n K q"
proof -
  have "f \<noteq> LAST" using assms(1,2) by (auto simp: last_reserved_def)
  then show ?thesis using assms by (auto simp: last_reserved_def)
qed

definition saved :: "int \<Rightarrow> (int \<Rightarrow> int) \<Rightarrow> pages \<Rightarrow> pages \<Rightarrow> bool" where
  "saved n K p q \<longleftrightarrow> page_inv n K q \<and> same_views n K p q \<and> last_reserved n K q"

lemma card_take_one: "f \<in> free_frames p \<Longrightarrow> free_frames q = free_frames p - {f} \<Longrightarrow>
    Suc k < card (free_frames p) \<Longrightarrow> k < card (free_frames q)"
  by (simp add: card_Diff_singleton)

lemma count_down:
  assumes "0 \<le> j" "j < N" "m = nat (N - j)"
  obtains m' where "m = Suc m'" "N - int (Suc m') = j" "m' = nat (N - (j + 1))"
  using that [of "nat (N - (j + 1))"] assms by simp

text \<open>\<open>I\<close> is anything else the caller wants to follow through the loop.\<close>

definition tracks :: "int \<Rightarrow> (int \<Rightarrow> pages \<Rightarrow> bool) \<Rightarrow> bool" where
  "tracks u I \<longleftrightarrow> (\<forall>j q f r. I j q \<longrightarrow> f \<in> free_frames q \<longrightarrow> (\<forall>g \<in> free_frames q. f \<le> g) \<longrightarrow>
     en r = (en q)(u := (en q u)(j := f)) \<longrightarrow> I (j + 1) r)"

lemma save_loop_returns:
  assumes tr: "tracks u I" and "paged_in pt n s" "saved n K p (pages_of s)" "0 \<le> u" "u < n" "0 \<le> j" "j \<le> K u" "m = nat (1536 - j)"
    "\<And>i. i \<in> homes K u \<Longrightarrow> j \<le> i \<Longrightarrow> en (pages_of s) u i = i"
    "\<And>h. 0 \<le> h \<Longrightarrow> h < j \<Longrightarrow> h \<notin> free_frames (pages_of s) \<and> h \<notin> owned n K (pages_of s)"
    "nat (K u - j) < card (free_frames (pages_of s))" "exact n K {0..<j} (pages_of s)" "I j (pages_of s)"
    "\<And>s'. paged_in pt n s' \<Longrightarrow> saved n K p (pages_of s') \<Longrightarrow> I (K u) (pages_of s') \<Longrightarrow> en (pages_of s') u LAST = LAST \<Longrightarrow>
       free_frames (pages_of s') \<noteq> {} \<Longrightarrow> exact n K {0..<K u} (pages_of s') \<Longrightarrow>
       (\<And>h. 0 \<le> h \<Longrightarrow> h < K u \<Longrightarrow> h \<notin> free_frames (pages_of s') \<and> h \<notin> owned n K (pages_of s')) \<Longrightarrow> P (K u, s')"
  shows "returns (save_loop m u s) P"
  using assms(2,3,6-13)
proof (induction "nat (K u - j)" arbitrary: j m s)
  case 0
  let ?p = "pages_of s"
  have j: "j = K u" using 0(1,5) by simp
  have inv: "page_inv n K ?p" using 0(3) by (simp add: saved_def)
  have K: "0 \<le> K u" "K u < LAST" using page_inv_size [OF inv assms(4,5)] by auto
  obtain m' where m: "m = Suc m'" "1536 - int (Suc m') = j" by (rule count_down [of j 1536 m]) (use K 0(4,6) j in auto)
  have v: "en ?p u j = 6969" using page_inv_unused [OF inv assms(4,5)] K j by simp
  have "pt_get s u j = Some 6969" using paged_get [OF 0(2) assms(4,5), of j] j K v by simp
  moreover have "en ?p u LAST = LAST" using 0(7) [of LAST] j K by (simp add: homes_def)
  moreover have "free_frames ?p \<noteq> {}" using 0(9) by auto
  ultimately have "pt_get s u j = Some 6969" "P (K u, s)"
    using assms(14) [OF 0(2,3)] 0(8,10,11) j by simp_all
  then show ?case using m j by (simp add: Let_def)
next
  case (Suc k)
  let ?p = "pages_of s"
  have inv: "page_inv n K ?p" and res: "last_reserved n K ?p" using Suc(4) by (auto simp: saved_def)
  have K: "0 \<le> j" "j < K u" "K u < LAST" using page_inv_size [OF inv assms(4,5)] Suc(2,5) by auto
  obtain m' where m: "m = Suc m'" "1536 - int (Suc m') = j" "m' = nat (1536 - (j + 1))"
    by (rule count_down [of j 1536 m]) (use K Suc(7) in auto)
  have pg: "is_page n K u j" using assms(4,5) K by (simp add: is_page_def homes_def)
  have v: "en ?p u j = j" using Suc(8) pg by (simp add: is_page_def)
  have get: "pt_get s u j = Some j" using paged_get [OF Suc(3) assms(4,5), of j] K v by simp
  have "free_frames ?p \<noteq> {}" using Suc(10) by auto
  have "returns (page_out j u j s) (\<lambda>s. returns (save_loop m' u s) P)"
  proof (rule page_out_returns [OF Suc(3) inv pg v])
    show "j < MEMORYPAGES" using K by simp
    show "free_frames ?p \<noteq> {}" using Suc(10) by auto
    fix f s1
    assume f: "f \<in> free_frames ?p" "\<And>g. g \<in> free_frames ?p \<Longrightarrow> f \<le> g" and s1: "paged_in pt n s1" "page_inv n K (pages_of s1)" "same_views n K ?p (pages_of s1)"
      and ow: "owned n K (pages_of s1) = insert f (owned n K ?p - {j})"
      and frs: "free_frames (pages_of s1) = free_frames ?p - {f}"
      and en: "en (pages_of s1) = (en ?p)(u := (en ?p u)(j := f))"
    have sv: "saved n K p (pages_of s1)"
      using s1 Suc(4) last_reserved_out [OF res f(1) frs en] same_views_trans by (auto simp: saved_def)
    have j_used: "j \<notin> free_frames ?p" using entry_range [OF inv pg] v by simp
    show "returns (save_loop m' u s1) P"
    proof (rule Suc(1) [of "j + 1"])
      show "nat (K u - (j + 1)) < card (free_frames (pages_of s1))"
        using card_take_one [OF f(1) frs] Suc(2,10) K by simp
      show "h \<notin> free_frames (pages_of s1) \<and> h \<notin> owned n K (pages_of s1)" if "0 \<le> h" "h < j + 1" for h
        using that Suc(9) [of h] j_used f(1) unfolding ow frs by (cases "h = j") auto
      show "en (pages_of s1) u i = i" if "i \<in> homes K u" "j + 1 \<le> i" for i
        using that Suc(8) by (simp add: en)
      show "exact n K {0..<j + 1} (pages_of s1)"
        by (rule exact_move [OF Suc(11) ow]) (simp_all add: frs K(1) subset_iff)
      show "I (j + 1) (pages_of s1)" using tr Suc(12) f en unfolding tracks_def by blast
    qed (use s1 sv K m Suc(2) in auto)
  qed
  then show ?case using get m v K by (simp add: Let_def page_out_bind)
qed

lemma reflagged:
  assumes "page_inv n K p" "en q = en p" "fr q = fr p" "free_frames q \<inter> owned n K p = {}"
  shows "page_inv n K q" "same_views n K p q" "owned n K q = owned n K p"
proof -
  show *: "owned n K q = owned n K p" using assms(2) by (simp add: owned_def)
  show "page_inv n K q" using assms * unfolding page_inv_def by auto
  show "same_views n K p q" using assms(2,3) by (simp add: same_views_def view_def)
qed

text \<open>After \<open>save_pages\<close> the homes of the thread hold no page of anybody.\<close>

definition vacated :: "int \<Rightarrow> (int \<Rightarrow> int) \<Rightarrow> pages \<Rightarrow> int \<Rightarrow> pages \<Rightarrow> bool" where
  "vacated n K p u q \<longleftrightarrow> page_inv n K q \<and> same_views n K p q \<and> homes K u \<inter> owned n K q = {} \<and> exact n K {0..<K u} q"

lemma relocated_last:
  assumes "en p u LAST = LAST" "LAST \<noteq> f" "q = clear_frame LAST (copy_frame LAST f p)"
    "q1 = q\<lparr>mt := (mt q)(LAST := CHR ''0'')\<rparr>"
    "r = q1\<lparr>en := (en q1)(u := (en q1 u)(LAST := f))\<rparr>" "t = r\<lparr>mt := (mt r)(f := CHR ''1'')\<rparr>"
  shows "relocated u LAST f p t" "free_frames p - {f} \<subseteq> free_frames t \<and> LAST \<in> free_frames t"
  using assms by (auto simp: relocated_def clear_frame_def copy_frame_def free_frames_def)

lemma save_last_returns:
  assumes "paged_in pt n s" "saved n K p (pages_of s)" "0 \<le> u" "u < n" "en (pages_of s) u LAST = LAST"
    "free_frames (pages_of s) \<noteq> {}" "exact n K {0..<K u} (pages_of s)"
    "\<And>h. 0 \<le> h \<Longrightarrow> h < K u \<Longrightarrow> h \<notin> free_frames (pages_of s) \<and> h \<notin> owned n K (pages_of s)"
    "\<And>s' f. paged_in pt n s' \<Longrightarrow> vacated n K p u (pages_of s') \<Longrightarrow>
       en (pages_of s') = (en (pages_of s))(u := (en (pages_of s) u)(LAST := f)) \<Longrightarrow> P s'"
  shows "returns (do { (newAddr, s) \<leftarrow> swap_out s LAST;
          s \<leftarrow> mt_set s LAST CHR ''0'';
          s \<leftarrow> pt_set s u LAST newAddr;
          mt_set s newAddr CHR ''1'' }) P"
proof -
  let ?p = "pages_of s"
  have inv: "page_inv n K ?p" and views: "same_views n K p ?p" and res: "LAST \<notin> free_frames ?p"
    using assms(2) by (auto simp: saved_def last_reserved_def)
  have pg: "is_page n K u LAST" using assms(3,4) by (simp add: is_page_def homes_def)
  show ?thesis
    unfolding returns_bind
  proof (rule swap_out_returns [OF assms(1) _ _ res assms(6)], simp, simp, unfold prod.case returns_bind)
    fix f s1
    assume f: "f \<in> free_frames ?p" and s1: "paged_in pt n s1" "pages_of s1 = clear_frame LAST (copy_frame LAST f ?p)"
    have fr: "0 \<le> f" "f < TOTALPAGES" "f \<notin> owned n K ?p" "LAST \<noteq> f" "f < 32768"
      using free_range [OF f] owned_range [OF inv] f res by auto
    show "returns (mt_set s1 LAST CHR ''0'') (\<lambda>s. returns (pt_set s u LAST f) (\<lambda>s. returns (mt_set s f CHR ''1'') P))"
    proof (rule mt_set_returns [OF s1(1)], simp, simp, rule pt_set_returns [OF _ assms(3,4) _ _ fr(1) fr(5)],
        assumption, simp, simp, rule mt_set_returns [OF _ fr(1,2)], assumption)
      fix s2 s3 s4
      assume q: "pages_of s2 = (pages_of s1)\<lparr>mt := (mt (pages_of s1))(LAST := CHR ''0'')\<rparr>"
        "pages_of s3 = (pages_of s2)\<lparr>en := (en (pages_of s2))(u := (en (pages_of s2) u)(LAST := f))\<rparr>"
        "pages_of s4 = (pages_of s3)\<lparr>mt := (mt (pages_of s3))(f := CHR ''1'')\<rparr>" and s4: "paged_in pt n s4"
      note mv = relocated_last [OF assms(5) fr(4) s1(2) q]
      note ok = relocated_ok [OF inv pg mv(1) fr(1-3)]
      note ow = relocated_owned [OF inv pg mv(1), unfolded assms(5)]
      have "homes K u \<inter> owned n K (pages_of s4) = {}"
        using ow assms(8) fr(4) f by (auto simp: homes_def)
      moreover have "exact n K {0..<K u} (pages_of s4)"
        by (rule exact_move [OF assms(7) ow]) (use mv(2) in auto)
      ultimately have "vacated n K p u (pages_of s4)" using ok same_views_trans [OF views] by (simp add: vacated_def)
      then show "P s4" using mv(1) unfolding relocated_def by (intro assms(9) [OF s4, of f]) simp_all
    qed
  qed
qed

lemma save_pages_returns:
  assumes tr: "tracks u I" and "paged_in pt n s" "page_inv n K (pages_of s)" "last_reserved n K (pages_of s)" "0 \<le> u" "u < n"
    "at_home K (pages_of s) u" "nat (K u) < card (free_frames (pages_of s))" "exact n K {} (pages_of s)" "I 0 (pages_of s)"
    "\<And>s' q f. paged_in pt n s' \<Longrightarrow> vacated n K (pages_of s) u (pages_of s') \<Longrightarrow> exact n K {} (pages_of s') \<Longrightarrow>
       I (K u) q \<Longrightarrow> en (pages_of s') = (en q)(u := (en q u)(LAST := f)) \<Longrightarrow> P s'"
  shows "returns (save_pages u s) P"
proof -
  have K: "0 \<le> K u" using page_inv_size [OF assms(3,5,6)] by simp
  have "returns (save_loop 1536 u s) (\<lambda>(storedi, s). returns (do { (newAddr, s) \<leftarrow> swap_out s LAST;
          s \<leftarrow> mt_set s LAST CHR ''0''; s \<leftarrow> pt_set s u LAST newAddr; mt_set s newAddr CHR ''1'' })
       (\<lambda>s. P (s\<lparr>masterTable := (\<lambda>i. if 0 \<le> i \<and> i < storedi then CHR ''0'' else masterTable s i)\<rparr>)))"
  proof (rule save_loop_returns [OF tr assms(2) _ assms(5,6), of K "pages_of s" 0], unfold prod.case)
    fix s1
    assume s1: "paged_in pt n s1" "saved n K (pages_of s) (pages_of s1)" and I: "I (K u) (pages_of s1)"
      and s1': "en (pages_of s1) u LAST = LAST"
      "free_frames (pages_of s1) \<noteq> {}" "exact n K {0..<K u} (pages_of s1)"
      "\<And>h. 0 \<le> h \<Longrightarrow> h < K u \<Longrightarrow> h \<notin> free_frames (pages_of s1) \<and> h \<notin> owned n K (pages_of s1)"
    show "returns (do { (newAddr, s) \<leftarrow> swap_out s1 LAST;
          s \<leftarrow> mt_set s LAST CHR ''0''; s \<leftarrow> pt_set s u LAST newAddr; mt_set s newAddr CHR ''1'' })
       (\<lambda>s. P (s\<lparr>masterTable := (\<lambda>i. if 0 \<le> i \<and> i < K u then CHR ''0'' else masterTable s i)\<rparr>))"
    proof (rule save_last_returns [OF s1(1,2) assms(5,6) s1'])
      fix s2 f
      assume s2: "paged_in pt n s2" "vacated n K (pages_of s) u (pages_of s2)"
        and en: "en (pages_of s2) = (en (pages_of s1))(u := (en (pages_of s1) u)(LAST := f))"
      let ?s = "s2\<lparr>masterTable := (\<lambda>i. if 0 \<le> i \<and> i < K u then CHR ''0'' else masterTable s2 i)\<rparr>"
      have inv: "page_inv n K (pages_of s2)" using s2(2) by (simp add: vacated_def)
      have "free_frames (pages_of ?s) \<inter> owned n K (pages_of s2) = {}"
        using s2(2) owned_range [OF inv] by (auto simp: vacated_def free_frames_def homes_def pages_of_sel split: if_splits)
      note re = reflagged [OF inv _ _ this]
      have "{0..<K u} \<subseteq> free_frames (pages_of ?s)" "free_frames (pages_of s2) \<subseteq> free_frames (pages_of ?s)"
        using page_inv_size [OF inv assms(5,6)] by (auto simp: free_frames_def pages_of_sel)
      then have "exact n K {} (pages_of ?s)" using s2(2) re by (auto simp: vacated_def exact_def)
      moreover from this have "vacated n K (pages_of s) u (pages_of ?s)"
        using re s2(2) same_views_trans by (auto simp: vacated_def exact_def)
      ultimately show "P ?s" using s2(1) en by (intro assms(11) [OF _ _ _ I]) simp_all
    qed
  qed (use assms K in \<open>auto simp: saved_def at_home_def\<close>)
  then show ?thesis by (simp add: save_pages_def split_def)
qed

subsection \<open>Bringing a thread in\<close>

text \<open>The body of the loops that bring page \<open>i\<close> of thread \<open>u\<close> from frame \<open>v\<close> to its home.\<close>

definition page_in :: "int \<Rightarrow> int \<Rightarrow> int \<Rightarrow> a2_state \<Rightarrow> a2_state option" where
  "page_in v u i s =
     do { s \<leftarrow> (if v \<noteq> i then do { s \<leftarrow> swap_in s v i; mt_set s v CHR ''0'' } else Some s);
          s \<leftarrow> pt_set s u i i;
          mt_set s i CHR ''1'' }"

lemma relocated_in:
  assumes "en p u i = v" "v \<noteq> i" "q = (if v < MEMORYPAGES then clear_frame v else id) (copy_frame v i p)"
    "q1 = q\<lparr>mt := (mt q)(v := CHR ''0'')\<rparr>" "0 \<le> v" "v < TOTALPAGES"
    "r = q1\<lparr>en := (en q1)(u := (en q1 u)(i := i))\<rparr>" "t = r\<lparr>mt := (mt r)(i := CHR ''1'')\<rparr>"
  shows "relocated u i i p t" "free_frames t = insert v (free_frames p) - {i}"
  using assms by (auto simp: relocated_def clear_frame_def copy_frame_def free_frames_def)

lemma page_in_away:
  assumes "paged_in pt n s" and u: "0 \<le> u" "u < n" "0 \<le> i" "i < MEMORYPAGES" and v: "0 \<le> v" "v < TOTALPAGES"
    and "en (pages_of s) u i = v" "v \<noteq> i"
    "\<And>s'. paged_in pt n s' \<Longrightarrow> relocated u i i (pages_of s) (pages_of s') \<Longrightarrow>
       free_frames (pages_of s') = insert v (free_frames (pages_of s)) - {i} \<Longrightarrow> P s'"
  shows "returns (page_in v u i s) P"
proof -
  have i: "i < 32768" "i < TOTALPAGES" using u by auto
  have "returns (swap_in s v i) (\<lambda>s. returns (mt_set s v CHR ''0'') (\<lambda>s. returns (pt_set s u i i)
      (\<lambda>s. returns (mt_set s i CHR ''1'') P)))"
    by (rule swap_in_returns [OF assms(1) v u(3,4) assms(9)], rule mt_set_returns [OF _ v], assumption,
        rule pt_set_returns [OF _ u u(3) i(1)], assumption, rule mt_set_returns [OF _ u(3) i(2)], assumption)
      (rule assms(10), assumption, (erule (1) relocated_in [OF assms(8,9) _ _ v], assumption+)+)
  then show ?thesis using assms(9) by (simp add: page_in_def)
qed

lemma page_in_returns:
  assumes "paged_in pt n s" "page_inv n K (pages_of s)" "is_page n K u i" "en (pages_of s) u i = v"
    "i \<in> owned n K (pages_of s) \<Longrightarrow> v = i"
    "\<And>s'. paged_in pt n s' \<Longrightarrow> page_inv n K (pages_of s') \<Longrightarrow> same_views n K (pages_of s) (pages_of s') \<Longrightarrow>
       owned n K (pages_of s') = insert i (owned n K (pages_of s) - {v}) \<Longrightarrow>
       free_frames (pages_of s') = insert v (free_frames (pages_of s)) - {i} \<Longrightarrow>
       en (pages_of s') = (en (pages_of s))(u := (en (pages_of s) u)(i := i)) \<Longrightarrow> P s'"
  shows "returns (page_in v u i s) P"
proof (cases "v = i")
  case True
  let ?p = "pages_of s"
  have i: "i \<in> owned n K ?p" using ownedI [OF assms(3)] assms(4) True by metis
  have u: "0 \<le> u" "u < n" "0 \<le> i" "i < MEMORYPAGES" "i < 32768" "i < TOTALPAGES"
    using assms(3) page_range [OF assms(2,3)] by (auto simp: is_page_def)
  have "returns (pt_set s u i i) (\<lambda>s. returns (mt_set s i CHR ''1'') P)"
  proof (rule pt_set_returns [OF assms(1) u(1-4) u(3,5)], rule mt_set_returns [OF _ u(3,6)], assumption)
    fix s1 s2
    assume q: "pages_of s1 = ?p\<lparr>en := (en ?p)(u := (en ?p u)(i := i))\<rparr>" "paged_in pt n s2"
      "pages_of s2 = (pages_of s1)\<lparr>mt := (mt (pages_of s1))(i := CHR ''1'')\<rparr>"
    have en: "(en ?p)(u := (en ?p u)(i := i)) = en ?p" using assms(4) True by (intro ext) auto
    have fr: "free_frames (pages_of s2) = free_frames ?p - {i}" unfolding q by (auto simp: free_frames_def)
    have "free_frames (pages_of s2) \<inter> owned n K ?p = {}" using owned_range [OF assms(2)] by (auto simp: fr)
    from reflagged [OF assms(2) _ _ this]
    show "P s2" using assms(6) [OF q(2)] q(1,3) en fr i True by auto
  qed
  then show ?thesis using True by (simp add: page_in_def)
next
  case False
  then have i: "i \<notin> owned n K (pages_of s)" using assms(5) by auto
  have r: "0 \<le> i" "i < TOTALPAGES" using page_range [OF assms(2,3)] by auto
  have u: "0 \<le> u" "u < n" "0 \<le> i" "i < MEMORYPAGES" using assms(3) page_range [OF assms(2,3)] by (auto simp: is_page_def)
  have v: "0 \<le> v" "v < TOTALPAGES" using entry_range [OF assms(2,3)] assms(4) by auto
  show ?thesis
  proof (rule page_in_away [OF assms(1) u v assms(4) False])
    fix s'
    assume s': "paged_in pt n s'" "relocated u i i (pages_of s) (pages_of s')"
      "free_frames (pages_of s') = insert v (free_frames (pages_of s)) - {i}"
    show "P s'"
      using assms(6) [OF s'(1) relocated_ok [OF assms(2,3) s'(2) r i]] relocated_owned [OF assms(2,3) s'(2)] s'(2,3) assms(4)
      by (simp add: relocated_def)
  qed
qed

lemma page_in_bind:
  "(if v \<noteq> i then swap_in s v i \<bind> (\<lambda>s. mt_set s v CHR ''0'') else Some s) \<bind>
     (\<lambda>s. pt_set s u i i \<bind> (\<lambda>s. mt_set s i CHR ''1'' \<bind> R)) = page_in v u i s \<bind> R"
  by (simp add: page_in_def)

text \<open>While thread \<open>u\<close> is brought in: its pages below \<open>j\<close> are at home and no other page is in one of its
  homes.\<close>

definition coming_home :: "int \<Rightarrow> (int \<Rightarrow> int) \<Rightarrow> pages \<Rightarrow> int \<Rightarrow> int \<Rightarrow> pages \<Rightarrow> bool" where
  "coming_home n K p u j q \<longleftrightarrow> page_inv n K q \<and> same_views n K p q \<and> exact n K {} q \<and>
     (\<forall>h \<in> homes K u. (h < j \<longrightarrow> en q u h = h) \<and> (h \<in> owned n K q \<longrightarrow> en q u h = h))"

lemma coming_home_step:
  assumes q: "coming_home n K p u j q" "is_page n K u i" "j \<le> i" "\<And>h. h \<in> homes K u \<Longrightarrow> j \<le> h \<Longrightarrow> h < j' \<Longrightarrow> h = i"
    and r: "page_inv n K r" "same_views n K q r" "owned n K r = insert i (owned n K q - {en q u i})"
      "free_frames r = insert (en q u i) (free_frames q) - {i}" "en r = (en q)(u := (en q u)(i := i))"
  shows "coming_home n K p u j' r"
proof -
  have old: "en q u h = h" if "h \<in> homes K u" "h < j \<or> h \<in> owned n K q" for h
    using q(1) that by (auto simp: coming_home_def)
  have "en r u h = h" if h: "h \<in> homes K u" "h < j' \<or> h \<in> owned n K r" for h
  proof (cases "h = i")
    case False
    then have "h < j \<or> h \<in> owned n K q" using h q(4) [of h] unfolding r(3) by (meson insertE DiffD1 not_le)
    then show ?thesis using old [OF h(1)] False r(5) by simp
  qed (simp add: r(5))
  moreover have "same_views n K p r" using q(1) r(2) same_views_trans unfolding coming_home_def by blast
  moreover have "exact n K {} q" using q(1) by (simp add: coming_home_def)
  then have "exact n K {} r" by (rule exact_move [OF _ r(3)]) (auto simp: r(4))
  ultimately show ?thesis using r(1) by (simp add: coming_home_def)
qed

lemma restore_loop_returns:
  assumes "paged_in pt n s" "coming_home n K p u j (pages_of s)" "0 \<le> u" "u < n" "0 \<le> j" "j \<le> K u" "m = nat (1536 - j)"
    "\<And>s'. paged_in pt n s' \<Longrightarrow> coming_home n K p u (K u) (pages_of s') \<Longrightarrow> P s'"
  shows "returns (restore_loop m u s) P"
  using assms(1,2,5-7)
proof (induction "nat (K u - j)" arbitrary: j m s)
  case 0
  let ?p = "pages_of s"
  have j: "j = K u" using 0 by simp
  have inv: "page_inv n K ?p" using 0 by (simp add: coming_home_def)
  have K: "0 \<le> K u" "K u < LAST" using page_inv_size [OF inv assms(3,4)] by auto
  obtain m' where m: "m = Suc m'" "1536 - int (Suc m') = j" by (rule count_down [of j 1536 m]) (use K 0 j in auto)
  have "pt_get s u j = Some 6969"
    using paged_get [OF 0(2) assms(3,4), of j] page_inv_unused [OF inv assms(3,4)] j K by simp
  then show ?case using m j assms(8) 0(2,3) by (simp add: Let_def)
next
  case (Suc k)
  let ?p = "pages_of s"
  have inv: "page_inv n K ?p" using Suc by (simp add: coming_home_def)
  have K: "0 \<le> j" "j < K u" "K u < LAST" using page_inv_size [OF inv assms(3,4)] Suc by auto
  obtain m' where m: "m = Suc m'" "1536 - int (Suc m') = j" "m' = nat (1536 - (j + 1))"
    by (rule count_down [of j 1536 m]) (use K Suc in auto)
  have pg: "is_page n K u j" using assms(3,4) K by (simp add: is_page_def homes_def)
  have get: "pt_get s u j = Some (en ?p u j)" using paged_get [OF Suc(3) assms(3,4), of j] K by simp
  have used: "en ?p u j \<noteq> 6969" using entry_range [OF inv pg] by auto
  have "returns (page_in (en ?p u j) u j s) (\<lambda>s. returns (restore_loop m' u s) P)"
  proof (rule page_in_returns [OF Suc(3) inv pg refl])
    show "en ?p u j = j" if "j \<in> owned n K ?p" using that Suc(4) pg by (auto simp: coming_home_def is_page_def)
    fix s1
    assume s1: "paged_in pt n s1" and r: "page_inv n K (pages_of s1)" "same_views n K ?p (pages_of s1)"
      "owned n K (pages_of s1) = insert j (owned n K ?p - {en ?p u j})"
      "free_frames (pages_of s1) = insert (en ?p u j) (free_frames ?p) - {j}"
      "en (pages_of s1) = (en ?p)(u := (en ?p u)(j := j))"
    have ch: "coming_home n K p u (j + 1) (pages_of s1)"
      by (rule coming_home_step [OF Suc(4) pg _ _ r]) auto
    show "returns (restore_loop m' u s1) P"
      by (rule Suc(1) [OF _ s1 ch]) (use K m Suc(2) in auto)
  qed
  then show ?case using get m used by (simp add: Let_def page_in_bind [simplified])
qed

lemma restore_pages_returns:
  assumes "paged_in pt n s" "coming_home n K p u 0 (pages_of s)" "0 \<le> u" "u < n"
    "\<And>s'. paged_in pt n s' \<Longrightarrow> page_inv n K (pages_of s') \<Longrightarrow> same_views n K p (pages_of s') \<Longrightarrow> at_home K (pages_of s') u \<Longrightarrow>
       exact n K {} (pages_of s') \<Longrightarrow> P s'"
  shows "returns (restore_pages u s) P"
proof -
  have "0 \<le> K u" using assms(2-4) page_inv_size by (auto simp: coming_home_def)
  have pg: "is_page n K u LAST" using assms(3,4) by (simp add: is_page_def homes_def)
  have "returns (restore_loop 1536 u s) (\<lambda>s. returns (pt_get s u LAST) (\<lambda>v. returns (page_in v u LAST s) P))"
  proof (rule restore_loop_returns [OF assms(1-4)])
    fix s1
    assume s1: "paged_in pt n s1" "coming_home n K p u (K u) (pages_of s1)"
    then have inv: "page_inv n K (pages_of s1)" by (simp add: coming_home_def)
    have "returns (page_in (en (pages_of s1) u LAST) u LAST s1) P"
    proof (rule page_in_returns [OF s1(1) inv pg refl])
      show "en (pages_of s1) u LAST = LAST" if "LAST \<in> owned n K (pages_of s1)"
        using that s1(2) by (auto simp: coming_home_def homes_def)
      fix s2
      assume s2: "paged_in pt n s2" and r: "page_inv n K (pages_of s2)" "same_views n K (pages_of s1) (pages_of s2)"
        "owned n K (pages_of s2) = insert LAST (owned n K (pages_of s1) - {en (pages_of s1) u LAST})"
        "free_frames (pages_of s2) = insert (en (pages_of s1) u LAST) (free_frames (pages_of s1)) - {LAST}"
        "en (pages_of s2) = (en (pages_of s1))(u := (en (pages_of s1) u)(LAST := LAST))"
      have "coming_home n K p u (LAST + 1) (pages_of s2)"
        by (rule coming_home_step [OF s1(2) pg _ _ r]) (use page_inv_size [OF inv assms(3,4)] in \<open>auto simp: homes_def\<close>)
      then have "same_views n K p (pages_of s2)" "at_home K (pages_of s2) u" "exact n K {} (pages_of s2)"
        using page_range [OF r(1)] assms(3,4) by (auto simp: coming_home_def at_home_def is_page_def)
      then show "P s2" using assms(5) [OF s2 r(1)] by blast
    qed
    then show "returns (pt_get s1 u LAST) (\<lambda>v. returns (page_in v u LAST s1) P)"
      using paged_get [OF s1(1) assms(3,4)] by simp
  qed (use \<open>0 \<le> K u\<close> in auto)
  then show ?thesis by (simp add: restore_pages_def page_in_def cong: if_cong)
qed

subsection \<open>Switching between two threads\<close>

lemma last_reserved_home:
  assumes "page_inv n K p" "0 \<le> u" "u < n" "at_home K p u" "LAST \<notin> free_frames p"
  shows "last_reserved n K p"
proof -
  have pg: "is_page n K u LAST" "en p u LAST = LAST" using assms by (auto simp: is_page_def at_home_def homes_def)
  show ?thesis using owner_unique [OF assms(1) _ pg(1)] pg(2) assms(5) by (auto simp: last_reserved_def)
qed

definition paging_ok :: "int \<Rightarrow> (int \<Rightarrow> int) \<Rightarrow> a2_state \<Rightarrow> bool" where
  "paging_ok n K s \<longleftrightarrow> paged n s \<and> page_inv n K (pages_of s) \<and> exact n K {} (pages_of s)"

lemma switch_pages_returns:
  assumes "paging_ok n K s" "0 \<le> u" "u < n" "at_home K (pages_of s) u"
    "nat (K u) < card (free_frames (pages_of s))" "0 \<le> w" "w < n" "K w \<le> K u"
    "\<And>s'. paging_ok n K s' \<Longrightarrow> same_views n K (pages_of s) (pages_of s') \<Longrightarrow> at_home K (pages_of s') w \<Longrightarrow> P s'"
  shows "returns (do { s \<leftarrow> save_pages u s; restore_pages w s }) P"
proof -
  have s: "paged_in (pageTables s) n s" "page_inv n K (pages_of s)" "exact n K {} (pages_of s)" using assms(1) by (auto simp: paging_ok_def paged_def)
  have "is_page n K u LAST" using assms(2,3) by (simp add: is_page_def homes_def)
  then have "LAST \<notin> free_frames (pages_of s)"
    using entry_range [OF s(2), of u LAST] assms(4) by (auto simp: at_home_def homes_def)
  then have res: "last_reserved n K (pages_of s)" by (rule last_reserved_home [OF s(2) assms(2-4)])
  show ?thesis
    unfolding returns_bind
  proof (rule save_pages_returns [where I = "\<lambda>_ _. True", OF _ s(1,2) res assms(2-5) s(3)])
    fix s1
    assume s1: "paged_in (pageTables s) n s1" "vacated n K (pages_of s) u (pages_of s1)" "exact n K {} (pages_of s1)"
    have "homes K w \<inter> owned n K (pages_of s1) = {}" using assms(8) s1(2) by (auto simp: homes_def vacated_def)
    moreover have "\<not> h < 0" if "h \<in> homes K w" for h using that by (auto simp: homes_def)
    ultimately have "coming_home n K (pages_of s) w 0 (pages_of s1)"
      using s1(2,3) unfolding vacated_def coming_home_def by blast
    then show "returns (restore_pages w s1) P"
      by (rule restore_pages_returns [OF s1(1) _ assms(6,7)]) (rule assms(9), auto simp: paging_ok_def paged_inD)
  qed (simp_all add: tracks_def)
qed

subsection \<open>Resuming after an exit\<close>

lemma not_owned_entry:
  assumes "page_inv n K p" "f \<notin> owned n K p" "f < 6969" "0 \<le> u" "u < n" "0 \<le> k" "k < MEMORYPAGES"
  shows "en p u k \<noteq> f"
proof (cases "is_page n K u k")
  case True
  then show ?thesis using ownedI assms(2) by metis
next
  case False
  then have "en p u k = 6969" using page_inv_unused [OF assms(1,4,5), of k] assms(4-7) by (auto simp: is_page_def homes_def)
  then show ?thesis using assms(3) by simp
qed

lemma evict_step:
  assumes "paged_in pt n s" "0 \<le> j" "j < n" "m = nat (128 - j)"
  obtains m' where "m' = nat (128 - (j + 1))"
    "evict m i s = (case find (\<lambda>k. en (pages_of s) j (int k) = i) [0..<1536] of
        Some k \<Rightarrow> page_out i j (int k) s \<bind> evict m' i | None \<Rightarrow> evict m' i s)"
proof -
  obtain a t where t: "pageTables s j = Some a" "tables s a = Some t" "entry_at s j = t"
    by (rule paged_table [OF assms(1-3)])
  have "j < 128" using assms(1,3) by (simp add: paged_in_def)
  obtain m' where "m = Suc m'" "128 - int (Suc m') = j" "m' = nat (128 - (j + 1))"
    by (rule count_down [of j 128 m]) (use assms \<open>j < 128\<close> in auto)
  then show ?thesis using that t
    by (simp add: Let_def pages_of_def page_out_def split: option.split)
qed

lemma evict_end:
  assumes "paged_in pt n s" "pt n = None" "m = nat (128 - n)"
  shows "evict m i s = Some s" "evict_last m s = Some s"
proof -
  have n: "0 \<le> n" "n < 128" "pageTables s n = None" using assms(1,2) by (auto simp: paged_in_def)
  obtain m' where "m = Suc m'" "128 - int (Suc m') = n" by (rule count_down [OF n(1,2) assms(3)])
  then show "evict m i s = Some s" "evict_last m s = Some s" using n(3) by (simp_all add: Let_def)
qed

lemma evict_nothing:
  assumes slot: "pt n = None" and "paged_in pt n s" "0 \<le> j" "j \<le> n" "m = nat (128 - j)"
    "\<And>u k. 0 \<le> u \<Longrightarrow> u < n \<Longrightarrow> 0 \<le> k \<Longrightarrow> k < MEMORYPAGES \<Longrightarrow> en (pages_of s) u k \<noteq> i"
  shows "evict m i s = Some s"
  using assms(3-5)
proof (induction "nat (n - j)" arbitrary: j m)
  case 0
  then show ?case using evict_end [OF assms(2) slot] by simp
next
  case (Suc k)
  have j: "j < n" using Suc(2) by simp
  obtain m' where m': "m' = nat (128 - (j + 1))"
    "evict m i s = (case find (\<lambda>k. en (pages_of s) j (int k) = i) [0..<1536] of
        Some k \<Rightarrow> page_out i j (int k) s \<bind> evict m' i | None \<Rightarrow> evict m' i s)"
    by (rule evict_step [OF assms(2) Suc(3) j Suc(5)])
  have "find (\<lambda>k. en (pages_of s) j (int k) = i) [0..<1536] = None"
    using assms(6) Suc(3) j by (simp add: find_None_iff)
  then show ?case using m' Suc(1) [of "j + 1" m'] Suc(2,3) j by simp
qed

text \<open>The frame has been freed of its owner; every other page stayed where it was.\<close>

definition evicted :: "int \<Rightarrow> (int \<Rightarrow> int) \<Rightarrow> int \<Rightarrow> pages \<Rightarrow> pages \<Rightarrow> bool" where
  "evicted n K i p q \<longleftrightarrow> page_inv n K q \<and> same_views n K p q \<and> last_reserved n K q \<and> i \<notin> owned n K q \<and> exact n K {i} q \<and>
     (\<forall>u k. is_page n K u k \<longrightarrow> en p u k \<noteq> i \<longrightarrow> en q u k = en p u k)"

lemma evicted_out:
  assumes "page_inv n K p" "last_reserved n K p" "is_page n K u k" "en p u k = i" "f \<in> free_frames p"
    "page_inv n K q" "same_views n K p q" "owned n K q = insert f (owned n K p - {i})"
    "free_frames q = free_frames p - {f}" "en q = (en p)(u := (en p u)(k := f))" "exact n K {} p"
  shows "evicted n K i p q"
proof -
  have "i \<noteq> f" using entry_range [OF assms(1,3)] assms(4,5) by auto
  moreover have "exact n K {i} q" by (rule exact_move [OF assms(11,8)]) (use assms(9) in auto)
  ultimately show ?thesis using assms(3,4,6-8,10) last_reserved_out [OF assms(2,5,9,10)] by (auto simp: evicted_def)
qed

lemma evict_returns:
  assumes slot: "pt n = None" and "paged_in pt n s" "page_inv n K (pages_of s)" "last_reserved n K (pages_of s)" "0 \<le> i" "i < MEMORYPAGES"
    "free_frames (pages_of s) \<noteq> {}" "0 \<le> j" "j \<le> n" "m = nat (128 - j)"
    "\<And>u k. is_page n K u k \<Longrightarrow> en (pages_of s) u k = i \<Longrightarrow> j \<le> u" "exact n K {} (pages_of s)"
    "\<And>s'. paged_in pt n s' \<Longrightarrow> evicted n K i (pages_of s) (pages_of s') \<Longrightarrow> P s'"
  shows "returns (evict m i s) P"
  using assms(8-11)
proof (induction "nat (n - j)" arbitrary: j m)
  case 0
  have "i \<notin> owned n K (pages_of s)" using 0 by (force simp: owned_def is_page_def)
  then have "P s" using assms(2-4,12) assms(13) [of s] by (auto simp: evicted_def exact_def)
  then show ?case using evict_end [OF assms(2) slot] 0 by simp
next
  case (Suc k)
  let ?p = "pages_of s"
  have j: "j < n" using Suc(2) by simp
  obtain m' where m': "m' = nat (128 - (j + 1))"
    "evict m i s = (case find (\<lambda>k. en ?p j (int k) = i) [0..<1536] of
        Some k \<Rightarrow> page_out i j (int k) s \<bind> evict m' i | None \<Rightarrow> evict m' i s)"
    by (rule evict_step [OF assms(2) Suc(3) j Suc(5)])
  show ?case
  proof (cases "find (\<lambda>k. en ?p j (int k) = i) [0..<1536]")
    case None
    then have "en ?p j (int k) \<noteq> i" if "k < 1536" for k using that by (simp add: find_None_iff)
    then have none: "en ?p j k \<noteq> i" if "0 \<le> k" "k < 1536" for k using that by (metis nat_less_iff nat_0_le of_nat_numeral zless_nat_eq_int_zless)
    have "returns (evict m' i s) P"
    proof (rule Suc(1))
      fix u k
      assume u: "is_page n K u k" "en ?p u k = i"
      then have "j \<le> u" "0 \<le> k" "k < 1536" using Suc(6) page_range [OF assms(3)] by auto
      then show "j + 1 \<le> u" using none [of k] u(2) by (cases "u = j") auto
    qed (use Suc(2,3) j m' in auto)
    then show ?thesis using m'(2) None by simp
  next
    case (Some k)
    have k: "k < 1536" "en ?p j (int k) = i" using find_first [OF Some] by auto
    have pg: "is_page n K j (int k)"
      using page_inv_unused [OF assms(3) Suc(3) j, of "int k"] k assms(6) Suc(3) j by (force simp: is_page_def homes_def)
    have "returns (page_out i j (int k) s) (\<lambda>s. returns (evict m' i s) P)"
    proof (rule page_out_returns [OF assms(2,3) pg k(2) assms(6,7)])
      fix f s1
      assume f: "f \<in> free_frames ?p" and s1: "paged_in pt n s1"
        and r: "page_inv n K (pages_of s1)" "same_views n K ?p (pages_of s1)"
          "owned n K (pages_of s1) = insert f (owned n K ?p - {i})"
          "free_frames (pages_of s1) = free_frames ?p - {f}" "en (pages_of s1) = (en ?p)(j := (en ?p j)(int k := f))"
      have ev: "evicted n K i ?p (pages_of s1)" by (rule evicted_out [OF assms(3,4) pg k(2) f r assms(12)])
      then have "i \<notin> owned n K (pages_of s1)" by (simp add: evicted_def)
      from not_owned_entry [OF r(1) this] have "evict m' i s1 = Some s1"
        by (intro evict_nothing [OF slot s1, of "j + 1"]) (use m' Suc(3) j assms(6) in auto)
      then show "returns (evict m' i s1) P" using assms(13) [OF s1 ev] by simp
    qed
    then show ?thesis using m'(2) Some by simp
  qed
qed

lemma evict_last_returns:
  assumes slot: "pt n = None" and "paged_in pt n s" "page_inv n K (pages_of s)" "last_reserved n K (pages_of s)" "free_frames (pages_of s) \<noteq> {}"
    "0 \<le> j" "j \<le> n" "m = nat (128 - j)"
    "\<And>u k. is_page n K u k \<Longrightarrow> en (pages_of s) u k = LAST \<Longrightarrow> j \<le> u" "exact n K {} (pages_of s)"
    "\<And>s'. paged_in pt n s' \<Longrightarrow> evicted n K LAST (pages_of s) (pages_of s') \<Longrightarrow> P s'"
  shows "returns (evict_last m s) P"
  using assms(6-9)
proof (induction "nat (n - j)" arbitrary: j m)
  case 0
  have "LAST \<notin> owned n K (pages_of s)" using 0 by (force simp: owned_def is_page_def)
  then have "P s" using assms(2-4,10) assms(11) [of s] by (auto simp: evicted_def exact_def)
  then show ?case using evict_end [OF assms(2) slot] 0 by simp
next
  case (Suc k)
  let ?p = "pages_of s"
  have j: "j < n" "j < 128" using Suc(2) assms(2) by (auto simp: paged_in_def)
  obtain m' where m': "m = Suc m'" "128 - int (Suc m') = j" "m' = nat (128 - (j + 1))"
    by (rule count_down [OF Suc(3) j(2) Suc(5)])
  obtain a where a: "pageTables s j = Some a" by (rule paged_table [OF assms(2) Suc(3) j(1)])
  have pg: "is_page n K j LAST" using Suc(3) j by (simp add: is_page_def homes_def)
  have eq: "evict_last m s = (if en ?p j LAST = LAST then page_out LAST j LAST s else evict_last m' s)"
    using paged_get [OF assms(2) Suc(3) j(1), of LAST] a m' by (simp add: Let_def page_out_def)
  show ?case
  proof (cases "en ?p j LAST = LAST")
    case True
    have "returns (page_out LAST j LAST s) P"
      by (rule page_out_returns [OF assms(2,3) pg True _ assms(5)])
        (use assms(10,11) evicted_out [OF assms(3,4) pg True] in auto)
    then show ?thesis using eq True by simp
  next
    case False
    have "returns (evict_last m' s) P"
    proof (rule Suc(1))
      fix u k
      assume u: "is_page n K u k" "en ?p u k = LAST"
      then have "k = LAST" "j \<le> u" using assms(4) Suc(6) by (auto simp: last_reserved_def)
      then show "j + 1 \<le> u" using u(2) False by (cases "u = j") auto
    qed (use Suc(2,3) j m' in auto)
    then show ?thesis using eq False by simp
  qed
qed

definition loaded :: "int \<Rightarrow> (int \<Rightarrow> int) \<Rightarrow> pages \<Rightarrow> int \<Rightarrow> int \<Rightarrow> pages \<Rightarrow> bool" where
  "loaded n K p u j q \<longleftrightarrow> page_inv n K q \<and> exact n K {} q \<and> same_views n K p q \<and> last_reserved n K q \<and> free_frames q \<noteq> {} \<and>
     (\<forall>h. 0 \<le> h \<longrightarrow> h < j \<longrightarrow> en q u h = h)"

lemma load_in_returns:
  assumes "paged_in pt n s" "page_inv n K (pages_of s)" "same_views n K p (pages_of s)" "last_reserved n K (pages_of s)"
    "is_page n K u i" "i \<in> owned n K (pages_of s) \<Longrightarrow> en (pages_of s) u i = i"
    "\<And>h. 0 \<le> h \<Longrightarrow> h < j \<Longrightarrow> en (pages_of s) u h = h"
    "en (pages_of s) u i = i \<Longrightarrow> free_frames (pages_of s) \<noteq> {}" "exact n K {i} (pages_of s)"
    "\<And>s'. paged_in pt n s' \<Longrightarrow> loaded n K p u j (pages_of s') \<Longrightarrow> en (pages_of s') u i = i \<Longrightarrow> P s'"
  shows "returns (page_in (en (pages_of s) u i) u i s) P"
proof (rule page_in_returns [OF assms(1,2,5) refl assms(6)], assumption)
  let ?v = "en (pages_of s) u i"
  fix s2
  assume s2: "paged_in pt n s2" "page_inv n K (pages_of s2)" "same_views n K (pages_of s) (pages_of s2)"
    "free_frames (pages_of s2) = insert ?v (free_frames (pages_of s)) - {i}"
    "en (pages_of s2) = (en (pages_of s))(u := (en (pages_of s) u)(i := i))"
    and ow: "owned n K (pages_of s2) = insert i (owned n K (pages_of s) - {?v})"
  have "exact n K {} (pages_of s2)" by (rule exact_move [OF assms(9) ow]) (use s2(4) in auto)
  moreover
  have "?v = i \<Longrightarrow> i \<notin> free_frames (pages_of s)" using entry_range [OF assms(2,5)] by simp
  then have "free_frames (pages_of s2) \<noteq> {}" using s2(4) assms(8) by (cases "?v = i") auto
  moreover have "?v = LAST \<Longrightarrow> i = LAST" using assms(4,5) by (auto simp: last_reserved_def)
  then have "last_reserved n K (pages_of s2)" using assms(4) s2(4,5) by (auto simp: last_reserved_def)
  moreover have "en (pages_of s2) u h = h" if "0 \<le> h" "h < j \<or> h = i" for h
    using that assms(7) [of h] s2(5) by auto
  ultimately show "P s2"
    using assms(10) [OF s2(1)] s2(2) same_views_trans [OF assms(3) s2(3)] s2(5) by (simp add: loaded_def)
qed

text \<open>Freeing the frame of page \<open>i\<close> by \<open>ev\<close> unless the page is there, then bringing the page in.\<close>

lemma fetch_page_returns:
  assumes "paged_in pt n s" "loaded n K p u j (pages_of s)" "is_page n K u i" "j \<le> i" "j \<le> K u"
    "\<And>R. (\<And>s'. paged_in pt n s' \<Longrightarrow> evicted n K i (pages_of s) (pages_of s') \<Longrightarrow> R s') \<Longrightarrow> returns (ev s) R"
    "\<And>s'. paged_in pt n s' \<Longrightarrow> loaded n K p u j (pages_of s') \<Longrightarrow> en (pages_of s') u i = i \<Longrightarrow> P s'"
  shows "returns (do { v \<leftarrow> pt_get s u i;
          s \<leftarrow> (if v \<noteq> i then do { s \<leftarrow> ev s; v \<leftarrow> pt_get s u i; s \<leftarrow> swap_in s v i; mt_set s v CHR ''0'' } else Some s);
          s \<leftarrow> pt_set s u i i;
          mt_set s i CHR ''1'' }) P"
proof -
  let ?p = "pages_of s"
  let ?v = "en ?p u i"
  have p: "page_inv n K ?p" "last_reserved n K ?p" "free_frames ?p \<noteq> {}" "same_views n K p ?p" "exact n K {i} ?p"
    and low: "\<And>h. 0 \<le> h \<Longrightarrow> h < j \<Longrightarrow> en ?p u h = h"
    using assms(2) by (auto simp: loaded_def exact_def)
  have u: "0 \<le> u" "u < n" "0 \<le> i" "i < MEMORYPAGES" using assms(3) page_range [OF p(1) assms(3)] by (auto simp: is_page_def)
  have get: "pt_get s u i = Some ?v" using paged_get [OF assms(1) u] .
  show ?thesis
  proof (cases "?v = i")
    case True
    have "returns (page_in ?v u i s) P"
      by (rule load_in_returns [OF assms(1) p(1,4,2) assms(3)]) (use True p low assms(7) in auto)
    then show ?thesis using get True by (simp add: page_in_def)
  next
    case False
    have "returns (ev s) (\<lambda>s. pt_get s u i = Some ?v \<and> returns (page_in ?v u i s) P)"
    proof (rule assms(6))
      fix s1
      assume s1: "paged_in pt n s1" "evicted n K i ?p (pages_of s1)"
      then have e: "en (pages_of s1) u i = ?v" using False assms(3) by (auto simp: evicted_def)
      have l: "en (pages_of s1) u h = h" if "0 \<le> h" "h < j" for h
        using s1(2) low [OF that] u assms(4,5) that by (auto simp: evicted_def is_page_def homes_def)
      have "returns (page_in (en (pages_of s1) u i) u i s1) P"
        by (rule load_in_returns [where p = p, OF s1(1)])
          (use s1 e l False same_views_trans [OF p(4)] assms(3,7) in \<open>auto simp: evicted_def\<close>)
      then show "pt_get s1 u i = Some ?v \<and> returns (page_in ?v u i s1) P" using paged_get [OF s1(1) u] e by simp
    qed
    then show ?thesis using get False by (auto simp: page_in_def elim!: returns_mono)
  qed
qed

lemma load_loop_returns:
  assumes slot: "pt n = None" and "paged_in pt n s" "loaded n K p u j (pages_of s)" "0 \<le> u" "u < n" "0 \<le> j" "j \<le> K u" "m = nat (1536 - j)"
    "\<And>s'. paged_in pt n s' \<Longrightarrow> loaded n K p u (K u) (pages_of s') \<Longrightarrow> P s'"
  shows "returns (load_loop m u s) P"
  using assms(2,3,6-8)
proof (induction "nat (K u - j)" arbitrary: j m s)
  case 0
  let ?p = "pages_of s"
  have j: "j = K u" using 0 by simp
  have inv: "page_inv n K ?p" using 0 by (simp add: loaded_def)
  have K: "0 \<le> K u" "K u < LAST" using page_inv_size [OF inv assms(4,5)] by auto
  obtain m' where m: "m = Suc m'" "1536 - int (Suc m') = j" by (rule count_down [of j 1536 m]) (use K 0 j in auto)
  have "pt_get s u j = Some 6969"
    using paged_get [OF 0(2) assms(4,5), of j] page_inv_unused [OF inv assms(4,5)] j K by simp
  then show ?case using m j assms(9) 0(2,3) by (simp add: Let_def)
next
  case (Suc k)
  let ?p = "pages_of s"
  have p: "page_inv n K ?p" "last_reserved n K ?p" "free_frames ?p \<noteq> {}" "exact n K {} ?p" using Suc by (auto simp: loaded_def)
  have K: "0 \<le> j" "j < K u" "K u < LAST" "0 \<le> n" using page_inv_size [OF p(1) assms(4,5)] Suc assms(4,5) by auto
  obtain m' where m: "m = Suc m'" "1536 - int (Suc m') = j" "m' = nat (1536 - (j + 1))"
    by (rule count_down [of j 1536 m]) (use K Suc in auto)
  have pg: "is_page n K u j" using assms(4,5) K by (simp add: is_page_def homes_def)
  have get: "pt_get s u j = Some (en ?p u j)" using paged_get [OF Suc(3) assms(4,5), of j] K by simp
  have used: "en ?p u j \<noteq> 6969" using entry_range [OF p(1) pg] by auto
  have "returns (do { v \<leftarrow> pt_get s u j;
          s \<leftarrow> (if v \<noteq> j then do { s \<leftarrow> evict 128 j s; v \<leftarrow> pt_get s u j; s \<leftarrow> swap_in s v j; mt_set s v CHR ''0'' } else Some s);
          s \<leftarrow> pt_set s u j j;
          mt_set s j CHR ''1'' }) (\<lambda>s. returns (load_loop m' u s) P)"
  proof (rule fetch_page_returns [OF Suc(3,4) pg])
    show "returns (evict 128 j s) R" if "\<And>s'. paged_in pt n s' \<Longrightarrow> evicted n K j ?p (pages_of s') \<Longrightarrow> R s'" for R
      by (rule evict_returns [OF slot Suc(3) p(1,2) _ _ p(3), of j 0]) (use K that p(4) in \<open>auto simp: is_page_def\<close>)
    fix s1
    assume s1: "paged_in pt n s1" "loaded n K p u j (pages_of s1)" "en (pages_of s1) u j = j"
    then have ld: "loaded n K p u (j + 1) (pages_of s1)" by (auto simp: loaded_def less_le)
    show "returns (load_loop m' u s1) P"
      by (rule Suc(1) [OF _ s1(1) ld]) (use K m Suc(2) in auto)
  qed (use K in auto)
  then show ?case using get m used by (simp add: Let_def cong: if_cong)
qed

lemma resume_pages_returns:
  assumes ok: "paging_ok n K s" and "last_reserved n K (pages_of s)" "free_frames (pages_of s) \<noteq> {}"
    "pageTables s n = None" "0 \<le> u" "u < n"
    "\<And>s'. paging_ok n K s' \<Longrightarrow> same_views n K (pages_of s) (pages_of s') \<Longrightarrow> at_home K (pages_of s') u \<Longrightarrow> P s'"
  shows "returns (resume_pages u s) P"
proof -
  have s: "paged_in (pageTables s) n s" "page_inv n K (pages_of s)" "exact n K {} (pages_of s)" using ok by (auto simp: paging_ok_def paged_def)
  have K: "0 \<le> K u" "K u < LAST" using page_inv_size [OF s(2) assms(5,6)] by auto
  have pg: "is_page n K u LAST" using assms(5,6) by (simp add: is_page_def homes_def)
  have "returns (load_loop 1536 u s) (\<lambda>s. returns (do { v \<leftarrow> pt_get s u LAST;
          s \<leftarrow> (if v \<noteq> LAST then do { s \<leftarrow> evict_last 128 s; v \<leftarrow> pt_get s u LAST; s \<leftarrow> swap_in s v LAST; mt_set s v CHR ''0'' } else Some s);
          s \<leftarrow> pt_set s u LAST LAST;
          mt_set s LAST CHR ''1'' }) P)"
  proof (rule load_loop_returns [OF assms(4) s(1) _ assms(5,6), of K "pages_of s" 0])
    show "loaded n K (pages_of s) u 0 (pages_of s)" using s assms(2,3) by (simp add: loaded_def)
    fix s1
    assume s1: "paged_in (pageTables s) n s1" "loaded n K (pages_of s) u (K u) (pages_of s1)"
    then have p: "page_inv n K (pages_of s1)" "last_reserved n K (pages_of s1)" "free_frames (pages_of s1) \<noteq> {}"
      "exact n K {} (pages_of s1)" by (auto simp: loaded_def)
    show "returns (do { v \<leftarrow> pt_get s1 u LAST;
          s \<leftarrow> (if v \<noteq> LAST then do { s \<leftarrow> evict_last 128 s1; v \<leftarrow> pt_get s u LAST; s \<leftarrow> swap_in s v LAST; mt_set s v CHR ''0'' } else Some s1);
          s \<leftarrow> pt_set s u LAST LAST;
          mt_set s LAST CHR ''1'' }) P"
    proof (rule fetch_page_returns [OF s1 pg])
      show "returns (evict_last 128 s1) R"
        if "\<And>s'. paged_in (pageTables s) n s' \<Longrightarrow> evicted n K LAST (pages_of s1) (pages_of s') \<Longrightarrow> R s'" for R
        by (rule evict_last_returns [OF assms(4) s1(1) p(1-3), of 0]) (use assms(5,6) that p(4) in \<open>auto simp: is_page_def\<close>)
      fix s2
      assume s2: "paged_in (pageTables s) n s2" "loaded n K (pages_of s) u (K u) (pages_of s2)" "en (pages_of s2) u LAST = LAST"
      then have "at_home K (pages_of s2) u" by (auto simp: at_home_def homes_def loaded_def)
      then show "P s2" using assms(7) [of s2] s2(1,2) by (simp add: loaded_def paging_ok_def paged_inD)
    qed (use K in auto)
  qed (use K in auto)
  then show ?thesis by (simp add: resume_pages_def cong: if_cong)
qed

end
