(* ===== verification/A2_Runs.thy ===== *)
theory A2_Runs
  imports A2_Memory
begin

section \<open>Yields with paging\<close>

text \<open>
  The whole of \<open>my_pthread_yield\<close> of Assignment2: where Assignment1's scheduler makes a step, so does this
  one, and all threads keep their memory.  The number of free frames does not change, so any number
  of yields follows.
\<close>

subsection \<open>The number of free frames\<close>

definition page_set :: "int \<Rightarrow> (int \<Rightarrow> int) \<Rightarrow> (int \<times> int) set" where
  "page_set n K = {(u, i). is_page n K u i}"

lemma card_free:
  assumes "paging_ok n K s"
  shows "card (free_frames (pages_of s)) = 5632 - card (page_set n K)"
proof -
  let ?p = "pages_of s"
  have inv: "page_inv n K ?p" and ex: "exact n K {} ?p" using assms by (auto simp: paging_ok_def)
  have free: "free_frames ?p = {0..<TOTALPAGES} - owned n K ?p"
    using ex owned_range [OF inv] by (auto simp: exact_def free_frames_def)
  have sub: "owned n K ?p \<subseteq> {0..<TOTALPAGES}" using owned_range [OF inv] by auto
  have "inj_on (\<lambda>(u, i). en ?p u i) (page_set n K)"
    using owner_unique [OF inv] by (auto simp: inj_on_def page_set_def)
  then have "card ((\<lambda>(u, i). en ?p u i) ` page_set n K) = card (page_set n K)" by (rule card_image)
  moreover have "(\<lambda>(u, i). en ?p u i) ` page_set n K = owned n K ?p" by (auto simp: owned_def page_set_def)
  moreover have "finite (owned n K ?p)" using sub finite_subset by blast
  ultimately show ?thesis using sub by (simp add: free card_Diff_subset)
qed

subsection \<open>The scheduler does not touch the pages\<close>

lemma same_more:
  assumes "sched.more s' = sched.more s"
  shows "pages_of s' = pages_of s" "paged n s' = paged n s" "paging_ok n K s' = paging_ok n K s"
proof -
  have f: "memory s' = memory s" "swapfile s' = swapfile s" "pageTables s' = pageTables s" "tables s' = tables s"
    "masterTable s' = masterTable s" "file_open s' = file_open s"
    using assms by (cases s; cases s'; simp)+
  show *: "pages_of s' = pages_of s"
    unfolding pages_of_def frame_at_def [abs_def] entry_at_def [abs_def] pt_table_def f ..
  show **: "paged n s' = paged n s" unfolding paged_def paged_in_def f ..
  show "paging_ok n K s' = paging_ok n K s" unfolding paging_ok_def * ** ..
qed

lemma more_timer [simp]: "sched.more (a2_arm_timer p s) = sched.more s"
  by (simp add: a2_arm_timer_def setitimer_virtual_def)

lemma more_slots: "sched.more s' = sched.more s \<Longrightarrow> pageTables s' = pageTables s"
  by (cases s; cases s'; simp)

definition same_ids :: "'a sched_scheme \<Rightarrow> 'a sched_scheme \<Rightarrow> bool" where
  "same_ids s s' \<longleftrightarrow> sched.more s' = sched.more s \<and>
     (\<forall>t. map_option thread_id (threads s' t) = map_option thread_id (threads s t))"

lemma requeue_ids:
  "requeue_p1 s = Some s' \<Longrightarrow> same_ids s s'"
  "requeue_p2 s = Some s' \<Longrightarrow> same_ids s s'"
  unfolding requeue_p1_def requeue_p2_def same_ids_def
  by (auto simp: bind_eq_Some_conv Let_def split: if_splits)

lemma pick_ids:
  "pick_next s = Some (p, t, s') \<Longrightarrow> same_ids s s'"
  "pick_next_p2 s = Some (p, t, s') \<Longrightarrow> same_ids s s'"
  unfolding pick_next_def pick_next_p2_def same_ids_def
  by (auto simp: bind_eq_Some_conv)

lemma same_ids_trans: "same_ids s s' \<Longrightarrow> same_ids s' s'' \<Longrightarrow> same_ids s s''"
  by (simp add: same_ids_def)

subsection \<open>One yield\<close>

text \<open>All threads use the same number \<open>k\<close> of leading pages, the running thread has its pages in place
  and there are free frames for them.  When no thread runs, after an exit, the loops over the page
  tables must find a NULL slot behind them.\<close>

definition yield_ready :: "int \<Rightarrow> int \<Rightarrow> a2_state \<Rightarrow> bool" where
  "yield_ready n k s \<longleftrightarrow> paging_ok n (\<lambda>_. k) s \<and> nat k < card (free_frames (pages_of s)) \<and>
     (\<forall>t r. threads s t = Some r \<longrightarrow> 0 \<le> thread_id r \<and> thread_id r < n) \<and>
     (case current s of None \<Rightarrow> last_reserved n (\<lambda>_. k) (pages_of s) \<and> pageTables s n = None
      | Some c \<Rightarrow> \<exists>r. threads s c = Some r \<and> at_home (\<lambda>_. k) (pages_of s) (thread_id r))"

text \<open>What a yield keeps.\<close>

definition memory_kept :: "int \<Rightarrow> int \<Rightarrow> a2_state \<Rightarrow> a2_state \<Rightarrow> bool" where
  "memory_kept n k s s' \<longleftrightarrow> paging_ok n (\<lambda>_. k) s' \<and> same_views n (\<lambda>_. k) (pages_of s) (pages_of s')"

definition runs_home :: "int \<Rightarrow> a2_state \<Rightarrow> bool" where
  "runs_home k s \<longleftrightarrow> (case current s of None \<Rightarrow> False
     | Some c \<Rightarrow> \<exists>r. threads s c = Some r \<and> at_home (\<lambda>_. k) (pages_of s) (thread_id r))"

lemma sched_part_id: "sched_part s' = sched_part s \<Longrightarrow> threads s' = threads s \<and> current s' = current s"
  by (metis sched_part_sel)

lemma a2_resume_total:
  assumes "yield_ready n k s" "current s = None" "threads s t = Some r" "setcontext s (tcontext r) \<noteq> None"
  shows "returns (a2_resume t r s) (\<lambda>(sw, s'). memory_kept n k s s' \<and> runs_home k s')"
proof -
  let ?s = "a2_arm_timer 0 (s\<lparr>current := Some t\<rparr>)"
  have m: "sched.more ?s = sched.more s" by simp
  have ok: "paging_ok n (\<lambda>_. k) ?s" "last_reserved n (\<lambda>_. k) (pages_of ?s)" "free_frames (pages_of ?s) \<noteq> {}"
    "pageTables ?s n = None" "0 \<le> thread_id r" "thread_id r < n"
    using assms(1-3) unfolding same_more(1) [OF m] same_more(3) [OF m] more_slots [OF m] by (auto simp: yield_ready_def)
  have "returns (resume_pages (thread_id r) ?s) (\<lambda>s'. memory_kept n k s s' \<and> at_home (\<lambda>_. k) (pages_of s') (thread_id r))"
    by (rule resume_pages_returns [OF ok]) (auto simp: memory_kept_def same_more(1) [OF m])
  then obtain s' where s': "resume_pages (thread_id r) ?s = Some s'" "memory_kept n k s s'"
    "at_home (\<lambda>_. k) (pages_of s') (thread_id r)" by (auto simp: returns_def)
  have p: "sched_part s' = sched_part ?s" using s'(1) by (rule paging)
  have "setcontext s' (tcontext r) = setcontext s (tcontext r)" using switch_same(1) [OF p] by simp
  moreover have "runs_home k s'" using s'(3) sched_part_id [OF p] assms(3) by (simp add: runs_home_def a2_arm_timer_def setitimer_virtual_def)
  ultimately show ?thesis using s' assms(4) by (auto simp: a2_resume_def Let_def)
qed

lemma move_total:
  assumes "paging_ok n (\<lambda>_. k) s" "nat k < card (free_frames (pages_of s))" "0 \<le> u" "u < n" "at_home (\<lambda>_. k) (pages_of s) u"
    "threads s t = Some nt" "0 \<le> thread_id nt" "thread_id nt < n" "swapcontext s a b \<noteq> None"
  shows "returns (do { s \<leftarrow> save_pages u (a2_arm_timer p (s\<lparr>current := Some t\<rparr>)); s \<leftarrow> restore_pages (thread_id nt) s;
      sw \<leftarrow> swapcontext s a b; Some (sw, s) }) (\<lambda>(sw, s'). memory_kept n k s s' \<and> runs_home k s')"
proof -
  let ?s = "a2_arm_timer p (s\<lparr>current := Some t\<rparr>)"
  have m: "sched.more ?s = sched.more s" by simp
  have ok: "paging_ok n (\<lambda>_. k) ?s" "at_home (\<lambda>_. k) (pages_of ?s) u" "nat k < card (free_frames (pages_of ?s))"
    using assms(1,2,5) unfolding same_more(1) [OF m] same_more(3) [OF m] by auto
  have "returns (do { s \<leftarrow> save_pages u ?s; restore_pages (thread_id nt) s })
      (\<lambda>s'. memory_kept n k s s' \<and> at_home (\<lambda>_. k) (pages_of s') (thread_id nt))"
    by (rule switch_pages_returns [OF ok(1) assms(3,4) ok(2,3) assms(7,8)]) (auto simp: memory_kept_def same_more(1) [OF m])
  then obtain s1 s' where s': "save_pages u ?s = Some s1" "restore_pages (thread_id nt) s1 = Some s'" "memory_kept n k s s'"
    "at_home (\<lambda>_. k) (pages_of s') (thread_id nt)" by (auto simp: returns_def bind_eq_Some_conv)
  note p = move_pages_part [OF s'(1,2)]
  have "swapcontext s' a b = swapcontext s a b" using p(2) by simp
  moreover have "runs_home k s'" using s'(4) sched_part_id [OF p(1)] assms(6) by (simp add: runs_home_def a2_arm_timer_def setitimer_virtual_def)
  ultimately show ?thesis using s' assms(9) by auto
qed

lemma same_ids_thread:
  assumes "same_ids s s'" "threads s' t = Some r"
  shows "\<exists>r0. threads s t = Some r0 \<and> thread_id r0 = thread_id r"
proof -
  have "map_option thread_id (threads s t) = Some (thread_id r)"
    using assms by (metis (no_types, lifting) option.simps(9) same_ids_def)
  then show ?thesis by auto
qed

text \<open>The state between the choice of the next thread and the page moves.\<close>

lemma rotate_total:
  assumes ready: "yield_ready n k s" "current s = Some temp" and ids: "same_ids s s2"
    and r: "threads s2 temp = Some tt" "threads s2 t = Some nt" "swapcontext s2 (tcontext tt) (tcontext nt) \<noteq> None"
  shows "returns (do { s \<leftarrow> save_pages (thread_id tt) (a2_arm_timer p (s2\<lparr>current := Some t\<rparr>)); s \<leftarrow> restore_pages (thread_id nt) s;
      sw \<leftarrow> swapcontext s (tcontext tt) (tcontext nt); Some (sw, s) }) (\<lambda>(sw, s'). memory_kept n k s s' \<and> runs_home k s')"
proof -
  have m: "sched.more s2 = sched.more s" using ids by (simp add: same_ids_def)
  obtain r0 where r0: "threads s temp = Some r0" "thread_id r0 = thread_id tt" using same_ids_thread [OF ids r(1)] by blast
  obtain n0 where n0: "threads s t = Some n0" "thread_id n0 = thread_id nt" using same_ids_thread [OF ids r(2)] by blast
  have tt: "0 \<le> thread_id tt" "thread_id tt < n" and nt: "0 \<le> thread_id nt" "thread_id nt < n"
    using ready(1) r0 n0 unfolding yield_ready_def by metis+
  have ok: "paging_ok n (\<lambda>_. k) s2" "nat k < card (free_frames (pages_of s2))" "at_home (\<lambda>_. k) (pages_of s2) (thread_id tt)"
    using ready r0 unfolding same_more(1) [OF m] same_more(3) [OF m] by (auto simp: yield_ready_def)
  have "memory_kept n k s2 = memory_kept n k s" by (intro ext) (simp add: memory_kept_def same_more(1) [OF m])
  then show ?thesis using move_total [OF ok(1,2) tt ok(3) r(2) nt r(3), of p] by simp
qed

text \<open>The two halves of the yield have the same shape; they differ in how they rotate the queues.\<close>

lemma yield_half_total:
  assumes ready: "yield_ready n k s"
    and a1: "do { nd \<leftarrow> qnodes s x; ct \<leftarrow> threads s (thread nd);
          (case current s of
             None \<Rightarrow> do { sw \<leftarrow> setcontext s (tcontext ct); Some (fa nd sw) }
           | Some temp \<Rightarrow>
               do { tt \<leftarrow> threads s temp;
                    if thread_id tt \<noteq> thread_id ct then do { sw \<leftarrow> swapcontext s (tcontext tt) (tcontext ct); Some (fb nd sw) }
                    else turn temp }) } = Some z"
    and rot: "\<And>temp. current s = Some temp \<Longrightarrow> turn temp = Some z \<Longrightarrow>
      returns (rot2 temp s) (\<lambda>(sw, s'). memory_kept n k s s' \<and> runs_home k s')"
  shows "returns (do { nd \<leftarrow> qnodes s x; let current_thread = thread nd; ct \<leftarrow> threads s current_thread;
          (case current s of
             None \<Rightarrow> a2_resume current_thread ct s
           | Some temp \<Rightarrow>
               do { tt \<leftarrow> threads s temp;
                    if thread_id tt \<noteq> thread_id ct then a2_switch tt current_thread ct s
                    else rot2 temp s }) }) (\<lambda>(sw, s'). memory_kept n k s s' \<and> runs_home k s')"
proof -
  obtain nd ct where nd: "qnodes s x = Some nd" "threads s (thread nd) = Some ct"
    using a1 by (auto simp: bind_eq_Some_conv)
  show ?thesis
  proof (cases "current s")
    case None
    then have "setcontext s (tcontext ct) \<noteq> None" using a1 nd by (auto simp: bind_eq_Some_conv)
    from a2_resume_total [OF ready None nd(2) this] show ?thesis using nd None by simp
  next
    case (Some temp)
    obtain tt where tt: "threads s temp = Some tt" using a1 nd Some by (auto simp: bind_eq_Some_conv)
    show ?thesis
    proof (cases "thread_id tt = thread_id ct")
      case False
      then have "swapcontext s (tcontext tt) (tcontext ct) \<noteq> None"
        using a1 nd Some tt by (auto simp: bind_eq_Some_conv)
      from rotate_total [OF ready Some _ tt nd(2) this, of 0] show ?thesis
        using nd Some tt False by (simp add: a2_switch_def Let_def same_ids_def)
    next
      case True
      then show ?thesis using rot [OF Some] a1 nd Some tt by simp
    qed
  qed
qed

definition turn_p1 :: "addr \<Rightarrow> sched \<Rightarrow> (switch \<times> sched) option" where
  "turn_p1 temp s =
     do { s \<leftarrow> requeue_p1 s; (prio, t, s) \<leftarrow> pick_next s;
          tt \<leftarrow> threads s temp; nt \<leftarrow> threads s t; sw \<leftarrow> swapcontext s (tcontext tt) (tcontext nt);
          Some (sw, arm_timer prio (s\<lparr>current := Some t\<rparr>)) }"

definition turn_p2 :: "addr \<Rightarrow> sched \<Rightarrow> (switch \<times> sched) option" where
  "turn_p2 temp s =
     do { s \<leftarrow> requeue_p2 s; (prio, t, s) \<leftarrow> pick_next_p2 s;
          tt \<leftarrow> threads s temp; nt \<leftarrow> threads s t; sw \<leftarrow> swapcontext s (tcontext tt) (tcontext nt);
          Some (sw, arm_timer prio (s\<lparr>current := Some t\<rparr>)) }"

lemma rotate_p1_total:
  assumes "yield_ready n k s" "current s = Some temp"
    "turn_p1 temp (sched_part s) = Some z"
  shows "returns (a2_rotate_p1 temp s) (\<lambda>(sw, s'). memory_kept n k s s' \<and> runs_home k s')"
proof -
  obtain s1 prio t s2 tt' nt where c: "requeue_p1 s = Some s1" "pick_next s1 = Some (prio, t, s2)"
      "threads s2 temp = Some tt'" "threads s2 t = Some nt" "swapcontext s2 (tcontext tt') (tcontext nt) \<noteq> None"
    using assms(3) by (auto simp: turn_p1_def turn_p2_def bind_eq_Some_conv sched_part_switch sched_part_requeue sched_part_pick)
  have "same_ids s s2" using requeue_ids(1) [OF c(1)] pick_ids(1) [OF c(2)] same_ids_trans by blast
  from rotate_total [OF assms(1,2) this c(3-5), of prio] show ?thesis
    using c by (simp add: a2_rotate_p1_def Let_def)
qed

lemma rotate_p2_total:
  assumes "yield_ready n k s" "current s = Some temp"
    "turn_p2 temp (sched_part s) = Some z"
  shows "returns (a2_rotate_p2 temp s) (\<lambda>(sw, s'). memory_kept n k s s' \<and> runs_home k s')"
proof -
  obtain s1 prio t s2 tt' nt where c: "requeue_p2 s = Some s1" "pick_next_p2 s1 = Some (prio, t, s2)"
      "threads s2 temp = Some tt'" "threads s2 t = Some nt" "swapcontext s2 (tcontext tt') (tcontext nt) \<noteq> None"
    using assms(3) by (auto simp: turn_p1_def turn_p2_def bind_eq_Some_conv sched_part_switch sched_part_requeue sched_part_pick)
  have "same_ids s s2" using requeue_ids(2) [OF c(1)] pick_ids(2) [OF c(2)] same_ids_trans by blast
  from rotate_total [OF assms(1,2) this c(3-5), of prio] show ?thesis
    using c by (simp add: a2_rotate_p2_def Let_def)
qed

lemma a2_yield_p1_total:
  assumes "yield_ready n k s" "a1_yield_p1 x (sched_part s) = Some z"
  shows "returns (a2_yield_p1 x s) (\<lambda>(sw, s'). memory_kept n k s s' \<and> runs_home k s')"
proof -
  let ?f = "\<lambda>nd sw. (sw, arm_timer 0 ((sched_part s)\<lparr>current := Some (thread nd)\<rparr>))"
  show ?thesis
    unfolding a2_yield_p1_def
    by (rule yield_half_total [where fa = ?f and fb = ?f and turn = "\<lambda>temp. turn_p1 temp (sched_part s)", OF assms(1)])
      (use assms(2) in \<open>simp add: a1_yield_p1_def turn_p1_def Let_def sched_part_switch cong: option.case_cong if_cong\<close>,
       rule rotate_p1_total [OF assms(1)])
qed

lemma a2_yield_p2_total:
  assumes "yield_ready n k s" "a1_yield_p2 x (sched_part s) = Some z"
  shows "returns (a2_yield_p2 x s) (\<lambda>(sw, s'). memory_kept n k s s' \<and> runs_home k s')"
proof -
  let ?f = "\<lambda>nd sw. (sw, arm_timer 0 ((sched_part s)\<lparr>current := Some (thread nd)\<rparr>))"
  show ?thesis
    unfolding a2_yield_p2_def
    by (rule yield_half_total [where fa = ?f and fb = ?f and turn = "\<lambda>temp. turn_p2 temp (sched_part s)", OF assms(1)])
      (use assms(2) in \<open>simp add: a1_yield_p2_def turn_p2_def Let_def sched_part_switch cong: option.case_cong if_cong\<close>,
       rule rotate_p2_total [OF assms(1)])
qed

lemma a2_yield_total:
  assumes "yield_ready n k s" "a1_yield (sched_part s) = Some (sw, q)"
  shows "\<exists>s'. a2_yield s = Some (sw, s') \<and> sched_part s' = q \<and> memory_kept n k s s' \<and> (sw = Return \<and> s' = s \<or> runs_home k s')"
proof -
  have "returns (a2_yield s) (\<lambda>(w, s'). memory_kept n k s s' \<and> (w = Return \<and> s' = s \<or> runs_home k s'))"
  proof -
    obtain n1 where n1: "peek (qnodes s) (queue_priority_1 s) = Some n1"
      using assms(2) by (auto simp: a1_yield_def bind_eq_Some_conv)
    show ?thesis
    proof (cases n1)
      case (Some x)
      then have "a1_yield_p1 x (sched_part s) = Some (sw, q)" using assms(2) n1 by (simp add: a1_yield_def)
      from a2_yield_p1_total [OF assms(1) this] show ?thesis
        using n1 Some by (auto simp: a2_yield_def elim!: returns_mono)
    next
      case None
      obtain n2 where n2: "peek (qnodes s) (queue_priority_2 s) = Some n2"
        using assms(2) n1 None by (auto simp: a1_yield_def bind_eq_Some_conv)
      show ?thesis
      proof (cases n2)
        case (Some x)
        then have "a1_yield_p2 x (sched_part s) = Some (sw, q)" using assms(2) n1 n2 None by (simp add: a1_yield_def)
        from a2_yield_p2_total [OF assms(1) this] show ?thesis
          using n1 n2 None Some by (auto simp: a2_yield_def elim!: returns_mono)
      next
        assume "n2 = None"
        then show ?thesis using n1 n2 None assms(1) by (simp add: a2_yield_def memory_kept_def yield_ready_def)
      qed
    qed
  qed
  then obtain w s' where s': "a2_yield s = Some (w, s')" "memory_kept n k s s'" "w = Return \<and> s' = s \<or> runs_home k s'"
    by (auto simp: returns_def)
  moreover have "w = sw \<and> sched_part s' = q" using a2_yield_simulation [of s] s'(1) assms(2) by (simp add: simulates_def)
  ultimately show ?thesis by blast
qed

subsection \<open>Yields from well-formed states\<close>

lemma sched_part_rep [simp]:
  "ready_rep (sched_part s) q1 q2 T1 T2 = ready_rep s q1 q2 T1 T2"
  "sched_abs (sched_part s) = sched_abs s" "switch_spec (sched_part s) c = switch_spec s c"
  by (simp_all add: ready_rep_def sched_abs_def switch_spec_def tctx_def split: option.split)

text \<open>The queues represent lists of threads with the running thread among them, and the pages are in
  order.\<close>

definition a2_ready :: "int \<Rightarrow> int \<Rightarrow> a2_state \<Rightarrow> bool" where
  "a2_ready n k s \<longleftrightarrow> yield_ready n k s \<and>
     (\<exists>q1 q2 T1 T2. ready_rep s q1 q2 T1 T2 \<and> (\<forall>c. current s = Some c \<longrightarrow> c \<in> set (T1 @ T2)))"

lemma yield_spec_current:
  "(c', T1', T2') = yield_spec (c, T1, T2) \<Longrightarrow> \<forall>x. c = Some x \<longrightarrow> x \<in> set (T1 @ T2) \<Longrightarrow> c' = Some y \<Longrightarrow> y \<in> set (T1' @ T2')"
  by (cases "(c, T1, T2)" rule: yield_spec.cases) (auto simp: hd_append split: if_splits)

lemma yield_frame_threads: "yield_frame s s' \<Longrightarrow> threads s' = threads s"
  unfolding yield_frame_def by (metis (no_types, lifting) sched.select_convs(1) sched.surjective sched.update_convs)

lemma a2_ready_yield:
  assumes "a2_ready n k s"
  obtains sw s' where "a2_yield s = Some (sw, s')" "a2_ready n k s'" "sched_abs s' = yield_spec (sched_abs s)"
    "sw = switch_spec s (current s')" "threads s' = threads s" "memory_kept n k s s'"
proof -
  obtain q1 q2 T1 T2 where rep: "ready_rep s q1 q2 T1 T2" "\<forall>c. current s = Some c \<longrightarrow> c \<in> set (T1 @ T2)"
    and ready: "yield_ready n k s" using assms by (auto simp: a2_ready_def)
  have "yields (sched_part s) T1 T2 (a1_yield (sched_part s))"
    by (rule a1_yield_ok [of _ q1 q2]) (use rep in simp_all)
  then obtain sw q q1' q2' T1' T2' where y: "a1_yield (sched_part s) = Some (sw, q)" "ready_rep q q1' q2' T1' T2'"
    "(current q, T1', T2') = yield_spec (current s, T1, T2)" "sw = switch_spec s (current q)" "yield_frame (sched_part s) q"
    by (auto simp: yields_def)
  obtain s' where s': "a2_yield s = Some (sw, s')" "sched_part s' = q" "memory_kept n k s s'"
    "sw = Return \<and> s' = s \<or> runs_home k s'" using a2_yield_total [OF ready y(1)] by blast
  have f: "current q = current s'" "threads q = threads s'" "threads q = threads s"
    using s'(2) yield_frame_threads [OF y(5)] by auto
  have rep': "ready_rep s' q1' q2' T1' T2'" using y(2) s'(2) by (metis sched_part_rep(1))
  have "card (free_frames (pages_of s')) = card (free_frames (pages_of s))"
    using card_free ready s'(3) by (metis memory_kept_def yield_ready_def)
  then have "yield_ready n k s'" if "runs_home k s'"
    using that ready s'(3) f unfolding yield_ready_def runs_home_def memory_kept_def by (auto split: option.splits)
  then have "yield_ready n k s'" using s'(4) ready by auto
  then have "a2_ready n k s'"
    using rep' yield_spec_current [OF y(3) rep(2)] f(1) unfolding a2_ready_def by metis
  moreover have "sched_abs s' = yield_spec (sched_abs s)"
    using ready_rep_abs [OF rep'] ready_rep_abs [OF rep(1)] y(3) f(1) by simp
  ultimately show thesis using that [OF s'(1)] y(4) f s'(3) by simp
qed

fun a2_yields :: "nat \<Rightarrow> a2_state \<Rightarrow> a2_state option" where
  "a2_yields 0 s = Some s"
| "a2_yields (Suc m) s = do { (sw, s) \<leftarrow> a2_yield s; a2_yields m s }"

lemma memory_kept_trans: "memory_kept n k s s' \<Longrightarrow> memory_kept n k s' s'' \<Longrightarrow> memory_kept n k s s''"
  using same_views_trans by (auto simp: memory_kept_def)

lemma a2_yields_ok:
  assumes "a2_ready n k s"
  shows "\<exists>s'. a2_yields m s = Some s' \<and> a2_ready n k s' \<and> sched_abs s' = (yield_spec ^^ m) (sched_abs s) \<and> memory_kept n k s s'"
  using assms
proof (induction m arbitrary: s)
  case 0
  then show ?case by (simp add: memory_kept_def a2_ready_def yield_ready_def)
next
  case (Suc m)
  obtain sw s1 where s1: "a2_yield s = Some (sw, s1)" "a2_ready n k s1" "sched_abs s1 = yield_spec (sched_abs s)" "memory_kept n k s s1"
    by (rule a2_ready_yield [OF Suc(2)])
  then obtain s' where s': "a2_yields m s1 = Some s'" "a2_ready n k s'" "sched_abs s' = (yield_spec ^^ m) (sched_abs s1)" "memory_kept n k s1 s'"
    using Suc(1) by blast
  show ?case using s1 s' memory_kept_trans [OF s1(4) s'(4)] by (simp add: funpow_swap1)
qed

end
