(* ===== verification/A2_Props.thy ===== *)
theory A2_Props
  imports A2_Runs A1_History
begin

section \<open>Properties of the thread library of Assignment2\<close>

text \<open>
  The theorems about scheduling with paging, and a concrete state they apply to: two threads, the second
  one running, with one leading page each.
\<close>

subsection \<open>A concrete state\<close>

definition zero_mem :: "int \<Rightarrow> mem" where
  "zero_mem n = \<lparr>msize = n, mbytes = (\<lambda>_. 0)\<rparr>"

text \<open>Page tables with one leading page in frame \<open>a\<close> and the last page in frame \<open>b\<close>.\<close>

definition small_table :: "int \<Rightarrow> int \<Rightarrow> int \<Rightarrow> int" where
  "small_table a b = (\<lambda>i. if i = 0 then a else if i = LAST then b else 6969)"

definition two_threads :: a2_state where
  "two_threads = sched.extend (sched.truncate one_thread)
     (a2_state.fields (zero_mem 8392704) (\<lambda>_. True) (zero_mem 16777216) [0 \<mapsto> 100, 1 \<mapsto> 200]
        [100 \<mapsto> small_table 1 2, 200 \<mapsto> small_table 0 LAST]
        (\<lambda>i. if i \<in> {0, 1, 2, LAST} then CHR ''1'' else CHR ''0'') 1 None True 1)"

lemma two_threads_fields:
  "memory two_threads = zero_mem 8392704" "swapfile two_threads = zero_mem 16777216"
  "pageTables two_threads = [0 \<mapsto> 100, 1 \<mapsto> 200]"
  "tables two_threads = [100 \<mapsto> small_table 1 2, 200 \<mapsto> small_table 0 LAST]"
  "masterTable two_threads = (\<lambda>i. if i \<in> {0, 1, 2, LAST} then CHR ''1'' else CHR ''0'')"
  "sched_part two_threads = sched_part one_thread"
  unfolding two_threads_def sched.extend_def a2_state.fields_def sched_part_def sched.truncate_def by simp_all

lemma two_threads_open: "file_open two_threads = True"
  unfolding two_threads_def sched.extend_def a2_state.fields_def a2_state.select_convs sched.select_convs ..

lemma two_threads_pages:
  "paged 2 two_threads" "en (pages_of two_threads) 0 = small_table 1 2" "en (pages_of two_threads) 1 = small_table 0 LAST"
  "mt (pages_of two_threads) = (\<lambda>i. if i \<in> {0, 1, 2, LAST} then CHR ''1'' else CHR ''0'')"
proof -
  show "paged 2 two_threads"
    unfolding paged_def paged_in_def two_threads_fields two_threads_open by (auto simp: zero_mem_def inj_on_def)
  show "en (pages_of two_threads) 0 = small_table 1 2" "en (pages_of two_threads) 1 = small_table 0 LAST"
    by (simp_all add: pages_of_def entry_at_def pt_table_def two_threads_fields fun_eq_iff)
  show "mt (pages_of two_threads) = (\<lambda>i. if i \<in> {0, 1, 2, LAST} then CHR ''1'' else CHR ''0'')"
    by (simp add: pages_of_def two_threads_fields)
qed

lemma two_threads_owned: "owned 2 (\<lambda>_. 1) (pages_of two_threads) = {0, 1, 2, LAST}"
proof -
  have "is_page 2 (\<lambda>_. 1) u i \<longleftrightarrow> u \<in> {0, 1} \<and> i \<in> {0, LAST}" for u i
    by (auto simp: is_page_def homes_def)
  then have "owned 2 (\<lambda>_. 1) (pages_of two_threads) = {en (pages_of two_threads) u i | u i. u \<in> {0, 1} \<and> i \<in> {0, LAST}}"
    by (simp add: owned_def)
  also have "\<dots> = {en (pages_of two_threads) 0 0, en (pages_of two_threads) 0 LAST,
      en (pages_of two_threads) 1 0, en (pages_of two_threads) 1 LAST}" by blast
  finally show ?thesis by (auto simp: two_threads_pages small_table_def)
qed

lemma two_threads_ok: "paging_ok 2 (\<lambda>_. 1) two_threads"
proof -
  let ?p = "pages_of two_threads"
  have pg: "is_page 2 (\<lambda>_. 1) u i \<longleftrightarrow> u \<in> {0, 1} \<and> i \<in> {0, LAST}" for u i
    by (auto simp: is_page_def homes_def)
  have free: "free_frames ?p = {0..<TOTALPAGES} - {0, 1, 2, LAST}"
    by (auto simp: free_frames_def two_threads_pages)
  have "page_inv 2 (\<lambda>_. 1) ?p"
    unfolding page_inv_def two_threads_owned
  proof (intro conjI)
    show "\<forall>u. 0 \<le> u \<and> u < 2 \<longrightarrow> (0::int) \<le> 1 \<and> (1::int) < LAST \<and> (\<forall>i. 1 \<le> i \<and> i < LAST \<longrightarrow> en ?p u i = 6969)"
    proof (intro allI impI)
      fix u :: int assume "0 \<le> u \<and> u < 2"
      then have "u = 0 \<or> u = 1" by auto
      then show "(0::int) \<le> 1 \<and> (1::int) < LAST \<and> (\<forall>i. 1 \<le> i \<and> i < LAST \<longrightarrow> en ?p u i = 6969)"
        by (auto simp: two_threads_pages small_table_def)
    qed
    show "\<forall>f \<in> {0, 1, 2, LAST}. 0 \<le> f \<and> f < TOTALPAGES \<and> f \<notin> free_frames ?p" by (simp add: free)
    show "\<forall>u i w j. is_page 2 (\<lambda>_. 1) u i \<longrightarrow> is_page 2 (\<lambda>_. 1) w j \<longrightarrow> en ?p u i = en ?p w j \<longrightarrow> u = w \<and> i = j"
      unfolding pg by (auto simp: two_threads_pages small_table_def)
  qed
  moreover have "exact 2 (\<lambda>_. 1) {} ?p" by (auto simp: exact_def two_threads_owned free)
  ultimately show ?thesis by (simp add: paging_ok_def two_threads_pages)
qed

lemma two_threads_free: "3 \<in> free_frames (pages_of two_threads)" "1 < card (free_frames (pages_of two_threads))"
proof -
  have f: "{3, 4} \<subseteq> free_frames (pages_of two_threads)" by (auto simp: free_frames_def two_threads_pages)
  then show "3 \<in> free_frames (pages_of two_threads)" by simp
  have "card {3 :: int, 4} \<le> card (free_frames (pages_of two_threads))" by (rule card_mono [OF finite_free f])
  then show "1 < card (free_frames (pages_of two_threads))" by simp
qed

lemma two_threads_home: "at_home (\<lambda>_. 1) (pages_of two_threads) 1"
  by (auto simp: at_home_def homes_def two_threads_pages small_table_def)

lemma two_threads_ready: "a2_ready 2 1 two_threads"
proof -
  have run: "a1_inv one_thread" by (rule a1_run_inv [OF one_thread(1)])
  obtain T1 T2 where T: "a1_pre one_thread {} T1 T2" "current one_thread = (if T1 @ T2 = [] then None else Some (hd (T1 @ T2)))"
    by (rule a1_inv_abs [OF run])
  obtain q1 q2 where q: "ready_rep one_thread q1 q2 T1 T2" using a1_pre_rep [OF T(1)] by blast
  have same: "threads two_threads = threads one_thread" "current two_threads = current one_thread"
    using sched_part_sel two_threads_fields(6) by metis+
  have rep: "ready_rep two_threads q1 q2 T1 T2" using q two_threads_fields(6) by (metis sched_part_rep(1))
  have cur: "\<forall>c. current two_threads = Some c \<longrightarrow> c \<in> set (T1 @ T2)"
    using T(2) same hd_in_set [of "T1 @ T2"] by (auto split: if_splits)
  have ids: "0 \<le> thread_id r \<and> thread_id r < 2" if "threads one_thread t = Some r" for t r
  proof -
    have "records_ok one_thread" using T(1) by (simp add: a1_pre_def)
    moreover have "threadIDS one_thread = 2"
      by (simp add: one_thread_def) code_simp
    ultimately show ?thesis using that by (auto simp: records_ok_def)
  qed
  have "yield_ready 2 1 two_threads"
    using two_threads_ok two_threads_free(2) two_threads_home ids one_thread(3,4) same
    by (auto simp: yield_ready_def new_record_def)
  then show ?thesis using rep cur by (auto simp: a2_ready_def)
qed

subsection \<open>A thread with more pages\<close>

text \<open>What happens when a thread with two leading pages follows a thread with one while frame 1 is free: the
  first page of the thread that stops is put into frame 1, which is where the second page of the
  next thread goes.\<close>

lemma save_one_page:
  assumes "paging_ok n K s" "0 \<le> u" "u < n" "at_home K (pages_of s) u" "K u = 1" "1 \<in> free_frames (pages_of s)"
    "1 < card (free_frames (pages_of s))"
    "\<And>s'. paged_in (pageTables s) n s' \<Longrightarrow> vacated n K (pages_of s) u (pages_of s') \<Longrightarrow>
       (\<And>t. t \<noteq> u \<Longrightarrow> en (pages_of s') t = en (pages_of s) t) \<Longrightarrow> en (pages_of s') u 0 = 1 \<Longrightarrow> P s'"
  shows "returns (save_pages u s) P"
proof -
  let ?p = "pages_of s"
  let ?I = "\<lambda>j q. 0 \<le> j \<and> (\<forall>t. t \<noteq> u \<longrightarrow> en q t = en ?p t) \<and>
    (j = 0 \<longrightarrow> free_frames q = free_frames ?p) \<and> (0 < j \<longrightarrow> en q u 0 = 1)"
  have s: "paged_in (pageTables s) n s" "page_inv n K ?p" "exact n K {} ?p" using assms(1) by (auto simp: paging_ok_def paged_def)
  have pg: "is_page n K u LAST" "is_page n K u 0" using assms(2,3,5) by (auto simp: is_page_def homes_def)
  have used: "LAST \<notin> free_frames ?p" "0 \<notin> free_frames ?p"
    using entry_range [OF s(2) pg(1)] entry_range [OF s(2) pg(2)] assms(4,5) by (auto simp: at_home_def homes_def)
  have res: "last_reserved n K ?p" by (rule last_reserved_home [OF s(2) assms(2-4) used(1)])
  have "f = 1" if "f \<in> free_frames ?p" "\<forall>g \<in> free_frames ?p. f \<le> g" for f
    using that used(2) assms(6) free_range [OF that(1)] by (cases "f = 0") force+
  then have "tracks u ?I" unfolding tracks_def by fastforce
  then show ?thesis
    by (rule save_pages_returns [OF _ s(1,2) res assms(2-4) _ s(3)]) (use assms(5,7,8) in auto)
qed

lemma restore_loop_unfold:
  assumes "paged_in pt n s" "0 \<le> w" "w < n" "0 \<le> i" "i < MEMORYPAGES"
  shows "restore_loop (nat (1536 - i)) w s =
    (if en (pages_of s) w i = 6969 then Some s
     else page_in (en (pages_of s) w i) w i s \<bind> restore_loop (nat (1536 - (i + 1))) w)"
proof -
  obtain m' where m: "nat (1536 - i) = Suc m'" "1536 - int (Suc m') = i" "m' = nat (1536 - (i + 1))"
    by (rule count_down [OF assms(4,5) refl])
  show ?thesis
    unfolding m(1) restore_loop.simps m(2) m(3) [symmetric] Let_def paged_get [OF assms]
    by (simp add: page_in_bind [simplified])
qed

text \<open>The three moves that bring in a thread with two leading pages.\<close>

lemma three_moves:
  assumes "relocated w 0 0 p p1" "relocated w 1 1 p1 p2" "relocated w LAST LAST p2 p3" "u \<noteq> w" "en p u 0 = 1"
    "en p w 1 \<noteq> en p w 0" "en p w 1 \<noteq> 0" "en p w 1 \<noteq> 1" "en p w LAST \<noteq> 1"
  shows "en p3 u 0 = 1 \<and> en p3 w 1 = 1 \<and> view p3 u 0 = view p w 1"
  using assms by (simp add: relocated_def view_def)

lemma restore_two_pages:
  assumes "paged_in pt n s" "page_inv n K (pages_of s)" "0 \<le> u" "u < n" "0 \<le> w" "w < n" "u \<noteq> w" "K u = 1" "K w = 2"
    "en (pages_of s) u 0 = 1" "homes K u \<inter> owned n K (pages_of s) = {}"
    "\<And>s'. en (pages_of s') u 0 = 1 \<Longrightarrow> en (pages_of s') w 1 = 1 \<Longrightarrow>
       view (pages_of s') u 0 = view (pages_of s) w 1 \<Longrightarrow> P s'"
  shows "returns (restore_pages w s) P"
proof -
  let ?p = "pages_of s"
  have pg: "is_page n K w 0" "is_page n K w 1" "is_page n K w LAST" "is_page n K u 0"
    using assms(3-6,8,9) by (auto simp: is_page_def homes_def)
  have ow: "en ?p w i \<noteq> 0 \<and> en ?p w i \<noteq> LAST" if "is_page n K w i" for i
    using ownedI [OF that, of ?p] assms(8,11) by (auto simp: homes_def)
  have v1: "en ?p w 1 \<noteq> 1" "en ?p w LAST \<noteq> 1" "en ?p w 1 \<noteq> en ?p w 0"
    using owner_unique [OF assms(2) pg(2,4)] owner_unique [OF assms(2) pg(3,4)] owner_unique [OF assms(2) pg(2,1)]
      assms(7,10) by auto
  have r: "0 \<le> en ?p w i" "en ?p w i < TOTALPAGES" "en ?p w i \<noteq> 6969" if "is_page n K w i" for i
    using entry_range [OF assms(2) that] by auto
  have six: "en ?p w 2 = 6969" using page_inv_unused [OF assms(2,5,6), of 2] assms(9) by simp
  have "returns (restore_loop 1536 w s) (\<lambda>s. returns (pt_get s w LAST) (\<lambda>v. returns (page_in v w LAST s) P))"
  proof -
    have "returns (page_in (en ?p w 0) w 0 s) (\<lambda>s1. returns (restore_loop 1535 w s1)
        (\<lambda>s. returns (pt_get s w LAST) (\<lambda>v. returns (page_in v w LAST s) P)))"
    proof (rule page_in_away [OF assms(1,5,6) _ _ r(1,2) [OF pg(1)] refl])
      fix s1
      assume s1: "paged_in pt n s1" "relocated w 0 0 ?p (pages_of s1)"
      have e1: "en (pages_of s1) w 1 = en ?p w 1" using s1(2) by (simp add: relocated_def)
      have "returns (page_in (en ?p w 1) w 1 s1) (\<lambda>s2. returns (restore_loop 1534 w s2)
        (\<lambda>s. returns (pt_get s w LAST) (\<lambda>v. returns (page_in v w LAST s) P)))"
      proof (rule page_in_away [OF s1(1) assms(5,6) _ _ r(1,2) [OF pg(2)] e1 v1(1)])
        fix s2
        assume s2: "paged_in pt n s2" "relocated w 1 1 (pages_of s1) (pages_of s2)"
        have e2: "en (pages_of s2) w 2 = 6969" "en (pages_of s2) w LAST = en ?p w LAST"
          using s1(2) s2(2) six by (simp_all add: relocated_def)
        have "returns (page_in (en ?p w LAST) w LAST s2) P"
          by (rule page_in_away [OF s2(1) assms(5,6) _ _ r(1,2) [OF pg(3)] e2(2)])
            (use ow [OF pg(3)] three_moves [OF s1(2) s2(2) _ assms(7,10) v1(3) _ v1(1,2)] ow [OF pg(2)] assms(12) in auto)
        then show "returns (restore_loop 1534 w s2) (\<lambda>s. returns (pt_get s w LAST) (\<lambda>v. returns (page_in v w LAST s) P))"
          using restore_loop_unfold [OF s2(1) assms(5,6), of 2] paged_get [OF s2(1) assms(5,6), of LAST] e2 by simp
      qed simp_all
      then show "returns (restore_loop 1535 w s1) (\<lambda>s. returns (pt_get s w LAST) (\<lambda>v. returns (page_in v w LAST s) P))"
        using restore_loop_unfold [OF s1(1) assms(5,6), of 1] e1 r(3) [OF pg(2)] by simp
    qed (use ow [OF pg(1)] in simp_all)
    then show ?thesis using restore_loop_unfold [OF assms(1,5,6), of 0] r(3) [OF pg(1)] by simp
  qed
  then show ?thesis by (simp add: restore_pages_def page_in_def cong: if_cong)
qed

text \<open>C28: A switch from a thread with one leading page, whose pages are in place, to a thread with two leading
  pages destroys memory while frame 1 is free and there is another free frame: the page moves return, but
  page 0 of the stopped thread then has the bytes of page 1 of the other thread, as both tables name frame 1.\<close>

theorem a2_switch_overwrites:
  assumes "paging_ok n K s" "0 \<le> u" "u < n" "at_home K (pages_of s) u" "K u = 1" "1 \<in> free_frames (pages_of s)"
    "1 < card (free_frames (pages_of s))" "0 \<le> w" "w < n" "w \<noteq> u" "K w = 2"
  shows "\<exists>s1 s2. save_pages u s = Some s1 \<and> restore_pages w s1 = Some s2 \<and>
    en (pages_of s2) u 0 = 1 \<and> en (pages_of s2) w 1 = 1 \<and> view (pages_of s2) u 0 = view (pages_of s) w 1"
proof -
  let ?Q = "\<lambda>s2. en (pages_of s2) u 0 = 1 \<and> en (pages_of s2) w 1 = 1 \<and> view (pages_of s2) u 0 = view (pages_of s) w 1"
  have "returns (save_pages u s) (\<lambda>s1. returns (restore_pages w s1) ?Q)"
  proof (rule save_one_page [OF assms(1-7)])
    fix s1
    assume s1: "paged_in (pageTables s) n s1" "vacated n K (pages_of s) u (pages_of s1)" "en (pages_of s1) u 0 = 1"
    then have v: "page_inv n K (pages_of s1)" "homes K u \<inter> owned n K (pages_of s1) = {}" "same_views n K (pages_of s) (pages_of s1)"
      by (auto simp: vacated_def)
    have "view (pages_of s1) w 1 = view (pages_of s) w 1"
      using v(3) assms(8,9,11) by (auto simp: same_views_def is_page_def homes_def)
    then show "returns (restore_pages w s1) ?Q"
      by (intro restore_two_pages [OF s1(1) v(1) assms(2,3,8,9) _ assms(5,11) s1(3) v(2)]) (use assms(10) in auto)
  qed
  then show ?thesis by (auto simp: returns_def)
qed

text \<open>A state with such threads: thread 0 has one leading page, thread 1 two.\<close>

definition uneven :: a2_state where
  "uneven = two_threads\<lparr>tables := [100 \<mapsto> small_table 0 LAST, 200 \<mapsto> (small_table 2 4)(1 := 3)],
     masterTable := (\<lambda>i. if i \<in> {0, 2, 3, 4, LAST} then CHR ''1'' else CHR ''0'')\<rparr>"

definition uneven_pages :: "int \<Rightarrow> int" where
  "uneven_pages u = (if u = 0 then 1 else 2)"

lemma uneven_fields:
  "paged 2 uneven" "en (pages_of uneven) 0 = small_table 0 LAST" "en (pages_of uneven) 1 = (small_table 2 4)(1 := 3)"
  "free_frames (pages_of uneven) = {0..<TOTALPAGES} - {0, 2, 3, 4, LAST}"
proof -
  show "paged 2 uneven"
    unfolding paged_def paged_in_def uneven_def by (auto simp: two_threads_fields two_threads_open zero_mem_def inj_on_def)
  show "en (pages_of uneven) 0 = small_table 0 LAST" "en (pages_of uneven) 1 = (small_table 2 4)(1 := 3)"
    by (simp_all add: uneven_def pages_of_def entry_at_def pt_table_def two_threads_fields fun_eq_iff)
  show "free_frames (pages_of uneven) = {0..<TOTALPAGES} - {0, 2, 3, 4, LAST}"
    by (auto simp: free_frames_def uneven_def pages_of_def)
qed

lemma uneven_page: "is_page 2 uneven_pages u i \<longleftrightarrow> (u, i) \<in> {(0, 0), (0, LAST), (1, 0), (1, 1), (1, LAST)}"
  by (auto simp: is_page_def homes_def uneven_pages_def)

lemma uneven_ok: "paging_ok 2 uneven_pages uneven"
proof -
  let ?p = "pages_of uneven"
  have ow: "owned 2 uneven_pages ?p = {0, LAST, 2, 3, 4}"
  proof -
    have "owned 2 uneven_pages ?p = (\<lambda>(u, i). en ?p u i) ` {(0, 0), (0, LAST), (1, 0), (1, 1), (1, LAST)}"
      unfolding owned_def uneven_page by auto
    then show ?thesis by (auto simp: uneven_fields small_table_def)
  qed
  have "page_inv 2 uneven_pages ?p"
    unfolding page_inv_def ow
  proof (intro conjI)
    show "\<forall>u. 0 \<le> u \<and> u < 2 \<longrightarrow> 0 \<le> uneven_pages u \<and> uneven_pages u < LAST \<and>
        (\<forall>i. uneven_pages u \<le> i \<and> i < LAST \<longrightarrow> en ?p u i = 6969)"
    proof (intro allI impI)
      fix u :: int assume "0 \<le> u \<and> u < 2"
      then have "u = 0 \<or> u = 1" by auto
      then show "0 \<le> uneven_pages u \<and> uneven_pages u < LAST \<and> (\<forall>i. uneven_pages u \<le> i \<and> i < LAST \<longrightarrow> en ?p u i = 6969)"
        by (auto simp: uneven_fields small_table_def uneven_pages_def)
    qed
    show "\<forall>f \<in> {0, LAST, 2, 3, 4}. 0 \<le> f \<and> f < TOTALPAGES \<and> f \<notin> free_frames ?p" by (simp add: uneven_fields)
    show "\<forall>u i w j. is_page 2 uneven_pages u i \<longrightarrow> is_page 2 uneven_pages w j \<longrightarrow> en ?p u i = en ?p w j \<longrightarrow> u = w \<and> i = j"
      unfolding uneven_page by (auto simp: uneven_fields small_table_def)
  qed
  moreover have "exact 2 uneven_pages {} ?p" by (auto simp: exact_def ow uneven_fields)
  ultimately show ?thesis by (simp add: paging_ok_def uneven_fields)
qed

theorem a2_switch_overwrites_witness:
  "\<exists>s1 s2. save_pages 0 uneven = Some s1 \<and> restore_pages 1 s1 = Some s2 \<and>
    view (pages_of s2) 0 0 = view (pages_of uneven) 1 1"
proof -
  have "card {1 :: int, 5} \<le> card (free_frames (pages_of uneven))"
    by (rule card_mono) (auto simp: uneven_fields)
  then have "1 < card (free_frames (pages_of uneven))" by simp
  moreover have "at_home uneven_pages (pages_of uneven) 0"
    by (auto simp: at_home_def homes_def uneven_pages_def uneven_fields small_table_def)
  ultimately show ?thesis
    using a2_switch_overwrites [OF uneven_ok, of 0 1] by (auto simp: uneven_pages_def uneven_fields)
qed

subsection \<open>Scheduling with paging\<close>

text \<open>C1: In every well-formed state in which all threads use the same number of pages and the swap space
  is not exhausted, and in which, should no thread be running, the slot of \<open>pageTables\<close> behind the last thread is
  NULL, \<open>my_pthread_yield\<close> of Assignment2 returns, it is one step of the two-level round robin
  with the matching context switch, the next thread's pages are in place, and every page of every
  thread has the bytes it had.\<close>

theorem a2_yield_refines:
  assumes "a2_ready n k s"
  shows "\<exists>sw s'. a2_yield s = Some (sw, s') \<and> sched_abs s' = yield_spec (sched_abs s) \<and>
    sw = switch_spec s (current s') \<and> threads s' = threads s \<and> a2_ready n k s' \<and>
    (\<forall>t i. 0 \<le> t \<and> t < n \<and> i \<in> homes (\<lambda>_. k) t \<longrightarrow> view (pages_of s') t i = view (pages_of s) t i)"
proof -
  obtain sw s' where "a2_yield s = Some (sw, s')" "a2_ready n k s'" "sched_abs s' = yield_spec (sched_abs s)"
    "sw = switch_spec s (current s')" "threads s' = threads s" "memory_kept n k s s'"
    by (rule a2_ready_yield [OF assms])
  then show ?thesis by (auto simp: memory_kept_def same_views_def is_page_def)
qed

theorem a2_yield_refines_witness:
  "\<exists>sw s'. a2_yield two_threads = Some (sw, s') \<and> sched_abs s' = (Some 5, [5], [1]) \<and>
    view (pages_of s') 1 0 = view (pages_of two_threads) 1 0"
proof -
  have "sched_abs two_threads = (Some 1, [1, 5], [])"
    using one_thread(2) two_threads_fields(6) by (metis sched_part_rep(2))
  then show ?thesis using a2_yield_refines [OF two_threads_ready] by (auto simp: homes_def)
qed

text \<open>Memory is never lost to scheduling: after any number of yields from such a state, every thread finds every byte of its pages as it was, and the ready list is rotated
  as in Assignment1.\<close>

theorem a2_yields_keep_memory:
  assumes "a2_ready n k s"
  shows "\<exists>s'. a2_yields m s = Some s' \<and> sched_abs s' = (yield_spec ^^ m) (sched_abs s) \<and>
    (\<forall>t i. 0 \<le> t \<and> t < n \<and> i \<in> homes (\<lambda>_. k) t \<longrightarrow> view (pages_of s') t i = view (pages_of s) t i)"
  using a2_yields_ok [OF assms, of m] by (auto simp: memory_kept_def same_views_def is_page_def)

theorem a2_yields_keep_memory_witness:
  "\<exists>s'. a2_yields 7 two_threads = Some s' \<and> view (pages_of s') 0 LAST = view (pages_of two_threads) 0 LAST"
  using a2_yields_keep_memory [OF two_threads_ready, of 7] by (auto simp: homes_def)

text \<open>C13: Switching keeps every thread's memory: when the running thread has its pages in place, the
  next thread uses no more pages than it and there are frames enough to swap it out, the page
  moves of \<open>my_pthread_yield\<close> return, afterwards every page of every thread has the bytes it had,
  and the pages of the next thread are in place.\<close>

theorem a2_switch_keeps_memory:
  assumes "paging_ok n K s" "0 \<le> u" "u < n" "at_home K (pages_of s) u"
    "nat (K u) < card (free_frames (pages_of s))" "0 \<le> w" "w < n" "K w \<le> K u"
  shows "\<exists>s1 s2. save_pages u s = Some s1 \<and> restore_pages w s1 = Some s2 \<and>
    (\<forall>t i. 0 \<le> t \<and> t < n \<and> i \<in> homes K t \<longrightarrow> view (pages_of s2) t i = view (pages_of s) t i) \<and>
    at_home K (pages_of s2) w \<and> paging_ok n K s2"
proof -
  have "returns (do { s \<leftarrow> save_pages u s; restore_pages w s })
      (\<lambda>s2. same_views n K (pages_of s) (pages_of s2) \<and> at_home K (pages_of s2) w \<and> paging_ok n K s2)"
    by (rule switch_pages_returns [OF assms]) auto
  then show ?thesis by (auto simp: returns_def bind_eq_Some_conv same_views_def is_page_def)
qed

theorem a2_switch_keeps_memory_witness:
  "\<exists>s1 s2. save_pages 1 two_threads = Some s1 \<and> restore_pages 0 s1 = Some s2 \<and> at_home (\<lambda>_. 1) (pages_of s2) 0 \<and>
    view (pages_of s2) 1 0 = view (pages_of two_threads) 1 0"
  using a2_switch_keeps_memory [OF two_threads_ok, of 1 0] two_threads_home two_threads_free(2) by (auto simp: homes_def)

text \<open>Resuming a thread after an exit keeps every thread's memory: with one free frame, frame
  1535 holding a last page if anything, and NULL in the slot behind the last page table, the page moves return, whatever the numbers of pages of the
  threads; every page of every thread has the bytes it had and the pages of the resumed thread
  are in place.\<close>

theorem a2_resume_keeps_memory:
  assumes "paging_ok n K s" "last_reserved n K (pages_of s)" "free_frames (pages_of s) \<noteq> {}" "0 \<le> u" "u < n"
    "pageTables s n = None"
  shows "\<exists>s'. resume_pages u s = Some s' \<and>
    (\<forall>t i. 0 \<le> t \<and> t < n \<and> i \<in> homes K t \<longrightarrow> view (pages_of s') t i = view (pages_of s) t i) \<and>
    at_home K (pages_of s') u \<and> paging_ok n K s'"
proof -
  have "returns (resume_pages u s)
      (\<lambda>s'. same_views n K (pages_of s) (pages_of s') \<and> at_home K (pages_of s') u \<and> paging_ok n K s')"
    by (rule resume_pages_returns) (use assms in auto)
  then show ?thesis by (auto simp: returns_def same_views_def is_page_def)
qed

theorem a2_resume_keeps_memory_witness:
  "\<exists>s'. resume_pages 0 two_threads = Some s' \<and> at_home (\<lambda>_. 1) (pages_of s') 0 \<and>
    view (pages_of s') 1 0 = view (pages_of two_threads) 1 0"
proof -
  have "page_inv 2 (\<lambda>_. 1) (pages_of two_threads)" using two_threads_ok by (simp add: paging_ok_def)
  then have "last_reserved 2 (\<lambda>_. 1) (pages_of two_threads)"
    by (rule last_reserved_home [OF _ _ _ two_threads_home]) (auto simp: free_frames_def two_threads_pages)
  moreover have "free_frames (pages_of two_threads) \<noteq> {}" using two_threads_free(1) by blast
  ultimately show ?thesis using a2_resume_keeps_memory [OF two_threads_ok, of 0] by (auto simp: homes_def two_threads_fields)
qed

text \<open>C25: The scheduler of Assignment2 makes the steps of Assignment1, but for the timer: whenever its
  \<open>my_pthread_yield\<close> returns, with all its page moves, the queues, threads and running thread it
  leaves and the context switch it makes are those of Assignment1's \<open>my_pthread_yield\<close>.  The period for which Assignment1
  sets \<open>ITIMER_REAL\<close>, whose signal the handler is for, is put into \<open>ITIMER_VIRTUAL\<close>; \<open>ITIMER_REAL\<close>
  is never touched, so the handler is not called.\<close>

theorem a2_yield_simulates:
  assumes "a2_yield s = Some (sw, s')"
  shows "a1_yield (sched_part s) = Some (sw, sched_part s') \<and> itimer s' = itimer s"
proof -
  have "a1_yield (sched_part s) = Some (sw, sched_part s')" using assms a2_yield_simulation [of s] by (simp add: simulates_def)
  moreover from this have "vtimer (sched_part s') = vtimer (sched_part s)" by (rule a1_yield_vtimer)
  ultimately show ?thesis by simp
qed

theorem a2_yield_simulates_witness:
  "\<exists>sw s'. a2_yield two_threads = Some (sw, s') \<and> a1_yield (sched_part two_threads) = Some (sw, sched_part s') \<and>
    itimer s' = itimer two_threads"
proof -
  obtain sw s' where "a2_yield two_threads = Some (sw, s')" by (rule a2_ready_yield [OF two_threads_ready])
  then show ?thesis using a2_yield_simulates by blast
qed

end
