(* ===== verification/A2_Sim.thy ===== *)
theory A2_Sim
  imports A2_Sched
begin

section \<open>The allocator over another memory\<close>

text \<open>
  The functions of the Assignment2 allocator work through the machine's word reads and writes.  A machine
  that simulates plain memory word by word simulates every function of the allocator: whatever
  holds of \<open>myallocate\<close> and \<open>mydeallocate\<close> on plain memory carries over.  Two machines are used: the
  operating-system region, which is never protected, and the user region of a program with one
  thread, where accesses fault and pages are opened on demand.
\<close>

definition sims :: "('s \<Rightarrow> mem \<Rightarrow> bool) \<Rightarrow> ('a \<times> 's) option \<Rightarrow> ('a \<times> mem) option \<Rightarrow> bool" where
  "sims R x y \<longleftrightarrow> (\<forall>r m. y = Some (r, m) \<longrightarrow> (\<exists>s. x = Some (r, s) \<and> R s m))"

definition simu :: "('s \<Rightarrow> mem \<Rightarrow> bool) \<Rightarrow> 's option \<Rightarrow> mem option \<Rightarrow> bool" where
  "simu R x y \<longleftrightarrow> (\<forall>m. y = Some m \<longrightarrow> (\<exists>s. x = Some s \<and> R s m))"

lemma sims_Some [simp]: "sims R (Some (r, s)) (Some (r', m)) \<longleftrightarrow> r = r' \<and> R s m"
  by (auto simp: sims_def)

lemma simu_Some [simp]: "simu R (Some s) (Some m) = R s m"
  by (auto simp: simu_def)

lemma sims_bind:
  "sims R x y \<Longrightarrow> (\<And>r s m. R s m \<Longrightarrow> sims R (f (r, s)) (g (r, m))) \<Longrightarrow> sims R (x \<bind> f) (y \<bind> g)"
  unfolding sims_def by (force simp: bind_eq_Some_conv)

lemma simu_bind:
  "sims R x y \<Longrightarrow> (\<And>r s m. R s m \<Longrightarrow> simu R (f (r, s)) (g (r, m))) \<Longrightarrow> simu R (x \<bind> f) (y \<bind> g)"
  unfolding sims_def simu_def by (force simp: bind_eq_Some_conv)

lemma simu_sims_bind:
  "simu R x y \<Longrightarrow> (\<And>s m. R s m \<Longrightarrow> sims R (f s) (g m)) \<Longrightarrow> sims R (x \<bind> f) (y \<bind> g)"
  unfolding sims_def simu_def by (force simp: bind_eq_Some_conv)

lemma simu_simu_bind:
  "simu R x y \<Longrightarrow> (\<And>s m. R s m \<Longrightarrow> simu R (f s) (g m)) \<Longrightarrow> simu R (x \<bind> f) (y \<bind> g)"
  unfolding simu_def by (force simp: bind_eq_Some_conv)

lemma simu_value_bind: "(\<And>r. x = Some r \<Longrightarrow> simu R (f r) (g r)) \<Longrightarrow> simu R (x \<bind> f) (x \<bind> g)"
  by (cases x) (auto simp: simu_def)

lemmas sim_binds = sims_bind simu_bind simu_sims_bind simu_simu_bind

locale mem_sim =
  fixes R :: "'s \<Rightarrow> mem \<Rightarrow> bool" and rd :: "'s rd" and wr :: "'s wr"
  assumes rd_sim: "R s m \<Longrightarrow> sims R (rd s a) (prd m a)"
    and wr_sim: "R s m \<Longrightarrow> simu R (wr s a v) (pwr m a v)"
begin

lemma read_sim:
  assumes "R s m"
  shows "sims R (a2_getSize rd s p) (a2_getSize prd m p)"
    "sims R (a2_getOtherSize rd s p) (a2_getOtherSize prd m p)"
    "sims R (a2_getAllocation rd s p) (a2_getAllocation prd m p)"
  unfolding a2_getSize_def a2_getOtherSize_def a2_getAllocation_def Let_def
  by (intro sims_bind [OF rd_sim [OF assms]]; simp)+

lemma setValue_sim: "R s m \<Longrightarrow> simu R (a2_setValue rd wr s p n a) (a2_setValue prd pwr m p n a)"
  unfolding a2_setValue_def by (auto intro!: sim_binds rd_sim wr_sim)

lemma getFooter_sim: "R s m \<Longrightarrow> sims R (a2_getFooter rd s p) (a2_getFooter prd m p)"
  unfolding a2_getFooter_def by (auto intro!: sim_binds read_sim)

lemma getPrevious_sim: "R s m \<Longrightarrow> sims R (a2_getPrevious rd s p) (a2_getPrevious prd m p)"
  unfolding a2_getPrevious_def by (auto intro!: sim_binds read_sim)

lemma getNext_sim: "R s m \<Longrightarrow> sims R (a2_getNext rd s p) (a2_getNext prd m p)"
  unfolding a2_getNext_def Let_def by (auto intro!: sim_binds read_sim)

lemmas tag_sims = sim_binds read_sim setValue_sim getFooter_sim getPrevious_sim getNext_sim

text \<open>The search returns on the machine whenever it returns on plain memory.\<close>

lemma findFit_loop_sim:
  assumes "R s m"
  shows "sims R (a2_findFit_loop rd s e p n a) (a2_findFit_loop prd m e p n a)"
proof -
  have "\<forall>s. rdp = prd \<longrightarrow> R s m \<longrightarrow> (\<exists>s'. a2_findFit_loop rd s e p n a = Some (fst y, s') \<and> R s' (snd y))"
    if "a2_findFit_loop rdp m e p n a = Some y" for y and rdp :: "mem rd"
    using that
  proof (rule a2_findFit_loop.raw_induct [of "\<lambda>rdp m e p n a y. \<forall>s. rdp = prd \<longrightarrow> R s m \<longrightarrow>
      (\<exists>s'. a2_findFit_loop rd s e p n a = Some (fst y, s') \<and> R s' (snd y))", rotated])
    fix loop and rdp :: "mem rd" and m and e p n a :: int and y
    assume IH: "\<And>rdp m e p n a y. loop rdp m e p n a = Some y \<Longrightarrow>
        \<forall>s. rdp = prd \<longrightarrow> R s m \<longrightarrow> (\<exists>s'. a2_findFit_loop rd s e p n a = Some (fst y, s') \<and> R s' (snd y))"
      and eq: "(if n \<noteq> 0 then if a \<noteq> 1 \<and> e \<le> n then Some (Some p, m)
        else a2_getSize rdp m (p + n) \<bind> (\<lambda>(n', s'). a2_getAllocation rdp s' (p + n) \<bind>
          (\<lambda>(a', s''). loop rdp s'' e (p + n) n' a')) else Some (None, m)) = Some y"
    have "\<exists>s'. a2_findFit_loop rd s e p n a = Some (fst y, s') \<and> R s' (snd y)" if "rdp = prd" "R s m" for s
    proof (cases "n \<noteq> 0 \<and> \<not> (a \<noteq> 1 \<and> e \<le> n)")
      case False
      then show ?thesis using eq that by (subst a2_findFit_loop.simps) (auto split: if_splits)
    next
      case True
      have "sims R (a2_getSize rd s (p + n) \<bind> (\<lambda>(n', s'). a2_getAllocation rd s' (p + n) \<bind>
            (\<lambda>(a', s''). a2_findFit_loop rd s'' e (p + n) n' a')))
          (a2_getSize prd m (p + n) \<bind> (\<lambda>(n', s'). a2_getAllocation prd s' (p + n) \<bind>
            (\<lambda>(a', s''). loop prd s'' e (p + n) n' a')))"
        using IH [of prd] that(2) by (auto intro!: sims_bind read_sim) (force simp: sims_def)
      then show ?thesis using eq that(1) True by (subst a2_findFit_loop.simps) (auto simp: sims_def)
    qed
    then show "\<forall>s. rdp = prd \<longrightarrow> R s m \<longrightarrow> (\<exists>s'. a2_findFit_loop rd s e p n a = Some (fst y, s') \<and> R s' (snd y))" by blast
  qed
  then show ?thesis using assms by (auto simp: sims_def)
qed

lemma findFit_sim: "R s m \<Longrightarrow> sims R (a2_findFit rd s lo e) (a2_findFit prd m lo e)"
  unfolding a2_findFit_def Let_def by (auto intro!: sim_binds read_sim findFit_loop_sim)

lemma place_sim: "R s m \<Longrightarrow> sims R (a2_place rd wr s p e) (a2_place prd pwr m p e)"
  unfolding a2_place_def Let_def by (auto intro!: tag_sims)

lemma alloc_block_sim:
  "R s m \<Longrightarrow> sims R (a2_alloc_block rd wr US lo s sz) (a2_alloc_block prd pwr US lo m sz)"
  unfolding a2_alloc_block_def Let_def
  by (auto intro!: sims_bind findFit_sim place_sim split: option.split)

lemma neighbour_sim:
  "R s m \<Longrightarrow> sims R (case q of Some q \<Rightarrow> a2_getAllocation rd s q | None \<Rightarrow> Some (1, s))
     (case q of Some q \<Rightarrow> a2_getAllocation prd m q | None \<Rightarrow> Some (1, m))"
  by (cases q) (simp_all add: read_sim)

lemma coalesce_sim: "R s m \<Longrightarrow> simu R (a2_coalesce rd wr s p) (a2_coalesce prd pwr m p)"
  unfolding a2_coalesce_def Let_def by (auto intro!: tag_sims neighbour_sim simu_value_bind)

lemma deallocate_sim:
  "R s m \<Longrightarrow> simu R (a2_deallocate rd wr OS US lo s p) (a2_deallocate prd pwr OS US lo m p)"
  unfolding a2_deallocate_def Let_def
  by (auto intro!: tag_sims coalesce_sim split: option.split)

end

end
