(* ===== verification/A2_Heap.thy ===== *)
theory A2_Heap
  imports A2_Sim
begin

section \<open>The heap of the operating system in Assignment2\<close>

text \<open>
  Calls of \<open>myallocate\<close> and \<open>mydeallocate\<close> by the library work on the region at the start of the arena, which
  is never protected: they are the operations on block lists, and change nothing else.
\<close>

subsection \<open>The operating-system region\<close>

text \<open>The region as a plain memory of its own: only its bytes differ from the state \<open>s0\<close> the library
  call started in.\<close>

definition os_rel :: "a2_state \<Rightarrow> a2_state \<Rightarrow> mem \<Rightarrow> bool" where
  "os_rel s0 s m \<longleftrightarrow> s = s0\<lparr>memory := (memory s0)\<lparr>mbytes := mbytes m\<rparr>\<rparr> \<and> msize m = OS_SIZE \<and>
     OS_SIZE \<le> msize (memory s0) \<and> (\<forall>x \<ge> OS_SIZE. mbytes m x = mbytes (memory s0) x)"

definition os_mem :: "a2_state \<Rightarrow> mem" where
  "os_mem s = (memory s)\<lparr>msize := OS_SIZE\<rparr>"

lemma os_rel_start: "OS_SIZE \<le> msize (memory s) \<Longrightarrow> os_rel s s (os_mem s)"
  by (simp add: os_rel_def os_mem_def)

lemma touch_os: "x < OS_SIZE \<Longrightarrow> touch s x = Some s"
  by (simp add: touch_def accessible_def)

lemma load32_bytes: "mbytes m' = mbytes m \<Longrightarrow> ld32 m' a = ld32 m a"
  by (simp add: ld32_def)

interpretation os: mem_sim "os_rel s0" a2_rd a2_wr for s0
proof
  fix s m a
  assume R: "os_rel s0 s m"
  then have ld: "ld32 (memory s) a = ld32 m a" by (intro load32_bytes) (simp add: os_rel_def)
  show "sims (os_rel s0) (a2_rd s a) (prd m a)"
  proof (cases "in_mem m a 4")
    case True
    then have "a + 3 < OS_SIZE" "in_mem (memory s) a 4" using R by (auto simp: os_rel_def in_mem_def)
    then show ?thesis using R True ld by (simp add: a2_rd_def prd_def touch_os load32_def)
  qed (simp add: prd_def load32_def sims_def)
  fix v
  show "simu (os_rel s0) (a2_wr s a v) (pwr m a v)"
  proof (cases "in_mem m a 4")
    case True
    then have a: "a + 3 < OS_SIZE" "in_mem (memory s) a 4" "0 \<le> a" using R by (auto simp: os_rel_def in_mem_def)
    have "os_rel s0 (s\<lparr>memory := st32 (memory s) a v\<rparr>) (st32 m a v)"
      using R a by (auto simp: os_rel_def st32_def)
    then show ?thesis using True a by (simp add: a2_wr_def pwr_def touch_os store32_def)
  qed (simp add: pwr_def store32_def simu_def)
qed

subsection \<open>The blocks of the two heaps\<close>

text \<open>The operating-system region is one heap from the start of \<open>memory\<close> to the epilogue in its last
  word; the user region follows, its epilogue in the page behind it.\<close>

definition os_memory :: "mem \<Rightarrow> blk list \<Rightarrow> bool" where
  "os_memory m bs \<longleftrightarrow> heap_ok a2_tag (m\<lparr>msize := OS_SIZE\<rparr>) 0 (OS_SIZE - 4) bs \<and> OS_SIZE \<le> msize m"

definition os_heap :: "a2_state \<Rightarrow> blk list \<Rightarrow> bool" where
  "os_heap s bs \<longleftrightarrow> os_memory (memory s) bs"

text \<open>What a library call may change: bytes of the operating-system region before its last word and
  outside the set \<open>P\<close>, and nothing else.\<close>

definition os_keeps :: "int set \<Rightarrow> mem \<Rightarrow> mem \<Rightarrow> bool" where
  "os_keeps P m m' \<longleftrightarrow> keeps (P \<union> {OS_SIZE - 4..}) m m'"

definition os_step :: "int set \<Rightarrow> a2_state \<Rightarrow> a2_state \<Rightarrow> bool" where
  "os_step P s s' \<longleftrightarrow> (\<exists>m. s' = s\<lparr>memory := m\<rparr> \<and> os_keeps P (memory s) m)"

lemma os_keeps_trans: "os_keeps P m m1 \<Longrightarrow> os_keeps P m1 m2 \<Longrightarrow> os_keeps P m m2"
  unfolding os_keeps_def by (rule keeps_trans)

lemma os_keeps_mono: "os_keeps P m m' \<Longrightarrow> Q \<subseteq> P \<Longrightarrow> os_keeps Q m m'"
  unfolding os_keeps_def by (rule keeps_mono) auto

text \<open>The result of the allocator on the region depends on the memory alone.\<close>

lemma os_rel_memory:
  assumes R: "os_rel s s' m'" and M: "memory s = m" and k: "keeps (P \<union> - {0..<OS_SIZE - 4}) (m\<lparr>msize := OS_SIZE\<rparr>) m'"
    and ok: "heap_ok a2_tag m' 0 (OS_SIZE - 4) bs"
  shows "s' = s\<lparr>memory := m\<lparr>mbytes := mbytes m'\<rparr>\<rparr>"
    "os_memory (m\<lparr>mbytes := mbytes m'\<rparr>) bs" "os_keeps P m (m\<lparr>mbytes := mbytes m'\<rparr>)"
proof -
  show "s' = s\<lparr>memory := m\<lparr>mbytes := mbytes m'\<rparr>\<rparr>" using R M by (simp add: os_rel_def)
  have e: "m\<lparr>mbytes := mbytes m', msize := OS_SIZE\<rparr> = m'" using R by (simp add: os_rel_def)
  show "os_memory (m\<lparr>mbytes := mbytes m'\<rparr>) bs"
    unfolding os_memory_def e using R M ok by (simp add: os_rel_def)
  show "os_keeps P m (m\<lparr>mbytes := mbytes m'\<rparr>)" using R M k by (auto simp: os_keeps_def keeps_def os_rel_def)
qed

lemma os_alloc_block:
  assumes h: "os_memory m bs" and sz: "0 \<le> sz"
  obtains m' where "\<And>s. memory s = m \<Longrightarrow> a2_alloc_block a2_rd a2_wr USR_SIZE 0 s sz =
      Some (map_option (\<lambda>(p, k). (p, p - 4, p + k - 8)) (fst (a2_alloc_spec USR_SIZE 0 sz bs)), s\<lparr>memory := m'\<rparr>)"
    "os_memory m' (snd (a2_alloc_spec USR_SIZE 0 sz bs))" "os_keeps (payload 0 bs) m m'"
    "\<And>p k. fst (a2_alloc_spec USR_SIZE 0 sz bs) = Some (p, k) \<Longrightarrow> keeps {p..<p + k - 8} m m'"
proof -
  let ?r = "map_option (\<lambda>(p, k). (p, p - 4, p + k - 8)) (fst (a2_alloc_spec USR_SIZE 0 sz bs))"
  have ok: "heap_ok a2_tag (m\<lparr>msize := OS_SIZE\<rparr>) 0 (OS_SIZE - 4) bs" "OS_SIZE \<le> msize m"
    using h by (simp_all add: os_memory_def)
  obtain m1 where m1: "a2_alloc_block prd pwr USR_SIZE 0 (m\<lparr>msize := OS_SIZE\<rparr>) sz = Some (?r, m1)"
    "heap_ok a2_tag m1 0 (OS_SIZE - 4) (snd (a2_alloc_spec USR_SIZE 0 sz bs))"
    "keeps (payload 0 bs \<union> - {0..<OS_SIZE - 4}) (m\<lparr>msize := OS_SIZE\<rparr>) m1"
    "\<And>p k. fst (a2_alloc_spec USR_SIZE 0 sz bs) = Some (p, k) \<Longrightarrow> keeps {p..<p + k - 8} (m\<lparr>msize := OS_SIZE\<rparr>) m1"
    by (rule plain_alloc [OF ok(1) sz order_refl]) (rule that, assumption+)
  have s': "\<exists>s'. a2_alloc_block a2_rd a2_wr USR_SIZE 0 s sz = Some (?r, s') \<and> os_rel s s' m1" if "memory s = m" for s
    using os.alloc_block_sim [OF os_rel_start, of s USR_SIZE 0 sz] m1(1) ok(2) that by (simp add: sims_def os_mem_def)
  have "\<exists>s. memory s = m" by (rule exI [of _ "undefined\<lparr>memory := m\<rparr>"]) simp
  then obtain s0 s1 where s0: "memory s0 = m" "os_rel s0 s1 m1" using s' by blast
  have new: "keeps {p..<p + k - 8} m (m\<lparr>mbytes := mbytes m1\<rparr>)" if "fst (a2_alloc_spec USR_SIZE 0 sz bs) = Some (p, k)" for p k
    using m1(4) [OF that] by (simp add: keeps_def)
  show thesis
    by (rule that [of "m\<lparr>mbytes := mbytes m1\<rparr>"])
      (use s' os_rel_memory(1) [OF _ _ m1(3,2)] os_rel_memory(2,3) [OF s0(2,1) m1(3,2)] new in blast)+
qed

lemma os_deallocate:
  assumes h: "os_memory m (xs @ (n, a) # ys)" and xs: "xs \<noteq> []"
  obtains m' where "\<And>s. memory s = m \<Longrightarrow>
      a2_deallocate a2_rd a2_wr OS_SIZE USR_SIZE 0 s (Some (total xs + 4)) = Some (s\<lparr>memory := m'\<rparr>)"
    "os_memory m' (free_block xs n ys)" "os_keeps (payload 0 xs \<union> payload (total xs + n) ys) m m'"
proof -
  have ok: "heap_ok a2_tag (m\<lparr>msize := OS_SIZE\<rparr>) 0 (OS_SIZE - 4) (xs @ (n, a) # ys)" "OS_SIZE \<le> msize m"
    using h by (simp_all add: os_memory_def)
  have e: "total xs + 4 + n - 4 = total xs + n" by simp
  obtain m1 where m1: "a2_deallocate prd pwr OS_SIZE USR_SIZE 0 (m\<lparr>msize := OS_SIZE\<rparr>) (Some (total xs + 4)) = Some m1"
    "heap_ok a2_tag m1 0 (OS_SIZE - 4) (free_block xs n ys)"
    "keeps (payload 0 xs \<union> payload (total xs + n) ys \<union> - {0..<OS_SIZE - 4}) (m\<lparr>msize := OS_SIZE\<rparr>) m1"
    by (rule plain_free [OF ok(1), of "total xs + 4" OS_SIZE USR_SIZE, unfolded e]) (use xs in auto)
  have s': "\<exists>s'. a2_deallocate a2_rd a2_wr OS_SIZE USR_SIZE 0 s (Some (total xs + 4)) = Some s' \<and> os_rel s s' m1"
    if "memory s = m" for s
    using os.deallocate_sim [OF os_rel_start, of s OS_SIZE USR_SIZE 0 "Some (total xs + 4)"] m1(1) ok(2) that
    by (simp add: simu_def os_mem_def)
  have "\<exists>s. memory s = m" by (rule exI [of _ "undefined\<lparr>memory := m\<rparr>"]) simp
  then obtain s0 s1 where s0: "memory s0 = m" "os_rel s0 s1 m1" using s' by blast
  show thesis
    using s' os_rel_memory(1) [OF _ _ m1(3,2)] os_rel_memory(2,3) [OF s0(2,1) m1(3,2)]
    by (intro that [of "m\<lparr>mbytes := mbytes m1\<rparr>"]) blast+
qed

lemma os_allocate:
  assumes "os_memory m bs" "0 \<le> sz"
  obtains m' where "\<And>s caller. memory s = m \<Longrightarrow> caller \<noteq> 999 \<Longrightarrow> a2_allocate s sz caller =
      Some (map_option fst (fst (a2_alloc_spec USR_SIZE 0 sz bs)), s\<lparr>memory := m'\<rparr>)"
    "os_memory m' (snd (a2_alloc_spec USR_SIZE 0 sz bs))" "os_keeps (payload 0 bs) m m'"
    "\<And>p k. fst (a2_alloc_spec USR_SIZE 0 sz bs) = Some (p, k) \<Longrightarrow> keeps {p..<p + k - 8} m m'"
proof -
  obtain m' where m': "\<And>s. memory s = m \<Longrightarrow> a2_alloc_block a2_rd a2_wr USR_SIZE 0 s sz =
      Some (map_option (\<lambda>(p, k). (p, p - 4, p + k - 8)) (fst (a2_alloc_spec USR_SIZE 0 sz bs)), s\<lparr>memory := m'\<rparr>)"
    "os_memory m' (snd (a2_alloc_spec USR_SIZE 0 sz bs))" "os_keeps (payload 0 bs) m m'"
    "\<And>p k. fst (a2_alloc_spec USR_SIZE 0 sz bs) = Some (p, k) \<Longrightarrow> keeps {p..<p + k - 8} m m'"
    by (rule os_alloc_block [OF assms]) (rule that, assumption+)
  show thesis
    by (rule that [OF _ m'(2-4)], cases "fst (a2_alloc_spec USR_SIZE 0 sz bs)") (auto simp: a2_allocate_def m'(1))
qed

end
