(* ===== verification/A2_User.thy ===== *)
theory A2_User
  imports A2_Heap
begin

section \<open>The user region of a program with one thread\<close>

text \<open>
  While no other thread owns a frame of the arena, an access to a closed page opens it and enters it in
  the page table of the running thread, and changes no byte.  The user region then behaves as plain
  memory, and the allocator works on it as on the region of the operating system.
\<close>

subsection \<open>States and steps\<close>

text \<open>Thread \<open>u\<close> runs; every frame of the arena is either free or open and in its place in the page table of
  \<open>u\<close>.  The page behind the region, with its epilogue, is open.\<close>

definition usr_ok :: "int \<Rightarrow> a2_state \<Rightarrow> bool" where
  "usr_ok u s \<longleftrightarrow> current_id s = Some u \<and> pt_table s u \<noteq> None \<and> prot s MEMORYPAGES \<and>
     msize (memory s) = OS_SIZE + USR_SIZE + PAGESIZE \<and>
     (\<forall>p. 0 \<le> p \<and> p < MEMORYPAGES \<longrightarrow> masterTable s p = CHR ''0'' \<or> prot s p \<and> pt_get s u p = Some p)"

definition usr_heap :: "a2_state \<Rightarrow> blk list \<Rightarrow> bool" where
  "usr_heap s bs \<longleftrightarrow> heap_ok a2_tag (memory s) OS_SIZE (OS_SIZE + USR_SIZE) bs"

text \<open>What a page table entry, the flag and the protection of a page may become: the page is opened, entered
  in its place and marked as used, or stays as it was.\<close>

definition opens :: "int \<Rightarrow> a2_state \<Rightarrow> a2_state \<Rightarrow> bool" where
  "opens u s s' \<longleftrightarrow> (\<exists>a t t' pr mt m. pt_table s u = Some (a, t) \<and>
     s' = s\<lparr>memory := m, prot := pr, tables := (tables s)(a \<mapsto> t'), masterTable := mt\<rparr> \<and>
     (\<forall>p. (pr p, mt p, t' p) = (prot s p, masterTable s p, t p) \<or>
        0 \<le> p \<and> p < MEMORYPAGES \<and> (pr p, mt p, t' p) = (True, CHR ''1'', p)))"

lemma pt_table_tables:
  "pt_table s u = Some (a, t) \<Longrightarrow>
     pt_table (s\<lparr>memory := m, prot := pr, tables := (tables s)(a \<mapsto> t'), masterTable := mt\<rparr>) u = Some (a, t')"
  by (auto simp: pt_table_def bind_eq_Some_conv split: if_splits)

lemma opens_refl: "pt_table s u \<noteq> None \<Longrightarrow> opens u s (s\<lparr>memory := m\<rparr>)"
proof -
  assume "pt_table s u \<noteq> None"
  then obtain a t where t: "pt_table s u = Some (a, t)" by auto
  then have "tables s a = Some t" by (auto simp: pt_table_def bind_eq_Some_conv split: if_splits)
  then have "(tables s)(a \<mapsto> t) = tables s" by auto
  then show ?thesis unfolding opens_def using t
    by (intro exI [of _ a] exI [of _ t] exI [of _ t] exI [of _ "prot s"] exI [of _ "masterTable s"] exI [of _ m]) simp
qed

lemma opens_trans: "opens u s s1 \<Longrightarrow> opens u s1 s2 \<Longrightarrow> opens u s s2"
proof -
  assume "opens u s s1" "opens u s1 s2"
  then obtain a t t1 pr1 mt1 m1 where 1: "pt_table s u = Some (a, t)"
      "s1 = s\<lparr>memory := m1, prot := pr1, tables := (tables s)(a \<mapsto> t1), masterTable := mt1\<rparr>"
      "\<And>p. (pr1 p, mt1 p, t1 p) = (prot s p, masterTable s p, t p) \<or>
        0 \<le> p \<and> p < MEMORYPAGES \<and> (pr1 p, mt1 p, t1 p) = (True, CHR ''1'', p)"
    unfolding opens_def by blast
  note t1 = pt_table_tables [where m = m1 and pr = pr1 and t' = t1 and mt = mt1, OF 1(1), folded 1(2)]
  obtain t2 pr2 mt2 m2 where 2:
      "s2 = s1\<lparr>memory := m2, prot := pr2, tables := (tables s1)(a \<mapsto> t2), masterTable := mt2\<rparr>"
      "\<And>p. (pr2 p, mt2 p, t2 p) = (prot s1 p, masterTable s1 p, t1 p) \<or>
        0 \<le> p \<and> p < MEMORYPAGES \<and> (pr2 p, mt2 p, t2 p) = (True, CHR ''1'', p)"
    using \<open>opens u s1 s2\<close> t1 unfolding opens_def by auto
  have "s2 = s\<lparr>memory := m2, prot := pr2, tables := (tables s)(a \<mapsto> t2), masterTable := mt2\<rparr>"
    using 1(2) 2(1) by simp
  moreover have "(pr2 p, mt2 p, t2 p) = (prot s p, masterTable s p, t p) \<or>
        0 \<le> p \<and> p < MEMORYPAGES \<and> (pr2 p, mt2 p, t2 p) = (True, CHR ''1'', p)" for p
    using 1(3) [of p] 2(2) [of p] 1(2) by auto
  ultimately show ?thesis unfolding opens_def using 1(1) by blast
qed

lemma opens_ok:
  assumes "opens u s s'" "usr_ok u s" "msize (memory s') = msize (memory s)"
  shows "usr_ok u s'"
proof -
  obtain a t t' pr mt m where o: "pt_table s u = Some (a, t)"
      "s' = s\<lparr>memory := m, prot := pr, tables := (tables s)(a \<mapsto> t'), masterTable := mt\<rparr>"
      "\<And>p. (pr p, mt p, t' p) = (prot s p, masterTable s p, t p) \<or>
        0 \<le> p \<and> p < MEMORYPAGES \<and> (pr p, mt p, t' p) = (True, CHR ''1'', p)"
    using assms(1) unfolding opens_def by blast
  note t' = pt_table_tables [where m = m and pr = pr and t' = t' and mt = mt, OF o(1), folded o(2)]
  have "masterTable s' p = CHR ''0'' \<or> prot s' p \<and> pt_get s' u p = Some p" if "0 \<le> p" "p < MEMORYPAGES" for p
    using that assms(2) o(3) [of p] t' o(1,2) by (auto simp: usr_ok_def pt_get_def)
  moreover have "prot s' MEMORYPAGES" using assms(2) o(3) [of MEMORYPAGES] o(2) by (auto simp: usr_ok_def)
  moreover have "current_id s' = current_id s" using o(2) by (simp add: current_id_def)
  ultimately show ?thesis using assms(2,3) t' by (simp add: usr_ok_def)
qed

lemma opens_keeps:
  assumes "opens u s s'"
  shows "prot s p \<Longrightarrow> prot s' p"
    "pt_get s u p = Some p \<Longrightarrow> pt_get s' u p = Some p"
proof -
  obtain a t t' pr mt m where o: "pt_table s u = Some (a, t)"
      "s' = s\<lparr>memory := m, prot := pr, tables := (tables s)(a \<mapsto> t'), masterTable := mt\<rparr>"
      "\<And>p. (pr p, mt p, t' p) = (prot s p, masterTable s p, t p) \<or>
        0 \<le> p \<and> p < MEMORYPAGES \<and> (pr p, mt p, t' p) = (True, CHR ''1'', p)"
    using assms(1) unfolding opens_def by blast
  note t' = pt_table_tables [where m = m and pr = pr and t' = t' and mt = mt, OF o(1), folded o(2)]
  show "prot s p \<Longrightarrow> prot s' p" using o(3) [of p] o(2) by auto
  show "pt_get s u p = Some p \<Longrightarrow> pt_get s' u p = Some p"
    using o(3) [of p] o(1) t' by (auto simp: pt_get_def split: if_splits)
qed

subsection \<open>Opening a page\<close>

lemma open_page:
  assumes "usr_ok u s" "0 \<le> p" "p < MEMORYPAGES"
  obtains s' where "do { s \<leftarrow> pt_set s u p p; s \<leftarrow> mt_set s p CHR ''1''; mprotect s p True } = Some s'"
    "do { s \<leftarrow> mprotect s p True; s \<leftarrow> pt_set s u p p; mt_set s p CHR ''1'' } = Some s'"
    "opens u s s'" "memory s' = memory s" "prot s' p" "pt_get s' u p = Some p"
proof -
  obtain a t where t: "pt_table s u = Some (a, t)" using assms by (auto simp: usr_ok_def)
  have t': "pt_table (s\<lparr>prot := pr\<rparr>) u = Some (a, t)" for pr using t by (auto simp: pt_table_def split: if_splits)
  let ?s = "s\<lparr>memory := memory s, prot := (prot s)(p := True), tables := (tables s)(a \<mapsto> t(p := p)),
      masterTable := (masterTable s)(p := CHR ''1'')\<rparr>"
  have "opens u s ?s" unfolding opens_def using t assms(2,3)
    by (intro exI [of _ a] exI [of _ t] exI [of _ "t(p := p)"] exI [of _ "(prot s)(p := True)"]
        exI [of _ "(masterTable s)(p := CHR ''1'')"] exI [of _ "memory s"]) simp
  moreover have "pt_table ?s u = Some (a, t(p := p))" by (rule pt_table_tables [OF t])
  then have "pt_get ?s u p = Some p" using assms(2,3) by (simp add: pt_get_def)
  ultimately show thesis using t t' assms(2,3)
    by (intro that [of ?s]) (simp_all add: pt_set_def mt_set_def mprotect_def s16_id)
qed

text \<open>An access anywhere in the memory succeeds, after at most one fault.\<close>

lemma touch_usr:
  assumes ok: "usr_ok u s" and x: "0 \<le> x" "x < msize (memory s)"
  obtains s' where "touch s x = Some s'" "opens u s s'" "memory s' = memory s"
proof (cases "accessible s x")
  case True
  have "opens u s (s\<lparr>memory := memory s\<rparr>)" using ok by (intro opens_refl) (simp add: usr_ok_def)
  then show thesis using True by (intro that [of s]) (auto simp: touch_def)
next
  case False
  let ?p = "(x - OS_SIZE) div PAGESIZE"
  have closed: "\<not> prot s ?p" "OS_SIZE \<le> x" using False by (simp_all add: accessible_def)
  have "?p \<le> MEMORYPAGES" using x ok by (simp add: usr_ok_def)
  moreover have "?p \<noteq> MEMORYPAGES" using ok closed by (auto simp: usr_ok_def)
  ultimately have p: "0 \<le> ?p" "?p < MEMORYPAGES" using closed by simp_all
  have "masterTable s ?p = CHR ''0''" using ok closed p by (auto simp: usr_ok_def)
  moreover have "s16 (cdiv (x - OS_SIZE) PAGESIZE) = ?p" using p closed by (simp add: cdiv_def s16_id)
  moreover have "current_id s = Some u" using ok by (simp add: usr_ok_def)
  ultimately have h: "seg_handler s x =
      map_option Some (do { s \<leftarrow> mprotect s ?p True; s \<leftarrow> pt_set s u ?p ?p; mt_set s ?p CHR ''1'' })"
    using p
    by (simp add: seg_handler_def mt_get_def mprotect_def current_id_def Let_def del: fun_upd_apply)
      (auto simp: map_option_case current_id_def split: option.splits Option.bind_splits)
  obtain s' where s': "do { s \<leftarrow> mprotect s ?p True; s \<leftarrow> pt_set s u ?p ?p; mt_set s ?p CHR ''1'' } = Some s'"
    "opens u s s'" "memory s' = memory s" "prot s' ?p" by (rule open_page [OF ok p])
  then have "accessible s' x" by (simp add: accessible_def)
  then show thesis using s' False by (intro that [of s']) (simp_all add: touch_def h)
qed

subsection \<open>The user region as plain memory\<close>

definition usr_rel :: "int \<Rightarrow> a2_state \<Rightarrow> a2_state \<Rightarrow> mem \<Rightarrow> bool" where
  "usr_rel u s0 s m \<longleftrightarrow> opens u s0 s \<and> usr_ok u s \<and> memory s = m"

lemma usr_rel_start: "usr_ok u s \<Longrightarrow> usr_rel u s s (memory s)"
  using opens_refl [of s u "memory s"] by (simp add: usr_rel_def usr_ok_def)

lemma usr_rel_touch:
  assumes "usr_rel u s0 s m" "in_mem m a 4"
  obtains s1 s2 where "touch s a = Some s1" "touch s1 (a + 3) = Some s2" "usr_rel u s0 s2 m"
proof -
  have R: "opens u s0 s" "usr_ok u s" "memory s = m" using assms(1) by (simp_all add: usr_rel_def)
  have a: "0 \<le> a" "a + 3 < msize (memory s)" using assms(2) R(3) by (simp_all add: in_mem_def)
  then have a': "a < msize (memory s)" "0 \<le> a + 3" by simp_all
  obtain s1 where s1: "touch s a = Some s1" "opens u s s1" "memory s1 = memory s"
    by (rule touch_usr [OF R(2) a(1) a'(1)])
  then have ok1: "usr_ok u s1" by (intro opens_ok [OF _ R(2)]) simp_all
  have a3: "a + 3 < msize (memory s1)" using a(2) s1(3) by simp
  obtain s2 where s2: "touch s1 (a + 3) = Some s2" "opens u s1 s2" "memory s2 = memory s1"
    by (rule touch_usr [OF ok1 a'(2) a3])
  then have "usr_ok u s2" by (intro opens_ok [OF _ ok1]) simp_all
  then show thesis
    using that s1 s2 opens_trans [OF R(1) opens_trans [OF s1(2) s2(2)]] R(3) by (simp add: usr_rel_def)
qed

lemma usr_rel_write:
  assumes "usr_rel u s0 s m" "msize m' = msize m"
  shows "usr_rel u s0 (s\<lparr>memory := m'\<rparr>) m'"
proof -
  have R: "opens u s0 s" "usr_ok u s" "memory s = m" using assms(1) by (simp_all add: usr_rel_def)
  have o: "opens u s (s\<lparr>memory := m'\<rparr>)" using R(2) by (intro opens_refl) (simp add: usr_ok_def)
  then show ?thesis
    using opens_trans [OF R(1) o] opens_ok [OF o R(2)] assms(2) R(3) by (simp add: usr_rel_def)
qed

interpretation usr: mem_sim "usr_rel u s0" a2_rd a2_wr for u s0
proof
  fix s m a
  assume R: "usr_rel u s0 s m"
  show "sims (usr_rel u s0) (a2_rd s a) (prd m a)"
  proof (cases "in_mem m a 4")
    case True
    show ?thesis
      by (rule usr_rel_touch [OF R True]) (use True in \<open>auto simp: a2_rd_def prd_def load32_def usr_rel_def\<close>)
  qed (simp add: prd_def load32_def sims_def)
  fix v
  show "simu (usr_rel u s0) (a2_wr s a v) (pwr m a v)"
  proof (cases "in_mem m a 4")
    case True
    obtain s1 s2 where t: "touch s a = Some s1" "touch s1 (a + 3) = Some s2" "usr_rel u s0 s2 m"
      by (rule usr_rel_touch [OF R True])
    then have "usr_rel u s0 (s2\<lparr>memory := st32 m a v\<rparr>) (st32 m a v)"
      by (intro usr_rel_write) simp_all
    then show ?thesis using t True by (simp add: a2_wr_def pwr_def store32_def usr_rel_def)
  qed (simp add: pwr_def store32_def simu_def)
qed

subsection \<open>The pages of a new block\<close>

lemma map_pages_usr:
  assumes "usr_ok u s" "0 \<le> i" "i + int n \<le> MEMORYPAGES"
  obtains s' where "map_pages n i s = Some s'" "opens u s s'" "memory s' = memory s"
    "\<And>p. i \<le> p \<Longrightarrow> p < i + int n \<Longrightarrow> prot s' p \<and> pt_get s' u p = Some p"
proof -
  have "\<exists>s'. map_pages n i s = Some s' \<and> opens u s s' \<and> memory s' = memory s \<and>
      (\<forall>p. i \<le> p \<and> p < i + int n \<longrightarrow> prot s' p \<and> pt_get s' u p = Some p)"
    using assms
  proof (induction n arbitrary: i s)
    case 0
    then show ?case using opens_refl [of s u "memory s"] by (auto simp: usr_ok_def)
  next
    case (Suc n)
    have i: "0 \<le> i" "i < MEMORYPAGES" using Suc.prems by simp_all
    obtain s1 where s1: "map_pages (Suc n) i s = map_pages n (i + 1) s1" "opens u s s1" "memory s1 = memory s"
        "prot s1 i" "pt_get s1 u i = Some i"
    proof (cases "masterTable s i = CHR ''1''")
      case True
      then have "prot s i" "pt_get s u i = Some i" using Suc.prems(1) i by (auto simp: usr_ok_def)
      then show thesis using True i Suc.prems(1) opens_refl [of s u "memory s"]
        by (intro that [of s]) (simp_all add: mt_get_def usr_ok_def)
    next
      case False
      obtain s1 where "map_page s u i = Some s1" "opens u s s1" "memory s1 = memory s" "prot s1 i" "pt_get s1 u i = Some i"
        using open_page [OF Suc.prems(1) i] unfolding map_page_def by metis
      then show thesis using False i Suc.prems(1)
        by (intro that [of s1]) (simp_all add: mt_get_def usr_ok_def)
    qed
    have ok1: "usr_ok u s1" using opens_ok [OF s1(2) Suc.prems(1)] s1(3) by simp
    have "\<exists>s'. map_pages n (i + 1) s1 = Some s' \<and> opens u s1 s' \<and> memory s' = memory s1 \<and>
        (\<forall>p. i + 1 \<le> p \<and> p < i + 1 + int n \<longrightarrow> prot s' p \<and> pt_get s' u p = Some p)"
      using Suc.prems by (intro Suc.IH [OF ok1]) simp_all
    then obtain s' where s': "map_pages n (i + 1) s1 = Some s'" "opens u s1 s'" "memory s' = memory s1"
        "\<And>p. i + 1 \<le> p \<Longrightarrow> p < i + 1 + int n \<Longrightarrow> prot s' p \<and> pt_get s' u p = Some p" by blast
    have "prot s' p \<and> pt_get s' u p = Some p" if "i \<le> p" "p < i + int (Suc n)" for p
      using that s'(4) [of p] s1(4,5) opens_keeps [OF s'(2)] by (cases "p = i") auto
    then show ?case using s1 s' opens_trans [OF s1(2) s'(2)] by (intro exI [of _ s']) simp
  qed
  then show thesis using that by blast
qed

subsection \<open>Allocation and freeing\<close>

text \<open>Where the block that the specification picks lies.\<close>

lemma a2_alloc_spec_bounds:
  assumes "fst (a2_alloc_spec US lo sz bs) = Some (p, k)" "wf_blocks bs" "0 < sz"
  shows "lo + 4 \<le> p" "p + k - 4 \<le> lo + total bs" "sz + 8 \<le> k"
proof -
  let ?e = "a2_extended sz"
  obtain xs n ys where f: "first_fit ?e bs = Some (xs, n, ys)" "p = lo + total xs + 4"
    "k = (if n - ?e > 8 then ?e else n)"
    using assms(1) by (auto simp: a2_alloc_spec_def split: if_splits option.splits)
  have e: "sz + 8 \<le> ?e" by (simp add: a2_extended_def Let_def)
  have bs: "bs = xs @ (n, False) # ys" "?e \<le> n" using first_fit_Some [OF f(1)] by auto
  then have "0 \<le> total xs" "0 \<le> total ys" using assms(2) total_nonneg [of xs] total_nonneg [of ys] by auto
  then show "lo + 4 \<le> p" "p + k - 4 \<le> lo + total bs" "sz + 8 \<le> k" using f bs e by (auto split: if_splits)
qed

text \<open>The pages on which a block with payload at \<open>p\<close> and size \<open>k\<close> lies.\<close>

definition block_pages :: "int \<Rightarrow> int \<Rightarrow> int set" where
  "block_pages p k = {(p - 4 - OS_SIZE) div PAGESIZE .. (p + k - 8 - OS_SIZE) div PAGESIZE}"

text \<open>\<open>myallocate\<close> and \<open>mydeallocate\<close> with the handling of pages.\<close>

lemma user_alloc:
  assumes "usr_ok u s" and "usr_heap s bs" and "0 \<le> sz"
  shows "\<exists>s'. a2_allocate s sz 999 = Some (map_option fst (fst (a2_alloc_spec USR_SIZE OS_SIZE sz bs)), s') \<and>
    usr_ok u s' \<and> usr_heap s' (snd (a2_alloc_spec USR_SIZE OS_SIZE sz bs)) \<and> opens u s s' \<and>
    keeps (payload OS_SIZE bs \<union> - {OS_SIZE..<OS_SIZE + USR_SIZE}) (memory s) (memory s') \<and>
    (\<forall>(p, k) \<in> set_option (fst (a2_alloc_spec USR_SIZE OS_SIZE sz bs)).
       \<forall>q \<in> block_pages p k. prot s' q \<and> pt_get s' u q = Some q)"
proof -
  let ?spec = "a2_alloc_spec USR_SIZE OS_SIZE sz bs" and ?hi = "OS_SIZE + USR_SIZE"
  have ok: "heap_ok a2_tag (memory s) OS_SIZE ?hi bs" using assms(2) by (simp add: usr_heap_def)
  obtain m1 where m1: "a2_alloc_block prd pwr USR_SIZE OS_SIZE (memory s) sz =
      Some (map_option (\<lambda>(p, k). (p, p - 4, p + k - 8)) (fst ?spec), m1)"
    "heap_ok a2_tag m1 OS_SIZE ?hi (snd ?spec)"
    "keeps (payload OS_SIZE bs \<union> - {OS_SIZE..<?hi}) (memory s) m1"
    by (rule plain_alloc [OF ok assms(3) order_refl])
  obtain s1 where s1: "a2_alloc_block a2_rd a2_wr USR_SIZE OS_SIZE s sz =
      Some (map_option (\<lambda>(p, k). (p, p - 4, p + k - 8)) (fst ?spec), s1)"
    "opens u s s1" "usr_ok u s1" "memory s1 = m1"
    using usr.alloc_block_sim [OF usr_rel_start [OF assms(1)], of USR_SIZE OS_SIZE sz] m1(1)
    by (auto simp: sims_def usr_rel_def)
  show ?thesis
  proof (cases "fst ?spec")
    case None
    then show ?thesis using s1 m1(2,3) by (simp add: a2_allocate_def usr_heap_def)
  next
    case (Some pk)
    obtain p k where pk: "pk = (p, k)" by (cases pk)
    have "wf_blocks bs" "OS_SIZE + total bs = ?hi" "0 < sz"
      using ok Some assms(3) by (auto simp: heap_ok_def a2_alloc_spec_def split: if_splits)
    then have b: "OS_SIZE + 4 \<le> p" "p + k - 4 \<le> ?hi" "8 < k"
      using a2_alloc_spec_bounds [of USR_SIZE OS_SIZE sz bs p k] Some pk by simp_all
    let ?h = "(p - 4 - OS_SIZE) div PAGESIZE" and ?f = "(p + k - 8 - OS_SIZE) div PAGESIZE"
    have hf: "0 \<le> ?h" "?h \<le> ?f" "?f < MEMORYPAGES" using b by (simp_all add: zdiv_mono1)
    then have c: "s16 ?h = ?h" "s16 ?f = ?f" by (simp_all add: s16_id)
    obtain s2 where s2: "map_pages (nat (?f - ?h + 1)) ?h s1 = Some s2" "opens u s1 s2" "memory s2 = memory s1"
      "\<And>q. ?h \<le> q \<Longrightarrow> q < ?h + int (nat (?f - ?h + 1)) \<Longrightarrow> prot s2 q \<and> pt_get s2 u q = Some q"
      by (rule map_pages_usr [OF s1(3) hf(1), of "nat (?f - ?h + 1)"]) (use hf in simp_all)
    have "a2_allocate s sz 999 = Some (Some p, s2)"
      using s1(1) s2(1) Some pk c by (simp add: a2_allocate_def)
    moreover have "usr_ok u s2" using opens_ok [OF s2(2) s1(3)] s2(3) by simp
    moreover have "\<forall>q \<in> block_pages p k. prot s2 q \<and> pt_get s2 u q = Some q"
      using s2(4) hf by (simp add: block_pages_def)
    ultimately show ?thesis
      using Some pk m1(2,3) s1(4) s2(3) opens_trans [OF s1(2) s2(2)] by (simp add: usr_heap_def)
  qed
qed

lemma user_free:
  assumes "usr_ok u s" and "usr_heap s (xs @ (n, a) # ys)"
  shows "\<exists>s'. a2_mydeallocate s (Some (OS_SIZE + total xs + 4)) 999 = Some s' \<and>
    usr_ok u s' \<and> usr_heap s' (free_block xs n ys) \<and> opens u s s' \<and>
    keeps (payload OS_SIZE xs \<union> payload (OS_SIZE + total xs + n) ys \<union> - {OS_SIZE..<OS_SIZE + USR_SIZE})
      (memory s) (memory s')"
proof -
  let ?p = "OS_SIZE + total xs + 4" and ?hi = "OS_SIZE + USR_SIZE"
  have ok: "heap_ok a2_tag (memory s) OS_SIZE ?hi (xs @ (n, a) # ys)" using assms(2) by (simp add: usr_heap_def)
  obtain m' where m': "a2_deallocate prd pwr OS_SIZE USR_SIZE OS_SIZE (memory s) (Some ?p) = Some m'"
    "heap_ok a2_tag m' OS_SIZE ?hi (free_block xs n ys)"
    "keeps (payload OS_SIZE xs \<union> payload (?p + n - 4) ys \<union> - {OS_SIZE..<?hi}) (memory s) m'"
    by (rule plain_free [OF ok, of ?p OS_SIZE USR_SIZE]) simp_all
  have "?p + n - 4 = OS_SIZE + total xs + n" by simp
  then show ?thesis
    using usr.deallocate_sim [OF usr_rel_start [OF assms(1)], of OS_SIZE USR_SIZE OS_SIZE "Some ?p"] m'
    by (auto simp: simu_def usr_rel_def usr_heap_def a2_mydeallocate_def add.assoc)
qed

end
