(* ===== verification/A2_Start.thy ===== *)
theory A2_Start
  imports A2_User Heap_Client
begin

section \<open>The first call\<close>

text \<open>
  The first call of \<open>myallocate\<close> writes the tags of both regions, closes the user pages and makes the
  structures of the scheduler: what it leaves is the state the histories of \<open>A2_Program\<close> start from.
\<close>

subsection \<open>Initialising the arena\<close>

lemma shifted_tag:
  assumes "tag_size v" "in_mem m p 4"
  shows "shifted m p v = Some (st32 m p (a2_tag v False))"
proof -
  have s: "s32 v = v" "s32 (v * 2) = v * 2" using assms(1) by (auto simp: tag_size_def intro!: s32_id)
  have "st32 (st32 m p a) p b = st32 m p b" for a b by (simp add: st32_def fun_upd_def fun_eq_iff)
  then show ?thesis
    using assms(2) s by (simp add: shifted_def memory a2_tag_def push_bit_eq_mult mult.commute)
qed

text \<open>What the program expects of its environment: an arena of the size it asks for, and a swap file.\<close>

definition arena_ok :: "a2_arena \<Rightarrow> bool" where
  "arena_ok arena \<longleftrightarrow> msize arena = OS_SIZE + USR_SIZE + PAGESIZE \<and> swap_opens arena"

text \<open>The tags that \<open>initializeMemory\<close> writes.\<close>

definition fresh_arena :: "a2_arena \<Rightarrow> mem" where
  "fresh_arena m = st32 (st32 (st32 (st32 (st32 (st32 (mem.truncate m) 0 (a2_tag (OS_SIZE - 4) False)) (OS_SIZE - 4) (a2_tag 0 True))
     (OS_SIZE - 8) (a2_tag (OS_SIZE - 4) False)) OS_SIZE (a2_tag USR_SIZE False))
     (OS_SIZE + USR_SIZE) (a2_tag 0 True)) (OS_SIZE + USR_SIZE - 4) (a2_tag USR_SIZE False)"

lemma fresh_arena_size [simp]: "msize (fresh_arena m) = msize m"
  by (simp add: fresh_arena_def mem.truncate_def)

lemma fresh_arena_bytes: "4 \<le> x \<Longrightarrow> x < 2097144 \<Longrightarrow> mbytes (fresh_arena m) x = mbytes m x"
  by (simp add: fresh_arena_def mem.truncate_def st32_def)

lemma initializeMemory_arena:
  assumes "arena_ok arena"
  shows "initializeMemory arena s = Some (s\<lparr>memoryInitialized := 1, memory := fresh_arena arena, prot := (\<lambda>_. True),
     file_open := True, swapfile := \<lparr>msize = 16777216, mbytes = (\<lambda>_. 0)\<rparr>\<rparr>)"
proof -
  have "in_mem (mem.truncate arena) x 4" if "0 \<le> x" "x \<le> 8388608" for x
    using assms that by (simp add: arena_ok_def in_mem_def mem.truncate_def)
  moreover have "tag_size (OS_SIZE - 4)" "tag_size USR_SIZE" by (simp_all add: tag_size_def)
  ultimately show ?thesis
    using assms by (simp add: initializeMemory_def shifted_tag fresh_arena_def memory a2_tag_def arena_ok_def)
qed

lemma fresh_heaps:
  assumes "arena_ok m"
  shows "heap_ok a2_tag (fresh_arena m) 0 (OS_SIZE - 4) [(OS_SIZE - 4, False)]"
    "heap_ok a2_tag (fresh_arena m) OS_SIZE (OS_SIZE + USR_SIZE) [(USR_SIZE, False)]"
proof -
  have im: "in_mem (mem.truncate m) x 4" if "0 \<le> x" "x \<le> 8388608" for x
    using assms that by (simp add: arena_ok_def in_mem_def mem.truncate_def)
  have s: "s32 (a2_tag n a) = a2_tag n a" if "tag_size n" for n a using that a2.fits by (simp add: fitsD)
  have t: "tag_size (OS_SIZE - 4)" "tag_size USR_SIZE" "tag_size 0" by (simp_all add: tag_size_def)
  show "heap_ok a2_tag (fresh_arena m) 0 (OS_SIZE - 4) [(OS_SIZE - 4, False)]"
    using t by (simp add: heap_ok_def fresh_arena_def memory im s)
  show "heap_ok a2_tag (fresh_arena m) OS_SIZE (OS_SIZE + USR_SIZE) [(USR_SIZE, False)]"
    using t by (simp add: heap_ok_def fresh_arena_def memory im s)
qed

lemma os_memoryI:
  assumes ok: "heap_ok a2_tag m 0 (OS_SIZE - 4) bs" and "OS_SIZE \<le> msize m"
  shows "os_memory m bs"
  unfolding os_memory_def
proof
  show "heap_ok a2_tag (m\<lparr>msize := OS_SIZE\<rparr>) 0 (OS_SIZE - 4) bs" by (rule heap_ok_window [OF ok]) simp_all
qed (rule assms(2))

lemma os_memory_bytes:
  assumes h: "os_memory m bs" and sz: "msize m' = msize m"
    and eq: "\<And>x. x < OS_SIZE \<Longrightarrow> mbytes m' x = mbytes m x"
  shows "os_memory m' bs"
  unfolding os_memory_def
proof
  have ok: "heap_ok a2_tag (m\<lparr>msize := OS_SIZE\<rparr>) 0 (OS_SIZE - 4) bs" using h by (simp add: os_memory_def)
  show "heap_ok a2_tag (m'\<lparr>msize := OS_SIZE\<rparr>) 0 (OS_SIZE - 4) bs"
    by (rule heap_ok_window [OF ok]) (simp_all add: eq)
  show "OS_SIZE \<le> msize m'" using h sz by (simp add: os_memory_def)
qed

lemma usr_heap_bytes:
  assumes h: "usr_heap s bs" and sz: "msize (memory s') = msize (memory s)"
    and eq: "\<And>x. OS_SIZE - 4 \<le> x \<Longrightarrow> mbytes (memory s') x = mbytes (memory s) x"
  shows "usr_heap s' bs"
  unfolding usr_heap_def
proof -
  have ok: "heap_ok a2_tag (memory s) OS_SIZE (OS_SIZE + USR_SIZE) bs" using h by (simp add: usr_heap_def)
  show "heap_ok a2_tag (memory s') OS_SIZE (OS_SIZE + USR_SIZE) bs"
    by (rule heap_ok_window [OF ok]) (use heap_ok_in_mem [OF ok] in \<open>simp_all add: eq sz\<close>)
qed

subsection \<open>Structures of the library\<close>

text \<open>While the blocks before it are all allocated, the last free block of the region is split.\<close>

lemma first_fit_tail:
  "\<forall>b \<in> set xs. snd b \<Longrightarrow> e \<le> n \<Longrightarrow> first_fit e (xs @ [(n, False)]) = Some (xs, n, [])"
  by (induction xs) auto

lemma alloc_spec_tail:
  assumes "\<forall>b \<in> set xs. snd b" "0 < sz" "sz \<le> USR_SIZE" "a2_extended sz + 8 < n"
  shows "a2_alloc_spec USR_SIZE 0 sz (xs @ [(n, False)]) =
    (Some (total xs + 4, a2_extended sz), (xs @ [(a2_extended sz, True)]) @ [(n - a2_extended sz, False)])"
  using assms first_fit_tail [OF assms(1), of "a2_extended sz" n]
  by (simp add: a2_alloc_spec_def place_def)

lemma os_alloc_tail:
  assumes "os_memory m (xs @ [(n, False)])" "\<forall>b \<in> set xs. snd b" "0 < sz" "sz \<le> USR_SIZE" "a2_extended sz + 8 < n"
  obtains m' where "\<And>s. memory s = m \<Longrightarrow> os_alloc s sz = Some (total xs + 4, s\<lparr>memory := m'\<rparr>)"
    "os_memory m' ((xs @ [(a2_extended sz, True)]) @ [(n - a2_extended sz, False)])"
    "os_keeps {} m m'" "keeps (payload 0 xs) m m'" "keeps {total xs + 4..<total xs + 4 + a2_extended sz - 8} m m'"
proof -
  have "0 \<le> sz" using assms(3) by simp
  from os_allocate [OF assms(1) this, unfolded alloc_spec_tail [OF assms(2-5)]] obtain m' where m':
    "\<And>s caller. memory s = m \<Longrightarrow> caller \<noteq> 999 \<Longrightarrow> a2_allocate s sz caller = Some (Some (total xs + 4), s\<lparr>memory := m'\<rparr>)"
    "os_memory m' ((xs @ [(a2_extended sz, True)]) @ [(n - a2_extended sz, False)])"
    "os_keeps (payload 0 (xs @ [(n, False)])) m m'" "keeps {total xs + 4..<total xs + 4 + a2_extended sz - 8} m m'" by auto
  have "keeps (payload 0 xs) m m'" using m'(3) by (simp add: os_keeps_def keeps_def payload_append)
  then show thesis
    using m'(1,2,4) os_keeps_mono [OF m'(3)] by (intro that [of m']) (simp_all add: os_alloc_def)
qed

text \<open>The state after the first call has initialised everything: the main thread is number 0, its first
  and last page are mapped and open.\<close>

definition main_table :: "int \<Rightarrow> int" where
  "main_table i = (if i = 0 then 0 else if i = MEMORYPAGES - 1 then MEMORYPAGES - 1 else 6969)"

definition main_started :: "mem \<Rightarrow> a2_state \<Rightarrow> a2_state" where
  "main_started m s = s\<lparr>memoryInitialized := 1, sched_initialized := 1, memory := m,
     prot := (\<lambda>i. 0 \<le> i \<and> i < MEMORYPAGES \<longrightarrow> i = 0 \<or> i = MEMORYPAGES - 1),
     file_open := True, swapfile := \<lparr>msize = 16777216, mbytes = (\<lambda>_. 0)\<rparr>,
     masterTable := (\<lambda>i. if i = 0 \<or> i = MEMORYPAGES - 1 then CHR ''1'' else CHR ''0''),
     pageTables := (fresh_slots m 4)(0 \<mapsto> 6676), tables := (tables s)(6676 \<mapsto> main_table),
     contexts := (contexts s)(9796 \<mapsto> \<lparr>ss_sp = None, ss_size = 0, uc_entry = None\<rparr>),
     threads := (threads s)(9756 \<mapsto> \<lparr>thread_id = 0, tcontext = 9796, tstate = ACTIVE, return_value = None\<rparr>),
     current := Some 9756\<rparr>"

definition started_blocks :: "int \<Rightarrow> blk list" where
  "started_blocks uc = [(1032, True), (5640, True), (3080, True), (40, True), (a2_extended uc, True),
     (2087356 - a2_extended uc, False)]"

text \<open>The slots of \<open>pageTables\<close> depend on the bytes of its block only, and these stay.\<close>

lemma fresh_slots_keeps:
  assumes "keeps {4..<1028} m m'"
  shows "fresh_slots m 4 = fresh_slots m' 4"
proof
  fix i
  have "mbytes m' (4 + 8 * i + k) = mbytes m (4 + 8 * i + k)" if "0 \<le> i" "i < MAXTHREADS" "k \<in> {0..7}" for k
    using assms that by (simp add: keeps_def)
  then show "fresh_slots m 4 i = fresh_slots m' 4 i" by (auto simp: fresh_slots_def)
qed

lemma keeps_first: "keeps (P \<union> Q) m m' \<longleftrightarrow> keeps P m m' \<and> keeps Q m m'"
  by (auto simp: keeps_def)

lemma initialize_all:
  assumes "arena_ok arena" "0 < uc" "uc \<le> 2000000" "sched_initialized s = 0"
  obtains m where "do { s \<leftarrow> initializeMemory arena s; s \<leftarrow> initializeScheduler uc s; Some (s\<lparr>memoryInitialized := 1\<rparr>) } =
      Some (main_started m s)"
    "os_memory m (started_blocks uc)" "os_keeps {} (fresh_arena arena) m" "keeps {4..<1028} (fresh_arena arena) m"
proof -
  have ext: "a2_extended 1024 = 1032" "a2_extended 5632 = 5640" "a2_extended 3072 = 3080" "a2_extended 32 = 40"
    by (simp_all add: a2_extended_def)
  have uc: "a2_extended uc + 8 < 2087356" "uc \<le> USR_SIZE" using assms(2,3) a2_extended_bounds(3) [of uc] by simp_all
  have "os_memory (fresh_arena arena) ([] @ [(OS_SIZE - 4, False)])"
    using fresh_heaps(1) [OF assms(1)] assms(1) by (intro os_memoryI) (simp_all add: arena_ok_def)
  then obtain m1 where m1: "\<And>s. memory s = fresh_arena arena \<Longrightarrow> os_alloc s 1024 = Some (4, s\<lparr>memory := m1\<rparr>)"
    "os_memory m1 ([(1032, True)] @ [(2096116, False)])" "os_keeps {} (fresh_arena arena) m1" "keeps {4..<1028} (fresh_arena arena) m1"
    by (rule os_alloc_tail [of _ "[]" _ 1024]) (simp_all add: ext keeps_first)
  obtain m2 where m2: "\<And>s. memory s = m1 \<Longrightarrow> os_alloc s 5632 = Some (1036, s\<lparr>memory := m2\<rparr>)"
    "os_memory m2 ([(1032, True), (5640, True)] @ [(2090476, False)])" "os_keeps {} m1 m2" "keeps {4..<1028} m1 m2"
    by (rule os_alloc_tail [OF m1(2), of 5632]) (simp_all add: ext keeps_first)
  obtain m3 where m3: "\<And>s. memory s = m2 \<Longrightarrow> os_alloc s 3072 = Some (6676, s\<lparr>memory := m3\<rparr>)"
    "os_memory m3 ([(1032, True), (5640, True), (3080, True)] @ [(2087396, False)])" "os_keeps {} m2 m3" "keeps {4..<1028} m2 m3"
    by (rule os_alloc_tail [OF m2(2), of 3072]) (simp_all add: ext keeps_first)
  obtain m4 where m4: "\<And>s. memory s = m3 \<Longrightarrow> os_alloc s 32 = Some (9756, s\<lparr>memory := m4\<rparr>)"
    "os_memory m4 ([(1032, True), (5640, True), (3080, True), (40, True)] @ [(2087356, False)])" "os_keeps {} m3 m4" "keeps {4..<1028} m3 m4"
    by (rule os_alloc_tail [OF m3(2), of 32]) (simp_all add: ext keeps_first)
  obtain m5 where m5: "\<And>s. memory s = m4 \<Longrightarrow> os_alloc s uc = Some (9796, s\<lparr>memory := m5\<rparr>)"
    "os_memory m5 (started_blocks uc)" "os_keeps {} m4 m5" "keeps {4..<1028} m4 m5"
    by (rule os_alloc_tail [OF m4(2) _ assms(2) uc(2,1)]) (simp_all add: started_blocks_def keeps_first)
  have k: "keeps {4..<1028} m1 m5" using m2(4) m3(4) m4(4) m5(4) by (blast intro: keeps_trans)
  then have slots: "fresh_slots m1 4 = fresh_slots m5 4" by (rule fresh_slots_keeps)
  show thesis
  proof (rule that [of m5])
    show "do { s \<leftarrow> initializeMemory arena s; s \<leftarrow> initializeScheduler uc s; Some (s\<lparr>memoryInitialized := 1\<rparr>) } =
        Some (main_started m5 s)"
      using assms(4)
      by (simp add: initializeMemory_arena [OF assms(1)] initializeScheduler_def m1(1) m2(1) m3(1) m4(1) m5(1)
          Let_def mt_set_def mprotect_def main_started_def main_table_def slots fun_eq_iff)
    show "os_keeps {} (fresh_arena arena) m5"
      using m1(3) m2(3) m3(3) m4(3) m5(3) by (blast intro: os_keeps_trans)
    show "keeps {4..<1028} (fresh_arena arena) m5" using m1(4) k by (rule keeps_trans)
  qed (rule m5(2))
qed

text \<open>When the arena was delivered with these bytes cleared, all slots are NULL.\<close>

definition zero_arena :: a2_arena where
  "zero_arena = \<lparr>msize = 8392704, mbytes = (\<lambda>_. 0), swap_opens = True\<rparr>"

lemma zero_arena_ok [simp]: "arena_ok zero_arena"
  by (simp add: arena_ok_def zero_arena_def)

lemma zero_arena_slots:
  assumes "keeps {4..<1028} (fresh_arena zero_arena) m"
  shows "fresh_slots m 4 = Map.empty"
proof -
  have "mbytes m x = 0" if "4 \<le> x" "x < 1028" for x
    using assms that fresh_arena_bytes [of x zero_arena] by (simp add: keeps_def zero_arena_def)
  then show ?thesis by (auto simp: fresh_slots_def fun_eq_iff)
qed

end
