(* ===== verification/A2_Program.thy ===== *)
theory A2_Program
  imports A2_Start
begin

section \<open>Programs with one thread over the Assignment2 allocator\<close>

text \<open>
  From its first call of \<open>myallocate\<close> on, which sets up arena and scheduler, a program that creates no
  thread allocates, frees and writes in the user region while its pages are opened on demand.
  The contract of \<open>Heap_Client\<close> holds, and the structures of the library stay as they were.
\<close>

subsection \<open>The state before and after the first call\<close>

text \<open>The initial values of the globals; there is no arena yet.\<close>

definition a2_start :: a2_state where
  "a2_start = \<lparr>threads = Map.empty, contexts = Map.empty, stacks = Map.empty, qnodes = Map.empty,
     current = None, queue_priority_1 = None, queue_priority_2 = None, wait_queue = None,
     priority1_size = 0, priority2_size = 0, wait_size = 0, threadIDS = 1, sched_initialized = 0,
     timer_usec = 0, itimer = 0, vtimer = 0, memory = \<lparr>msize = 0, mbytes = (\<lambda>_. 0)\<rparr>, prot = (\<lambda>_. False),
     swapfile = \<lparr>msize = 0, mbytes = (\<lambda>_. 0)\<rparr>, pageTables = Map.empty, tables = Map.empty,
     masterTable = (\<lambda>_. CHR ''0''), mainEnqueued = 0, exited = None, file_open = False, memoryInitialized = 0\<rparr>"

text \<open>The main program of Assignment2/memgrind.c only initialises the arena.\<close>

definition memgrind_main :: "a2_arena \<Rightarrow> (int \<times> a2_state) option" where
  "memgrind_main arena = do { s \<leftarrow> initializeMemory arena a2_start; Some (0, s) }"

lemma memgrind_main_ok:
  assumes "arena_ok arena"
  obtains s where "memgrind_main arena = Some (0, s)" "memory s = fresh_arena arena"
    "heap_ok a2_tag (memory s) 0 (OS_SIZE - 4) [(OS_SIZE - 4, False)]"
    "heap_ok a2_tag (memory s) OS_SIZE (OS_SIZE + USR_SIZE) [(USR_SIZE, False)]" "prot s = (\<lambda>_. True)"
  using that fresh_heaps [OF assms] by (simp add: memgrind_main_def initializeMemory_arena [OF assms])

lemma main_started_ok:
  assumes "msize m = OS_SIZE + USR_SIZE + PAGESIZE"
  shows "usr_ok 0 (main_started m s)"
proof -
  have t: "pt_table (main_started m s) 0 = Some (6676, main_table)" "current_id (main_started m s) = Some 0"
    by (simp_all add: main_started_def pt_table_def current_id_def)
  then have "pt_get (main_started m s) 0 i = Some (main_table i)" if "0 \<le> i" "i < MEMORYPAGES" for i
    using that by (simp add: pt_get_def)
  then show ?thesis using t assms by (auto simp: usr_ok_def main_started_def main_table_def)
qed

lemma main_started_heaps:
  assumes "arena_ok arena" "os_memory m bs" "os_keeps {} (fresh_arena arena) m"
  shows "os_heap (main_started m s) bs" "usr_heap (main_started m s) [(USR_SIZE, False)]"
    "usr_ok 0 (main_started m s)"
proof -
  have m: "memory (main_started m s) = m" by (simp add: main_started_def)
  show "os_heap (main_started m s) bs" using assms(2) by (simp add: os_heap_def m)
  have sz: "msize m = msize (fresh_arena arena)"
    and eq: "\<And>x. OS_SIZE - 4 \<le> x \<Longrightarrow> mbytes m x = mbytes (fresh_arena arena) x"
    using assms(3) by (simp_all add: os_keeps_def keeps_def)
  note ok = fresh_heaps(2) [OF assms(1)]
  show "usr_heap (main_started m s) [(USR_SIZE, False)]" unfolding usr_heap_def m
    by (rule heap_ok_window [OF ok]) (use heap_ok_in_mem [OF ok] sz in \<open>simp_all add: eq\<close>)
  show "usr_ok 0 (main_started m s)" using sz assms(1) by (intro main_started_ok) (simp add: arena_ok_def)
qed

definition prog_inv :: "a2_arena \<Rightarrow> int \<Rightarrow> a2_state \<Rightarrow> blk list \<Rightarrow> bool" where
  "prog_inv arena uc s bs \<longleftrightarrow> arena_ok arena \<and> 0 < uc \<and> uc \<le> 2000000 \<and>
     (if memoryInitialized s = 0 then sched_initialized s = 0 \<and> bs = [(USR_SIZE, False)]
      else usr_ok 0 s \<and> usr_heap s bs \<and> os_heap s (started_blocks uc))"

lemma prog_inv_wf: "prog_inv arena uc s bs \<Longrightarrow> wf_blocks bs \<and> total bs = USR_SIZE"
  by (auto simp: prog_inv_def usr_heap_def heap_ok_def split: if_splits)

lemma prog_inv_used: "prog_inv arena uc s (xs @ (n, True) # ys) \<Longrightarrow> memoryInitialized s \<noteq> 0"
  by (cases xs) (auto simp: prog_inv_def)

text \<open>What opening pages and changing bytes of the user region leaves of the library.\<close>

lemma opens_same:
  assumes "opens u s s'"
  shows "memoryInitialized s' = memoryInitialized s" "pageTables s' = pageTables s"
  using assms unfolding opens_def by auto

lemma usr_step_os:
  assumes "os_heap s bs" "keeps (P \<union> - {OS_SIZE..<OS_SIZE + USR_SIZE}) (memory s) (memory s')"
  shows "os_heap s' bs"
  unfolding os_heap_def
proof (rule os_memory_bytes)
  show "os_memory (memory s) bs" using assms(1) by (simp add: os_heap_def)
  show "msize (memory s') = msize (memory s)" using assms(2) by (simp add: keeps_def)
  show "mbytes (memory s') x = mbytes (memory s) x" if "x < OS_SIZE" for x
    using assms(2) that unfolding keeps_def by (simp add: Ball_def)
qed

lemma prog_first:
  assumes "prog_inv arena uc s bs" "memoryInitialized s = 0"
  obtains m where "do { s \<leftarrow> initializeMemory arena s; s \<leftarrow> initializeScheduler uc s; Some (s\<lparr>memoryInitialized := 1\<rparr>) } =
      Some (main_started m s)" "prog_inv arena uc (main_started m s) bs"
    "memoryInitialized (main_started m s) = 1" "bs = [(USR_SIZE, False)]"
proof -
  have i: "arena_ok arena" "0 < uc" "uc \<le> 2000000" "sched_initialized s = 0" "bs = [(USR_SIZE, False)]"
    using assms by (simp_all add: prog_inv_def)
  obtain m where m: "do { s \<leftarrow> initializeMemory arena s; s \<leftarrow> initializeScheduler uc s; Some (s\<lparr>memoryInitialized := 1\<rparr>) } =
      Some (main_started m s)" "os_memory m (started_blocks uc)" "os_keeps {} (fresh_arena arena) m"
    by (rule initialize_all [OF i(1-4)])
  have mi: "memoryInitialized (main_started m s) = 1" by (simp add: main_started_def)
  show thesis
    using that [OF m(1) _ mi i(5)] main_started_heaps [OF i(1) m(2,3), of s] i mi by (simp add: prog_inv_def)
qed

lemma prog_alloc:
  assumes inv: "prog_inv arena uc s bs" and sz: "0 \<le> sz"
  obtains s' where "a2_myallocate arena uc s sz 999 = Some (map_option fst (fst (a2_alloc_spec USR_SIZE OS_SIZE sz bs)), s')"
    "prog_inv arena uc s' (snd (a2_alloc_spec USR_SIZE OS_SIZE sz bs))" "memoryInitialized s' \<noteq> 0"
    "\<forall>x \<in> payload OS_SIZE bs. mbytes (memory s') x = mbytes (memory s) x"
proof -
  let ?spec = "a2_alloc_spec USR_SIZE OS_SIZE sz bs"
  have "\<exists>s1. (if memoryInitialized s = 0 then
      do { s \<leftarrow> initializeMemory arena s; s \<leftarrow> initializeScheduler uc s; Some (s\<lparr>memoryInitialized := 1\<rparr>) } else Some s) = Some s1 \<and>
      prog_inv arena uc s1 bs \<and> memoryInitialized s1 \<noteq> 0 \<and> (\<forall>x \<in> payload OS_SIZE bs. mbytes (memory s1) x = mbytes (memory s) x)"
  proof (cases "memoryInitialized s = 0")
    case True
    show ?thesis by (rule prog_first [OF inv True]) (use True in auto)
  qed (use inv in auto)
  then obtain s1 where s1: "(if memoryInitialized s = 0 then
      do { s \<leftarrow> initializeMemory arena s; s \<leftarrow> initializeScheduler uc s; Some (s\<lparr>memoryInitialized := 1\<rparr>) } else Some s) = Some s1"
      "prog_inv arena uc s1 bs" "memoryInitialized s1 \<noteq> 0" "\<forall>x \<in> payload OS_SIZE bs. mbytes (memory s1) x = mbytes (memory s) x"
    by blast
  have i: "usr_ok 0 s1" "usr_heap s1 bs" "os_heap s1 (started_blocks uc)" "arena_ok arena" "0 < uc" "uc \<le> 2000000"
    using s1(2,3) by (simp_all add: prog_inv_def)
  obtain s2 where s2: "a2_allocate s1 sz 999 = Some (map_option fst (fst ?spec), s2)" "usr_ok 0 s2" "usr_heap s2 (snd ?spec)"
    "opens 0 s1 s2" "keeps (payload OS_SIZE bs \<union> - {OS_SIZE..<OS_SIZE + USR_SIZE}) (memory s1) (memory s2)"
    using user_alloc [OF i(1,2) sz] by blast
  show thesis
  proof (rule that [of s2])
    show "a2_myallocate arena uc s sz 999 = Some (map_option fst (fst ?spec), s2)"
      using s1(1) s2(1) by (simp add: a2_myallocate_def)
    show "memoryInitialized s2 \<noteq> 0" using opens_same [OF s2(4)] s1(3) by simp
    then show "prog_inv arena uc s2 (snd ?spec)"
      using s2(2,3) usr_step_os [OF i(3) s2(5)] i(4-6) by (simp add: prog_inv_def)
    show "\<forall>x \<in> payload OS_SIZE bs. mbytes (memory s2) x = mbytes (memory s) x"
      using s1(4) s2(5) by (simp add: keeps_def)
  qed
qed

lemma prog_free:
  assumes inv: "prog_inv arena uc s (xs @ (n, True) # ys)"
  obtains s' where "a2_mydeallocate s (Some (OS_SIZE + total xs + 4)) 999 = Some s'"
    "prog_inv arena uc s' (free_block xs n ys)" "memoryInitialized s' \<noteq> 0"
    "\<forall>x \<in> payload OS_SIZE (free_block xs n ys). mbytes (memory s') x = mbytes (memory s) x"
proof -
  note mi = prog_inv_used [OF inv]
  have i: "usr_ok 0 s" "usr_heap s (xs @ (n, True) # ys)" "os_heap s (started_blocks uc)" "arena_ok arena" "0 < uc" "uc \<le> 2000000"
    using inv mi by (simp_all add: prog_inv_def)
  obtain s' where s': "a2_mydeallocate s (Some (OS_SIZE + total xs + 4)) 999 = Some s'" "usr_ok 0 s'"
    "usr_heap s' (free_block xs n ys)" "opens 0 s s'"
    "keeps (payload OS_SIZE xs \<union> payload (OS_SIZE + total xs + n) ys \<union> - {OS_SIZE..<OS_SIZE + USR_SIZE}) (memory s) (memory s')"
    using user_free [OF i(1,2)] by blast
  have mi': "memoryInitialized s' \<noteq> 0" using opens_same [OF s'(4)] mi by simp
  show thesis
    by (rule that [OF s'(1) _ mi'])
      (use s'(2,3,5) usr_step_os [OF i(3) s'(5)] i(4-6) mi' in \<open>auto simp: prog_inv_def keeps_def payload_free_block\<close>)
qed

text \<open>A store of the program itself; it may fault and be repeated.\<close>

definition a2_poke :: "a2_state \<Rightarrow> int \<Rightarrow> byte \<Rightarrow> a2_state option" where
  "a2_poke s x v = do { s \<leftarrow> touch s x; m \<leftarrow> store8 (memory s) x (uint v); Some (s\<lparr>memory := m\<rparr>) }"

lemma prog_poke:
  assumes inv: "prog_inv arena uc s bs" and x: "x \<in> payload OS_SIZE bs"
  obtains s' where "a2_poke s x v = Some s'" "prog_inv arena uc s' bs"
    "mbytes (memory s') = (mbytes (memory s))(x := v)"
proof -
  have mi: "memoryInitialized s \<noteq> 0" using inv x by (auto simp: prog_inv_def split: if_splits)
  then have i: "usr_ok 0 s" "usr_heap s bs" "os_heap s (started_blocks uc)" "arena_ok arena" "0 < uc" "uc \<le> 2000000"
    using inv by (simp_all add: prog_inv_def)
  have wf: "wf_blocks bs" "OS_SIZE + total bs = OS_SIZE + USR_SIZE" using i(2) by (simp_all add: usr_heap_def heap_ok_def)
  then have b: "OS_SIZE + 4 \<le> x" "x < OS_SIZE + USR_SIZE - 4" using payload_bounds [OF wf(1) x] by simp_all
  have xm: "0 \<le> x" "x < msize (memory s)" using b i(1) by (simp_all add: usr_ok_def)
  obtain s1 where s1: "touch s x = Some s1" "opens 0 s s1" "memory s1 = memory s" by (rule touch_usr [OF i(1) xm])
  let ?m = "(memory s1)\<lparr>mbytes := (mbytes (memory s1))(x := v)\<rparr>"
  let ?s = "s1\<lparr>memory := ?m\<rparr>"
  have ok1: "usr_ok 0 s1" using opens_ok [OF s1(2) i(1)] s1(3) by simp
  then have "opens 0 s1 ?s" by (intro opens_refl) (simp add: usr_ok_def)
  then have "usr_ok 0 ?s" by (rule opens_ok) (use ok1 in simp_all)
  moreover have "usr_heap ?s bs" unfolding usr_heap_def
    by (rule heap_ok_payload_write [OF i(2) [unfolded usr_heap_def]])
      (use x s1(3) in \<open>auto simp: writes_only_def\<close>)
  moreover have "os_heap ?s (started_blocks uc)"
    by (rule usr_step_os [OF i(3), of "{}"]) (use s1(3) b in \<open>auto simp: keeps_def\<close>)
  moreover have "memoryInitialized ?s \<noteq> 0" using opens_same [OF s1(2)] mi by simp
  ultimately have "prog_inv arena uc ?s bs" using i by (simp add: prog_inv_def)
  moreover have "a2_poke s x v = Some ?s"
    using s1 xm by (simp add: a2_poke_def store8_def in_mem_def)
  ultimately show thesis using s1(3) by (intro that [of ?s]) simp_all
qed

lemma alloc_spec_serves:
  assumes "0 \<le> sz"
  shows "fst (a2_alloc_spec US lo sz bs) = None \<and> snd (a2_alloc_spec US lo sz bs) = bs \<or>
    (\<exists>xs n ys e k. bs = xs @ (n, False) # ys \<and> serves sz e n \<and>
       fst (a2_alloc_spec US lo sz bs) = Some (lo + total xs + 4, k) \<and> snd (a2_alloc_spec US lo sz bs) = xs @ place e n @ ys)"
proof (cases "sz = 0 \<or> sz > US \<or> first_fit (a2_extended sz) bs = None")
  case False
  then obtain xs n ys where f: "0 < sz" "first_fit (a2_extended sz) bs = Some (xs, n, ys)" using assms by fastforce
  have bs: "bs = xs @ (n, False) # ys" "a2_extended sz \<le> n" using first_fit_Some [OF f(2)] by auto
  have e: "sz + 8 \<le> a2_extended sz" by (simp add: a2_extended_def Let_def)
  show ?thesis
  proof (cases "n = a2_extended sz")
    case True
    then show ?thesis using f False by (simp add: a2_alloc_spec_def)
  next
    case n: False
    have "serves sz (a2_extended sz) n" using f(1) e bs(2) by (simp add: serves_def)
    moreover have "fst (a2_alloc_spec US lo sz bs) = Some (lo + total xs + 4, if n - a2_extended sz > 8 then a2_extended sz else n)"
      "snd (a2_alloc_spec US lo sz bs) = xs @ place (a2_extended sz) n @ ys"
      using f False n by (simp_all add: a2_alloc_spec_def)
    ultimately show ?thesis using bs(1) by blast
  qed
qed (auto simp: a2_alloc_spec_def)

interpretation prog: heap_client "prog_inv arena uc" "\<lambda>s sz. a2_myallocate arena uc s sz 999"
  "\<lambda>s p. a2_mydeallocate s (Some p) 999" a2_poke "\<lambda>s. mbytes (memory s)" OS_SIZE USR_SIZE for arena uc
proof
  fix s bs sz assume inv: "prog_inv arena uc s bs" and sz: "(0::int) \<le> sz"
  let ?spec = "a2_alloc_spec USR_SIZE OS_SIZE sz bs"
  obtain s' where s': "a2_myallocate arena uc s sz 999 = Some (map_option fst (fst ?spec), s')"
    "prog_inv arena uc s' (snd ?spec)" "\<forall>x \<in> payload OS_SIZE bs. mbytes (memory s') x = mbytes (memory s) x"
    by (rule prog_alloc [OF inv sz])
  then show "\<exists>r s'. a2_myallocate arena uc s sz 999 = Some (r, s') \<and> (r = None \<and> prog_inv arena uc s' bs \<or>
      (\<exists>xs n ys e. bs = xs @ (n, False) # ys \<and> serves sz e n \<and> r = Some (OS_SIZE + total xs + 4) \<and>
         prog_inv arena uc s' (xs @ place e n @ ys))) \<and>
      (\<forall>x \<in> payload OS_SIZE bs. mbytes (memory s') x = mbytes (memory s) x)"
    using alloc_spec_serves [OF sz, of USR_SIZE OS_SIZE bs]
    by (elim disjE conjE exE; intro exI [of _ s'] exI [of _ "map_option fst (fst ?spec)"] conjI) auto
next
  fix s xs n ys assume inv: "prog_inv arena uc s (xs @ (n, True) # ys)"
  show "\<exists>s'. a2_mydeallocate s (Some (OS_SIZE + total xs + 4)) 999 = Some s' \<and> prog_inv arena uc s' (free_block xs n ys) \<and>
      (\<forall>x \<in> payload OS_SIZE (free_block xs n ys). mbytes (memory s') x = mbytes (memory s) x)"
    by (rule prog_free [OF inv]) blast
next
  fix s bs x v assume inv: "prog_inv arena uc s bs" and x: "x \<in> payload OS_SIZE bs"
  show "\<exists>s'. a2_poke s x v = Some s' \<and> prog_inv arena uc s' bs \<and>
      (\<forall>y \<in> payload OS_SIZE bs. mbytes (memory s') y = (if y = x then v else mbytes (memory s) y))"
    by (rule prog_poke [OF inv x, of v]) simp
qed (use prog_inv_wf in auto)

subsection \<open>Histories\<close>

inductive a2_run :: "a2_arena \<Rightarrow> int \<Rightarrow> a2_state \<Rightarrow> (int \<rightharpoonup> int) \<Rightarrow> bool" for arena uc where
  start: "a2_run arena uc a2_start Map.empty"
| malloc: "a2_run arena uc s live \<Longrightarrow> 0 \<le> sz \<Longrightarrow> a2_myallocate arena uc s sz 999 = Some (Some p, s') \<Longrightarrow>
    a2_run arena uc s' (live(p \<mapsto> sz))"
| malloc_null: "a2_run arena uc s live \<Longrightarrow> 0 \<le> sz \<Longrightarrow> a2_myallocate arena uc s sz 999 = Some (None, s') \<Longrightarrow>
    a2_run arena uc s' live"
| free: "a2_run arena uc s live \<Longrightarrow> live p = Some sz \<Longrightarrow> a2_mydeallocate s (Some p) 999 = Some s' \<Longrightarrow>
    a2_run arena uc s' (live(p := None))"
| free_null: "a2_run arena uc s live \<Longrightarrow> a2_mydeallocate s None 999 = Some s' \<Longrightarrow> a2_run arena uc s' live"
| poke: "a2_run arena uc s live \<Longrightarrow> live p = Some sz \<Longrightarrow> p \<le> x \<Longrightarrow> x < p + sz \<Longrightarrow> a2_poke s x v = Some s' \<Longrightarrow>
    a2_run arena uc s' live"

lemma prog_inv_start:
  "arena_ok arena \<Longrightarrow> 0 < uc \<Longrightarrow> uc \<le> 2000000 \<Longrightarrow> prog_inv arena uc a2_start [(USR_SIZE, False)]"
  by (simp add: prog_inv_def a2_start_def)

lemma a2_run_hist:
  assumes "a2_run arena uc s live" "arena_ok arena" "0 < uc" "uc \<le> 2000000"
  shows "\<exists>bs. prog.hist arena uc s live bs"
  using assms(1)
proof (induction rule: a2_run.induct)
  case start
  show ?case using prog.hist_start [OF prog_inv_start [OF assms(2-4)]] by blast
next
  case (malloc s live sz p s')
  then obtain bs where "prog.hist arena uc s live bs" by blast
  from prog.hist_alloc [OF this malloc(2,3)] show ?case by (simp only: option.case)
next
  case (malloc_null s live sz s')
  then obtain bs where "prog.hist arena uc s live bs" by blast
  from prog.hist_alloc [OF this malloc_null(2,3)] show ?case by simp
next
  case (free s live p sz s')
  then show ?case using prog.hist_free by blast
next
  case (free_null s live s')
  then show ?case by (simp add: a2_mydeallocate_def a2_deallocate_def)
next
  case (poke s live p sz x v s')
  then show ?case using prog.hist_poke by blast
qed

end
