(* ===== verification/A2_Alloc_Props.thy ===== *)
theory A2_Alloc_Props
  imports A2_Program
begin

section \<open>Properties of the Assignment2 allocator\<close>

text \<open>
  The theorems about \<open>myallocate\<close> and \<open>mydeallocate\<close>: on the region of the operating system, on the user
  region with its protected pages, and over the histories of a program with one thread.
\<close>

subsection \<open>A concrete program\<close>

text \<open>A state after the first call, which asked for \<open>sz\<close> bytes.\<close>

lemma first_block:
  assumes "0 < sz" "sz \<le> 3000000"
  obtains s where "a2_myallocate zero_arena 936 a2_start sz 999 = Some (Some 2097156, s)"
    "prog_inv zero_arena 936 s [(a2_extended sz, True), (USR_SIZE - a2_extended sz, False)]" "memoryInitialized s \<noteq> 0"
proof -
  have e: "a2_extended sz \<le> 3000012" using a2_extended_bounds(3) [of sz] assms by simp
  then have sp: "a2_alloc_spec USR_SIZE OS_SIZE sz [(USR_SIZE, False)] =
      (Some (2097156, a2_extended sz), [(a2_extended sz, True), (USR_SIZE - a2_extended sz, False)])"
    using assms by (simp add: a2_alloc_spec_def place_def)
  have i: "prog_inv zero_arena 936 a2_start [(USR_SIZE, False)]" by (simp add: prog_inv_start)
  show thesis by (rule prog_alloc [OF i, of sz]) (use assms that sp in auto)
qed

lemma first_block_inv:
  assumes "0 < sz" "sz \<le> 3000000"
  obtains s where "a2_myallocate zero_arena 936 a2_start sz 999 = Some (Some 2097156, s)"
    "usr_ok 0 s" "usr_heap s [(a2_extended sz, True), (USR_SIZE - a2_extended sz, False)]"
    "os_heap s (started_blocks 936)"
  by (rule first_block [OF assms]) (use that in \<open>auto simp: prog_inv_def\<close>)

lemma a2_extended_values: "a2_extended 1 = 12" "a2_extended 5000 = 5008" "a2_extended 936 = 944" "a2_extended 32 = 40"
  by (simp_all add: a2_extended_def)

subsection \<open>The region of the operating system\<close>

text \<open>a call of \<open>myallocate\<close> by the library itself (any caller identifier but 999) takes the first
  free block that is large enough, splits it when more than 8 bytes are left, and returns the
  address behind its header, or NULL when there is none or the size is 0 or above \<open>USR_SIZE\<close>; the
  region keeps its form, and no byte of a payload, of the user region or of any other part of
  the state changes.\<close>

theorem a2_os_alloc_refines:
  assumes "os_heap s bs" and "0 \<le> sz" and "caller \<noteq> 999"
  shows "\<exists>s'. a2_allocate s sz caller = Some (map_option fst (fst (a2_alloc_spec USR_SIZE 0 sz bs)), s') \<and>
    os_heap s' (snd (a2_alloc_spec USR_SIZE 0 sz bs)) \<and> os_step (payload 0 bs) s s'"
  by (rule os_allocate [OF assms(1) [unfolded os_heap_def] assms(2)])
    (use assms(3) in \<open>auto simp: os_heap_def os_step_def\<close>)

lemma a2_os_alloc_refines_witness:
  "\<exists>s s'. os_heap s (started_blocks 936) \<and> a2_allocate s 32 69 = Some (Some 10740, s') \<and>
     os_heap s' [(1032, True), (5640, True), (3080, True), (40, True), (944, True), (40, True), (2086372, False)]"
proof -
  obtain s where s: "os_heap s (started_blocks 936)" by (rule first_block_inv [of 1]) auto
  have sp: "a2_alloc_spec USR_SIZE 0 32 (started_blocks 936) = (Some (10740, 40),
      [(1032, True), (5640, True), (3080, True), (40, True), (944, True), (40, True), (2086372, False)])"
    by (simp add: started_blocks_def a2_alloc_spec_def a2_extended_values place_def)
  show ?thesis using a2_os_alloc_refines [OF s, of 32 69] s by (auto simp: sp)
qed

text \<open>freeing a block of the operating-system region other than its first makes it free and
  merges it with the free neighbours on both sides; the payloads of the other blocks and
  everything outside the region are untouched.\<close>

theorem a2_os_free_refines:
  assumes "os_heap s (xs @ (n, a) # ys)" and "xs \<noteq> []" and "caller \<noteq> 999"
  shows "\<exists>s'. a2_mydeallocate s (Some (total xs + 4)) caller = Some s' \<and>
    os_heap s' (free_block xs n ys) \<and> os_step (payload 0 xs \<union> payload (total xs + n) ys) s s'"
  by (rule os_deallocate [OF assms(1) [unfolded os_heap_def] assms(2)])
    (use assms(3) in \<open>auto simp: a2_mydeallocate_def os_heap_def os_step_def\<close>)

lemma a2_os_free_refines_witness:
  "\<exists>s s'. os_heap s (started_blocks 936) \<and> a2_mydeallocate s (Some 9796) 69 = Some s' \<and>
     os_heap s' [(1032, True), (5640, True), (3080, True), (40, True), (2087356, False)]"
proof -
  obtain s where s: "os_heap s (started_blocks 936)" by (rule first_block_inv [of 1]) auto
  have b: "started_blocks 936 =
      [(1032, True), (5640, True), (3080, True), (40, True)] @ (944, True) # [(2086412, False)]"
    by (simp add: started_blocks_def a2_extended_values)
  show ?thesis
    using a2_os_free_refines [OF s [unfolded b], of 69] s
    by (auto simp: free_block_def merge_left_def merge_right_def)
qed

subsection \<open>The user region\<close>

text \<open>C11: A program's call of \<open>myallocate\<close> in the user region, while its thread is the only one with frames in
  the arena (then no frame has another owner, and the handler only opens pages): whatever pages are closed,
  the call returns what the specification says, the first free block that holds the extended size,
  split when more than 8 bytes are left, or NULL, also when that block fits exactly; every page of the
  block is then open and stands in its place in the thread's page table; the heap keeps its form, no byte
  outside the region or in an allocated payload changes, and nothing but memory, protections, flags and the
  thread's own table does.\<close>

theorem a2_user_alloc_refines:
  assumes "usr_ok u s" and "usr_heap s bs" and "0 \<le> sz"
  shows "\<exists>s'. a2_allocate s sz 999 = Some (map_option fst (fst (a2_alloc_spec USR_SIZE OS_SIZE sz bs)), s') \<and>
    usr_ok u s' \<and> usr_heap s' (snd (a2_alloc_spec USR_SIZE OS_SIZE sz bs)) \<and> opens u s s' \<and>
    keeps (payload OS_SIZE bs \<union> - {OS_SIZE..<OS_SIZE + USR_SIZE}) (memory s) (memory s') \<and>
    (\<forall>(p, k) \<in> set_option (fst (a2_alloc_spec USR_SIZE OS_SIZE sz bs)).
       \<forall>q \<in> block_pages p k. prot s' q \<and> pt_get s' u q = Some q)"
  by (rule user_alloc [OF assms])

lemma a2_user_alloc_refines_witness:
  "\<exists>s s'. usr_ok 0 s \<and> a2_allocate s 5000 999 = Some (Some 2097168, s') \<and>
     pt_get s' 0 1 = Some 1 \<and> usr_heap s' [(12, True), (5008, True), (6286436, False)]"
proof -
  obtain s where s: "usr_ok 0 s" "usr_heap s [(12, True), (6291444, False)]"
    by (rule first_block_inv [of 1]) (auto simp: a2_extended_values)
  have sp: "a2_alloc_spec USR_SIZE OS_SIZE 5000 [(12, True), (6291444, False)] =
      (Some (2097168, 5008), [(12, True), (5008, True), (6286436, False)])"
    by (simp add: a2_alloc_spec_def a2_extended_values place_def)
  obtain s' where s': "a2_allocate s 5000 999 = Some (Some 2097168, s')"
    "usr_heap s' [(12, True), (5008, True), (6286436, False)]"
    "\<forall>q \<in> block_pages 2097168 5008. prot s' q \<and> pt_get s' 0 q = Some q"
    using a2_user_alloc_refines [OF s, of 5000] unfolding sp by auto
  moreover have "1 \<in> block_pages 2097168 5008" by (simp add: block_pages_def)
  ultimately show ?thesis using s(1) by blast
qed

text \<open>Freeing any block of the user region makes it free and merges it with its free neighbours, whatever
  pages are closed; the payloads of the other blocks and every byte outside the region stay.\<close>

theorem a2_user_free_refines:
  assumes "usr_ok u s" and "usr_heap s (xs @ (n, a) # ys)"
  shows "\<exists>s'. a2_mydeallocate s (Some (OS_SIZE + total xs + 4)) 999 = Some s' \<and>
    usr_ok u s' \<and> usr_heap s' (free_block xs n ys) \<and> opens u s s' \<and>
    keeps (payload OS_SIZE xs \<union> payload (OS_SIZE + total xs + n) ys \<union> - {OS_SIZE..<OS_SIZE + USR_SIZE})
      (memory s) (memory s')"
  by (rule user_free [OF assms])

lemma a2_user_free_refines_witness:
  "\<exists>s s'. usr_ok 0 s \<and> a2_mydeallocate s (Some 2097156) 999 = Some s' \<and> usr_heap s' [(6291456, False)]"
proof -
  obtain s where s: "usr_ok 0 s" "usr_heap s ([] @ (12, True) # [(6291444, False)])"
    by (rule first_block_inv [of 1]) (auto simp: a2_extended_values)
  show ?thesis using a2_user_free_refines [OF s] s(1)
    by (auto simp: free_block_def merge_left_def merge_right_def)
qed

text \<open>C35: A free block that fits exactly is refused: a program that allocates twice the same size, frees the
  first area and asks for that size again gets NULL, although the freed block is large enough and
  megabytes behind it are free.\<close>

theorem a2_exact_fit_refused:
  assumes "arena_ok arena" and "0 < uc" and "uc \<le> 2000000" and "0 < sz" and "sz \<le> 3000000"
  shows "\<exists>s1 s2 s3 s4. a2_myallocate arena uc a2_start sz 999 = Some (Some 2097156, s1) \<and>
    a2_myallocate arena uc s1 sz 999 = Some (Some (2097156 + a2_extended sz), s2) \<and>
    a2_mydeallocate s2 (Some 2097156) 999 = Some s3 \<and>
    a2_myallocate arena uc s3 sz 999 = Some (None, s4)"
proof -
  let ?e = "a2_extended sz" and ?al = "\<lambda>s. a2_myallocate arena uc s sz 999"
  have e: "12 \<le> ?e" "?e \<le> 3000012" using a2_extended_bounds(1,3) [of sz] assms(4,5) by simp_all
  have sp: "a2_alloc_spec USR_SIZE OS_SIZE sz [(USR_SIZE, False)] = (Some (2097156, ?e), [(?e, True), (USR_SIZE - ?e, False)])"
    "a2_alloc_spec USR_SIZE OS_SIZE sz [(?e, True), (USR_SIZE - ?e, False)] =
      (Some (2097156 + ?e, ?e), [(?e, True), (?e, True), (USR_SIZE - ?e - ?e, False)])"
    "a2_alloc_spec USR_SIZE OS_SIZE sz [(?e, False), (?e, True), (USR_SIZE - ?e - ?e, False)] =
      (None, [(?e, False), (?e, True), (USR_SIZE - ?e - ?e, False)])"
    using assms(4,5) e by (simp_all add: a2_alloc_spec_def place_def)
  have i: "prog_inv arena uc a2_start [(USR_SIZE, False)]" using assms by (simp add: prog_inv_start)
  have sz: "0 \<le> sz" using assms(4) by simp
  obtain s1 where s1: "?al a2_start = Some (Some 2097156, s1)"
    "prog_inv arena uc s1 [(?e, True), (USR_SIZE - ?e, False)]"
    by (rule prog_alloc [OF i sz, unfolded sp(1)]) simp
  obtain s2 where s2: "?al s1 = Some (Some (2097156 + ?e), s2)"
    "prog_inv arena uc s2 ([] @ (?e, True) # [(?e, True), (USR_SIZE - ?e - ?e, False)])"
    by (rule prog_alloc [OF s1(2) sz, unfolded sp(2)]) simp
  obtain s3 where s3: "a2_mydeallocate s2 (Some 2097156) 999 = Some s3"
    "prog_inv arena uc s3 [(?e, False), (?e, True), (USR_SIZE - ?e - ?e, False)]"
    by (rule prog_free [OF s2(2)]) (auto simp: free_block_def merge_left_def merge_right_def)
  obtain s4 where "?al s3 = Some (None, s4)" by (rule prog_alloc [OF s3(2) sz, unfolded sp(3)]) simp
  then show ?thesis using s1(1) s2(1) s3(1) by blast
qed

lemma a2_exact_fit_refused_witness:
  "\<exists>s1 s2 s3 s4. a2_myallocate zero_arena 936 a2_start 1 999 = Some (Some 2097156, s1) \<and>
    a2_myallocate zero_arena 936 s1 1 999 = Some (Some 2097168, s2) \<and>
    a2_mydeallocate s2 (Some 2097156) 999 = Some s3 \<and>
    a2_myallocate zero_arena 936 s3 1 999 = Some (None, s4)"
  using a2_exact_fit_refused [of zero_arena 936 1] by (simp add: a2_extended_values)

subsection \<open>Histories\<close>

text \<open>C3: In every history of a program with one thread that starts with the globals' initial values, every
  allocation of any size, every release of an area the program holds and every store into one
  returns, page faults included; the areas lie in the user region, are 4-byte aligned and never
  overlap; and once the arena exists the structures of the library are as the first call left them.\<close>

theorem a2_program_safety:
  assumes "a2_run arena uc s live" and "arena_ok arena" and "0 < uc" and "uc \<le> 2000000"
  shows "(\<forall>sz \<ge> 0. a2_myallocate arena uc s sz 999 \<noteq> None) \<and>
    (\<forall>p a. live p = Some a \<longrightarrow> a2_mydeallocate s (Some p) 999 \<noteq> None \<and>
       (\<forall>x v. p \<le> x \<and> x < p + a \<longrightarrow> a2_poke s x v \<noteq> None) \<and>
       OS_SIZE + 4 \<le> p \<and> p + a + 4 \<le> OS_SIZE + USR_SIZE \<and> 4 dvd p \<and>
       (\<forall>q b. live q = Some b \<and> q \<noteq> p \<longrightarrow> p + a + 8 \<le> q \<or> q + b + 8 \<le> p)) \<and>
    (memoryInitialized s \<noteq> 0 \<longrightarrow> os_heap s (started_blocks uc))"
proof -
  obtain bs where h: "prog.hist arena uc s live bs" using a2_run_hist [OF assms] by blast
  note calls = prog.calls_return [OF h] and areas = prog.areas [OF h]
  have "memoryInitialized s \<noteq> 0 \<longrightarrow> os_heap s (started_blocks uc)"
    using h by (simp add: prog.hist_def prog_inv_def)
  moreover have "a2_mydeallocate s (Some p) 999 \<noteq> None" if "live p = Some a" for p a using calls(2) [of p] that by auto
  moreover have "a2_poke s x v \<noteq> None" if "live p = Some a" "p \<le> x" "x < p + a" for p a x v
    using calls(3) [OF that] by auto
  ultimately show ?thesis using calls(1) areas by simp
qed

lemma a2_run_first: "\<exists>s. a2_run zero_arena 936 s [2097156 \<mapsto> 1] \<and> memoryInitialized s \<noteq> 0"
proof -
  obtain s where s: "a2_myallocate zero_arena 936 a2_start 1 999 = Some (Some 2097156, s)" "memoryInitialized s \<noteq> 0"
    by (rule first_block [of 1]) simp_all
  from a2_run.malloc [OF a2_run.start _ s(1)] s(2) show ?thesis by auto
qed

lemma a2_program_safety_witness:
  "\<exists>s. a2_run zero_arena 936 s [2097156 \<mapsto> 1] \<and> a2_mydeallocate s (Some 2097156) 999 \<noteq> None \<and>
     a2_poke s 2097156 7 \<noteq> None \<and> os_heap s (started_blocks 936)"
proof -
  obtain s where s: "a2_run zero_arena 936 s [2097156 \<mapsto> 1]" "memoryInitialized s \<noteq> 0" using a2_run_first by blast
  have "a2_mydeallocate s (Some 2097156) 999 \<noteq> None \<and> (\<forall>x v. 2097156 \<le> x \<and> x < 2097156 + 1 \<longrightarrow> a2_poke s x v \<noteq> None)"
    "os_heap s (started_blocks 936)"
    using a2_program_safety [OF s(1) zero_arena_ok, THEN conjunct2, THEN conjunct1, rule_format, of 2097156 1]
      a2_program_safety [OF s(1) zero_arena_ok, THEN conjunct2, THEN conjunct2] s(2) by simp_all
  then show ?thesis using s(1) by (intro exI [of _ s]) simp
qed

text \<open>C24: In every such history the bytes of an area change only by the program's own stores into it: an
  allocation, the release of another area and a store elsewhere leave every byte of it.\<close>

theorem a2_program_contents:
  assumes "a2_run arena uc s live" and "arena_ok arena" and "0 < uc" and "uc \<le> 2000000"
    and "live q = Some b" and "q \<le> x" and "x < q + b"
  shows "(\<forall>sz r s'. 0 \<le> sz \<and> a2_myallocate arena uc s sz 999 = Some (r, s') \<longrightarrow>
       mbytes (memory s') x = mbytes (memory s) x) \<and>
    (\<forall>p s'. p \<in> dom live \<and> p \<noteq> q \<and> a2_mydeallocate s (Some p) 999 = Some s' \<longrightarrow>
       mbytes (memory s') x = mbytes (memory s) x) \<and>
    (\<forall>p a y v s'. live p = Some a \<and> p \<le> y \<and> y < p + a \<and> a2_poke s y v = Some s' \<longrightarrow>
       mbytes (memory s') x = (if x = y then v else mbytes (memory s) x))"
proof -
  obtain bs where "prog.hist arena uc s live bs" using a2_run_hist [OF assms(1-4)] by blast
  note kept = prog.contents_kept [OF this assms(5-7)]
  show ?thesis using kept by blast
qed

lemma a2_program_contents_witness:
  "\<exists>s s'. a2_run zero_arena 936 s [2097156 \<mapsto> 1] \<and> a2_poke s 2097156 7 = Some s' \<and>
     mbytes (memory s') 2097156 = 7"
proof -
  obtain s where s: "a2_run zero_arena 936 s [2097156 \<mapsto> 1]" using a2_run_first by blast
  obtain bs where "prog.hist zero_arena 936 s [2097156 \<mapsto> 1] bs" using a2_run_hist [OF s] by auto
  then obtain s' where s': "a2_poke s 2097156 7 = Some s'"
    using prog.calls_return(3) [of zero_arena 936 s "[2097156 \<mapsto> 1]" bs 2097156 1 2097156 7] by auto
  have "\<forall>p a y v s'. [2097156 \<mapsto> 1] p = Some a \<and> p \<le> y \<and> y < p + a \<and> a2_poke s y v = Some s' \<longrightarrow>
       mbytes (memory s') 2097156 = (if 2097156 = y then v else mbytes (memory s) 2097156)"
    using a2_program_contents [OF s, of 2097156 1 2097156] by simp
  from this [rule_format, of 2097156 1 2097156 7 s'] have "mbytes (memory s') 2097156 = 7" using s' by simp
  then show ?thesis using s s' by blast
qed

end
