(* ===== verification/A2_Structures.thy ===== *)
theory A2_Structures
  imports A2_Yield A2_Runs
begin

section \<open>The structures of the library during page moves\<close>

text \<open>
  The pages of the threads move in the user region and in the swap file.  The operating-system
  region, the pointers to the page tables and the flags of the library stay as they are during every
  page move, and so during a whole yield.
\<close>

subsection \<open>What is kept\<close>

definition os_same :: "a2_state \<Rightarrow> a2_state \<Rightarrow> bool" where
  "os_same s s' \<longleftrightarrow> msize (memory s') = msize (memory s) \<and>
     (\<forall>x < OS_SIZE. mbytes (memory s') x = mbytes (memory s) x) \<and>
     pageTables s' = pageTables s \<and> dom (tables s') = dom (tables s) \<and>
     memoryInitialized s' = memoryInitialized s \<and> mainEnqueued s' = mainEnqueued s"

named_theorems os_frame \<comment> \<open>operations that keep the structures of the library\<close>

lemma os_same_refl [simp]: "os_same s s"
  by (simp add: os_same_def)

lemma os_same_trans: "os_same s s1 \<Longrightarrow> os_same s1 s2 \<Longrightarrow> os_same s s2"
  by (simp add: os_same_def)

lemma os_same_sched: "sched.more s' = sched.more s \<Longrightarrow> os_same s s'"
  by (cases s; cases s'; simp add: os_same_def)

lemma tables_os [os_frame]:
  "mt_set s i c = Some s' \<Longrightarrow> os_same s s'"
  "pt_set s ti i v = Some s' \<Longrightarrow> os_same s s'"
  "mprotect s p acc = Some s' \<Longrightarrow> os_same s s'"
  by (auto simp: mt_set_def pt_set_def mprotect_def pt_table_def os_same_def bind_eq_Some_conv split: if_splits)

lemma mprotect_page: "mprotect s p acc = Some s' \<Longrightarrow> OS_SIZE \<le> user_page p \<and> memory s' = memory s"
  by (auto simp: mprotect_def user_page_def split: if_splits)

lemma memory_os:
  "memset m d v n = Some m' \<Longrightarrow> OS_SIZE \<le> d \<Longrightarrow> msize m' = msize m \<and> (\<forall>x < OS_SIZE. mbytes m' x = mbytes m x)"
  "memcpy m d e n = Some m' \<Longrightarrow> OS_SIZE \<le> d \<Longrightarrow> msize m' = msize m \<and> (\<forall>x < OS_SIZE. mbytes m' x = mbytes m x)"
  by (auto simp: memset_def memcpy_def cp_def split: if_splits)

lemma file_os:
  "file_read s q d = Some s' \<Longrightarrow> OS_SIZE \<le> d \<Longrightarrow> os_same s s'"
  "file_write s q d = Some s' \<Longrightarrow> os_same s s' \<and> memory s' = memory s"
  by (auto simp: file_read_def file_write_def os_same_def cp_def split: if_splits)

lemma os_same_memory:
  "msize m = msize (memory s) \<Longrightarrow> \<forall>x < OS_SIZE. mbytes m x = mbytes (memory s) x \<Longrightarrow> os_same s (s\<lparr>memory := m\<rparr>)"
  by (simp add: os_same_def)

lemma swap_in_os [os_frame]:
  assumes "swap_in s v d = Some s'"
  shows "os_same s s'"
proof -
  let ?move = "\<lambda>s. if v < MEMORYPAGES then
      do { s \<leftarrow> mprotect s v True; m \<leftarrow> memcpy (memory s) (user_page d) (user_page v) PAGESIZE;
           m \<leftarrow> memset m (user_page v) 0 PAGESIZE; Some (s\<lparr>memory := m\<rparr>) }
    else if v < TOTALPAGES then file_read s (s16 (v - MEMORYPAGES) * PAGESIZE) (user_page d) else Some s"
  obtain s1 s2 where s: "mprotect s d True = Some s1" "?move s1 = Some s2" "mprotect s2 d True = Some s'"
    using assms unfolding swap_in_def Let_def bind_eq_Some_conv by blast
  have d: "OS_SIZE \<le> user_page d" using mprotect_page [OF s(1)] by simp
  have "os_same s1 s2"
  proof (cases "v < MEMORYPAGES")
    case True
    then obtain s3 m m' where m: "mprotect s1 v True = Some s3" "memcpy (memory s3) (user_page d) (user_page v) PAGESIZE = Some m"
      "memset m (user_page v) 0 PAGESIZE = Some m'" "s2 = s3\<lparr>memory := m'\<rparr>"
      using s(2) by (auto simp: bind_eq_Some_conv)
    have "os_same s3 s2" unfolding m(4)
      by (rule os_same_memory) (use memory_os(2) [OF m(2) d] memory_os(1) [OF m(3)] mprotect_page [OF m(1)] in simp_all)
    then show ?thesis using tables_os(3) [OF m(1)] os_same_trans by blast
  next
    case False
    then show ?thesis using s(2) file_os(1) [OF _ d] by (auto split: if_splits)
  qed
  then show ?thesis using tables_os(3) [OF s(1)] tables_os(3) [OF s(3)] os_same_trans by blast
qed

lemma swap_out_os [os_frame]:
  assumes "swap_out s p = Some (f, s')"
  shows "os_same s s'"
proof -
  obtain g s1 where s: "nextFreePage s = Some g" "mprotect s p True = Some s1"
    using assms by (auto simp: swap_out_def Let_def bind_eq_Some_conv)
  have p: "OS_SIZE \<le> user_page p" using mprotect_page [OF s(2)] by simp
  have "os_same s1 s'"
  proof (cases "g < MEMORYPAGES")
    case True
    then obtain s2 m s3 m' where m: "mprotect s1 g True = Some s2" "memcpy (memory s2) (user_page g) (user_page p) PAGESIZE = Some m"
      "mprotect (s2\<lparr>memory := m\<rparr>) g False = Some s3" "memset (memory s3) (user_page p) 0 PAGESIZE = Some m'" "s' = s3\<lparr>memory := m'\<rparr>"
      using assms s by (auto simp: swap_out_def Let_def bind_eq_Some_conv)
    have "os_same s2 (s2\<lparr>memory := m\<rparr>)"
      by (rule os_same_memory) (use memory_os(2) [OF m(2)] mprotect_page [OF m(1)] in simp_all)
    moreover have "os_same s3 s'" unfolding m(5)
      by (rule os_same_memory) (use memory_os(1) [OF m(4) p] in simp_all)
    ultimately show ?thesis using tables_os(3) [OF m(1)] tables_os(3) [OF m(3)] os_same_trans by blast
  next
    case g: False
    show ?thesis
    proof (cases "g < TOTALPAGES")
      case True
      then obtain s2 m where m: "file_write s1 ((g - MEMORYPAGES) * PAGESIZE) (user_page p) = Some s2"
        "memset (memory s2) (user_page p) 0 PAGESIZE = Some m" "s' = s2\<lparr>memory := m\<rparr>"
        using assms s g by (auto simp: swap_out_def Let_def bind_eq_Some_conv)
      have "os_same s2 s'" unfolding m(3)
        by (rule os_same_memory) (use memory_os(1) [OF m(2) p] in simp_all)
      then show ?thesis using file_os(2) [OF m(1)] os_same_trans by blast
    qed (use assms s g in \<open>auto simp: swap_out_def Let_def bind_eq_Some_conv\<close>)
  qed
  then show ?thesis using tables_os(3) [OF s(2)] os_same_trans by blast
qed

text \<open>Sequences of such operations: every step is one of the facts of \<open>os_frame\<close>.\<close>

definition os_kept :: "a2_state \<Rightarrow> ('a \<Rightarrow> a2_state) \<Rightarrow> 'a option \<Rightarrow> bool" where
  "os_kept s f x \<longleftrightarrow> (\<forall>y. x = Some y \<longrightarrow> os_same s (f y))"

lemma os_kept_Some [simp]: "os_kept s f (Some y) = os_same s (f y)" "os_kept s f None"
  by (simp_all add: os_kept_def)

named_theorems kept \<comment> \<open>sequences that keep the structures of the library\<close>

lemma kept_value [kept]:
  "(\<And>v. os_kept s g (k v)) \<Longrightarrow> os_kept s g (pt_get s1 ti i \<bind> k)"
  "(\<And>t. os_kept s g (k' t)) \<Longrightarrow> os_kept s g (tables s1 a \<bind> k')"
  by (auto simp: os_kept_def bind_eq_Some_conv)

lemma kept_step:
  assumes "\<And>y. x = Some y \<Longrightarrow> os_same s1 (f y)" "os_same s s1" "\<And>y. os_same s (f y) \<Longrightarrow> os_kept s g (k y)"
  shows "os_kept s g (x \<bind> k)"
proof (cases x)
  case (Some y)
  then have "os_kept s g (k y)" using assms(3) os_same_trans [OF assms(2) assms(1)] by blast
  then show ?thesis using Some by simp
qed (simp add: os_kept_def)

lemma kept_bind [kept]:
  "os_same s s1 \<Longrightarrow> (\<And>s2. os_same s s2 \<Longrightarrow> os_kept s g (k s2)) \<Longrightarrow> os_kept s g (mt_set s1 i c \<bind> k)"
  "os_same s s1 \<Longrightarrow> (\<And>s2. os_same s s2 \<Longrightarrow> os_kept s g (k s2)) \<Longrightarrow> os_kept s g (pt_set s1 ti i v \<bind> k)"
  "os_same s s1 \<Longrightarrow> (\<And>s2. os_same s s2 \<Longrightarrow> os_kept s g (k s2)) \<Longrightarrow> os_kept s g (mprotect s1 i b \<bind> k)"
  "os_same s s1 \<Longrightarrow> (\<And>s2. os_same s s2 \<Longrightarrow> os_kept s g (k s2)) \<Longrightarrow> os_kept s g (swap_in s1 v i \<bind> k)"
  by (rule kept_step [where f = "\<lambda>s. s"], erule os_frame, assumption, blast)+

lemma kept_swap_out [kept]:
  "os_same s s1 \<Longrightarrow> (\<And>f s2. os_same s s2 \<Longrightarrow> os_kept s g (k (f, s2))) \<Longrightarrow> os_kept s g (swap_out s1 v \<bind> k)"
  by (rule kept_step [where f = snd]) (auto dest: swap_out_os)

lemma kept_last [kept]:
  "os_same s s1 \<Longrightarrow> os_kept s (\<lambda>s. s) (mt_set s1 i c)"
  "os_same s s1 \<Longrightarrow> os_kept s (\<lambda>s. s) (pt_set s1 ti i v)"
  using tables_os os_same_trans unfolding os_kept_def by blast+

lemma kept_if [kept]:
  "(b \<Longrightarrow> os_kept s f (x \<bind> k)) \<Longrightarrow> (\<not> b \<Longrightarrow> os_kept s f (y \<bind> k)) \<Longrightarrow> os_kept s f ((if b then x else y) \<bind> k)"
  "(b \<Longrightarrow> os_kept s f x) \<Longrightarrow> (\<not> b \<Longrightarrow> os_kept s f y) \<Longrightarrow> os_kept s f (if b then x else y)"
  by auto

lemma os_kept_trans: "os_kept s f (x \<bind> k) \<Longrightarrow> x = Some y \<Longrightarrow> os_kept s f (k y)"
  by simp

lemma kept_loop: "(\<And>s. os_kept s f (x s)) \<Longrightarrow> os_same s s1 \<Longrightarrow> os_kept s f (x s1)"
  unfolding os_kept_def using os_same_trans by blast

lemma evict_kept: "os_kept s (\<lambda>s. s) (evict n i s)"
proof (induction n arbitrary: s)
  case (Suc n)
  show ?case
    by (auto simp: Let_def split: option.split intro!: kept kept_loop [OF Suc])
qed simp

lemma kept_call:
  assumes "\<And>s. os_kept s (\<lambda>s. s) (x s)" "os_same s s1" "\<And>s2. os_same s s2 \<Longrightarrow> os_kept s g (k s2)"
  shows "os_kept s g (x s1 \<bind> k)"
  by (rule kept_step [where f = "\<lambda>s. s", OF _ assms(2,3)]) (use assms(1) in \<open>auto simp: os_kept_def\<close>)

lemmas kept_evict [kept] = kept_call [of "evict n i" for n i, OF evict_kept]

lemma load_loop_kept: "os_kept s (\<lambda>s. s) (load_loop n ti s)"
proof (induction n arbitrary: s)
  case (Suc n)
  show ?case
    by (auto simp: Let_def split: option.split intro!: kept kept_loop [OF Suc])
qed simp

lemma evict_last_kept: "os_kept s (\<lambda>s. s) (evict_last n s)"
proof (induction n arbitrary: s)
  case (Suc n)
  show ?case
    by (auto simp: Let_def split: option.split intro!: kept kept_loop [OF Suc])
qed simp

lemma save_loop_kept: "os_kept s snd (save_loop n ti s)"
proof (induction n arbitrary: s)
  case (Suc n)
  show ?case
    by (auto simp: Let_def split: option.split intro!: kept kept_loop [OF Suc])
qed simp

lemma restore_loop_kept: "os_kept s (\<lambda>s. s) (restore_loop n ti s)"
proof (induction n arbitrary: s)
  case (Suc n)
  show ?case
    by (auto simp: Let_def split: option.split intro!: kept kept_loop [OF Suc])
qed simp

lemma kept_save [kept]:
  "os_same s s1 \<Longrightarrow> (\<And>j s2. os_same s s2 \<Longrightarrow> os_kept s g (k (j, s2))) \<Longrightarrow> os_kept s g (save_loop n ti s1 \<bind> k)"
  by (rule kept_step [where f = snd]) (use save_loop_kept in \<open>auto simp: os_kept_def\<close>)

lemmas kept_loops [kept] = kept_call [of "load_loop n ti" for n ti, OF load_loop_kept]
  kept_call [of "evict_last n" for n, OF evict_last_kept] kept_call [of "restore_loop n ti" for n ti, OF restore_loop_kept]

lemma pages_kept:
  "os_kept s (\<lambda>s. s) (resume_pages ti s)" "os_kept s (\<lambda>s. s) (save_pages ti s)" "os_kept s (\<lambda>s. s) (restore_pages ti s)"
proof -
  have *: "os_same s (s'\<lparr>masterTable := m\<rparr>) = os_same s s'" for s' m by (simp add: os_same_def)
  show "os_kept s (\<lambda>s. s) (resume_pages ti s)" "os_kept s (\<lambda>s. s) (save_pages ti s)" "os_kept s (\<lambda>s. s) (restore_pages ti s)"
    unfolding resume_pages_def save_pages_def restore_pages_def by (auto simp: * intro!: kept)
qed

text \<open>The rest of a yield works on the scheduler's part.\<close>

lemma kept_queues [kept]:
  "os_same s s1 \<Longrightarrow> (\<And>s2. os_same s s2 \<Longrightarrow> os_kept s g (k s2)) \<Longrightarrow> os_kept s g (requeue_p1 s1 \<bind> k)"
  "os_same s s1 \<Longrightarrow> (\<And>s2. os_same s s2 \<Longrightarrow> os_kept s g (k s2)) \<Longrightarrow> os_kept s g (requeue_p2 s1 \<bind> k)"
  "os_same s s1 \<Longrightarrow> (\<And>p t s2. os_same s s2 \<Longrightarrow> os_kept s g (k' (p, t, s2))) \<Longrightarrow> os_kept s g (pick_next s1 \<bind> k')"
  "os_same s s1 \<Longrightarrow> (\<And>p t s2. os_same s s2 \<Longrightarrow> os_kept s g (k' (p, t, s2))) \<Longrightarrow> os_kept s g (pick_next_p2 s1 \<bind> k')"
  by (rule kept_step [where f = "\<lambda>s. s"] kept_step [where f = "snd \<circ> snd"],
      force intro!: os_same_sched dest!: requeue_ids pick_ids simp: same_ids_def, assumption, force)+

lemma kept_lookup [kept]:
  "(\<And>v. os_kept s g (k v)) \<Longrightarrow> os_kept s g (threads s1 t \<bind> k)"
  "(\<And>v. os_kept s g (k1 v)) \<Longrightarrow> os_kept s g (qnodes s1 t \<bind> k1)"
  "(\<And>v. os_kept s g (k2 v)) \<Longrightarrow> os_kept s g (peek h q \<bind> k2)"
  "(\<And>v. os_kept s g (k3 v)) \<Longrightarrow> os_kept s g (setcontext s1 a \<bind> k3)"
  "(\<And>v. os_kept s g (k3 v)) \<Longrightarrow> os_kept s g (swapcontext s1 a b \<bind> k3)"
  by (auto simp: os_kept_def bind_eq_Some_conv)

lemmas kept_pages [kept] = kept_call [of "resume_pages ti" for ti, OF pages_kept(1)]
  kept_call [of "save_pages ti" for ti, OF pages_kept(2)] kept_call [of "restore_pages ti" for ti, OF pages_kept(3)]

lemma os_same_timer [simp]:
  "os_same s (s1\<lparr>current := c\<rparr>) = os_same s s1" "os_same s (a2_arm_timer p s1) = os_same s s1"
  by (simp_all add: os_same_def a2_arm_timer_def setitimer_virtual_def)

lemma branches_kept:
  "os_kept s snd (a2_resume t r s)" "os_kept s snd (a2_switch tt t r s)"
  "os_kept s snd (a2_rotate_p1 temp s)" "os_kept s snd (a2_rotate_p2 temp s)"
  unfolding a2_resume_def a2_switch_def a2_rotate_p1_def a2_rotate_p2_def Let_def
  by (auto intro!: kept)

lemma yield_kept: "os_kept s snd (a2_yield s)"
  unfolding a2_yield_def a2_yield_p1_def a2_yield_p2_def
  by (auto simp: Let_def branches_kept split: option.split intro!: kept)

end
