(* ===== verification/A2_Create.thy ===== *)
theory A2_Create
  imports A2_Structures A2_Program A1_Invariant
begin

section \<open>Creating threads in Assignment2\<close>

text \<open>
  \<open>my_pthread_create\<close> of Assignment2 brings the other theories together: it takes its structures from
  the operating-system region, puts a node in the ready queue, gives the new thread a page table with
  two frames and yields, which moves pages.  As long as nothing has been released, the blocks of the
  region are all in use but the last, so every structure gets an address above all earlier ones.
\<close>

subsection \<open>Structures above all others\<close>

text \<open>The first \<open>b\<close> bytes of the region are in use, by the blocks \<open>U\<close>, and the rest is one free block.\<close>

definition os_used :: "mem \<Rightarrow> (int \<times> int) set \<Rightarrow> int \<Rightarrow> bool" where
  "os_used m U b \<longleftrightarrow> (\<exists>xs. os_memory m (xs @ [(OS_SIZE - 4 - b, False)]) \<and> (\<forall>x \<in> set xs. snd x) \<and> total xs = b \<and> used 0 xs = U)"

definition structures :: "a2_state \<Rightarrow> addr set" where
  "structures s = dom (threads s) \<union> dom (contexts s) \<union> dom (stacks s) \<union> dom (qnodes s) \<union> dom (tables s)"

text \<open>No address is that of two structures.\<close>

definition separate :: "a2_state \<Rightarrow> bool" where
  "separate s \<longleftrightarrow> dom (qnodes s) \<inter> (dom (threads s) \<union> dom (contexts s) \<union> dom (stacks s) \<union> dom (tables s)) = {} \<and>
     dom (tables s) \<inter> (dom (threads s) \<union> dom (contexts s) \<union> dom (stacks s)) = {} \<and>
     dom (stacks s) \<inter> (dom (threads s) \<union> dom (contexts s)) = {} \<and> dom (contexts s) \<inter> dom (threads s) = {}"

definition os_room :: "a2_state \<Rightarrow> (int \<times> int) set \<Rightarrow> int \<Rightarrow> bool" where
  "os_room s U b \<longleftrightarrow> os_used (memory s) U b \<and> structures s \<subseteq> fst ` U \<and> (\<forall>a \<in> structures s. 4 < a \<and> a < b) \<and> 0 < b \<and> separate s"

lemma os_used_alloc:
  assumes "os_used m U b" "0 < sz" "sz \<le> USR_SIZE" "b + a2_extended sz + 8 < OS_SIZE - 4"
  obtains m' where "\<And>s. memory s = m \<Longrightarrow> os_alloc s sz = Some (b + 4, s\<lparr>memory := m'\<rparr>)"
    "os_used m' (insert (b + 4, a2_extended sz) U) (b + a2_extended sz)" "os_keeps {} m m'"
proof -
  obtain xs where xs: "os_memory m (xs @ [(OS_SIZE - 4 - b, False)])" "\<forall>x \<in> set xs. snd x" "total xs = b" "used 0 xs = U"
    using assms(1) by (auto simp: os_used_def)
  obtain m' where m': "\<And>s. memory s = m \<Longrightarrow> os_alloc s sz = Some (total xs + 4, s\<lparr>memory := m'\<rparr>)"
    "os_memory m' ((xs @ [(a2_extended sz, True)]) @ [(OS_SIZE - 4 - b - a2_extended sz, False)])" "os_keeps {} m m'"
    by (rule os_alloc_tail [OF xs(1,2) assms(2,3)], use assms(4) in simp, rule that, assumption+)
  show thesis
  proof (rule that [OF _ _ m'(3)])
    show "os_used m' (insert (b + 4, a2_extended sz) U) (b + a2_extended sz)"
      unfolding os_used_def using m'(2) xs(2-4)
      by (intro exI [of _ "xs @ [(a2_extended sz, True)]"]) (simp add: algebra_simps used_append)
  qed (use m'(1) xs(3) in simp)
qed

lemma os_used_bytes:
  assumes "os_used m U b" "msize m' = msize m" "\<And>x. x < OS_SIZE \<Longrightarrow> mbytes m' x = mbytes m x"
  shows "os_used m' U b"
  using assms os_memory_bytes unfolding os_used_def by blast

lemma os_same_used: "os_same s s' \<Longrightarrow> os_used (memory s) U b \<Longrightarrow> os_used (memory s') U b"
  by (rule os_used_bytes) (simp_all add: os_same_def)

lemma extended_pos: "0 < sz \<Longrightarrow> sz \<le> USR_SIZE \<Longrightarrow> b + 4 < b + a2_extended sz \<and> a2_extended sz < sz + 12"
  using a2_extended_bounds [of sz] by simp

text \<open>Bytes of the region are not those of any frame.\<close>

lemma os_keeps_pages:
  assumes "os_keeps {} (memory s) m"
  shows "pages_of (s\<lparr>memory := m\<rparr>) = pages_of s" "paged n (s\<lparr>memory := m\<rparr>) = paged n s"
    "paging_ok n K (s\<lparr>memory := m\<rparr>) = paging_ok n K s"
proof -
  have sz: "msize m = msize (memory s)" and eq: "\<And>x. OS_SIZE - 4 \<le> x \<Longrightarrow> mbytes m x = mbytes (memory s) x"
    using assms by (auto simp: os_keeps_def keeps_def)
  have "frame_at (s\<lparr>memory := m\<rparr>) = frame_at s" by (intro ext) (simp add: frame_at_def user_page_def eq)
  then show *: "pages_of (s\<lparr>memory := m\<rparr>) = pages_of s"
    by (simp add: pages_of_def entry_at_def pt_table_def fun_eq_iff)
  show **: "paged n (s\<lparr>memory := m\<rparr>) = paged n s" by (simp add: paged_def paged_in_def sz)
  show "paging_ok n K (s\<lparr>memory := m\<rparr>) = paging_ok n K s" unfolding paging_ok_def * ** ..
qed

subsection \<open>The first and the last page of a new thread\<close>

text \<open>The tag that \<open>createPageHeader\<close> writes: a free block of the size of the user region without its two
  outer words.\<close>

definition page_tag :: "(int \<Rightarrow> byte) \<Rightarrow> (int \<Rightarrow> byte)" where
  "page_tag f = (\<lambda>x. if 0 \<le> x \<and> x < 4 then word_of_int (a2_tag (USR_SIZE - 8) False div 256 ^ nat x) else f x)"

lemma createPage_returns:
  assumes "paged_in pt n s" "0 \<le> f" "f < MEMORYPAGES" "prot s f"
    "\<And>m. paged_in pt n (s\<lparr>memory := m\<rparr>) \<Longrightarrow> pages_of (s\<lparr>memory := m\<rparr>) = (pages_of s)\<lparr>fr := (fr (pages_of s))(f := page_tag (fr (pages_of s) f))\<rparr> \<Longrightarrow>
       os_same s (s\<lparr>memory := m\<rparr>) \<Longrightarrow> P (s\<lparr>memory := m\<rparr>)"
  shows "returns (createPageHeader s f) P" "createPageFooter s f = createPageHeader s f"
proof -
  have sz: "msize (memory s) = OS_SIZE + USR_SIZE + PAGESIZE" using assms(1) by (simp add: paged_in_def)
  let ?p = "user_page f"
  have pg: "in_mem (memory s) ?p 4" "(?p - OS_SIZE) div PAGESIZE = f" "(?p + 3 - OS_SIZE) div PAGESIZE = f"
    using assms(2,3) sz by (simp_all add: in_mem_def user_page_def)
  let ?t = "a2_tag (USR_SIZE - 8) False"
  let ?m = "st32 (memory s) ?p ?t"
  have touch: "touch s' ?p = Some s'" "touch s' (?p + 3) = Some s'" if "prot s' f" for s'
    using that pg(2,3) by (simp_all add: touch_def accessible_def)
  have twice: "st32 (st32 m p a) p b = st32 m p b" for m p a b by (simp add: st32_def fun_upd_def fun_eq_iff)
  have e: "createPageHeader s f = Some (s\<lparr>memory := ?m\<rparr>)"
    using assms(3,4) pg(1) touch
    by (simp add: createPageHeader_def Let_def a2_wr_def a2_rd_def memory twice a2_tag_def push_bit_eq_mult s32_id)
  have "mbytes ?m (user_page g + x) = (if g = f then page_tag (frame_at s f) x else frame_at s g x)"
    if "0 \<le> g" "g < MEMORYPAGES" "0 \<le> x" "x < PAGESIZE" for g x
  proof (cases "g = f")
    case True
    then show ?thesis using that assms(2,3)
      by (auto simp: st32_def page_tag_def frame_at_def less_Suc_eq numeral_eq_Suc)
  next
    case False
    then have "user_page g + x < ?p \<or> ?p + 4 \<le> user_page g + x" using that by (auto simp: user_page_def)
    then show ?thesis using that False by (simp add: memory frame_at_def)
  qed
  then have "frame_at (s\<lparr>memory := ?m\<rparr>) = (frame_at s)(f := page_tag (frame_at s f))"
    using assms(2,3) by (intro ext) (auto simp: frame_at_def page_tag_def)
  then have "pages_of (s\<lparr>memory := ?m\<rparr>) = (pages_of s)\<lparr>fr := (fr (pages_of s))(f := page_tag (fr (pages_of s) f))\<rparr>"
    by (simp add: pages_of_def entry_at_def pt_table_def fun_eq_iff)
  moreover have "paged_in pt n (s\<lparr>memory := ?m\<rparr>)" using assms(1) by (simp add: paged_in_def)
  moreover have "os_same s (s\<lparr>memory := ?m\<rparr>)"
    by (rule os_same_memory) (use assms(2) in \<open>auto simp: memory user_page_def\<close>)
  ultimately show "returns (createPageHeader s f) P" using e assms(5) by simp
  show "createPageFooter s f = createPageHeader s f" by (simp add: createPageFooter_def createPageHeader_def)
qed

subsection \<open>A page table for a new thread\<close>

text \<open>The state while the table is filled: frames, flags and entries are those of \<open>p\<close>, all else is as in \<open>s0\<close>.\<close>

definition filling :: "a2_state \<Rightarrow> int \<Rightarrow> pages \<Rightarrow> a2_state \<Rightarrow> bool" where
  "filling s0 n p s \<longleftrightarrow> paged_in (pageTables s0) n s \<and> pages_of s = p \<and> os_same s0 s \<and> sched_part s = sched_part s0"

lemma fill_flag:
  assumes "filling s0 n p s" "0 \<le> i" "i < TOTALPAGES"
  obtains s' where "mt_set s i c = Some s'" "filling s0 n (p\<lparr>mt := (mt p)(i := c)\<rparr>) s'"
proof -
  obtain s' where s': "mt_set s i c = Some s'" "paged_in (pageTables s0) n s'" "pages_of s' = p\<lparr>mt := (mt p)(i := c)\<rparr>"
    using mt_set_returns [of "pageTables s0" n s i c "\<lambda>s'. paged_in (pageTables s0) n s' \<and> pages_of s' = p\<lparr>mt := (mt p)(i := c)\<rparr>"] assms
    by (auto simp: filling_def returns_def)
  have "os_same s0 s'" using tables_os(1) [OF s'(1)] assms(1) os_same_trans by (auto simp: filling_def)
  then show thesis using that s' paging(1) [OF s'(1)] assms(1) by (simp add: filling_def)
qed

lemma fill_entry:
  assumes "filling s0 n p s" "0 \<le> u" "u < n" "0 \<le> i" "i < MEMORYPAGES" "0 \<le> v" "v < 32768"
  obtains s' where "pt_set s u i v = Some s'" "filling s0 n (p\<lparr>en := (en p)(u := (en p u)(i := v))\<rparr>) s'"
proof -
  obtain s' where s': "pt_set s u i v = Some s'" "paged_in (pageTables s0) n s'" "pages_of s' = p\<lparr>en := (en p)(u := (en p u)(i := v))\<rparr>"
    using pt_set_returns [of "pageTables s0" n s u i v "\<lambda>s'. paged_in (pageTables s0) n s' \<and> pages_of s' = p\<lparr>en := (en p)(u := (en p u)(i := v))\<rparr>"] assms
    by (auto simp: filling_def returns_def)
  have "os_same s0 s'" using tables_os(2) [OF s'(1)] assms(1) os_same_trans by (auto simp: filling_def)
  then show thesis using that s' paging(2) [OF s'(1)] assms(1) by (simp add: filling_def)
qed

lemma fill_protect:
  assumes "filling s0 n p s" "0 \<le> i" "i \<le> MEMORYPAGES"
  obtains s' where "mprotect s i b = Some s'" "filling s0 n p s'" "prot s' i = b"
proof (rule that)
  show "mprotect s i b = Some (s\<lparr>prot := (prot s)(i := b)\<rparr>)" using assms(2,3) by (simp add: mprotect_def)
  then show "filling s0 n p (s\<lparr>prot := (prot s)(i := b)\<rparr>)"
    using tables_os(3) [of s i b] os_same_trans [of s0 s] assms(1) by (simp add: filling_def sched_part_def sched.truncate_def)
qed simp

lemma fill_page:
  assumes "filling s0 n p s" "0 \<le> f" "f < MEMORYPAGES" "prot s f"
  obtains s' where "createPageHeader s f = Some s'" "createPageFooter s f = Some s'"
    "filling s0 n (p\<lparr>fr := (fr p)(f := page_tag (fr p f))\<rparr>) s'"
proof -
  have p: "paged_in (pageTables s0) n s" "pages_of s = p" using assms(1) by (simp_all add: filling_def)
  have "returns (createPageHeader s f) (\<lambda>s'. filling s0 n (p\<lparr>fr := (fr p)(f := page_tag (fr p f))\<rparr>) s')"
  proof (rule createPage_returns(1) [OF p(1) assms(2-4)])
    fix m
    assume m: "paged_in (pageTables s0) n (s\<lparr>memory := m\<rparr>)" "os_same s (s\<lparr>memory := m\<rparr>)"
      "pages_of (s\<lparr>memory := m\<rparr>) = (pages_of s)\<lparr>fr := (fr (pages_of s))(f := page_tag (fr (pages_of s) f))\<rparr>"
    then show "filling s0 n (p\<lparr>fr := (fr p)(f := page_tag (fr p f))\<rparr>) (s\<lparr>memory := m\<rparr>)"
      using assms(1) os_same_trans [OF _ m(2)] by (simp add: filling_def)
  qed
  moreover have "createPageFooter s f = createPageHeader s f" by (simp add: createPageFooter_def createPageHeader_def)
  ultimately show thesis using that by (auto simp: returns_def)
qed

lemma fill_table:
  assumes f: "filling s0 n p s" and u: "0 \<le> u" "u < n" "pageTables s u = Some a" "tables s a = Some t"
  shows "filling s0 n (p\<lparr>en := (en p)(u := t')\<rparr>) (s\<lparr>tables := (tables s)(a \<mapsto> t')\<rparr>)"
proof -
  let ?s = "s\<lparr>tables := (tables s)(a \<mapsto> t')\<rparr>"
  have pg: "paged_in (pageTables s0) n s" "n < MAXTHREADS" "pageTables s = pageTables s0"
    using f by (auto simp: filling_def paged_in_def)
  have other: "pageTables s w \<noteq> Some a" if "w \<noteq> u" for w
  proof (cases "0 \<le> w \<and> w < n")
    case True
    then show ?thesis using pg u that by (auto simp: paged_in_def inj_on_def)
  next
    case False
    then have "pageTables s w = None \<or> pageTables s w = Some (- 1)" "tables s (- 1) = None"
      using pg(1) unfolding paged_in_def not_le by (metis domIff linorder_not_le)+
    then show ?thesis using u(4) by auto
  qed
  have "entry_at ?s w = ((entry_at s)(u := t')) w" for w
    using u pg(2) other [of w] by (auto simp: entry_at_def pt_table_def fun_eq_iff split: option.splits Option.bind_splits)
  then have "pages_of ?s = (pages_of s)\<lparr>en := (en (pages_of s))(u := t')\<rparr>"
    by (simp add: pages_of_def frame_at_def [abs_def] ext)
  moreover have "paged_in (pageTables s0) n ?s"
    unfolding paged_tables [OF dom_entry [of s a t t', OF u(4)]] by (rule pg(1))
  moreover have "os_same s ?s" using u(4) by (auto simp: os_same_def)
  ultimately show ?thesis using f os_same_trans by (auto simp: filling_def)
qed

text \<open>With two frames for each of fewer than 128 threads, the first free frames are frames of the arena.\<close>

lemma owned_card:
  assumes "0 \<le> n"
  shows "finite (owned n (\<lambda>_. 1) p)" "int (card (owned n (\<lambda>_. 1) p)) \<le> 2 * n"
proof -
  have o: "owned n (\<lambda>_. 1) p = (\<lambda>(u, i). en p u i) ` ({0..<n} \<times> {0, LAST})"
  proof -
    have "is_page n (\<lambda>_. 1) u i \<longleftrightarrow> (u, i) \<in> {0..<n} \<times> {0, LAST}" for u i by (auto simp: is_page_def homes_def)
    then show ?thesis unfolding owned_def by (auto simp: image_iff) blast+
  qed
  show "finite (owned n (\<lambda>_. 1) p)" unfolding o by simp
  have "card (owned n (\<lambda>_. 1) p) \<le> card ({0..<n} \<times> {0, LAST})" unfolding o by (rule card_image_le) simp
  also have "\<dots> = nat n * 2" by (simp add: card_cartesian_product)
  finally show "int (card (owned n (\<lambda>_. 1) p)) \<le> 2 * n" using assms by linarith
qed

lemma next_frame:
  assumes "{0..<TOTALPAGES} \<subseteq> free_frames (pages_of s) \<union> X" "finite X" "int (card X) \<le> k" "k < MEMORYPAGES"
  obtains f where "nextFreePage s = Some f" "f \<in> free_frames (pages_of s)" "0 \<le> f" "f \<le> k"
proof -
  have low: "f \<le> k" if "\<forall>g \<in> free_frames (pages_of s). f \<le> g" "f < TOTALPAGES" for f
  proof -
    have "{0..<f} \<subseteq> X" using assms(1) that by fastforce
    then have "card {0..<f} \<le> card X" by (rule card_mono [OF assms(2)])
    then show ?thesis using assms(3) by simp
  qed
  show thesis
  proof (cases "nextFreePage s")
    case None
    then have "{0..<TOTALPAGES} \<subseteq> X" using assms(1) nextFreePage_None by blast
    then have "card {0..<TOTALPAGES} \<le> card X" by (rule card_mono [OF assms(2)])
    then show ?thesis using assms(3,4) by simp
  next
    case (Some f)
    then show ?thesis using that nextFreePage_Some [OF Some] free_range low by blast
  qed
qed

text \<open>One leading and one last page for thread \<open>n\<close>, in two frames that were free.\<close>

definition new_owner :: "int \<Rightarrow> int \<Rightarrow> int \<Rightarrow> pages \<Rightarrow> pages \<Rightarrow> bool" where
  "new_owner n f g p q \<longleftrightarrow> f \<in> free_frames p \<and> g \<in> free_frames p \<and> f \<noteq> g \<and>
     mt q = (mt p)(f := CHR ''1'', g := CHR ''1'') \<and>
     (\<forall>u. u \<noteq> n \<longrightarrow> en q u = en p u) \<and>
     en q n 0 = f \<and> en q n LAST = g \<and> (\<forall>i. 1 \<le> i \<and> i < LAST \<longrightarrow> en q n i = 6969) \<and>
     fr q = (fr p)(f := page_tag (fr p f), g := page_tag (fr p g))"

lemma new_owner_ok:
  assumes inv: "page_inv n (\<lambda>_. 1) p" and ex: "exact n (\<lambda>_. 1) {} p" and n: "0 \<le> n" and new: "new_owner n f g p q"
  shows "page_inv (n + 1) (\<lambda>_. 1) q" "exact (n + 1) (\<lambda>_. 1) {} q" "same_views n (\<lambda>_. 1) p q"
    "free_frames q = free_frames p - {f, g}"
proof -
  note q = new [unfolded new_owner_def]
  have old: "is_page n (\<lambda>_. 1) u i \<Longrightarrow> u \<noteq> n \<and> en q u i = en p u i" for u i using q by (auto simp: is_page_def)
  have pg: "is_page (n + 1) (\<lambda>_. 1) u i \<longleftrightarrow> is_page n (\<lambda>_. 1) u i \<or> u = n \<and> (i = 0 \<or> i = LAST)" for u i
    using n by (auto simp: is_page_def homes_def)
  have fg: "f \<notin> owned n (\<lambda>_. 1) p" "g \<notin> owned n (\<lambda>_. 1) p" using q owned_range [OF inv] by blast+
  have ow: "owned (n + 1) (\<lambda>_. 1) q = insert f (insert g (owned n (\<lambda>_. 1) p))"
  proof (rule set_eqI)
    fix x
    have "x \<in> owned (n + 1) (\<lambda>_. 1) q \<longleftrightarrow> (\<exists>u i. (is_page n (\<lambda>_. 1) u i \<or> u = n \<and> (i = 0 \<or> i = LAST)) \<and> x = en q u i)"
      unfolding owned_def pg by auto
    also have "\<dots> \<longleftrightarrow> (\<exists>u i. is_page n (\<lambda>_. 1) u i \<and> x = en p u i) \<or> x = f \<or> x = g"
      using old q by metis
    also have "\<dots> \<longleftrightarrow> x \<in> insert f (insert g (owned n (\<lambda>_. 1) p))" by (auto simp: owned_def)
    finally show "x \<in> owned (n + 1) (\<lambda>_. 1) q \<longleftrightarrow> x \<in> insert f (insert g (owned n (\<lambda>_. 1) p))" .
  qed
  show fr: "free_frames q = free_frames p - {f, g}" using q by (auto simp: free_frames_def)
  show "exact (n + 1) (\<lambda>_. 1) {} q" using ex unfolding exact_def ow fr by auto
  have "view q u i = view p u i" if "is_page n (\<lambda>_. 1) u i" for u i
  proof -
    have "en p u i \<noteq> f" "en p u i \<noteq> g" using ownedI [OF that] fg by metis+
    then show ?thesis using old [OF that] q by (simp add: view_def)
  qed
  then show "same_views n (\<lambda>_. 1) p q" by (simp add: same_views_def)
  have sz: "en q u i = 6969" if "0 \<le> u" "u < n + 1" "1 \<le> i" "i < LAST" for u i
    using that q page_inv_unused [OF inv, of u i] by (cases "u = n") auto
  have rng: "0 \<le> x \<and> x < TOTALPAGES \<and> x \<notin> free_frames q" if "x \<in> owned (n + 1) (\<lambda>_. 1) q" for x
    using that q owned_range [OF inv, of x] free_range [of x p] unfolding ow fr by auto
  have new_pg: "en q n i \<notin> owned n (\<lambda>_. 1) p" if "i = 0 \<or> i = LAST" for i using that q fg by auto
  have uni: "u = w \<and> i = j" if "is_page (n + 1) (\<lambda>_. 1) u i" "is_page (n + 1) (\<lambda>_. 1) w j" "en q u i = en q w j" for u i w j
  proof (cases "is_page n (\<lambda>_. 1) u i")
    case u: True
    show ?thesis
    proof (cases "is_page n (\<lambda>_. 1) w j")
      case True
      then show ?thesis using owner_unique [OF inv u True] old u that(3) by metis
    next
      case False
      then show ?thesis using that pg new_pg [of j] ownedI [OF u] old [OF u] by metis
    qed
  next
    case u: False
    then have u': "u = n" "i = 0 \<or> i = LAST" using that pg by auto
    show ?thesis
    proof (cases "is_page n (\<lambda>_. 1) w j")
      case True
      then show ?thesis using that(3) u' new_pg [of i] ownedI [OF True] old [OF True] by metis
    next
      case False
      then have "w = n" "j = 0 \<or> j = LAST" using that pg by auto
      then show ?thesis using u' that(3) q by auto
    qed
  qed
  show "page_inv (n + 1) (\<lambda>_. 1) q"
    unfolding page_inv_def using sz rng uni by auto
qed

text \<open>The new table before any entry is set.\<close>

lemma empty_table:
  assumes "paged n s" "n < 127" "a \<notin> dom (tables s)" "0 \<le> a"
  shows "filling (s\<lparr>pageTables := (pageTables s)(n \<mapsto> a), tables := (tables s)(a \<mapsto> (\<lambda>_. 0))\<rparr>) (n + 1)
    ((pages_of s)\<lparr>en := (en (pages_of s))(n := (\<lambda>_. 0))\<rparr>)
    (s\<lparr>pageTables := (pageTables s)(n \<mapsto> a), tables := (tables s)(a \<mapsto> (\<lambda>_. 0))\<rparr>)"
proof -
  let ?s = "s\<lparr>pageTables := (pageTables s)(n \<mapsto> a), tables := (tables s)(a \<mapsto> (\<lambda>_. 0))\<rparr>"
  have n: "0 \<le> n" and none: "\<And>u. u < 0 \<or> n \<le> u \<Longrightarrow> pageTables s u = None \<or> pageTables s u = Some (- 1)"
    and some: "\<And>u. 0 \<le> u \<Longrightarrow> u < n \<Longrightarrow> \<exists>c. pageTables s u = Some c \<and> c \<in> dom (tables s)"
    and inj: "inj_on (pageTables s) {0..<n}"
    using assms(1) unfolding paged_def paged_in_def by blast+
  have other: "pageTables s u \<noteq> Some a" for u using none [of u] some [of u] assms(3,4) by fastforce
  have "entry_at ?s u = ((entry_at s)(n := (\<lambda>_. 0))) u" for u
    using n assms(2) other [of u] by (auto simp: entry_at_def pt_table_def fun_eq_iff split: option.splits Option.bind_splits)
  then have pages: "pages_of ?s = (pages_of s)\<lparr>en := (en (pages_of s))(n := (\<lambda>_. 0))\<rparr>"
    by (simp add: pages_of_def frame_at_def [abs_def] ext)
  have "inj_on ((pageTables s)(n \<mapsto> a)) {0..<n + 1}"
  proof (rule inj_onI)
    fix u w assume "u \<in> {0..<n + 1}" "w \<in> {0..<n + 1}" "((pageTables s)(n \<mapsto> a)) u = ((pageTables s)(n \<mapsto> a)) w"
    then show "u = w" using inj_onD [OF inj, of u w] other [of u] other [of w] by (auto split: if_splits)
  qed
  moreover have "\<exists>c. pageTables s u = Some c \<and> (c = a \<or> c \<in> dom (tables s))" if "0 \<le> u" "u \<le> n" "u \<noteq> n" for u
    using some [of u] that by auto
  moreover have "\<forall>u. u < 0 \<or> n + 1 \<le> u \<longrightarrow> ((pageTables s)(n \<mapsto> a)) u = None \<or> ((pageTables s)(n \<mapsto> a)) u = Some (- 1)"
    using none n by auto
  ultimately have "paged_in (pageTables ?s) (n + 1) ?s"
    using assms(1,2,4) n unfolding paged_def paged_in_def by (auto split: if_splits)
  then show ?thesis using pages by (simp add: filling_def)
qed

lemma new_page_table_ok:
  assumes ok: "paging_ok n (\<lambda>_. 1) s" and n: "n < 127"
    and room: "os_used (memory s) U b" "b + 3088 < OS_SIZE - 4" and fresh: "b + 4 \<notin> dom (tables s)" "0 \<le> b"
  obtains s' f g where "new_page_table n s = Some s'" "new_owner n f g (pages_of s) (pages_of s')" "paged (n + 1) s'"
    "os_used (memory s') (insert (b + 4, 3080) U) (b + 3080)" "dom (tables s') = insert (b + 4) (dom (tables s))" "sched_part s' = sched_part s"
    "memoryInitialized s' = memoryInitialized s" "mainEnqueued s' = mainEnqueued s" "pageTables s' = (pageTables s)(n \<mapsto> b + 4)"
proof -
  let ?p = "pages_of s"
  have pg: "paged n s" and inv: "page_inv n (\<lambda>_. 1) ?p" and ex: "exact n (\<lambda>_. 1) {} ?p" using ok by (simp_all add: paging_ok_def)
  have n0: "0 \<le> n" using pg by (simp add: paged_def paged_in_def)
  have ext: "a2_extended 3072 = 3080" by (simp add: a2_extended_def)
  obtain m where m: "\<And>u. memory u = memory s \<Longrightarrow> os_alloc u 3072 = Some (b + 4, u\<lparr>memory := m\<rparr>)"
    "os_used m (insert (b + 4, 3080) U) (b + 3080)" "os_keeps {} (memory s) m"
    by (rule os_used_alloc [OF room(1), of 3072, unfolded ext]) (use room(2) in simp_all)
  let ?s = "s\<lparr>memory := m\<rparr>"
  note same = os_keeps_pages [OF m(3)]
  let ?t = "?s\<lparr>pageTables := (pageTables ?s)(n \<mapsto> b + 4), tables := (tables ?s)(b + 4 \<mapsto> (\<lambda>_. 0))\<rparr>"
  let ?e = "?p\<lparr>en := (en ?p)(n := (\<lambda>_. 0))\<rparr>"
  have f0: "filling ?t (n + 1) ?e ?t"
    using empty_table [of n ?s "b + 4", unfolded same, OF pg n] fresh by simp
  have cov: "{0..<TOTALPAGES} \<subseteq> free_frames ?p \<union> owned n (\<lambda>_. 1) ?p" using ex by (simp add: exact_def)
  have free0: "free_frames (pages_of ?t) = free_frames ?p" using f0 by (simp add: filling_def free_frames_def)
  obtain f where f: "nextFreePage ?t = Some f" "f \<in> free_frames ?p" "0 \<le> f" "f \<le> 2 * n"
    by (rule next_frame [of ?t "owned n (\<lambda>_. 1) ?p" "2 * n"])
      (use cov owned_card [OF n0, of ?p] n free0 in auto)
  have fr: "f < MEMORYPAGES" "f < TOTALPAGES" "f < 32768" using f(4) n by simp_all
  obtain s1 where s1: "pt_set ?t n 0 f = Some s1" and x1: "filling ?t (n + 1) (?e\<lparr>en := (en ?e)(n := (en ?e n)(0 := f))\<rparr>) s1"
    by (rule fill_entry [OF f0, of n 0 f]) (use n0 f fr in simp_all)
  let ?q = "?p\<lparr>en := (en ?p)(n := (\<lambda>_. 0)(0 := f)), mt := (mt ?p)(f := CHR ''1'')\<rparr>"
  have f1: "filling ?t (n + 1) (?p\<lparr>en := (en ?p)(n := (\<lambda>_. 0)(0 := f))\<rparr>) s1" using x1 by simp
  obtain s2 where s2: "mt_set s1 f CHR ''1'' = Some s2" and x2: "filling ?t (n + 1) ?q s2"
    by (rule fill_flag [OF f1, of f "CHR ''1''"]) (use f fr in simp_all)
  obtain s3 where s3: "mprotect s2 f True = Some s3" and x3: "filling ?t (n + 1) ?q s3" "prot s3 f = True"
    by (rule fill_protect [OF x2, of f True]) (use f fr in simp_all)
  obtain s4 where s4: "createPageHeader s3 f = Some s4" and
      f4: "filling ?t (n + 1) (?q\<lparr>fr := (fr ?q)(f := page_tag (fr ?q f))\<rparr>) s4" (is "filling _ _ ?qh _")
    by (rule fill_page [OF x3(1), of f]) (use f fr x3 in simp_all)
  have free4: "free_frames (pages_of s4) = free_frames ?p - {f}" using f4 by (auto simp: filling_def free_frames_def)
  have own4: "finite (insert f (owned n (\<lambda>_. 1) ?p))" "int (card (insert f (owned n (\<lambda>_. 1) ?p))) \<le> 2 * n + 1"
    using owned_card [OF n0, of ?p] by (auto simp: card_insert_if)
  obtain g where g: "nextFreePage s4 = Some g" "g \<in> free_frames ?p" "g \<noteq> f" "0 \<le> g" "g \<le> 2 * n + 1"
    by (rule next_frame [OF _ own4, of s4]) (use cov n free4 in auto)
  have gr: "g < MEMORYPAGES" "g < TOTALPAGES" "g < 32768" using g(5) n by simp_all
  obtain s5 where s5: "pt_set s4 n (MEMORYPAGES - 1) g = Some s5" and
      x5: "filling ?t (n + 1) (?qh\<lparr>en := (en ?qh)(n := (en ?qh n)(MEMORYPAGES - 1 := g))\<rparr>) s5" (is "filling _ _ ?qe _")
    by (rule fill_entry [OF f4, of n "MEMORYPAGES - 1" g]) (use n0 g gr in simp_all)
  obtain s6 where s6: "mt_set s5 g CHR ''1'' = Some s6" and
      x6: "filling ?t (n + 1) (?qe\<lparr>mt := (mt ?qe)(g := CHR ''1'')\<rparr>) s6" (is "filling _ _ ?qg _")
    by (rule fill_flag [OF x5, of g "CHR ''1''"]) (use g gr in simp_all)
  obtain s7 where s7: "mprotect s6 g True = Some s7" and x7: "filling ?t (n + 1) ?qg s7" "prot s7 g = True"
    by (rule fill_protect [OF x6, of g True]) (use g gr in simp_all)
  obtain s8 where s8: "createPageFooter s7 g = Some s8" and
      f8: "filling ?t (n + 1) (?qg\<lparr>fr := (fr ?qg)(g := page_tag (fr ?qg g))\<rparr>) s8" (is "filling _ _ ?qf _")
    by (rule fill_page [OF x7(1), of g]) (use g gr x7 in simp_all)
  have pg8: "paged_in (pageTables ?t) (n + 1) s8" "n < n + 1" using f8 by (simp_all add: filling_def)
  obtain a tb where tb: "pageTables s8 n = Some a" "tables s8 a = Some tb" "pt_table s8 n = Some (a, tb)" "entry_at s8 n = tb"
    by (rule paged_table [OF pg8(1) n0 pg8(2)], rule that, assumption+)
  let ?fill = "\<lambda>i. if 1 \<le> i \<and> i < MEMORYPAGES - 1 then 6969 else tb i"
  let ?u = "s8\<lparr>tables := (tables s8)(a \<mapsto> ?fill)\<rparr>"
  have f9: "filling ?t (n + 1) (?qf\<lparr>en := (en ?qf)(n := ?fill)\<rparr>) ?u"
    by (rule fill_table [OF f8 n0 pg8(2) tb(1,2)])
  obtain s10 where s10: "mprotect ?u f False = Some s10" and x10: "filling ?t (n + 1) (?qf\<lparr>en := (en ?qf)(n := ?fill)\<rparr>) s10"
    by (rule fill_protect [OF f9, of f False]) (use f fr in simp_all)
  obtain s' where s': "mprotect s10 g False = Some s'" and x': "filling ?t (n + 1) (?qf\<lparr>en := (en ?qf)(n := ?fill)\<rparr>) s'"
    by (rule fill_protect [OF x10, of g False]) (use g gr in simp_all)
  show thesis
  proof (rule that [of s' f g])
    have "0 \<le> n \<and> n < MAXTHREADS" using n0 n by simp
    then show "new_page_table n s = Some s'"
      using s1 s2 s3 s4 s5 s6 s7 s8 s10 s' f(1) g(1) tb(3) m(1) [of s] by (simp add: new_page_table_def Let_def)
    show "new_owner n f g ?p (pages_of s')"
      using x' f(2) g(2,3) tb(4) f8 by (auto simp: new_owner_def filling_def pages_of_def)
    show "paged (n + 1) s'" using x' paged_inD [of "pageTables ?t" "n + 1" s'] by (simp add: filling_def)
    have os: "os_same ?t s'" using x' by (simp add: filling_def)
    show "os_used (memory s') (insert (b + 4, 3080) U) (b + 3080)" by (rule os_same_used [OF os]) (use m(2) in simp)
    show "dom (tables s') = insert (b + 4) (dom (tables s))" "memoryInitialized s' = memoryInitialized s"
      "mainEnqueued s' = mainEnqueued s" "pageTables s' = (pageTables s)(n \<mapsto> b + 4)" using os by (simp_all add: os_same_def)
    show "sched_part s' = sched_part s" using x' by (simp add: filling_def)
  qed
qed

subsection \<open>States of a program with threads\<close>

text \<open>No thread has ended: every record is that of an active thread with its own number, and once the
  first thread has been created all of them are in the queues.\<close>

definition records_of :: "a2_state \<Rightarrow> bool" where
  "records_of s \<longleftrightarrow> (\<forall>t r. threads s t = Some r \<longrightarrow> tstate r = ACTIVE \<and> tcontext r \<in> dom (contexts s)) \<and>
     inj_on (tid (threads s)) (dom (threads s))"

definition all_queued :: "a2_state \<Rightarrow> addr list \<Rightarrow> addr list \<Rightarrow> bool" where
  "all_queued s T1 T2 \<longleftrightarrow> (\<exists>q1 q2. ready_rep s q1 q2 T1 T2) \<and> current s \<in> Some ` dom (threads s) \<and>
     (if mainEnqueued s = 0 then T1 @ T2 = [] \<and> dom (threads s) \<subseteq> set_option (current s)
      else set (T1 @ T2) = dom (threads s))"

definition started :: "int \<Rightarrow> a2_state \<Rightarrow> addr list \<Rightarrow> addr list \<Rightarrow> bool" where
  "started n s T1 T2 \<longleftrightarrow> yield_ready n 1 s \<and> memoryInitialized s \<noteq> 0 \<and> threadIDS s = n \<and> 1 \<le> n \<and> n \<le> 127 \<and>
     (\<exists>U b. os_room s U b \<and> b \<le> 15200 * n - (if mainEnqueued s = 0 then 48 else 0)) \<and>
     records_of s \<and> all_queued s T1 T2"

lemma records_threads_of:
  assumes "records_of s" "distinct T" "set T \<subseteq> dom (threads s)"
  shows "threads_ok (threads s) (contexts s) T"
proof -
  have "thread_ok (threads s) (contexts s) t" if "t \<in> set T" for t
    using assms(1,3) that by (auto simp: records_of_def thread_ok_def split: option.split)
  moreover have "inj_on (tid (threads s)) (set T)"
    using assms(1,3) inj_on_subset by (auto simp: records_of_def)
  ultimately show ?thesis using assms(2) by (simp add: threads_ok_def distinct_map)
qed

lemma ready_distinct: "ready_rep s q1 q2 T1 T2 \<Longrightarrow> distinct (T1 @ T2)"
  using ready_rep_ok [of s q1 q2 T1 T2] by (auto simp: threads_ok_def distinct_map)

lemma ready_length:
  assumes "ready_rep s q1 q2 T1 T2" "\<And>t r. threads s t = Some r \<Longrightarrow> 0 \<le> thread_id r \<and> thread_id r < n"
  shows "int (length T1 + length T2) \<le> n \<or> n < 0"
proof -
  have ok: "threads_ok (threads s) (contexts s) (T1 @ T2)" by (rule ready_rep_ok [OF assms(1)])
  have "tid (threads s) ` set (T1 @ T2) \<subseteq> {0..<n}"
    using ok assms(2) by (auto simp: tid_def threads_ok_def thread_ok_def split: option.splits)
  then have "card (tid (threads s) ` set (T1 @ T2)) \<le> card {0..<n}" by (rule card_mono [rotated]) simp
  moreover have "card (tid (threads s) ` set (T1 @ T2)) = length (T1 @ T2)"
    using ok distinct_card [of "map (tid (threads s)) (T1 @ T2)"] by (simp add: threads_ok_def image_Un)
  ultimately show ?thesis by auto
qed

lemma room_used: "os_room s U b \<Longrightarrow> b \<le> a \<Longrightarrow> a \<notin> structures s"
  by (force simp: os_room_def)

lemma os_roomI:
  assumes "os_room s U b" "os_used (memory s') U' b'" "U \<subseteq> U'" "structures s' \<subseteq> structures s \<union> N"
    "N \<subseteq> fst ` U'" "\<forall>a \<in> N. b < a \<and> 4 < a \<and> a < b'" "b \<le> b'" "separate s'"
  shows "os_room s' U' b'"
proof -
  have "structures s' \<subseteq> fst ` U'" using assms(1,3-5) unfolding os_room_def by blast
  moreover have "\<forall>a \<in> structures s'. 4 < a \<and> a < b'" using assms(1,4,6,7) by (force simp: os_room_def)
  ultimately show ?thesis using assms(1,2,7,8) by (simp add: os_room_def)
qed

lemma ready_rep_memory [simp]:
  "ready_rep (s\<lparr>memory := m\<rparr>) q1 q2 T1 T2 = ready_rep s q1 q2 T1 T2"
  "ready_rep (s\<lparr>mainEnqueued := e\<rparr>) q1 q2 T1 T2 = ready_rep s q1 q2 T1 T2"
  by (simp_all add: ready_rep_def)

text \<open>What enqueueing changes.\<close>

definition queued_only :: "a2_state \<Rightarrow> a2_state \<Rightarrow> bool" where
  "queued_only s s' \<longleftrightarrow> (\<exists>m h p k. s' = s\<lparr>memory := m, qnodes := h, queue_priority_1 := p, priority1_size := k\<rparr> \<and>
     os_keeps {} (memory s) m)"

lemma a2_enqueue_new_ok:
  assumes rep: "ready_rep s q1 q2 T1 T2" and room: "os_room s U b" "b + 56 < OS_SIZE - 4"
    and ok: "threads_ok (threads s) (contexts s) (T1 @ [t] @ T2)" and sz: "int (length T1 + length T2) + 1 < 2147483647"
  obtains s' q1' where "a2_enqueue_new t s = Some s'" "ready_rep s' q1' q2 (T1 @ [t]) T2" "os_room s' (insert (b + 4, 48) U) (b + 48)"
    "queued_only s s'"
proof -
  have ext: "a2_extended 40 = 48" by (simp add: a2_extended_def)
  have u: "os_used (memory s) U b" using room(1) by (simp add: os_room_def)
  obtain m where m: "\<And>u. memory u = memory s \<Longrightarrow> os_alloc u 40 = Some (b + 4, u\<lparr>memory := m\<rparr>)"
    "os_used m (insert (b + 4, 48) U) (b + 48)" "os_keeps {} (memory s) m"
    by (rule os_used_alloc [OF u, of 40, unfolded ext]) (use room(2) in simp_all)
  let ?s = "s\<lparr>memory := m\<rparr>"
  have new: "b + 4 \<notin> structures s" using room_used [OF room(1), of "b + 4"] by simp
  then have fresh: "qnodes ?s (b + 4) = None" by (auto simp: structures_def)
  let ?nd = "\<lparr>priority = 1, thread = t, nextn = None, waiting_id = 0, join_value = None\<rparr>"
  have rep': "ready_rep ?s q1 q2 T1 T2" "threads_ok (threads ?s) (contexts ?s) (T1 @ [t] @ T2)" using rep ok by simp_all
  obtain h k where h: "enqueue ((qnodes ?s)(b + 4 \<mapsto> ?nd)) (b + 4) (queue_priority_1 ?s) (priority1_size ?s) = Some (h, Some (b + 4), k)"
    "ready_rep (?s\<lparr>qnodes := h, queue_priority_1 := Some (b + 4), priority1_size := k\<rparr>) (q1 @ [b + 4]) q2 (T1 @ [t]) T2"
    "dom h = insert (b + 4) (dom (qnodes ?s))"
    by (rule ready_rep_enqueue [OF rep'(1) fresh _ rep'(2) sz, of ?nd]) simp_all
  show thesis
  proof (rule that [OF _ h(2)])
    show "a2_enqueue_new t s = Some (?s\<lparr>qnodes := h, queue_priority_1 := Some (b + 4), priority1_size := k\<rparr>)"
      using h(1) m(1) [of s] by (simp add: a2_enqueue_new_def Let_def)
    let ?u = "?s\<lparr>qnodes := h, queue_priority_1 := Some (b + 4), priority1_size := k\<rparr>"
    have "separate s" "0 < b" using room(1) by (simp_all add: os_room_def)
    then have "separate ?u" using new h(3) by (auto simp: separate_def structures_def)
    then show "os_room ?u (insert (b + 4, 48) U) (b + 48)"
      by (rule os_roomI [OF room(1), of _ _ _ "{b + 4}", rotated -1]) (use m(2) h(3) \<open>0 < b\<close> in \<open>auto simp: structures_def\<close>)
    show "queued_only s (?s\<lparr>qnodes := h, queue_priority_1 := Some (b + 4), priority1_size := k\<rparr>)"
      unfolding queued_only_def using m(3) by (intro exI [of _ m] exI [of _ h] exI [of _ "Some (b + 4)"] exI [of _ k]) simp
  qed
qed

subsection \<open>Yields of such a program\<close>

lemma yield_frame_part:
  assumes "yield_frame (sched_part s) (sched_part s')"
  shows "threads s' = threads s" "contexts s' = contexts s" "stacks s' = stacks s" "dom (qnodes s') = dom (qnodes s)"
    "threadIDS s' = threadIDS s"
proof -
  have e: "sched_part s' = (sched_part s)\<lparr>qnodes := qnodes s', queue_priority_1 := queue_priority_1 s',
     queue_priority_2 := queue_priority_2 s', priority1_size := priority1_size s',
     priority2_size := priority2_size s', current := current s', timer_usec := timer_usec (sched_part s'), itimer := itimer (sched_part s')\<rparr>"
    and d: "dom (qnodes s') = dom (qnodes s)" using assms by (simp_all add: yield_frame_def)
  have "threads (sched_part s') = threads (sched_part s)" "contexts (sched_part s') = contexts (sched_part s)"
    "stacks (sched_part s') = stacks (sched_part s)" "threadIDS (sched_part s') = threadIDS (sched_part s)"
    by (subst e, simp)+
  then show "threads s' = threads s" "contexts s' = contexts s" "stacks s' = stacks s" "threadIDS s' = threadIDS s"
    by simp_all
  show "dom (qnodes s') = dom (qnodes s)" by (rule d)
qed

text \<open>A yield from any well-formed state keeps records, contexts, stacks and the structures' region.\<close>

lemma a2_ready_frame:
  assumes "a2_ready n k s" "a2_yield s = Some (sw, s')"
  shows "yield_frame (sched_part s) (sched_part s')" "os_same s s'"
proof -
  obtain q1 q2 T1 T2 where rep: "ready_rep s q1 q2 T1 T2" "\<forall>c. current s = Some c \<longrightarrow> c \<in> set (T1 @ T2)"
    using assms(1) by (auto simp: a2_ready_def)
  have "yields (sched_part s) T1 T2 (a1_yield (sched_part s))"
    by (rule a1_yield_ok [of _ q1 q2]) (use rep in simp_all)
  moreover have "a1_yield (sched_part s) = Some (sw, sched_part s')"
    using a2_yield_simulation [of s] assms(2) by (simp add: simulates_def)
  ultimately show "yield_frame (sched_part s) (sched_part s')" by (auto simp: yields_def)
  show "os_same s s'" using yield_kept [of s] assms(2) by (simp add: os_kept_def)
qed

lemma ready_frame_structures:
  assumes "a2_ready n k s" "a2_yield s = Some (sw, s')"
  shows "structures s' = structures s" "separate s' = separate s"
  using yield_frame_part [OF a2_ready_frame(1) [OF assms]] a2_ready_frame(2) [OF assms]
  by (simp_all add: structures_def separate_def os_same_def)

lemma started_rep:
  assumes "started n s T1 T2"
  obtains q1 q2 where "ready_rep s q1 q2 T1 T2"
  using assms by (auto simp: started_def all_queued_def)

lemma started_set: "started n s T1 T2 \<Longrightarrow> mainEnqueued s \<noteq> 0 \<Longrightarrow> set (T1 @ T2) = dom (threads s)"
  by (simp add: started_def all_queued_def)

lemma started_current:
  assumes "started n s T1 T2" "mainEnqueued s \<noteq> 0"
  shows "\<forall>c. current s = Some c \<longrightarrow> c \<in> set (T1 @ T2)" "a2_ready n 1 s" "\<exists>c. current s = Some c \<and> c \<in> set (T1 @ T2)"
proof -
  obtain q1 q2 where rep: "ready_rep s q1 q2 T1 T2" by (rule started_rep [OF assms(1)])
  show c: "\<exists>c. current s = Some c \<and> c \<in> set (T1 @ T2)"
    using assms(1) unfolding started_set [OF assms] by (auto simp: started_def all_queued_def)
  then show *: "\<forall>c. current s = Some c \<longrightarrow> c \<in> set (T1 @ T2)" by auto
  show "a2_ready n 1 s" using assms(1) rep * unfolding a2_ready_def started_def by blast
qed

lemma yield_spec_some: "(c', T1', T2') = yield_spec (Some c, T1, T2) \<Longrightarrow> c' \<noteq> None"
  by (cases "(Some c, T1, T2)" rule: yield_spec.cases) (auto split: if_splits)

lemma started_yield:
  assumes st: "started n s T1 T2" and me: "mainEnqueued s \<noteq> 0"
  obtains sw s' T1' T2' where "a2_yield s = Some (sw, s')" "started n s' T1' T2'"
    "(current s', T1', T2') = yield_spec (current s, T1, T2)" "sw = switch_spec s (current s')"
    "threads s' = threads s" "contexts s' = contexts s" "same_views n (\<lambda>_. 1) (pages_of s) (pages_of s')" "mainEnqueued s' \<noteq> 0"
    "stacks s' = stacks s" "pageTables s' = pageTables s"
proof -
  note cur = started_current [OF st me]
  obtain sw s' where y: "a2_yield s = Some (sw, s')" "a2_ready n 1 s'" "sched_abs s' = yield_spec (sched_abs s)"
    "sw = switch_spec s (current s')" "threads s' = threads s" "memory_kept n 1 s s'"
    by (rule a2_ready_yield [OF cur(2)])
  obtain q1 q2 where rep: "ready_rep s q1 q2 T1 T2" by (rule started_rep [OF st])
  obtain q1' q2' T1' T2' where z: "ready_rep s' q1' q2' T1' T2'" "(current s', T1', T2') = yield_spec (current s, T1, T2)"
    using y(2,3) ready_rep_abs [OF rep] ready_rep_abs [of s'] unfolding a2_ready_def by metis
  note fr = yield_frame_part [OF a2_ready_frame(1) [OF cur(2) y(1)]] and os = a2_ready_frame(2) [OF cur(2) y(1)]
  obtain U b where b: "os_room s U b" "b \<le> 15200 * n - (if mainEnqueued s = 0 then 48 else 0)" using st by (auto simp: started_def)
  have "os_used (memory s') U b" by (rule os_same_used [OF os]) (use b(1) in \<open>simp add: os_room_def\<close>)
  then have room: "os_room s' U b" using b(1) ready_frame_structures [OF cur(2) y(1)] by (simp add: os_room_def)
  have "mset (T1' @ T2') = mset (T1 @ T2)"
    using yield_spec_mset [of "(current s, T1, T2)"] by (simp add: z(2) [symmetric] ready_threads_def)
  then have T: "set (T1' @ T2') = set (T1 @ T2)" by (rule mset_eq_setD)
  note set = started_set [OF st me]
  obtain c where "current s = Some c" using cur(3) by blast
  then obtain c' where "current s' = Some c'" using yield_spec_some [of "current s'" T1' T2' c T1 T2] z(2) by auto
  moreover have "c' \<in> set (T1' @ T2')" by (rule yield_spec_current [OF z(2) cur(1)]) fact
  ultimately have "current s' \<in> Some ` dom (threads s')" unfolding T set fr(1) by blast
  moreover have "records_of s'" using st fr by (simp add: started_def records_of_def)
  ultimately have "started n s' T1' T2'"
    using st y(2) os me room b(2) fr z(1) T set unfolding started_def all_queued_def a2_ready_def os_same_def by auto
  then show thesis using that y z fr os me by (auto simp: memory_kept_def os_same_def)
qed

subsection \<open>The first call\<close>

lemma page_set_card: "0 \<le> n \<Longrightarrow> card (page_set n (\<lambda>_. 1)) = 2 * nat n"
proof -
  assume "0 \<le> n"
  have "page_set n (\<lambda>_. 1) = {0..<n} \<times> {0, LAST}" by (auto simp: page_set_def is_page_def homes_def)
  then show ?thesis by (simp add: card_cartesian_product)
qed

lemma enough_free: "paging_ok n (\<lambda>_. 1) s \<Longrightarrow> n \<le> 127 \<Longrightarrow> 0 \<le> n \<Longrightarrow> nat 1 < card (free_frames (pages_of s))"
  using page_set_card [of n] card_free [of n "\<lambda>_. 1" s] by simp

lemma main_started_pages:
  assumes "msize m = OS_SIZE + USR_SIZE + PAGESIZE"
  shows "paging_ok 1 (\<lambda>_. 1) (main_started m a2_start)" "at_home (\<lambda>_. 1) (pages_of (main_started m a2_start)) 0"
proof -
  let ?s = "main_started m a2_start"
  let ?p = "pages_of ?s"
  have f: "pageTables ?s = (fresh_slots m 4)(0 \<mapsto> 6676)" "tables ?s = [6676 \<mapsto> main_table]" "memory ?s = m" "file_open ?s" "msize (swapfile ?s) = 16777216"
    "mt ?p = (\<lambda>i. if i = 0 \<or> i = MEMORYPAGES - 1 then CHR ''1'' else CHR ''0'')"
    by (simp_all add: main_started_def a2_start_def pages_of_def)
  have "paged_in (pageTables ?s) 1 ?s"
    unfolding paged_in_def f(1,2) using assms f(3-5) by (auto simp: fresh_slots_def inj_on_def)
  then have pg: "paged 1 ?s" by (simp add: paged_def)
  have en: "en ?p 0 = main_table" using f(1,2) by (simp add: pages_of_def entry_at_def pt_table_def fun_eq_iff)
  have pgs: "is_page 1 (\<lambda>_. 1) u i \<longleftrightarrow> u = 0 \<and> (i = 0 \<or> i = LAST)" for u i by (auto simp: is_page_def homes_def)
  have home: "en ?p 0 i = i" if "i = 0 \<or> i = LAST" for i using that by (auto simp: en main_table_def)
  have ow: "owned 1 (\<lambda>_. 1) ?p = {0, LAST}" unfolding owned_def pgs using home by force
  have fr: "free_frames ?p = {0..<TOTALPAGES} - {0, LAST}" by (auto simp: free_frames_def f)
  have "page_inv 1 (\<lambda>_. 1) ?p"
    unfolding page_inv_def ow pgs
  proof (intro conjI)
    show "\<forall>u. 0 \<le> u \<and> u < 1 \<longrightarrow> 0 \<le> (1::int) \<and> (1::int) < LAST \<and> (\<forall>i. 1 \<le> i \<and> i < LAST \<longrightarrow> en ?p u i = 6969)"
    proof (intro allI impI)
      fix u :: int assume "0 \<le> u \<and> u < 1"
      then have "u = 0" by simp
      then show "0 \<le> (1::int) \<and> (1::int) < LAST \<and> (\<forall>i. 1 \<le> i \<and> i < LAST \<longrightarrow> en ?p u i = 6969)"
        by (auto simp: en main_table_def)
    qed
    show "\<forall>f \<in> {0, LAST}. 0 \<le> f \<and> f < TOTALPAGES \<and> f \<notin> free_frames ?p" by (simp add: fr)
  qed (use home in auto)
  moreover have "exact 1 (\<lambda>_. 1) {} ?p" by (auto simp: exact_def ow fr)
  ultimately show "paging_ok 1 (\<lambda>_. 1) ?s" using pg by (simp add: paging_ok_def)
  show "at_home (\<lambda>_. 1) ?p 0" using home by (auto simp: at_home_def homes_def)
qed

lemma main_started_started:
  assumes "arena_ok arena" "0 < uc" "uc \<le> 2000" "os_memory m (started_blocks uc)" "os_keeps {} (fresh_arena arena) m"
  shows "started 1 (main_started m a2_start) [] []"
proof -
  let ?s = "main_started m a2_start"
  have sz: "msize m = OS_SIZE + USR_SIZE + PAGESIZE" using assms(1,5) by (simp add: os_keeps_def keeps_def arena_ok_def)
  have e: "12 \<le> a2_extended uc" "a2_extended uc < uc + 12" using a2_extended_bounds [of uc] assms(2,3) by simp_all
  note ok = main_started_pages [OF sz]
  have f: "threads ?s = [9756 \<mapsto> \<lparr>thread_id = 0, tcontext = 9796, tstate = ACTIVE, return_value = None\<rparr>]"
    "contexts ?s = [9796 \<mapsto> \<lparr>ss_sp = None, ss_size = 0, uc_entry = None\<rparr>]" "stacks ?s = Map.empty" "qnodes ?s = Map.empty"
    "tables ?s = [6676 \<mapsto> main_table]" "current ?s = Some 9756" "memory ?s = m" "mainEnqueued ?s = 0" "threadIDS ?s = 1"
    "memoryInitialized ?s = 1" "queue_priority_1 ?s = None" "queue_priority_2 ?s = None" "priority1_size ?s = 0" "priority2_size ?s = 0"
    by (simp_all add: main_started_def a2_start_def)
  have "os_used m (insert (9796, a2_extended uc) {(4, 1032), (1036, 5640), (6676, 3080), (9756, 40)}) (9792 + a2_extended uc)"
    unfolding os_used_def using assms(4)
    by (intro exI [of _ "[(1032, True), (5640, True), (3080, True), (40, True), (a2_extended uc, True)]"])
      (auto simp: started_blocks_def)
  then have "os_room ?s (insert (9796, a2_extended uc) {(4, 1032), (1036, 5640), (6676, 3080), (9756, 40)}) (9792 + a2_extended uc)"
    using e by (auto simp: os_room_def structures_def separate_def f split: if_splits)
  moreover have "ready_rep ?s [] [] [] []" by (simp add: ready_rep_def threads_ok_def f)
  moreover have "yield_ready 1 1 ?s" using ok enough_free [OF ok(1)] by (auto simp: yield_ready_def f)
  ultimately show ?thesis
    using e assms(3) by (auto simp: started_def records_of_def all_queued_def f intro!: exI [of _ "9792 + a2_extended uc"] exI [of _ "insert (9796, a2_extended uc) {(4, 1032), (1036, 5640), (6676, 3080), (9756, 40)}"])
qed

subsection \<open>One creation\<close>

text \<open>The structures of the new thread: its record, its context and its stack.\<close>

definition with_thread :: "int \<Rightarrow> int \<Rightarrow> addr \<Rightarrow> addr \<Rightarrow> addr \<Rightarrow> mem \<Rightarrow> a2_state \<Rightarrow> a2_state" where
  "with_thread f arg t cx sp m s = s\<lparr>memory := m, stacks := (stacks s)(sp \<mapsto> 10000),
     contexts := (contexts s)(cx \<mapsto> \<lparr>ss_sp = Some sp, ss_size = 10000, uc_entry = Some (f, arg)\<rparr>),
     threads := (threads s)(t \<mapsto> \<lparr>thread_id = threadIDS s, tcontext = cx, tstate = ACTIVE, return_value = None\<rparr>),
     threadIDS := s32 (threadIDS s + 1)\<rparr>"

lemma with_thread_allocated:
  assumes "os_used (memory s0) U b" "b + 15200 < OS_SIZE - 4" "0 < uc" "uc \<le> 2000" "memoryInitialized s0 \<noteq> 0"
  obtains m where "os_used m (insert (b + 44 + a2_extended uc, 10008) (insert (b + 44, a2_extended uc) (insert (b + 4, 40) U)))
      (b + 10048 + a2_extended uc)" "os_keeps {} (memory s0) m"
    "a2_create arena uc False f arg s0 =
       do { s \<leftarrow> a2_enqueue_new (b + 4) (with_thread f arg (b + 4) (b + 44) (b + 44 + a2_extended uc) m s0);
            s \<leftarrow> (if mainEnqueued s = 0 then
                    do { let s = s\<lparr>mainEnqueued := 1\<rparr>; c \<leftarrow> current s; a2_enqueue_new c s }
                  else Some s);
            s \<leftarrow> new_page_table (threadIDS s0) s;
            (sw, s) \<leftarrow> a2_yield s;
            Some (0, b + 4, sw, s) }"
proof -
  have ext: "a2_extended 32 = 40" "a2_extended 10000 = 10008" by (simp_all add: a2_extended_def)
  have e: "a2_extended uc < uc + 12" "0 < a2_extended uc" using a2_extended_bounds [of uc] assms(3,4) by simp_all
  obtain m1 where m1: "\<And>s. memory s = memory s0 \<Longrightarrow> os_alloc s 32 = Some (b + 4, s\<lparr>memory := m1\<rparr>)"
    "os_used m1 (insert (b + 4, 40) U) (b + 40)" "os_keeps {} (memory s0) m1"
    by (rule os_used_alloc [OF assms(1), of 32, unfolded ext]) (use assms(2) in simp_all)
  obtain m2 where m2: "\<And>s. memory s = m1 \<Longrightarrow> os_alloc s uc = Some (b + 40 + 4, s\<lparr>memory := m2\<rparr>)"
    "os_used m2 (insert (b + 40 + 4, a2_extended uc) (insert (b + 4, 40) U)) (b + 40 + a2_extended uc)" "os_keeps {} m1 m2"
    by (rule os_used_alloc [OF m1(2), of uc]) (use assms(2-4) e in simp_all)
  obtain m3 where m3: "\<And>s. memory s = m2 \<Longrightarrow> os_alloc s 10000 = Some (b + 40 + a2_extended uc + 4, s\<lparr>memory := m3\<rparr>)"
    "os_used m3 (insert (b + 40 + a2_extended uc + 4, 10008) (insert (b + 40 + 4, a2_extended uc) (insert (b + 4, 40) U)))
      (b + 40 + a2_extended uc + 10008)" "os_keeps {} m2 m3"
    by (rule os_used_alloc [OF m2(2), of 10000, unfolded ext]) (use assms(2,4) e in simp_all)
  have r1: "a2_allocate s0 32 69 = Some (Some (b + 4), s0\<lparr>memory := m1\<rparr>)"
    using m1(1) [of s0] by (auto simp: os_alloc_def bind_eq_Some_conv)
  show thesis
  proof (rule that)
    show "os_used m3 (insert (b + 44 + a2_extended uc, 10008) (insert (b + 44, a2_extended uc) (insert (b + 4, 40) U)))
      (b + 10048 + a2_extended uc)" using m3(2) by (simp add: algebra_simps)
    show "os_keeps {} (memory s0) m3" using m1(3) m2(3) m3(3) by (blast intro: os_keeps_trans)
    show "a2_create arena uc False f arg s0 =
       do { s \<leftarrow> a2_enqueue_new (b + 4) (with_thread f arg (b + 4) (b + 44) (b + 44 + a2_extended uc) m3 s0);
            s \<leftarrow> (if mainEnqueued s = 0 then
                    do { let s = s\<lparr>mainEnqueued := 1\<rparr>; c \<leftarrow> current s; a2_enqueue_new c s }
                  else Some s);
            s \<leftarrow> new_page_table (threadIDS s0) s;
            (sw, s) \<leftarrow> a2_yield s;
            Some (0, b + 4, sw, s) }"
      using assms(5) r1 m2(1) m3(1)
      by (simp add: a2_create_def a2_myallocate_def with_thread_def Let_def algebra_simps)
  qed
qed

lemma with_thread_sel [simp]:
  "memory (with_thread f arg t cx sp m s) = m"
  "threads (with_thread f arg t cx sp m s) =
     (threads s)(t \<mapsto> \<lparr>thread_id = threadIDS s, tcontext = cx, tstate = ACTIVE, return_value = None\<rparr>)"
  "contexts (with_thread f arg t cx sp m s) = (contexts s)(cx \<mapsto> \<lparr>ss_sp = Some sp, ss_size = 10000, uc_entry = Some (f, arg)\<rparr>)"
  "stacks (with_thread f arg t cx sp m s) = (stacks s)(sp \<mapsto> 10000)"
  "qnodes (with_thread f arg t cx sp m s) = qnodes s" "tables (with_thread f arg t cx sp m s) = tables s"
  "current (with_thread f arg t cx sp m s) = current s" "mainEnqueued (with_thread f arg t cx sp m s) = mainEnqueued s"
  "memoryInitialized (with_thread f arg t cx sp m s) = memoryInitialized s"
  "threadIDS (with_thread f arg t cx sp m s) = s32 (threadIDS s + 1)"
  by (simp_all add: with_thread_def)

text \<open>Steps that change the library's structures, and bytes of their region, but no page.\<close>

definition no_page :: "a2_state \<Rightarrow> a2_state \<Rightarrow> bool" where
  "no_page s s' \<longleftrightarrow> (\<exists>m. os_keeps {} (memory s) m \<and> memory s' = m \<and> swapfile s' = swapfile s \<and> pageTables s' = pageTables s \<and>
     tables s' = tables s \<and> masterTable s' = masterTable s \<and> file_open s' = file_open s \<and> memoryInitialized s' = memoryInitialized s)"

lemma no_page_trans: "no_page s s1 \<Longrightarrow> no_page s1 s2 \<Longrightarrow> no_page s s2"
  unfolding no_page_def by (metis os_keeps_trans)

lemma no_page_pages:
  assumes "no_page s s'"
  shows "pages_of s' = pages_of s" "paging_ok n K s' = paging_ok n K s"
proof -
  obtain m where m: "os_keeps {} (memory s) m" "memory s' = m" "swapfile s' = swapfile s" "pageTables s' = pageTables s"
     "tables s' = tables s" "masterTable s' = masterTable s" "file_open s' = file_open s"
    using assms by (auto simp: no_page_def)
  have "pages_of s' = pages_of (s\<lparr>memory := m\<rparr>)"
    unfolding pages_of_def frame_at_def [abs_def] entry_at_def [abs_def] pt_table_def m(2-) by (simp cong: if_cong)
  moreover have "paged n s' = paged n (s\<lparr>memory := m\<rparr>)" unfolding paged_def paged_in_def m(2-) by simp
  ultimately show "pages_of s' = pages_of s" "paging_ok n K s' = paging_ok n K s"
    using os_keeps_pages [OF m(1)] by (simp_all add: paging_ok_def)
qed

lemma no_page_thread: "os_keeps {} (memory s) m \<Longrightarrow> no_page s (with_thread f arg t cx sp m s)"
  by (simp add: no_page_def with_thread_def)

lemma queued_fields:
  assumes "queued_only s s'"
  shows "threads s' = threads s" "contexts s' = contexts s" "current s' = current s" "threadIDS s' = threadIDS s"
    "mainEnqueued s' = mainEnqueued s" "no_page s s'" "stacks s' = stacks s"
  using assms by (auto simp: queued_only_def no_page_def)

lemma create_queued:
  assumes st: "started n s T1 T2" and room: "os_room s U b" "b + 15200 < OS_SIZE - 4"
    and m: "os_used m V c" "os_keeps {} (memory s) m" and c: "b + 44 + e < c" "0 < e" "c + 3200 < OS_SIZE - 4"
    and fresh: "t = b + 4" "cx = b + 44" "sp = b + 44 + e" and V: "U \<subseteq> V" "{t, cx, sp} \<subseteq> fst ` V"
  defines "M \<equiv> if mainEnqueued s = 0 then [the (current s)] else []"
  obtains s' q1 q2 W where "do { s \<leftarrow> a2_enqueue_new t (with_thread f arg t cx sp m s);
      (if mainEnqueued s = 0 then do { let s = s\<lparr>mainEnqueued := 1\<rparr>; c \<leftarrow> current s; a2_enqueue_new c s } else Some s) } = Some s'"
    "ready_rep s' q1 q2 (T1 @ t # M) T2" "os_room s' W (c + 48 + (if mainEnqueued s = 0 then 48 else 0))" "mainEnqueued s' \<noteq> 0"
    "threads s' = threads (with_thread f arg t cx sp m s)" "contexts s' = contexts (with_thread f arg t cx sp m s)"
    "current s' = current s" "threadIDS s' = s32 (threadIDS s + 1)" "no_page s s'" "stacks s' = stacks (with_thread f arg t cx sp m s)"
proof -
  let ?s = "with_thread f arg t cx sp m s"
  obtain q1 q2 where rep: "ready_rep s q1 q2 T1 T2" by (rule started_rep [OF st])
  obtain cur where cur: "current s = Some cur" "cur \<in> dom (threads s)" using st by (auto simp: started_def all_queued_def)
  have tf: "t \<notin> dom (threads s)" "cx \<notin> dom (contexts s)"
    using room_used [OF room(1), of t] room_used [OF room(1), of cx] fresh by (auto simp: structures_def)
  have ids: "0 \<le> thread_id r \<and> thread_id r < threadIDS s" if "threads s u = Some r" for u r
    using st that by (auto simp: started_def yield_ready_def)
  have rec: "records_of ?s"
  proof -
    have "inj_on (tid (threads ?s)) (insert t (dom (threads s)))"
    proof (rule inj_onI)
      fix u w assume "u \<in> insert t (dom (threads s))" "w \<in> insert t (dom (threads s))" "tid (threads ?s) u = tid (threads ?s) w"
      moreover have "inj_on (tid (threads s)) (dom (threads s))" using st by (simp add: started_def records_of_def)
      ultimately show "u = w"
        using tf ids by (auto simp: tid_def inj_on_def split: if_splits) fastforce+
    qed
    then show ?thesis using st by (auto simp: records_of_def started_def)
  qed
  have sub: "set (T1 @ T2) \<subseteq> dom (threads s)" using st by (auto simp: started_def all_queued_def split: if_splits)
  have dst: "distinct (T1 @ T2)" by (rule ready_distinct [OF rep])
  have "threads_ok (threads ?s) (contexts ?s) (T1 @ T2)" by (rule records_threads_of [OF rec dst]) (use sub in auto)
  then have rep1: "ready_rep ?s q1 q2 T1 T2" using rep by (simp add: ready_rep_def with_thread_def)
  have ok1: "threads_ok (threads ?s) (contexts ?s) (T1 @ [t] @ T2)"
    by (rule records_threads_of [OF rec]) (use dst sub tf in auto)
  have n: "int (length T1 + length T2) + 2 < 2147483647"
    using ready_length [OF rep, of "threadIDS s"] ids st by (auto simp: started_def)
  then have sz: "int (length T1 + length T2) + 1 < 2147483647" by simp
  have new: "t \<notin> structures s" "cx \<notin> structures s" "sp \<notin> structures s"
    using room_used [OF room(1), of t] room_used [OF room(1), of cx] room_used [OF room(1), of sp] fresh c by auto
  have sep: "separate s" "0 < b" using room(1) by (simp_all add: os_room_def)
  have ne: "t \<noteq> cx" "t \<noteq> sp" "cx \<noteq> sp" using fresh c by auto
  have "separate ?s" using sep(1) new ne by (auto simp: separate_def structures_def)
  then have room1: "os_room ?s V c"
    by (rule os_roomI [OF room(1), of _ _ _ "{t, cx, sp}", rotated -1]) (use m(1) c fresh V sep in \<open>auto simp: structures_def\<close>)
  obtain s2 q1' where s2: "a2_enqueue_new t ?s = Some s2" "ready_rep s2 q1' q2 (T1 @ [t]) T2" "os_room s2 (insert (c + 4, 48) V) (c + 48)" "queued_only ?s s2"
    by (rule a2_enqueue_new_ok [OF rep1 room1 _ ok1 sz]) (use c in auto)
  note f2 = queued_fields [OF s2(4)]
  have np: "no_page s s2" using no_page_trans [OF no_page_thread [OF m(2)] f2(6)] .
  show thesis
  proof (cases "mainEnqueued s = 0")
    case False
    then show ?thesis using s2 f2 np by (intro that [of s2 q1' q2 "insert (c + 4, 48) V"]) (auto simp: M_def)
  next
    case True
    then have T: "T1 = []" "T2 = []" "dom (threads s) = {cur}" using st cur by (auto simp: started_def all_queued_def)
    let ?u = "s2\<lparr>mainEnqueued := 1\<rparr>"
    have rep2: "ready_rep ?u q1' q2 (T1 @ [t]) T2" using s2(2) by simp
    have room2: "os_room ?u (insert (c + 4, 48) V) (c + 48)" using s2(3) by (simp add: os_room_def structures_def separate_def)
    have "t \<noteq> cur" using tf T(3) by auto
    then have ok2: "threads_ok (threads ?u) (contexts ?u) ((T1 @ [t]) @ [cur] @ T2)"
      using records_threads_of [OF rec, of "[t, cur]"] cur(2) T f2 by simp
    obtain s3 q1'' where s3: "a2_enqueue_new cur ?u = Some s3" "ready_rep s3 q1'' q2 ((T1 @ [t]) @ [cur]) T2"
        "os_room s3 (insert (c + 48 + 4, 48) (insert (c + 4, 48) V)) (c + 48 + 48)" "queued_only ?u s3"
      by (rule a2_enqueue_new_ok [OF rep2 room2 _ ok2]) (use c T in auto)
    note f3 = queued_fields [OF s3(4)]
    have "no_page s2 ?u" by (simp add: no_page_def os_keeps_def)
    then have "no_page s s3" using np f3(6) no_page_trans by blast
    then show ?thesis using s2(1) s3 f2 f3 True cur(1) by (intro that [of s3 q1'' q2 "insert (c + 48 + 4, 48) (insert (c + 4, 48) V)"]) (auto simp: M_def Let_def)
  qed
qed

text \<open>The first word of a thread's page \<open>i\<close>, as the thread sees it.\<close>

definition page_word :: "a2_state \<Rightarrow> int \<Rightarrow> int \<Rightarrow> int" where
  "page_word s u i = ld32 \<lparr>msize = PAGESIZE, mbytes = view (pages_of s) u i\<rparr> 0"

lemma page_tag_word: "ld32 \<lparr>msize = PAGESIZE, mbytes = page_tag h\<rparr> 0 = a2_tag (USR_SIZE - 8) False"
  by (simp add: ld32_def page_tag_def a2_tag_def s32_id)

lemma new_owner_word:
  assumes "new_owner n f g (pages_of s) (pages_of s')" "0 \<le> n" "same_views (n + 1) (\<lambda>_. 1) (pages_of s') (pages_of s'')"
  shows "page_word s'' n 0 = a2_tag (USR_SIZE - 8) False" "page_word s'' n LAST = a2_tag (USR_SIZE - 8) False"
proof -
  have "is_page (n + 1) (\<lambda>_. 1) n 0" "is_page (n + 1) (\<lambda>_. 1) n LAST" using assms(2) by (simp_all add: is_page_def homes_def)
  then have v: "view (pages_of s'') n 0 = view (pages_of s') n 0" "view (pages_of s'') n LAST = view (pages_of s') n LAST"
    using assms(3) by (simp_all add: same_views_def)
  have w: "view (pages_of s') n 0 = page_tag (fr (pages_of s) f)" "view (pages_of s') n LAST = page_tag (fr (pages_of s) g)"
    using assms(1) by (simp_all add: new_owner_def view_def)
  show "page_word s'' n 0 = a2_tag (USR_SIZE - 8) False" "page_word s'' n LAST = a2_tag (USR_SIZE - 8) False"
    unfolding page_word_def v w page_tag_word by simp_all
qed

text \<open>The thread that runs next, and what the queues hold after a creation.\<close>

definition created_queue :: "a2_state \<Rightarrow> addr \<Rightarrow> addr list \<Rightarrow> addr list" where
  "created_queue s t T1 = T1 @ t # (if mainEnqueued s = 0 then [the (current s)] else [])"

lemma threads_ok_records:
  assumes "threads_ok (threads s) (contexts s) T" "set T = dom (threads s)"
  shows "records_of s"
proof -
  have "tstate r = ACTIVE \<and> tcontext r \<in> dom (contexts s)" if "threads s t = Some r" for t r
    using threads_ok_mem [OF assms(1), of t] assms(2) that by force
  moreover have "inj_on (tid (threads s)) (dom (threads s))"
    using assms by (simp add: threads_ok_def distinct_map)
  ultimately show ?thesis by (simp add: records_of_def)
qed

text \<open>The state before the final yield.\<close>

lemma create_paged:
  assumes st: "started n s T1 T2" and n: "n < 127" and rep: "ready_rep s' q1 q2 (created_queue s t T1) T2"
    and room: "os_room s' U c" "c + 3080 \<le> 15200 * (n + 1)"
    and f: "mainEnqueued s' \<noteq> 0" "current s' = current s" "threadIDS s' = n + 1" "no_page s s'"
      "threads s' = (threads s)(t \<mapsto> \<lparr>thread_id = n, tcontext = cx, tstate = ACTIVE, return_value = None\<rparr>)"
    and t: "t \<notin> dom (threads s)"
  obtains s'' h g where "new_page_table n s' = Some s''" "started (n + 1) s'' (created_queue s t T1) T2"
    "new_owner n h g (pages_of s) (pages_of s'')" "same_views n (\<lambda>_. 1) (pages_of s) (pages_of s'')"
    "sched_part s'' = sched_part s'" "mainEnqueued s'' \<noteq> 0" "pageTables s'' = (pageTables s)(n \<mapsto> c + 4)"
proof -
  note pages = no_page_pages [OF f(4)]
  have yr: "yield_ready n 1 s" and n1: "1 \<le> n" using st by (simp_all add: started_def)
  then have ok: "paging_ok n (\<lambda>_. 1) s" and ok': "paging_ok n (\<lambda>_. 1) s'" by (simp_all add: yield_ready_def pages)
  have r: "os_used (memory s') U c" "c + 3088 < OS_SIZE - 4" "c + 4 \<notin> dom (tables s')" "0 \<le> c"
    using room n room_used [OF room(1), of "c + 4"] by (auto simp: os_room_def structures_def)
  obtain s'' h g where s'': "new_page_table n s' = Some s''" "new_owner n h g (pages_of s') (pages_of s'')" "paged (n + 1) s''"
    "os_used (memory s'') (insert (c + 4, 3080) U) (c + 3080)" "dom (tables s'') = insert (c + 4) (dom (tables s'))" "sched_part s'' = sched_part s'"
    "memoryInitialized s'' = memoryInitialized s'" "mainEnqueued s'' = mainEnqueued s'" "pageTables s'' = (pageTables s')(n \<mapsto> c + 4)"
    by (rule new_page_table_ok [OF ok' n r])
  have inv: "page_inv n (\<lambda>_. 1) (pages_of s')" "exact n (\<lambda>_. 1) {} (pages_of s')" "0 \<le> n"
    using ok' n1 by (simp_all add: paging_ok_def)
  note new = new_owner_ok [OF inv s''(2)]
  have ok2: "paging_ok (n + 1) (\<lambda>_. 1) s''" using new s''(3) by (simp add: paging_ok_def)
  have same: "threads s'' = threads s'" "contexts s'' = contexts s'" "stacks s'' = stacks s'" "qnodes s'' = qnodes s'"
      "current s'' = current s'" "threadIDS s'' = threadIDS s'"
    using s''(6) by (metis sched_part_sel(1), metis sched_part_sel(2), metis sched_part_sel(3), metis sched_part_sel(4),
        metis sched_part_sel(5), metis sched_part_sel(12))
  obtain cur rc where cur: "current s = Some cur" "threads s cur = Some rc" "at_home (\<lambda>_. 1) (pages_of s) (thread_id rc)"
    "0 \<le> thread_id rc" "thread_id rc < n"
    using yr st by (auto simp: yield_ready_def started_def all_queued_def)
  have "en (pages_of s'') (thread_id rc) = en (pages_of s) (thread_id rc)" using s''(2) cur(5) pages by (simp add: new_owner_def)
  then have home: "at_home (\<lambda>_. 1) (pages_of s'') (thread_id rc)" using cur(3) by (simp add: at_home_def)
  have ct: "threads s'' cur = Some rc" using cur(2) t same f(5) by auto
  have ids: "0 \<le> thread_id r \<and> thread_id r < n + 1" if "threads s'' u = Some r" for u r
    using that yr same f(5) n1 by (force simp: yield_ready_def split: if_splits)
  have yr': "yield_ready (n + 1) 1 s''"
    using ok2 enough_free [OF ok2] n n1 ids home ct cur(1) same f(2) by (simp add: yield_ready_def)
  have rep'': "ready_rep s'' q1 q2 (created_queue s t T1) T2" using rep s''(6) by (metis sched_part_rep(1))
  have set: "set (created_queue s t T1 @ T2) = dom (threads s'')"
    using st cur same f(5) by (auto simp: created_queue_def started_def all_queued_def split: if_splits)
  have rec: "records_of s''" by (rule threads_ok_records [OF ready_rep_ok [OF rep''] set])
  have sep: "separate s'" "0 < c" "c + 4 \<notin> structures s'" using room(1) room_used [OF room(1), of "c + 4"] by (simp_all add: os_room_def)
  then have "separate s''" using s''(5) same by (auto simp: separate_def structures_def)
  then have room': "os_room s'' (insert (c + 4, 3080) U) (c + 3080)"
    by (rule os_roomI [OF room(1), of _ _ _ "{c + 4}", rotated -1]) (use s''(4,5) same sep(2) in \<open>auto simp: structures_def\<close>)
  have "memoryInitialized s'' \<noteq> 0" using s''(7) f(4) st by (auto simp: no_page_def started_def)
  moreover have "\<exists>U b. os_room s'' U b \<and> b \<le> 15200 * (n + 1) - (if mainEnqueued s'' = 0 then 48 else 0)"
    using room' room(2) f(1) s''(8) by (intro exI [of _ "insert (c + 4, 3080) U"] exI [of _ "c + 3080"]) simp
  ultimately have "started (n + 1) s'' (created_queue s t T1) T2"
    using yr' rec rep'' set same f n n1 cur s''(8) ct unfolding started_def all_queued_def by auto
  moreover have "pageTables s'' = (pageTables s)(n \<mapsto> c + 4)" using s''(9) f(4) by (auto simp: no_page_def)
  ultimately show thesis using that s'' new(3) f(1) pages by metis
qed

lemma a2_create_started:
  assumes st: "started n s T1 T2" and n: "n < 127" and uc: "0 < uc" "uc \<le> 2000"
  obtains t cx sp sw s' T1' T2' where "a2_create arena uc False f arg s = Some (0, t, sw, s')" "started (n + 1) s' T1' T2'"
    "mainEnqueued s' \<noteq> 0" "(current s', T1', T2') = yield_spec (current s, created_queue s t T1, T2)"
    "t \<notin> dom (threads s)" "threads s' = (threads s)(t \<mapsto> \<lparr>thread_id = n, tcontext = cx, tstate = ACTIVE, return_value = None\<rparr>)"
    "contexts s' = (contexts s)(cx \<mapsto> \<lparr>ss_sp = Some sp, ss_size = 10000, uc_entry = Some (f, arg)\<rparr>)" "stacks s' = (stacks s)(sp \<mapsto> 10000)"
    "cx \<notin> dom (contexts s)"
    "same_views n (\<lambda>_. 1) (pages_of s) (pages_of s')"
    "page_word s' n 0 = a2_tag (USR_SIZE - 8) False" "page_word s' n LAST = a2_tag (USR_SIZE - 8) False"
    "\<And>u. u \<noteq> n \<Longrightarrow> pageTables s' u = pageTables s u"
proof -
  obtain U b where b: "os_room s U b" "b \<le> 15200 * n - (if mainEnqueued s = 0 then 48 else 0)" using st by (auto simp: started_def)
  have mi: "memoryInitialized s \<noteq> 0" and ids: "threadIDS s = n" "1 \<le> n" using st by (simp_all add: started_def)
  have e: "a2_extended uc < uc + 12" "0 < a2_extended uc" using a2_extended_bounds [of uc] uc by simp_all
  have b': "b + 15200 < OS_SIZE - 4" using b(2) n by (simp split: if_splits)
  let ?t = "b + 4" and ?cx = "b + 44" and ?sp = "b + 44 + a2_extended uc" and ?c = "b + 10048 + a2_extended uc"
  have used: "os_used (memory s) U b" using b(1) by (simp add: os_room_def)
  let ?V = "insert (?sp, 10008) (insert (?cx, a2_extended uc) (insert (?t, 40) U))"
  obtain m where m: "os_used m ?V ?c" "os_keeps {} (memory s) m" "a2_create arena uc False f arg s =
       do { s1 \<leftarrow> a2_enqueue_new ?t (with_thread f arg ?t ?cx ?sp m s);
            s1 \<leftarrow> (if mainEnqueued s1 = 0 then
                    do { let s = s1\<lparr>mainEnqueued := 1\<rparr>; c \<leftarrow> current s; a2_enqueue_new c s }
                  else Some s1);
            s1 \<leftarrow> new_page_table (threadIDS s) s1;
            (sw, s1) \<leftarrow> a2_yield s1;
            Some (0, ?t, sw, s1) }"
    by (rule with_thread_allocated [OF used b' uc mi])
  let ?w = "with_thread f arg ?t ?cx ?sp m s"
  obtain s1 q1 q2 W where s1: "do { s \<leftarrow> a2_enqueue_new ?t ?w;
      (if mainEnqueued s = 0 then do { let s = s\<lparr>mainEnqueued := 1\<rparr>; c \<leftarrow> current s; a2_enqueue_new c s } else Some s) } = Some s1"
    "ready_rep s1 q1 q2 (T1 @ ?t # (if mainEnqueued s = 0 then [the (current s)] else [])) T2"
    "os_room s1 W (?c + 48 + (if mainEnqueued s = 0 then 48 else 0))" "mainEnqueued s1 \<noteq> 0"
    "threads s1 = threads ?w" "contexts s1 = contexts ?w" "current s1 = current s" "threadIDS s1 = s32 (threadIDS s + 1)" "no_page s s1"
    "stacks s1 = stacks ?w"
    by (rule create_queued [OF st b(1) b' m(1,2), of "a2_extended uc" ?t ?cx ?sp f arg]) (use e uc b' b n in \<open>auto split: if_splits\<close>)
  have tf: "?t \<notin> dom (threads s)" "?cx \<notin> dom (contexts s)"
    using room_used [OF b(1), of ?t] room_used [OF b(1), of ?cx] e by (auto simp: structures_def)
  have i: "threadIDS s1 = n + 1" "threads s1 = (threads s)(?t \<mapsto> \<lparr>thread_id = n, tcontext = ?cx, tstate = ACTIVE, return_value = None\<rparr>)"
    using s1(5,8) ids n by (simp_all add: s32_id)
  obtain s2 h g where s2: "new_page_table n s1 = Some s2" "started (n + 1) s2 (created_queue s ?t T1) T2"
    "new_owner n h g (pages_of s) (pages_of s2)" "same_views n (\<lambda>_. 1) (pages_of s) (pages_of s2)"
    "sched_part s2 = sched_part s1" "mainEnqueued s2 \<noteq> 0" "pageTables s2 = (pageTables s)(n \<mapsto> ?c + 48 + (if mainEnqueued s = 0 then 48 else 0) + 4)"
    by (rule create_paged [OF st n _ s1(3) _ s1(4,7) i(1) s1(9) i(2) tf(1)])
      (use s1(2) b(2) e uc in \<open>auto simp: created_queue_def split: if_splits\<close>)
  obtain sw s3 T1' T2' where s3: "a2_yield s2 = Some (sw, s3)" "started (n + 1) s3 T1' T2'"
    "(current s3, T1', T2') = yield_spec (current s2, created_queue s ?t T1, T2)"
    "threads s3 = threads s2" "contexts s3 = contexts s2" "same_views (n + 1) (\<lambda>_. 1) (pages_of s2) (pages_of s3)" "mainEnqueued s3 \<noteq> 0"
    "stacks s3 = stacks s2" "pageTables s3 = pageTables s2"
    by (rule started_yield [OF s2(2,6)])
  have part: "threads s2 = threads s1" "contexts s2 = contexts s1" "current s2 = current s1" "stacks s2 = stacks s1"
    using s2(5) by (metis sched_part_sel(1), metis sched_part_sel(2), metis sched_part_sel(5), metis sched_part_sel(3))
  have "same_views n (\<lambda>_. 1) (pages_of s2) (pages_of s3)" using s3(6) by (auto simp: same_views_def is_page_def)
  then have views: "same_views n (\<lambda>_. 1) (pages_of s) (pages_of s3)" using s2(4) same_views_trans by blast
  note words = new_owner_word [OF s2(3) _ s3(6)]
  show thesis
  proof (rule that [OF _ s3(2,7) _ tf(1) _ _ _ tf(2) views])
    show "a2_create arena uc False f arg s = Some (0, ?t, sw, s3)"
    proof -
      obtain y where "a2_enqueue_new ?t ?w = Some y"
        "(if mainEnqueued y = 0 then do { let s = y\<lparr>mainEnqueued := 1\<rparr>; c \<leftarrow> current s; a2_enqueue_new c s } else Some y) = Some s1"
        using s1(1) unfolding bind_eq_Some_conv by blast
      then show ?thesis by (simp only: m(3) ids(1) s2(1) s3(1) Option.bind.simps prod.case)
    qed
    show "(current s3, T1', T2') = yield_spec (current s, created_queue s ?t T1, T2)" using s3(3) part s1(7) by simp
    show "threads s3 = (threads s)(?t \<mapsto> \<lparr>thread_id = n, tcontext = ?cx, tstate = ACTIVE, return_value = None\<rparr>)"
      using s3(4) part i(2) by simp
    show "contexts s3 = (contexts s)(?cx \<mapsto> \<lparr>ss_sp = Some ?sp, ss_size = 10000, uc_entry = Some (f, arg)\<rparr>)"
      using s3(5) part s1(6) by simp
    show "stacks s3 = (stacks s)(?sp \<mapsto> 10000)" using s3(8) part s1(10) by simp
    show "page_word s3 n 0 = a2_tag (USR_SIZE - 8) False" "page_word s3 n LAST = a2_tag (USR_SIZE - 8) False"
      using words ids by simp_all
    show "pageTables s3 u = pageTables s u" if "u \<noteq> n" for u using s3(9) s2(7) that by simp
  qed
qed

end
