(* ===== verification/A2_Threads.thy ===== *)
theory A2_Threads
  imports A2_Create A2_Props
begin

section \<open>Programs with threads in Assignment2\<close>

text \<open>
  Runs of a program from its start: threads are created and call \<open>my_pthread_yield\<close>, in
  any order.  The first creation sets up the arena and the scheduler.  Every state of such a run
  satisfies what the theorems on scheduling and paging ask for, so they hold from the start of the
  program on.
\<close>

subsection \<open>Runs\<close>

text \<open>Fewer than 128 threads have slots in the array of page tables, and its last slot must stay empty.\<close>

inductive a2_threads :: "a2_arena \<Rightarrow> int \<Rightarrow> a2_state \<Rightarrow> bool" for arena uc where
  start: "a2_threads arena uc a2_start"
| create: "a2_threads arena uc s \<Longrightarrow> threadIDS s < 127 \<Longrightarrow> a2_create arena uc False f arg s = Some (rc, t, sw, s') \<Longrightarrow>
    a2_threads arena uc s'"
| yield: "a2_threads arena uc s \<Longrightarrow> a2_yield s = Some (sw, s') \<Longrightarrow> a2_threads arena uc s'"

text \<open>Every thread but the main one has a stack.\<close>

definition stacks_given :: "a2_state \<Rightarrow> bool" where
  "stacks_given s \<longleftrightarrow> (\<forall>t r. threads s t = Some r \<and> thread_id r \<noteq> 0 \<longrightarrow>
     (\<exists>cx sp. contexts s (tcontext r) = Some cx \<and> ss_sp cx = Some sp \<and> sp \<in> dom (stacks s)))"

definition threads_inv :: "a2_state \<Rightarrow> bool" where
  "threads_inv s \<longleftrightarrow> s = a2_start \<or> (\<exists>T1 T2. started (threadIDS s) s T1 T2 \<and> mainEnqueued s \<noteq> 0 \<and>
     runs_front (current s, T1, T2) \<and> stacks_given s)"

lemma stacks_given_create:
  assumes "stacks_given s" "cx \<notin> dom (contexts s)"
    "threads s' = (threads s)(t \<mapsto> \<lparr>thread_id = i, tcontext = cx, tstate = ACTIVE, return_value = None\<rparr>)"
    "contexts s' = (contexts s)(cx \<mapsto> \<lparr>ss_sp = Some sp, ss_size = k, uc_entry = e\<rparr>)" "stacks s' = (stacks s)(sp \<mapsto> z)"
  shows "stacks_given s'"
  using assms(1,2) unfolding stacks_given_def assms(3-5) by (fastforce split: if_splits)

lemma stacks_given_same:
  "stacks_given s \<Longrightarrow> threads s' = threads s \<Longrightarrow> contexts s' = contexts s \<Longrightarrow> stacks s' = stacks s \<Longrightarrow> stacks_given s'"
  by (simp add: stacks_given_def)

lemma a2_start_fields:
  "memoryInitialized a2_start = 0" "threadIDS a2_start = 1" "threads a2_start = Map.empty" "sched_initialized a2_start = 0"
  "mainEnqueued a2_start = 0" "current a2_start = None"
  by (simp_all add: a2_start_def)

lemma started_ids: "started n s T1 T2 \<Longrightarrow> threadIDS s = n \<and> memoryInitialized s \<noteq> 0 \<and> 1 \<le> n"
  by (simp add: started_def)

lemma a2_start_yield: "a2_yield a2_start = Some (Return, a2_start)"
  by (simp add: a2_yield_def peek_def a2_start_def)

text \<open>The first call of the library sets everything up.\<close>

lemma a2_create_first:
  assumes "arena_ok arena" "0 < uc" "uc \<le> 2000"
  obtains s where "started 1 s [] []" "mainEnqueued s = 0" "current s = Some 9756" "stacks_given s"
    "arena = zero_arena \<Longrightarrow> pageTables s = [0 \<mapsto> 6676]"
    "\<And>fails f arg. a2_create arena uc fails f arg a2_start = a2_create arena uc fails f arg s"
proof -
  have uc: "uc \<le> 2000000" using assms(3) by simp
  obtain m where m: "do { s \<leftarrow> initializeMemory arena a2_start; s \<leftarrow> initializeScheduler uc s; Some (s\<lparr>memoryInitialized := 1\<rparr>) } =
      Some (main_started m a2_start)" "os_memory m (started_blocks uc)" "os_keeps {} (fresh_arena arena) m" "keeps {4..<1028} (fresh_arena arena) m"
    by (rule initialize_all [OF assms(1,2) uc a2_start_fields(4)])
  show thesis
  proof (rule that [of "main_started m a2_start"])
    show "started 1 (main_started m a2_start) [] []" by (rule main_started_started [OF assms m(2,3)])
    have i: "memoryInitialized (main_started m a2_start) = 1" by (simp add: main_started_def)
    have "a2_myallocate arena uc a2_start 32 69 = a2_myallocate arena uc (main_started m a2_start) 32 69"
      using m(1) i by (simp add: a2_myallocate_def a2_start_fields(1))
    then show "a2_create arena uc fails f arg a2_start = a2_create arena uc fails f arg (main_started m a2_start)" for fails f arg
      unfolding a2_create_def by simp
    show "pageTables (main_started m a2_start) = [0 \<mapsto> 6676]" if "arena = zero_arena"
      using zero_arena_slots [OF m(4) [unfolded that]] by (simp add: main_started_def)
  qed (simp_all add: main_started_def a2_start_def stacks_given_def)
qed

lemma started_abs:
  assumes "started n s T1 T2"
  shows "sched_abs s = (current s, T1, T2)"
  by (rule started_rep [OF assms]) (rule ready_rep_abs)

lemma front_after: "(c', T1', T2') = yield_spec r \<Longrightarrow> runs_front (c', T1', T2')"
  using yield_spec_runs_front [of r] by simp

text \<open>What a creation does, for the first call and for every later one.\<close>

lemma create_step:
  assumes inv: "threads_inv s" and n: "threadIDS s < 127" and ok: "arena_ok arena" "0 < uc" "uc \<le> 2000"
  obtains t cx sp sw s' where "a2_create arena uc False f arg s = Some (0, t, sw, s')" "threads_inv s'" "s' \<noteq> a2_start"
    "threadIDS s' = threadIDS s + 1" "t \<notin> dom (threads s)"
    "threads s' t = Some \<lparr>thread_id = threadIDS s, tcontext = cx, tstate = ACTIVE, return_value = None\<rparr>"
    "contexts s' cx = Some \<lparr>ss_sp = Some sp, ss_size = 10000, uc_entry = Some (f, arg)\<rparr>"
    "\<And>u r. threads s u = Some r \<Longrightarrow> threads s' u = Some r \<and> thread_id r \<noteq> threadIDS s"
    "sched_abs s' = (if memoryInitialized s = 0 then (Some t, [t, 9756], [])
       else (case sched_abs s of (c, T1, T2) \<Rightarrow> yield_spec (c, T1 @ [t], T2)))"
    "memoryInitialized s \<noteq> 0 \<Longrightarrow> same_views (threadIDS s) (\<lambda>_. 1) (pages_of s) (pages_of s')"
    "page_word s' (threadIDS s) 0 = a2_tag (USR_SIZE - 8) False" "page_word s' (threadIDS s) LAST = a2_tag (USR_SIZE - 8) False"
    "\<And>u. s = a2_start \<Longrightarrow> arena = zero_arena \<Longrightarrow> 2 \<le> u \<Longrightarrow> pageTables s' u = None"
proof (cases "s = a2_start")
  case True
  obtain s1 where s1: "started 1 s1 [] []" "mainEnqueued s1 = 0" "current s1 = Some 9756" "stacks_given s1"
    "arena = zero_arena \<Longrightarrow> pageTables s1 = [0 \<mapsto> 6676]"
    "\<And>fails f arg. a2_create arena uc fails f arg a2_start = a2_create arena uc fails f arg s1"
    by (rule a2_create_first [OF ok]) (rule that, assumption+)
  obtain t cx sp sw s' T1' T2' where c: "a2_create arena uc False f arg s1 = Some (0, t, sw, s')" "started (1 + 1) s' T1' T2'"
    "mainEnqueued s' \<noteq> 0" "(current s', T1', T2') = yield_spec (current s1, created_queue s1 t [], [])"
    "t \<notin> dom (threads s1)" "threads s' = (threads s1)(t \<mapsto> \<lparr>thread_id = 1, tcontext = cx, tstate = ACTIVE, return_value = None\<rparr>)"
    "contexts s' = (contexts s1)(cx \<mapsto> \<lparr>ss_sp = Some sp, ss_size = 10000, uc_entry = Some (f, arg)\<rparr>)" "stacks s' = (stacks s1)(sp \<mapsto> 10000)"
    "cx \<notin> dom (contexts s1)"
    "page_word s' 1 0 = a2_tag (USR_SIZE - 8) False" "page_word s' 1 LAST = a2_tag (USR_SIZE - 8) False"
    "\<And>u. u \<noteq> 1 \<Longrightarrow> pageTables s' u = pageTables s1 u"
    by (rule a2_create_started [OF s1(1) _ ok(2,3), of arena f arg]) (simp, rule that, assumption+)
  have "dom (threads s1) = {9756}" using s1(1,2,3) by (auto simp: started_def all_queued_def)
  then have ne: "t \<noteq> 9756" using c(5) by auto
  have i: "threadIDS s' = 2" "memoryInitialized s' \<noteq> 0" using started_ids [OF c(2)] by simp_all
  have "started (threadIDS s') s' T1' T2'" using c(2) i(1) by simp
  moreover have "stacks_given s'" by (rule stacks_given_create [OF s1(4) c(9,6,7,8)])
  ultimately have inv': "threads_inv s'" using c(3) front_after [OF c(4)] unfolding threads_inv_def by blast
  have abs: "sched_abs s' = (Some t, [t, 9756], [])"
    using started_abs [OF c(2)] c(4) ne s1(2,3) by (simp add: created_queue_def)
  have new: "s' \<noteq> a2_start" using i(2) a2_start_fields(1) by auto
  show ?thesis
    by (rule that [of t sw s' cx sp, OF _ inv' new]) (use c(1,6-) s1(5,6) i True abs in \<open>simp_all add: a2_start_fields\<close>)
next
  case False
  let ?n = "threadIDS s"
  obtain T1 T2 where st: "started ?n s T1 T2" "mainEnqueued s \<noteq> 0" "stacks_given s" using inv False by (auto simp: threads_inv_def)
  obtain t cx sp sw s' T1' T2' where c: "a2_create arena uc False f arg s = Some (0, t, sw, s')" "started (?n + 1) s' T1' T2'"
    "mainEnqueued s' \<noteq> 0" "(current s', T1', T2') = yield_spec (current s, created_queue s t T1, T2)"
    "t \<notin> dom (threads s)" "threads s' = (threads s)(t \<mapsto> \<lparr>thread_id = ?n, tcontext = cx, tstate = ACTIVE, return_value = None\<rparr>)"
    "contexts s' = (contexts s)(cx \<mapsto> \<lparr>ss_sp = Some sp, ss_size = 10000, uc_entry = Some (f, arg)\<rparr>)" "stacks s' = (stacks s)(sp \<mapsto> 10000)"
    "cx \<notin> dom (contexts s)"
    "same_views ?n (\<lambda>_. 1) (pages_of s) (pages_of s')"
    "page_word s' ?n 0 = a2_tag (USR_SIZE - 8) False" "page_word s' ?n LAST = a2_tag (USR_SIZE - 8) False"
    by (rule a2_create_started [OF st(1) n ok(2,3), of arena f arg]) (rule that, assumption+)
  have i: "threadIDS s' = ?n + 1" "memoryInitialized s' \<noteq> 0" "memoryInitialized s \<noteq> 0"
    using started_ids [OF c(2)] started_ids [OF st(1)] by simp_all
  have ids: "thread_id r \<noteq> ?n" if "threads s u = Some r" for u r
    using st(1) that by (fastforce simp: started_def yield_ready_def)
  have "started (threadIDS s') s' T1' T2'" using c(2) i(1) by simp
  moreover have "stacks_given s'" by (rule stacks_given_create [OF st(3) c(9,6,7,8)])
  ultimately have inv': "threads_inv s'" using c(3) front_after [OF c(4)] unfolding threads_inv_def by blast
  have abs: "sched_abs s' = yield_spec (current s, T1 @ [t], T2)"
    using started_abs [OF c(2)] c(4) st(2) by (simp add: created_queue_def)
  have new: "s' \<noteq> a2_start" using i(2) a2_start_fields(1) by auto
  have old: "threads s' u = Some r \<and> thread_id r \<noteq> ?n" if "threads s u = Some r" for u r
    using ids [OF that] that c(5,6) by auto
  show ?thesis
    by (rule that [of t sw s' cx sp, OF c(1) inv' new i(1) c(5) _ _ old])
      (use c(6-) i abs started_abs [OF st(1)] False in simp_all)
qed

lemma yield_step:
  assumes inv: "threads_inv s" and y: "a2_yield s = Some (sw, s')"
  shows "threads_inv s'"
proof (cases "s = a2_start")
  case True
  then show ?thesis using y inv a2_start_yield by simp
next
  case False
  obtain T1 T2 where st: "started (threadIDS s) s T1 T2" "mainEnqueued s \<noteq> 0" "stacks_given s" using inv False by (auto simp: threads_inv_def)
  obtain sw' q T1' T2' where z: "a2_yield s = Some (sw', q)" "started (threadIDS s) q T1' T2'"
    "(current q, T1', T2') = yield_spec (current s, T1, T2)" "mainEnqueued q \<noteq> 0"
    "threads q = threads s" "contexts q = contexts s" "stacks q = stacks s"
    by (rule started_yield [OF st(1,2)]) (rule that, assumption+)
  then have "q = s'" using y by simp
  then have "started (threadIDS s') s' T1' T2'" "mainEnqueued s' \<noteq> 0" "runs_front (current s', T1', T2')"
    using z(2,4) started_ids [OF z(2)] front_after [OF z(3)] by simp_all
  moreover have "stacks_given s'" using stacks_given_same [OF st(3) z(5-7)] \<open>q = s'\<close> by simp
  ultimately show ?thesis unfolding threads_inv_def by blast
qed

lemma a2_threads_inv:
  assumes "a2_threads arena uc s" "arena_ok arena" "0 < uc" "uc \<le> 2000"
  shows "threads_inv s"
  using assms(1)
proof (induction rule: a2_threads.induct)
  case start
  show ?case by (simp add: threads_inv_def)
next
  case (create s f arg rc t sw s')
  obtain t' sw' q where "a2_create arena uc False f arg s = Some (0, t', sw', q)" "threads_inv q"
    by (rule create_step [OF create(4,2) assms(2-4), of f arg]) (rule that, assumption+)
  then show ?case using create(3) by simp
next
  case (yield s sw s')
  then show ?case using yield_step by blast
qed

subsection \<open>Properties\<close>

text \<open>C2: In every state a program of creations and yields can reach, from its start on, \<open>my_pthread_create\<close>
  of Assignment2 returns 0 for up to 126 created threads: the thread has a new record with the next
  identifier and a context with its own stack, the records of the others stay, the thread enters queue 1
  (the first call enters the main thread behind it) before the scheduler takes its step, no page of
  an older thread changes, and the new thread finds the same tag at the start of its first page and
  at the start, not the end, of its last.\<close>

theorem a2_create_refines:
  assumes "a2_threads arena uc s" "arena_ok arena" "0 < uc" "uc \<le> 2000" "threadIDS s < 127"
  shows "\<exists>t cx sp sw s'. a2_create arena uc False f arg s = Some (0, t, sw, s') \<and> t \<notin> dom (threads s) \<and>
    threads s' t = Some \<lparr>thread_id = threadIDS s, tcontext = cx, tstate = ACTIVE, return_value = None\<rparr> \<and>
    contexts s' cx = Some \<lparr>ss_sp = Some sp, ss_size = 10000, uc_entry = Some (f, arg)\<rparr> \<and>
    (\<forall>u r. threads s u = Some r \<longrightarrow> threads s' u = Some r \<and> thread_id r \<noteq> threadIDS s) \<and>
    sched_abs s' = (if memoryInitialized s = 0 then (Some t, [t, 9756], [])
      else (case sched_abs s of (c, T1, T2) \<Rightarrow> yield_spec (c, T1 @ [t], T2))) \<and>
    (memoryInitialized s \<noteq> 0 \<longrightarrow> same_views (threadIDS s) (\<lambda>_. 1) (pages_of s) (pages_of s')) \<and>
    page_word s' (threadIDS s) 0 = a2_tag (USR_SIZE - 8) False \<and> page_word s' (threadIDS s) LAST = a2_tag (USR_SIZE - 8) False"
proof -
  have inv: "threads_inv s" by (rule a2_threads_inv [OF assms(1-4)])
  show ?thesis
    by (rule create_step [OF inv assms(5,2-4), of f arg]) blast
qed

theorem a2_create_refines_witness:
  "\<exists>t sw s'. a2_create zero_arena 968 False 7 8 a2_start = Some (0, t, sw, s') \<and> sched_abs s' = (Some t, [t, 9756], [])"
proof -
  have "threadIDS a2_start < 127" "(0::int) < 968" "(968::int) \<le> 2000" by (simp_all add: a2_start_fields)
  then show ?thesis
    using a2_create_refines [OF a2_threads.start, of zero_arena 968 7 8] by (auto simp: a2_start_fields)
qed

lemma sched_abs_current: "fst (sched_abs s) = current s"
  by (simp add: sched_abs_def)

lemma threads_run:
  assumes inv: "threads_inv s" and ne: "threads s \<noteq> Map.empty"
  defines "R \<equiv> ready_threads (sched_abs s)"
  shows "distinct R" "set R = dom (threads s)"
    "\<exists>s'. a2_yields k s = Some s' \<and> current s' = Some (R ! (k mod length R)) \<and> ready_threads (sched_abs s') = rotate k R \<and>
       same_views (threadIDS s) (\<lambda>_. 1) (pages_of s) (pages_of s')"
proof -
  let ?n = "threadIDS s"
  have "s \<noteq> a2_start" using ne a2_start_fields by auto
  then obtain T1 T2 where st: "started ?n s T1 T2" "mainEnqueued s \<noteq> 0" "runs_front (current s, T1, T2)"
    using inv by (auto simp: threads_inv_def)
  note abs = started_abs [OF st(1)] and cur = started_current [OF st(1,2)]
  have R: "R = T1 @ T2" by (simp add: R_def abs ready_threads_def)
  obtain q1 q2 where rep: "ready_rep s q1 q2 T1 T2" by (rule started_rep [OF st(1)])
  show "distinct R" unfolding R by (rule ready_distinct [OF rep])
  show "set R = dom (threads s)" unfolding R by (rule started_set [OF st(1,2)])
  have Rne: "R \<noteq> []" using cur(3) R by auto
  obtain s' where s': "a2_yields k s = Some s'" "sched_abs s' = (yield_spec ^^ k) (sched_abs s)" "memory_kept ?n 1 s s'"
    using a2_yields_ok [OF cur(2), of k] by blast
  have "runs_front (sched_abs s)" using st(3) by (simp add: abs)
  from yield_spec_iter [OF this, of k] show "\<exists>s'. a2_yields k s = Some s' \<and> current s' = Some (R ! (k mod length R)) \<and>
      ready_threads (sched_abs s') = rotate k R \<and> same_views ?n (\<lambda>_. 1) (pages_of s) (pages_of s')"
    using s' Rne sched_abs_current [of s'] by (auto simp: R_def memory_kept_def)
qed

text \<open>C26: From the first creation on, in every state a program of creations and yields can reach, the
  queues hold exactly the threads, each once; any number of yields return and let the threads run in
  turn, and after them every thread still finds every byte of its pages.\<close>

theorem a2_threads_run:
  assumes "a2_threads arena uc s" "arena_ok arena" "0 < uc" "uc \<le> 2000" "threads s \<noteq> Map.empty"
  shows "distinct (ready_threads (sched_abs s)) \<and> set (ready_threads (sched_abs s)) = dom (threads s) \<and>
    (\<forall>k. \<exists>s'. a2_yields k s = Some s' \<and>
      current s' = Some (ready_threads (sched_abs s) ! (k mod length (ready_threads (sched_abs s)))) \<and>
      ready_threads (sched_abs s') = rotate k (ready_threads (sched_abs s)) \<and>
      same_views (threadIDS s) (\<lambda>_. 1) (pages_of s) (pages_of s'))"
  using threads_run [OF a2_threads_inv [OF assms(1-4)] assms(5)] by blast

theorem a2_threads_run_witness:
  "\<exists>t s s'. a2_threads zero_arena 968 s \<and> dom (threads s) = {t, 9756} \<and> t \<noteq> 9756 \<and>
    a2_yields 5 s = Some s' \<and> current s' = Some 9756"
proof -
  have ok: "arena_ok zero_arena" "threadIDS a2_start < 127" "(0::int) < 968" "(968::int) \<le> 2000"
    by (simp_all add: a2_start_fields)
  have inv: "threads_inv a2_start" by (simp add: threads_inv_def)
  obtain t cx sp sw s where s: "a2_create zero_arena 968 False 7 8 a2_start = Some (0, t, sw, s)" "threads s t \<noteq> None"
    "sched_abs s = (Some t, [t, 9756], [])"
    by (rule create_step [OF inv ok(2,1,3,4), of 7 8]) (rule that, assumption, simp, simp add: a2_start_fields)
  have r: "a2_threads zero_arena 968 s" by (rule a2_threads.create [OF a2_threads.start ok(2) s(1)])
  have ne: "threads s \<noteq> Map.empty" using s(2) by auto
  note p = a2_threads_run [OF r ok(1,3,4) ne]
  have R: "ready_threads (sched_abs s) = [t, 9756]" by (simp add: s(3) ready_threads_def)
  have "t \<noteq> 9756" "dom (threads s) = {t, 9756}" using p unfolding R by auto
  moreover have "length [t, 9756] = 2" "(5::nat) mod 2 = 1" by simp_all
  then have "(5::nat) mod length [t, 9756] = 1" by metis
  then obtain s' where "a2_yields 5 s = Some s'" "current s' = Some 9756" using p unfolding R by (metis nth_Cons_0 nth_Cons_Suc One_nat_def)
  ultimately show ?thesis using r by blast
qed

end
