(* ===== verification/A2_Exit.thy ===== *)
theory A2_Exit
  imports A2_Threads
begin

section \<open>Threads that end in Assignment2\<close>

text \<open>
  Once threads have been created they may also end.  \<open>my_pthread_exit\<close> gives the queue node of the
  thread back to the operating-system region and resumes the next thread, which moves pages;
  \<open>my_pthread_join\<close> yields until its thread has ended and then releases what is left of it: the two
  frames, the page table, the stack, the context and the record.
\<close>

subsection \<open>The structures are allocated blocks\<close>

text \<open>The addresses of the allocated blocks of the operating-system region.\<close>

definition os_owned :: "a2_state \<Rightarrow> addr set \<Rightarrow> bool" where
  "os_owned s A \<longleftrightarrow> (\<exists>bs. os_heap s bs \<and> fst ` used 0 bs = A)"

definition owns_structures :: "a2_state \<Rightarrow> addr set \<Rightarrow> bool" where
  "owns_structures s A \<longleftrightarrow> os_owned s A \<and> structures s \<subseteq> A \<and> (\<forall>a \<in> structures s. 4 < a) \<and> separate s"

lemma os_room_owns:
  assumes "os_room s U b"
  obtains A where "owns_structures s A"
proof -
  obtain xs where xs: "os_memory (memory s) (xs @ [(OS_SIZE - 4 - b, False)])" "used 0 xs = U"
    using assms by (auto simp: os_room_def os_used_def)
  then have "os_owned s (fst ` U)"
    unfolding os_owned_def os_heap_def by (intro exI [of _ "xs @ [(OS_SIZE - 4 - b, False)]"]) (simp add: used_append)
  then show thesis using assms that [of "fst ` U"] by (simp add: owns_structures_def os_room_def)
qed

lemma separate_mono:
  assumes "separate s" "dom (threads s') \<subseteq> dom (threads s)" "dom (contexts s') \<subseteq> dom (contexts s)"
    "dom (stacks s') \<subseteq> dom (stacks s)" "dom (qnodes s') \<subseteq> dom (qnodes s)" "dom (tables s') \<subseteq> dom (tables s)"
  shows "separate s'"
proof -
  have *: "A' \<inter> B' = {}" if "A \<inter> B = {}" "A' \<subseteq> A" "B' \<subseteq> B" for A A' B B' :: "addr set" using that by blast
  note d = assms(1) [unfolded separate_def]
  show ?thesis
    unfolding separate_def
  proof (intro conjI)
    show "dom (qnodes s') \<inter> (dom (threads s') \<union> dom (contexts s') \<union> dom (stacks s') \<union> dom (tables s')) = {}"
      by (rule * [OF conjunct1 [OF d] assms(5)]) (use assms in blast)
    show "dom (tables s') \<inter> (dom (threads s') \<union> dom (contexts s') \<union> dom (stacks s')) = {}"
      by (rule * [OF conjunct1 [OF conjunct2 [OF d]] assms(6)]) (use assms in blast)
    show "dom (stacks s') \<inter> (dom (threads s') \<union> dom (contexts s')) = {}"
      by (rule * [OF conjunct1 [OF conjunct2 [OF conjunct2 [OF d]]] assms(4)]) (use assms in blast)
    show "dom (contexts s') \<inter> dom (threads s') = {}"
      by (rule * [OF conjunct2 [OF conjunct2 [OF conjunct2 [OF d]]] assms(3,2)])
  qed
qed

text \<open>Giving the block of a structure back.\<close>

lemma release_structure:
  assumes "owns_structures s A" "a \<in> structures s"
  obtains m where "\<And>u. memory u = memory s \<Longrightarrow> a2_mydeallocate u (Some a) 69 = Some (u\<lparr>memory := m\<rparr>)"
    "os_keeps {} (memory s) m"
    "\<And>u. memory u = m \<Longrightarrow> os_owned u (A - {a})"
    "\<And>u. memory u = m \<Longrightarrow> structures u \<subseteq> structures s - {a} \<Longrightarrow> separate u \<Longrightarrow> owns_structures u (A - {a})"
proof -
  obtain bs where bs: "os_memory (memory s) bs" "fst ` used 0 bs = A" using assms(1) by (auto simp: owns_structures_def os_owned_def os_heap_def)
  have "a \<in> A" "4 < a" using assms by (auto simp: owns_structures_def)
  then obtain n where n: "(a, n) \<in> used 0 bs" unfolding bs(2) [symmetric] by auto
  then obtain xs ys where xs: "bs = xs @ (n, True) # ys" "a = total xs + 4" by (auto simp: used_decomp)
  have wf: "wf_blocks bs" using bs(1) by (simp add: os_memory_def heap_ok_def)
  have ne: "xs \<noteq> []" using xs(2) \<open>4 < a\<close> by auto
  obtain m where m: "\<And>u. memory u = memory s \<Longrightarrow>
      a2_deallocate a2_rd a2_wr OS_SIZE USR_SIZE 0 u (Some (total xs + 4)) = Some (u\<lparr>memory := m\<rparr>)"
    "os_memory m (free_block xs n ys)" "os_keeps (payload 0 xs \<union> payload (total xs + n) ys) (memory s) m"
    by (rule os_deallocate [OF bs(1) [unfolded xs(1)] ne]) (rule that, assumption+)
  have "used 0 (free_block xs n ys) = used 0 bs - {(a, n)}"
    using used_free_block_diff [of xs n ys 0] wf xs by simp
  moreover have "fst ` (used 0 bs - {(a, n)}) = fst ` used 0 bs - {a}"
  proof (intro set_eqI iffI)
    fix b assume "b \<in> fst ` (used 0 bs - {(a, n)})"
    then obtain x where x: "x \<in> used 0 bs" "x \<noteq> (a, n)" "b = fst x" by blast
    then have "b \<noteq> a" using used_unique [OF wf n, of "snd x"] by (cases x) auto
    then show "b \<in> fst ` used 0 bs - {a}" using x by blast
  next
    fix b assume "b \<in> fst ` used 0 bs - {a}"
    then obtain k where "(b, k) \<in> used 0 bs" "b \<noteq> a" by auto
    then have "(b, k) \<in> used 0 bs - {(a, n)}" by simp
    then show "b \<in> fst ` (used 0 bs - {(a, n)})" by force
  qed
  ultimately have "fst ` used 0 (free_block xs n ys) = A - {a}" using bs(2) by simp
  then have owned: "os_owned u (A - {a})" if "memory u = m" for u using m(2) that by (auto simp: os_owned_def os_heap_def)
  show thesis
  proof (rule that [OF _ _ owned])
    show "a2_mydeallocate u (Some a) 69 = Some (u\<lparr>memory := m\<rparr>)" if "memory u = memory s" for u
      using m(1) [OF that] xs(2) by (simp add: a2_mydeallocate_def)
    show "os_keeps {} (memory s) m" by (rule os_keeps_mono [OF m(3)]) simp
    show "owns_structures u (A - {a})" if "memory u = m" "structures u \<subseteq> structures s - {a}" "separate u" for u
      using owned [OF that(1)] that(2,3) assms(1) by (auto simp: owns_structures_def)
  qed
qed

subsection \<open>States of a program whose threads may end\<close>

text \<open>The running thread is the front of the ready queues; records of ended threads may remain.  The code never
  clears the array \<open>pageTables\<close>; when a thread is resumed after an exit its loops end at a NULL slot, so
  the one behind the last page table must hold NULL.\<close>

definition ending_inv :: "a2_state \<Rightarrow> bool" where
  "ending_inv s \<longleftrightarrow> yield_ready (threadIDS s) 1 s \<and> pageTables s (threadIDS s) = None \<and>
     (\<exists>q1 q2 T1 T2. ready_rep s q1 q2 T1 T2 \<and> current s = (if T1 @ T2 = [] then None else Some (hd (T1 @ T2)))) \<and>
     (\<exists>A. owns_structures s A) \<and> stacks_given s"

lemma ending_ready:
  assumes "ending_inv s"
  shows "a2_ready (threadIDS s) 1 s"
proof -
  obtain q1 q2 T1 T2 where rep: "ready_rep s q1 q2 T1 T2" and c: "current s = (if T1 @ T2 = [] then None else Some (hd (T1 @ T2)))"
    and y: "yield_ready (threadIDS s) 1 s" using assms unfolding ending_inv_def by blast
  have "x \<in> set (T1 @ T2)" if "current s = Some x" for x
    using c that hd_in_set [of "T1 @ T2"] by (simp split: if_splits)
  then show ?thesis using rep y unfolding a2_ready_def by blast
qed

lemma threads_ending:
  assumes inv: "threads_inv s" and ne: "threads s \<noteq> Map.empty" and slot: "pageTables s (threadIDS s) = None"
  shows "ending_inv s"
proof -
  have "s \<noteq> a2_start" using ne a2_start_fields by auto
  then obtain T1 T2 where st: "started (threadIDS s) s T1 T2" "mainEnqueued s \<noteq> 0" "runs_front (current s, T1, T2)" "stacks_given s"
    using inv by (auto simp: threads_inv_def)
  obtain q1 q2 where rep: "ready_rep s q1 q2 T1 T2" by (rule started_rep [OF st(1)])
  have "T1 @ T2 \<noteq> []" using started_current(3) [OF st(1,2)] by auto
  then have "current s = (if T1 @ T2 = [] then None else Some (hd (T1 @ T2)))"
    using st(3) by (auto simp: runs_front_def ready_threads_def)
  moreover obtain U b where "os_room s U b" using st(1) by (auto simp: started_def)
  then obtain A where "owns_structures s A" by (rule os_room_owns)
  ultimately show ?thesis using st(1,4) rep slot unfolding ending_inv_def started_def by blast
qed

text \<open>What a yield does from a state where the running thread, if there is one, is the front.\<close>

lemma ready_yield_ending:
  assumes rd: "a2_ready (threadIDS s) 1 s" and own: "owns_structures s A" and sg: "stacks_given s"
    and cur: "current s = None \<or> runs_front (sched_abs s) \<and> ready_threads (sched_abs s) \<noteq> []"
    and slot: "pageTables s (threadIDS s) = None"
  obtains sw s' where "a2_yield s = Some (sw, s')" "ending_inv s'" "sched_abs s' = yield_spec (sched_abs s)"
    "sw = switch_spec s (current s')" "threads s' = threads s" "contexts s' = contexts s" "stacks s' = stacks s" "threadIDS s' = threadIDS s"
    "same_views (threadIDS s) (\<lambda>_. 1) (pages_of s) (pages_of s')" "os_same s s'" "owns_structures s' A"
proof -
  let ?n = "threadIDS s"
  obtain sw s' where y: "a2_yield s = Some (sw, s')" "a2_ready ?n 1 s'" "sched_abs s' = yield_spec (sched_abs s)"
    "sw = switch_spec s (current s')" "threads s' = threads s" "memory_kept ?n 1 s s'"
    by (rule a2_ready_yield [OF rd])
  note fr = yield_frame_part [OF a2_ready_frame(1) [OF rd y(1)]] and os = a2_ready_frame(2) [OF rd y(1)]
  obtain bs where "os_memory (memory s) bs" "fst ` used 0 bs = A" using own by (auto simp: owns_structures_def os_owned_def os_heap_def)
  moreover from this have "os_memory (memory s') bs" using os os_memory_bytes unfolding os_same_def by blast
  ultimately have "os_owned s' A" by (auto simp: os_owned_def os_heap_def)
  then have own': "owns_structures s' A" using own ready_frame_structures [OF rd y(1)] by (simp add: owns_structures_def)
  obtain q1 q2 T1 T2 where rep: "ready_rep s' q1 q2 T1 T2" using y(2) by (auto simp: a2_ready_def)
  note abs = ready_rep_abs [OF rep]
  have "current s' = (if T1 @ T2 = [] then None else Some (hd (T1 @ T2)))"
  proof (cases "T1 @ T2 = []")
    case True
    have "ready_threads (sched_abs s) = []"
      using yield_spec_mset [of "sched_abs s"] abs True by (simp add: y(3) [symmetric] ready_threads_def)
    then have "sched_abs s = (None, [], [])"
      using cur by (cases "sched_abs s") (auto simp: ready_threads_def sched_abs_def)
    then show ?thesis using y(3) abs True by simp
  next
    case False
    have "runs_front (current s', T1, T2)" using yield_spec_runs_front [of "sched_abs s"] unfolding y(3) [symmetric] abs .
    then show ?thesis using False by (simp add: runs_front_def ready_threads_def)
  qed
  moreover have "pageTables s' (threadIDS s') = None" using slot fr(5) os by (simp add: os_same_def)
  ultimately have "ending_inv s'"
    using y(2) rep own' stacks_given_same [OF sg fr(1-3)] fr(5) unfolding ending_inv_def a2_ready_def by auto
  then show thesis using that y fr os own' by (auto simp: memory_kept_def)
qed

lemma ending_abs:
  assumes "ending_inv s"
  obtains q1 q2 T1 T2 where "ready_rep s q1 q2 T1 T2" "sched_abs s = (current s, T1, T2)"
    "current s = (if T1 @ T2 = [] then None else Some (hd (T1 @ T2)))"
  using assms ready_rep_abs unfolding ending_inv_def by blast

lemma ending_yield:
  assumes "ending_inv s" "a2_yield s = Some (sw, s')"
  shows "ending_inv s'"
proof -
  obtain q1 q2 T1 T2 where T: "ready_rep s q1 q2 T1 T2" "sched_abs s = (current s, T1, T2)"
    "current s = (if T1 @ T2 = [] then None else Some (hd (T1 @ T2)))" by (rule ending_abs [OF assms(1)])
  obtain A where A: "owns_structures s A" "stacks_given s" "pageTables s (threadIDS s) = None"
    using assms(1) by (auto simp: ending_inv_def)
  have "current s = None \<or> runs_front (sched_abs s) \<and> ready_threads (sched_abs s) \<noteq> []"
    using T(2,3) by (auto simp: runs_front_def ready_threads_def)
  then obtain sw' q where "a2_yield s = Some (sw', q)" "ending_inv q"
    by (rule ready_yield_ending [OF ending_ready [OF assms(1)] A(1,2) _ A(3)])
  then show ?thesis using assms(2) by simp
qed

lemma ending_yields:
  assumes "ending_inv s"
  obtains s' where "a2_yields k s = Some s'" "ending_inv s'" "threads s' = threads s" "sched_abs s' = (yield_spec ^^ k) (sched_abs s)"
proof -
  have "\<exists>s'. a2_yields k s = Some s' \<and> ending_inv s' \<and> threads s' = threads s \<and> sched_abs s' = (yield_spec ^^ k) (sched_abs s)"
    using assms
  proof (induction k arbitrary: s)
    case (Suc k)
    obtain sw q where y: "a2_yield s = Some (sw, q)" "threads q = threads s" "sched_abs q = yield_spec (sched_abs s)"
      by (rule a2_ready_yield [OF ending_ready [OF Suc(2)]])
    have "ending_inv q" by (rule ending_yield [OF Suc(2) y(1)])
    then show ?case using Suc(1) [of q] y by (simp add: funpow_swap1)
  qed simp
  then show thesis using that by blast
qed

subsection \<open>\<open>my_pthread_exit\<close>\<close>

lemma exit_node_front:
  assumes rep: "ready_rep s q1 q2 T1 T2" and ne: "T1 @ T2 \<noteq> []" and cur: "current s = Some (hd (T1 @ T2))"
  shows "exit_node s = Some (hd (q1 @ q2))"
proof (cases q1)
  case Nil
  then have "q2 \<noteq> []" using rep ne by (auto simp: ready_rep_def)
  then show ?thesis using ready_rep_peek [OF rep] Nil by (simp add: exit_node_def)
next
  case (Cons x q)
  then have T: "T1 = node_thread (qnodes s) x # tl T1" using rep by (auto simp: ready_rep_def)
  then have "node_thread (qnodes s) x \<in> set (T1 @ T2)" by (metis Un_iff list.set_intros(1) set_append)
  then obtain r where "threads s (node_thread (qnodes s) x) = Some r" by (rule ready_rep_thread [OF rep])
  moreover obtain nd where "qnodes s x = Some nd" "thread nd = node_thread (qnodes s) x"
    by (rule queue_front_node [of "qnodes s" "queue_priority_1 s" x q, OF _ refl]) (use rep Cons in \<open>auto simp: ready_rep_def\<close>)
  moreover have "current s = Some (node_thread (qnodes s) x)" using cur T by (metis append_Cons list.sel(1))
  ultimately show ?thesis using ready_rep_peek [OF rep] Cons by (simp add: exit_node_def)
qed

lemma exit_frame_part:
  fixes s :: a2_state
  assumes "exit_frame s c r s'"
  shows "threads s' = (threads s)(c \<mapsto> r)" "contexts s' = contexts s" "stacks s' = stacks s" "threadIDS s' = threadIDS s"
    "current s' = current s" "dom (qnodes s') \<subseteq> dom (qnodes s)" "sched.more s' = sched.more s"
proof -
  have e: "s' = s\<lparr>qnodes := qnodes s', queue_priority_1 := queue_priority_1 s',
     queue_priority_2 := queue_priority_2 s', priority1_size := priority1_size s',
     priority2_size := priority2_size s', threads := (threads s)(c \<mapsto> r)\<rparr>" using assms by (simp add: exit_frame_def)
  show "threads s' = (threads s)(c \<mapsto> r)" "contexts s' = contexts s" "stacks s' = stacks s" "threadIDS s' = threadIDS s"
    "current s' = current s" "sched.more s' = sched.more s" by (subst e, simp)+
  show "dom (qnodes s') \<subseteq> dom (qnodes s)" using assms by (simp add: exit_frame_def)
qed

lemma completed_sel [simp]:
  "thread_id (completed r v) = thread_id r" "tcontext (completed r v) = tcontext r" "tstate (completed r v) = COMPLETED"
  by (simp_all add: completed_def Let_def)

text \<open>The state just before the yield of an exit: the pages are untouched, no thread runs, and the frame of
  the last page is still held.\<close>

lemma leaving_pages:
  fixes s s1 :: a2_state
  assumes "sched.more s1 = sched.more s" "os_keeps {} (memory s) m"
  shows "pages_of (s1\<lparr>memory := m, exited := e, current := None\<rparr>) = pages_of s" (is ?p)
    "paging_ok n K (s1\<lparr>memory := m, exited := e, current := None\<rparr>) = paging_ok n K s"
proof -
  have f: "pages_of (w\<lparr>exited := e, current := None\<rparr>) = pages_of w"
    "paged n (w\<lparr>exited := e, current := None\<rparr>) = paged n w" for w
    by (simp_all add: pages_of_def frame_at_def [abs_def] entry_at_def [abs_def] pt_table_def paged_def paged_in_def cong: if_cong)
  have "memory s1 = memory s" using assms(1) by (cases s; cases s1; simp)
  then have "os_keeps {} (memory s1) m" using assms(2) by simp
  note k = os_keeps_pages [OF this]
  show ?p using f(1) [of "s1\<lparr>memory := m\<rparr>"] k(1) same_more(1) [OF assms(1)] by simp
  then show "paging_ok n K (s1\<lparr>memory := m, exited := e, current := None\<rparr>) = paging_ok n K s"
    using f(2) [of "s1\<lparr>memory := m\<rparr>"] k(2) [of n] same_more(2) [OF assms(1), of n] by (simp add: paging_ok_def)
qed

lemma leaving_ready:
  assumes yr: "yield_ready n 1 s" and c: "current s = Some c" "threads s c = Some r"
    and u: "pages_of u = pages_of s" "paging_ok n (\<lambda>_. 1) u = paging_ok n (\<lambda>_. 1) s" "current u = None"
      "threads u = (threads s)(c \<mapsto> completed r v)" "pageTables u n = None"
  shows "yield_ready n 1 u"
proof -
  have ids: "0 \<le> thread_id p \<and> thread_id p < n" if "threads s t = Some p" for t p using yr that by (simp add: yield_ready_def)
  have home: "at_home (\<lambda>_. 1) (pages_of s) (thread_id r)" and pi: "page_inv n (\<lambda>_. 1) (pages_of s)"
    using yr c by (auto simp: yield_ready_def paging_ok_def)
  have "is_page n (\<lambda>_. 1) (thread_id r) LAST" using ids [OF c(2)] by (simp add: is_page_def homes_def)
  then have "LAST \<notin> free_frames (pages_of s)" using entry_range [OF pi, of "thread_id r" LAST] home by (auto simp: at_home_def homes_def)
  then have "last_reserved n (\<lambda>_. 1) (pages_of s)" using last_reserved_home [OF pi _ _ home] ids [OF c(2)] by blast
  moreover have "0 \<le> thread_id p \<and> thread_id p < n" if "threads u t = Some p" for t p
    using that ids c(2) u(4) by (auto split: if_splits)
  ultimately show ?thesis using yr u by (simp add: yield_ready_def)
qed

lemma stacks_given_completed:
  assumes "stacks_given s" "threads s c = Some r" "threads u = (threads s)(c \<mapsto> completed r v)"
    "contexts u = contexts s" "stacks u = stacks s"
  shows "stacks_given u"
  unfolding stacks_given_def
proof (intro allI impI)
  fix t p assume "threads u t = Some p \<and> thread_id p \<noteq> 0"
  then obtain p' where "threads s t = Some p'" "thread_id p' \<noteq> 0" "tcontext p' = tcontext p"
    using assms(2,3) by (auto split: if_splits)
  then show "\<exists>cx sp. contexts u (tcontext p) = Some cx \<and> ss_sp cx = Some sp \<and> sp \<in> dom (stacks u)"
    using assms(1,4,5) unfolding stacks_given_def by fastforce
qed

text \<open>The structures after the node of the ended thread has been taken out.\<close>

lemma exit_structures:
  assumes own: "owns_structures s A" and f: "exit_frame s c (completed r v) s1" and c: "threads s c = Some r"
    and x: "x \<in> dom (qnodes s)" "x \<notin> dom (qnodes s1)"
  shows "x \<in> structures s" "structures s1 \<subseteq> structures s - {x}" "separate s1"
proof -
  note f = exit_frame_part [OF f]
  have t: "tables s1 = tables s" using f(7) by (cases s; cases s1; simp)
  show "x \<in> structures s" using x(1) by (simp add: structures_def)
  show "separate s1" by (rule separate_mono [of s]) (use own f t c in \<open>auto simp: owns_structures_def\<close>)
  have "structures s1 \<subseteq> structures s" using f t c by (auto simp: structures_def)
  moreover have "x \<notin> structures s1"
    using x own f t c by (auto simp: structures_def owns_structures_def separate_def)
  ultimately show "structures s1 \<subseteq> structures s - {x}" by blast
qed

text \<open>An exit up to its final yield.\<close>

lemma exit_leaves:
  assumes T: "ready_rep s q1 q2 T1 T2" and ne: "T1 @ T2 \<noteq> []" and cur: "current s = Some (hd (T1 @ T2))"
    and c: "hd (T1 @ T2) = c" "threads s c = Some r" "thread_id r \<noteq> 0" and A: "owns_structures s A"
  obtains u q1' q2' x where "a2_exit v s = a2_yield u" "ready_rep u q1' q2' (tl T1) (if T1 = [] then tl T2 else T2)"
    "threads u = (threads s)(c \<mapsto> completed r v)" "contexts u = contexts s" "stacks u = stacks s" "threadIDS u = threadIDS s"
    "current u = None" "pages_of u = pages_of s" "\<And>n K. paging_ok n K u = paging_ok n K s" "pageTables u = pageTables s"
    "tables u = tables s" "x \<in> dom (qnodes s)" "x \<in> A" "owns_structures u (A - {x})"
proof -
  define T1' T2' where T': "T1' = tl T1" "T2' = (if T1 = [] then tl T2 else T2)"
  let ?x = "hd (q1 @ q2)"
  obtain s1 q1' q2' where s1: "exit_dequeue s v = Some s1" "ready_rep s1 q1' q2' T1' T2'" "exit_frame s c (completed r v) s1"
    "?x \<in> dom (qnodes s)" "?x \<notin> dom (qnodes s1)"
    by (rule exit_dequeue_front [OF T ne cur, of v]) (use that T' c in simp)
  note f = exit_frame_part [OF s1(3)] and str = exit_structures [OF A s1(3) c(2) s1(4,5)]
  have m1: "memory s1 = memory s" "pageTables s1 = pageTables s" "tables s1 = tables s" using f(7) by (cases s; cases s1; simp)+
  obtain m where m: "\<And>u. memory u = memory s \<Longrightarrow> a2_mydeallocate u (Some ?x) 69 = Some (u\<lparr>memory := m\<rparr>)"
    "os_keeps {} (memory s) m" "\<And>u. memory u = m \<Longrightarrow> os_owned u (A - {?x})"
    "\<And>u. memory u = m \<Longrightarrow> structures u \<subseteq> structures s - {?x} \<Longrightarrow> separate u \<Longrightarrow> owns_structures u (A - {?x})"
    by (rule release_structure [OF A str(1)]) (rule that, assumption+)
  let ?u = "s1\<lparr>memory := m, exited := Some c, current := None\<rparr>"
  have "structures ?u = structures s1" "separate ?u = separate s1" by (simp_all add: structures_def separate_def)
  then have own: "owns_structures ?u (A - {?x})" using m(4) [of ?u] str(2,3) by simp
  have "ready_rep ?u q1' q2' T1' T2' = ready_rep s1 q1' q2' T1' T2'" by (simp add: ready_rep_def)
  then have rep: "ready_rep ?u q1' q2' (tl T1) (if T1 = [] then tl T2 else T2)" using s1(2) T' by simp
  have e: "a2_exit v s = a2_yield ?u"
    using exit_node_front [OF T ne cur] s1(1) m(1) [of s1] m1 f(1,5) c cur by (simp add: a2_exit_def Let_def)
  show thesis
    by (rule that [OF e rep]) (use f m1 s1(4) str(1) A own leaving_pages [where e = "Some c", OF f(7) m(2)] in
      \<open>auto simp: owns_structures_def\<close>)
qed

lemma ending_exit:
  assumes inv: "ending_inv s" and c: "current s = Some c" "threads s c = Some r" "thread_id r \<noteq> 0"
  obtains sw s' A x where "a2_exit v s = Some (sw, s')" "ending_inv s'"
    "sched_abs s' = yield_spec (remove_front (sched_abs s))" "threads s' = (threads s)(c \<mapsto> completed r v)" "threadIDS s' = threadIDS s"
    "same_views (threadIDS s) (\<lambda>_. 1) (pages_of s) (pages_of s')" "x \<in> dom (qnodes s)" "os_owned s A" "x \<in> A" "os_owned s' (A - {x})"
    "contexts s' = contexts s" "stacks s' = stacks s"
proof -
  let ?n = "threadIDS s"
  obtain q1 q2 T1 T2 where T: "ready_rep s q1 q2 T1 T2" "sched_abs s = (current s, T1, T2)"
    "current s = (if T1 @ T2 = [] then None else Some (hd (T1 @ T2)))" by (rule ending_abs [OF inv])
  have yr: "yield_ready ?n 1 s" and sg: "stacks_given s" and slot: "pageTables s ?n = None"
    using inv by (simp_all add: ending_inv_def)
  obtain A where A: "owns_structures s A" using inv by (auto simp: ending_inv_def)
  have ne: "T1 @ T2 \<noteq> []" and cur: "current s = Some (hd (T1 @ T2))" and hc: "hd (T1 @ T2) = c"
    using T(3) c(1) by (auto split: if_splits)
  obtain u q1' q2' x where u: "a2_exit v s = a2_yield u" "ready_rep u q1' q2' (tl T1) (if T1 = [] then tl T2 else T2)"
    "threads u = (threads s)(c \<mapsto> completed r v)" "contexts u = contexts s" "stacks u = stacks s" "threadIDS u = ?n"
    "current u = None" "pages_of u = pages_of s" "paging_ok ?n (\<lambda>_. 1) u = paging_ok ?n (\<lambda>_. 1) s" "pageTables u = pageTables s"
    "x \<in> dom (qnodes s)" "x \<in> A" "owns_structures u (A - {x})"
    by (rule exit_leaves [OF T(1) ne cur hc c(2,3) A, of v]) (rule that, assumption+)
  have slot': "pageTables u (threadIDS u) = None" using slot u(6,10) by simp
  have yr': "yield_ready ?n 1 u" by (rule leaving_ready [OF yr c(1,2) u(8,9,7,3)]) (use slot u(10) in simp)
  have sg': "stacks_given u" by (rule stacks_given_completed [OF sg c(2) u(3-5)])
  have rd: "a2_ready (threadIDS u) 1 u" unfolding u(6) using yr' u(2,7) unfolding a2_ready_def by fastforce
  obtain sw s' where y: "a2_yield u = Some (sw, s')" "ending_inv s'" "sched_abs s' = yield_spec (sched_abs u)"
    "threads s' = threads u" "contexts s' = contexts u" "stacks s' = stacks u" "threadIDS s' = threadIDS u"
    "same_views (threadIDS u) (\<lambda>_. 1) (pages_of u) (pages_of s')" "owns_structures s' (A - {x})"
    by (rule ready_yield_ending [OF rd u(13) sg' _ slot']) (simp add: u(7), rule that, assumption+)
  show thesis
  proof (rule that [of sw s' x A])
    show "a2_exit v s = Some (sw, s')" by (simp add: u(1) y(1))
    show "sched_abs s' = yield_spec (remove_front (sched_abs s))"
      using y(3) ready_rep_abs [OF u(2)] T(2) u(7) by (auto simp: remove_front_def)
  qed (use y u A in \<open>auto simp: owns_structures_def\<close>)
qed

subsection \<open>A slot that is not NULL\<close>

text \<open>The loop over all page tables follows a pointer to no table.\<close>

lemma evict_faults:
  assumes "pageTables s u = Some a" "tables s a = None" "u < 128" "0 \<le> j" "j \<le> u" "m = nat (128 - j)"
    "\<And>k. 0 \<le> k \<Longrightarrow> k < u \<Longrightarrow> pageTables s k \<noteq> None"
  shows "evict m i s = None"
  using assms
proof (induction "nat (u - j)" arbitrary: j m s)
  case 0
  obtain m' where "m = Suc m'" "128 - int (Suc m') = j" by (rule count_down [of j 128 m]) (use 0 in auto)
  moreover have "j = u" using 0 by simp
  ultimately show ?case using 0 by (simp add: Let_def)
next
  case (Suc d)
  have j: "j < u" using Suc(2) by simp
  obtain m' where m': "m = Suc m'" "128 - int (Suc m') = j" "m' = nat (128 - (j + 1))"
    by (rule count_down [of j 128 m]) (use Suc j in auto)
  obtain b where b: "pageTables s j = Some b" using Suc(9) [of j] j Suc(6) by auto
  have rec: "evict m' i s1 = None" if "os_same s s1" for s1
    by (rule Suc(1) [of "j + 1"]) (use that Suc(2-) j m'(3) in \<open>auto simp: os_same_def domIff\<close>)
  have "evict m' i s3 = None" if "swap_out s i = Some (f, s1)" "pt_set s1 j k f = Some s2" "mt_set s2 f c = Some s3" for f s1 s2 s3 k c
    using rec swap_out_os [OF that(1)] tables_os(2) [OF that(2)] tables_os(1) [OF that(3)] os_same_trans by blast
  then have "evict m i s \<noteq> Some q" for q
    using b m'(1,2) rec [OF os_same_refl] by (fastforce simp: Let_def bind_eq_Some_conv split: option.splits)
  then show ?case by (cases "evict m i s") auto
qed

lemma load_loop_faults:
  assumes "MEMORYPAGES - int (Suc k) = i" "pt_get s u i = Some v" "v \<noteq> 6969" "v \<noteq> i" "evict 128 i s = None"
  shows "load_loop (Suc k) u s = None"
  using assms by (simp add: Let_def)

lemma resume_faults:
  assumes "pt_get s u 0 = Some v" "v \<noteq> 6969" "v \<noteq> 0" "evict 128 0 s = None"
  shows "resume_pages u s = None"
proof -
  have "load_loop 1536 u s = None" using load_loop_faults [of 1535 0 s u v] assms by simp
  then show ?thesis by (simp add: resume_pages_def)
qed

text \<open>After an exit the front of the queues is resumed.\<close>

lemma yield_resumes:
  assumes rep: "ready_rep s q1 q2 T1 T2" and ne: "T1 @ T2 \<noteq> []" and c: "current s = None"
  obtains r where "threads s (hd (T1 @ T2)) = Some r" "a2_yield s = a2_resume (hd (T1 @ T2)) r s"
proof -
  obtain r where r: "threads s (hd (T1 @ T2)) = Some r" by (rule ready_rep_thread [OF rep hd_in_set [OF ne]])
  have "a2_yield s = a2_resume (hd (T1 @ T2)) r s"
  proof (cases q1)
    case Nil
    then have "T1 = []" "q2 \<noteq> []" using rep ne by (auto simp: ready_rep_def)
    then obtain x q where x: "q2 = x # q" "node_thread (qnodes s) x = hd (T1 @ T2)" using rep by (cases q2) (auto simp: ready_rep_def)
    moreover obtain nd where "qnodes s x = Some nd" "thread nd = hd (T1 @ T2)"
      by (rule queue_front_node [of "qnodes s" "queue_priority_2 s" x q, OF _ x(2)]) (use rep x(1) in \<open>auto simp: ready_rep_def\<close>)
    ultimately show ?thesis using ready_rep_peek [OF rep] Nil r c by (simp add: a2_yield_def a2_yield_p2_def Let_def)
  next
    case (Cons x q)
    then have x: "node_thread (qnodes s) x = hd (T1 @ T2)" using rep by (auto simp: ready_rep_def)
    obtain nd where "qnodes s x = Some nd" "thread nd = hd (T1 @ T2)"
      by (rule queue_front_node [of "qnodes s" "queue_priority_1 s" x q, OF _ x]) (use rep Cons in \<open>auto simp: ready_rep_def\<close>)
    then show ?thesis using ready_rep_peek [OF rep] Cons r c by (simp add: a2_yield_def a2_yield_p1_def Let_def)
  qed
  then show thesis using that r by blast
qed

end
