(* ===== verification/A2_Join.thy ===== *)
theory A2_Join
  imports A2_Exit
begin

section \<open>Joining threads in Assignment2\<close>

text \<open>
  Programs whose threads end: created threads yield, exit and wait for each other, and finally a
  thread that has ended is joined and released.  All of this depends on a word the code never assigns: the
  slot of \<open>pageTables\<close> behind the last thread.
\<close>

subsection \<open>Runs with exits\<close>

text \<open>The main thread does not exit: that would close the swap file under the threads that stay.\<close>

inductive a2_ending :: "a2_state \<Rightarrow> a2_state \<Rightarrow> bool" for s0 where
  created: "a2_ending s0 s0"
| yield: "a2_ending s0 s \<Longrightarrow> a2_yield s = Some (sw, s') \<Longrightarrow> a2_ending s0 s'"
| wait: "a2_ending s0 s \<Longrightarrow> a2_join t w s = Some (Waiting sw, s') \<Longrightarrow> a2_ending s0 s'"
| exit: "a2_ending s0 s \<Longrightarrow> current s = Some c \<Longrightarrow> threads s c = Some r \<Longrightarrow> thread_id r \<noteq> 0 \<Longrightarrow>
    a2_exit v s = Some (sw, s') \<Longrightarrow> a2_ending s0 s'"

text \<open>Such a run starts when all threads have been created.  The slot of \<open>pageTables\<close> behind the last thread
  is then one of those the code has never assigned: it has the bytes \<open>posix_memalign\<close> delivered.\<close>

definition all_created :: "a2_arena \<Rightarrow> int \<Rightarrow> a2_state \<Rightarrow> bool" where
  "all_created arena uc s \<longleftrightarrow> a2_threads arena uc s \<and> arena_ok arena \<and> 0 < uc \<and> uc \<le> 2000 \<and> threads s \<noteq> Map.empty"

lemma join_waits: "a2_join t w s = Some (Waiting sw, s') \<Longrightarrow> a2_yield s = Some (sw, s')"
  by (auto simp: a2_join_def bind_eq_Some_conv Let_def split: if_splits)

lemma a2_ending_inv:
  assumes "all_created arena uc s0" "pageTables s0 (threadIDS s0) = None" "a2_ending s0 s"
  shows "ending_inv s"
  using assms(3)
proof (induction rule: a2_ending.induct)
  case created
  then show ?case using threads_ending a2_threads_inv assms(1,2) unfolding all_created_def by blast
next
  case (yield s sw s')
  then show ?case using ending_yield by blast
next
  case (wait s t w sw s')
  then show ?case using ending_yield join_waits by blast
next
  case (exit s c r v sw s')
  obtain sw' q where "a2_exit v s = Some (sw', q)" "ending_inv q"
    by (rule ending_exit [OF exit(6,2,3,4), of v]) (rule that, assumption+)
  then show ?case using exit(5) by simp
qed

subsection \<open>Releasing the frames\<close>

lemma pt_get_flags [simp]:
  "pt_get (s\<lparr>masterTable := x\<rparr>) u i = pt_get s u i" "pt_get (s\<lparr>prot := y\<rparr>) u i = pt_get s u i"
  "pt_table (s\<lparr>masterTable := x\<rparr>) u = pt_table s u" "pt_table (s\<lparr>prot := y\<rparr>) u = pt_table s u"
  by (simp_all add: pt_get_def pt_table_def cong: if_cong)

lemma open_frame:
  assumes "0 \<le> f"
  obtains p where "(if f < MEMORYPAGES then mprotect s f True else Some s) = Some (s\<lparr>prot := p\<rparr>)"
proof (cases "f < MEMORYPAGES")
  case True
  then show thesis using that [of "(prot s)(f := True)"] assms by (simp add: mprotect_def)
next
  case False
  then show thesis using that [of "prot s"] by simp
qed

lemma release_loop_step:
  assumes "MEMORYPAGES - int (Suc k) = i" "pt_get s u i = Some v"
  shows "release_loop (Suc k) u s = (if v = 6969 then Some s else
    do { s \<leftarrow> (if v < MEMORYPAGES then mprotect s v True else Some s);
         s \<leftarrow> mt_set s v CHR ''0'';
         release_loop k u s })"
  using assms by (simp add: Let_def)

lemma release_pages_ok:
  assumes ok: "paging_ok n (\<lambda>_. 1) s" and u: "0 \<le> u" "u < n"
  obtains p where "release_pages u s = Some (s\<lparr>prot := p, masterTable := (masterTable s)
      (en (pages_of s) u 0 := CHR ''0'', en (pages_of s) u LAST := CHR ''0'')\<rparr>)"
proof -
  let ?p = "pages_of s"
  have pg: "paged_in (pageTables s) n s" and inv: "page_inv n (\<lambda>_. 1) ?p" using ok by (simp_all add: paging_ok_def paged_def)
  note get = paged_get [OF pg u]
  have "is_page n (\<lambda>_. 1) u 0" "is_page n (\<lambda>_. 1) u LAST" using u by (simp_all add: is_page_def homes_def)
  then have r: "0 \<le> en ?p u 0" "en ?p u 0 < TOTALPAGES" "0 \<le> en ?p u LAST" "en ?p u LAST < TOTALPAGES"
    using entry_range [OF inv] by blast+
  have one: "en ?p u 1 = 6969" using page_inv_unused [OF inv u, of 1] by simp
  obtain p1 where p1: "(if en ?p u 0 < MEMORYPAGES then mprotect s (en ?p u 0) True else Some s) = Some (s\<lparr>prot := p1\<rparr>)"
    by (rule open_frame [OF r(1)])
  let ?s1 = "s\<lparr>prot := p1, masterTable := (masterTable s)(en ?p u 0 := CHR ''0'')\<rparr>"
  have "release_loop 1535 u ?s1 = Some ?s1" using release_loop_step [of 1534 1 ?s1 u 6969] get [of 1] one by simp
  then have l: "release_loop 1536 u s = Some ?s1"
    using release_loop_step [of 1535 0 s u "en ?p u 0"] get [of 0] r p1 by (simp add: mt_set_def)
  obtain p2 where p2: "(if en ?p u LAST < MEMORYPAGES then mprotect ?s1 (en ?p u LAST) True else Some ?s1) = Some (?s1\<lparr>prot := p2\<rparr>)"
    by (rule open_frame [OF r(3)])
  show thesis
    by (rule that [of p2]) (use l p2 get [of LAST] r in \<open>simp add: release_pages_def mt_set_def\<close>)
qed

subsection \<open>Releasing the structures\<close>

text \<open>A structure whose block is given back leaves the model, too.\<close>

definition drops :: "a2_state \<Rightarrow> addr set \<Rightarrow> addr \<Rightarrow> a2_state \<Rightarrow> bool" where
  "drops s A a s' \<longleftrightarrow> (\<forall>u. memory u = memory s \<longrightarrow> a2_mydeallocate u (Some a) 69 = Some (u\<lparr>memory := memory s'\<rparr>)) \<and>
     os_keeps {} (memory s) (memory s') \<and> owns_structures s' (A - {a})"

lemma drop_structure:
  assumes own: "owns_structures s A" and a: "a \<in> structures s"
    and f: "\<And>m. memory (f m) = m" "\<And>m. structures (f m) \<subseteq> structures s - {a}" "\<And>m. dom (threads (f m)) \<subseteq> dom (threads s)"
      "\<And>m. dom (contexts (f m)) \<subseteq> dom (contexts s)" "\<And>m. dom (stacks (f m)) \<subseteq> dom (stacks s)"
      "\<And>m. dom (qnodes (f m)) \<subseteq> dom (qnodes s)" "\<And>m. dom (tables (f m)) \<subseteq> dom (tables s)"
  obtains m where "drops s A a (f m)"
proof -
  obtain m where m: "\<And>u. memory u = memory s \<Longrightarrow> a2_mydeallocate u (Some a) 69 = Some (u\<lparr>memory := m\<rparr>)"
    "os_keeps {} (memory s) m" "\<And>u. memory u = m \<Longrightarrow> os_owned u (A - {a})"
    "\<And>u. memory u = m \<Longrightarrow> structures u \<subseteq> structures s - {a} \<Longrightarrow> separate u \<Longrightarrow> owns_structures u (A - {a})"
    by (rule release_structure [OF own a]) (rule that, assumption+)
  have "separate (f m)" by (rule separate_mono [of s]) (use own f in \<open>simp_all add: owns_structures_def\<close>)
  then show thesis by (intro that [of m]) (use m(1,2) m(4) [OF f(1,2)] f(1) in \<open>simp add: drops_def\<close>)
qed

lemma drop_kinds:
  assumes own: "owns_structures s A"
  shows "a \<in> dom (tables s) \<Longrightarrow> \<exists>m. drops s A a (s\<lparr>memory := m, tables := (tables s)(a := None)\<rparr>)"
    "a \<in> dom (stacks s) \<Longrightarrow> \<exists>m. drops s A a (s\<lparr>memory := m, stacks := (stacks s)(a := None)\<rparr>)"
    "a \<in> dom (contexts s) \<Longrightarrow> \<exists>m. drops s A a (s\<lparr>memory := m, contexts := (contexts s)(a := None)\<rparr>)"
    "a \<in> dom (threads s) \<Longrightarrow> \<exists>m. drops s A a (s\<lparr>memory := m, threads := (threads s)(a := None)\<rparr>)"
proof -
  have sep: "separate s" using own by (simp add: owns_structures_def)
  note str = structures_def and d = sep [unfolded separate_def]
  show "\<exists>m. drops s A a (s\<lparr>memory := m, tables := (tables s)(a := None)\<rparr>)" if "a \<in> dom (tables s)"
    by (rule drop_structure [OF own, of a "\<lambda>m. s\<lparr>memory := m, tables := (tables s)(a := None)\<rparr>"])
      (use d that in \<open>auto simp: str\<close>)
  show "\<exists>m. drops s A a (s\<lparr>memory := m, stacks := (stacks s)(a := None)\<rparr>)" if "a \<in> dom (stacks s)"
    by (rule drop_structure [OF own, of a "\<lambda>m. s\<lparr>memory := m, stacks := (stacks s)(a := None)\<rparr>"])
      (use d that in \<open>auto simp: str\<close>)
  show "\<exists>m. drops s A a (s\<lparr>memory := m, contexts := (contexts s)(a := None)\<rparr>)" if "a \<in> dom (contexts s)"
    by (rule drop_structure [OF own, of a "\<lambda>m. s\<lparr>memory := m, contexts := (contexts s)(a := None)\<rparr>"])
      (use d that in \<open>auto simp: str\<close>)
  show "\<exists>m. drops s A a (s\<lparr>memory := m, threads := (threads s)(a := None)\<rparr>)" if "a \<in> dom (threads s)"
    by (rule drop_structure [OF own, of a "\<lambda>m. s\<lparr>memory := m, threads := (threads s)(a := None)\<rparr>"])
      (use d that in \<open>auto simp: str\<close>)
qed

lemma drops_call:
  "drops s A a s' \<Longrightarrow> memory u = memory s \<Longrightarrow> a2_mydeallocate u (Some a) 69 = Some (u\<lparr>memory := memory s'\<rparr>)"
  by (simp add: drops_def)

text \<open>The state a join leaves.\<close>

definition without_thread :: "addr \<Rightarrow> addr \<Rightarrow> addr \<Rightarrow> addr \<Rightarrow> mem \<Rightarrow> a2_state \<Rightarrow> a2_state" where
  "without_thread a sp cx t m s = s\<lparr>memory := m, tables := (tables s)(a := None), stacks := (stacks s)(sp := None),
     contexts := (contexts s)(cx := None), threads := (threads s)(t := None)\<rparr>"

lemma drop_all:
  assumes own: "owns_structures s A" and in': "a \<in> dom (tables s)" "sp \<in> dom (stacks s)" "cx \<in> dom (contexts s)" "t \<in> dom (threads s)"
  obtains m1 m2 m3 m where "drops s A a (s\<lparr>memory := m1, tables := (tables s)(a := None)\<rparr>)"
    "\<And>u. memory u = m1 \<Longrightarrow> a2_mydeallocate u (Some sp) 69 = Some (u\<lparr>memory := m2\<rparr>)"
    "\<And>u. memory u = m2 \<Longrightarrow> a2_mydeallocate u (Some cx) 69 = Some (u\<lparr>memory := m3\<rparr>)"
    "\<And>u. memory u = m3 \<Longrightarrow> a2_mydeallocate u (Some t) 69 = Some (u\<lparr>memory := m\<rparr>)"
    "os_keeps {} (memory s) m" "owns_structures (without_thread a sp cx t m s) (A - {a} - {sp} - {cx} - {t})"
proof -
  obtain m1 where d1: "drops s A a (s\<lparr>memory := m1, tables := (tables s)(a := None)\<rparr>)" (is "drops _ _ _ ?s1")
    using drop_kinds(1) [OF own in'(1)] by blast
  then have o1: "owns_structures ?s1 (A - {a})" by (simp add: drops_def)
  obtain m2 where d2: "drops ?s1 (A - {a}) sp (?s1\<lparr>memory := m2, stacks := (stacks ?s1)(sp := None)\<rparr>)" (is "drops _ _ _ ?s2")
    using drop_kinds(2) [OF o1, of sp] in'(2) by auto
  then have o2: "owns_structures ?s2 (A - {a} - {sp})" by (simp add: drops_def)
  obtain m3 where d3: "drops ?s2 (A - {a} - {sp}) cx (?s2\<lparr>memory := m3, contexts := (contexts ?s2)(cx := None)\<rparr>)" (is "drops _ _ _ ?s3")
    using drop_kinds(3) [OF o2, of cx] in'(3) by auto
  then have o3: "owns_structures ?s3 (A - {a} - {sp} - {cx})" by (simp add: drops_def)
  obtain m where d4: "drops ?s3 (A - {a} - {sp} - {cx}) t (?s3\<lparr>memory := m, threads := (threads ?s3)(t := None)\<rparr>)" (is "drops _ _ _ ?s4")
    using drop_kinds(4) [OF o3, of t] in'(4) by auto
  have k: "os_keeps {} (memory s) m1" "os_keeps {} m1 m2" "os_keeps {} m2 m3" "os_keeps {} m3 m"
    using d1 d2 d3 d4 by (simp_all add: drops_def)
  show thesis
  proof (rule that [OF d1, of m2 m3 m])
    show "os_keeps {} (memory s) m" using k by (blast intro: os_keeps_trans)
    have "?s4 = without_thread a sp cx t m s" by (simp add: without_thread_def)
    then show "owns_structures (without_thread a sp cx t m s) (A - {a} - {sp} - {cx} - {t})" using d4 by (simp add: drops_def)
  qed (use drops_call [OF d2] drops_call [OF d3] drops_call [OF d4] in simp_all)
qed

lemma without_thread_pages:
  assumes pg: "paged_in (pageTables s) n s" and k: "os_keeps {} (memory s) m" and a: "pageTables s u = Some a" and w: "0 \<le> w" "w < n" "w \<noteq> u" "0 \<le> u" "u < n"
  shows "view (pages_of (without_thread a sp cx t m s)) w i = view (pages_of s) w i"
proof -
  let ?s = "without_thread a sp cx t m s"
  have "frame_at ?s = frame_at (s\<lparr>memory := m\<rparr>)" by (simp add: frame_at_def [abs_def] without_thread_def cong: if_cong)
  moreover have "frame_at (s\<lparr>memory := m\<rparr>) = frame_at s" using os_keeps_pages(1) [OF k] by (simp add: pages_of_def)
  moreover obtain b tb where b: "pageTables s w = Some b" "tables s b = Some tb" "pt_table s w = Some (b, tb)"
    by (rule paged_table [OF pg w(1,2)])
  moreover have "b \<noteq> a" using pg a b(1) w by (auto simp: paged_in_def inj_on_def)
  then have "pt_table ?s w = Some (b, tb)" using b by (auto simp: pt_table_def without_thread_def split: if_splits)
  ultimately show ?thesis by (simp add: view_def pages_of_def entry_at_def)
qed

subsection \<open>\<open>my_pthread_join\<close>\<close>

lemma ending_join:
  assumes inv: "ending_inv s" and r: "threads s t = Some r" "tstate r = COMPLETED" "thread_id r \<noteq> 0"
  obtains s' a cx sp A where "a2_join t w s = Some (Joined 0 (if w then Some (return_value r) else None), s')"
    "threads s' = (threads s)(t := None)" "sched_abs s' = sched_abs s"
    "masterTable s' (en (pages_of s) (thread_id r) 0) = CHR ''0''" "masterTable s' (en (pages_of s) (thread_id r) LAST) = CHR ''0''"
    "\<And>u i. 0 \<le> u \<Longrightarrow> u < threadIDS s \<Longrightarrow> u \<noteq> thread_id r \<Longrightarrow> view (pages_of s') u i = view (pages_of s) u i"
    "pageTables s (thread_id r) = Some a" "contexts s (tcontext r) = Some cx" "ss_sp cx = Some sp"
    "os_owned s A" "{a, sp, tcontext r, t} \<subseteq> A" "os_owned s' (A - {a, sp, tcontext r, t})" "pageTables s' (thread_id r) = Some a"
proof -
  let ?n = "threadIDS s" and ?i = "thread_id r"
  have yr: "yield_ready ?n 1 s" and sg: "stacks_given s" using inv by (simp_all add: ending_inv_def)
  obtain A where A: "owns_structures s A" using inv by (auto simp: ending_inv_def)
  have ok: "paging_ok ?n (\<lambda>_. 1) s" and pg: "paged_in (pageTables s) ?n s" and i: "0 \<le> ?i" "?i < ?n"
    using yr r(1) by (auto simp: yield_ready_def paging_ok_def paged_def)
  obtain cx sp where cx: "contexts s (tcontext r) = Some cx" "ss_sp cx = Some sp" "sp \<in> dom (stacks s)"
    using sg r unfolding stacks_given_def by blast
  obtain p where p: "release_pages ?i s = Some (s\<lparr>prot := p, masterTable := (masterTable s)
      (en (pages_of s) ?i 0 := CHR ''0'', en (pages_of s) ?i LAST := CHR ''0'')\<rparr>)" (is "_ = Some ?v")
    by (rule release_pages_ok [OF ok i])
  obtain a tb where a: "pageTables s ?i = Some a" "tables s a = Some tb" "pt_table s ?i = Some (a, tb)"
    by (rule paged_table [OF pg i])
  have o0: "owns_structures ?v A" using A by (simp add: owns_structures_def os_owned_def os_heap_def structures_def separate_def)
  obtain m1 m2 m3 m where d: "drops ?v A a (?v\<lparr>memory := m1, tables := (tables ?v)(a := None)\<rparr>)"
    "\<And>u. memory u = m1 \<Longrightarrow> a2_mydeallocate u (Some sp) 69 = Some (u\<lparr>memory := m2\<rparr>)"
    "\<And>u. memory u = m2 \<Longrightarrow> a2_mydeallocate u (Some (tcontext r)) 69 = Some (u\<lparr>memory := m3\<rparr>)"
    "\<And>u. memory u = m3 \<Longrightarrow> a2_mydeallocate u (Some t) 69 = Some (u\<lparr>memory := m\<rparr>)"
    "os_keeps {} (memory ?v) m" "owns_structures (without_thread a sp (tcontext r) t m ?v) (A - {a} - {sp} - {tcontext r} - {t})"
    by (rule drop_all [OF o0, of a sp "tcontext r" t]) (use a cx r in \<open>simp_all, auto\<close>)
  let ?w = "without_thread a sp (tcontext r) t m ?v"
  show thesis
  proof (rule that [of ?w a cx sp A])
    show "a2_join t w s = Some (Joined 0 (if w then Some (return_value r) else None), ?w)"
      using r(1,2) p a(3) drops_call [OF d(1), of ?v] d(2,3,4) cx(1,2) by (simp add: a2_join_def without_thread_def Let_def)
    show "view (pages_of ?w) u k = view (pages_of s) u k" if "0 \<le> u" "u < ?n" "u \<noteq> ?i" for u k
    proof -
      have "view (pages_of ?w) u k = view (pages_of ?v) u k"
        by (rule without_thread_pages [of _ ?n _ ?i]) (use pg d(5) a(1) that i in simp_all)
      then show ?thesis by (simp add: view_def)
    qed
    show "{a, sp, tcontext r, t} \<subseteq> A" using A a(2) cx r(1) by (auto simp: owns_structures_def structures_def)
    have "A - {a} - {sp} - {tcontext r} - {t} = A - {a, sp, tcontext r, t}" by auto
    then show "os_owned ?w (A - {a, sp, tcontext r, t})" using d(6) by (simp add: owns_structures_def)
  qed (use A a cx in \<open>auto simp: without_thread_def sched_abs_def owns_structures_def\<close>)
qed

subsection \<open>The slot behind the last thread\<close>

lemma slot_pointer:
  assumes pg: "paged n s" and sl: "pageTables s n \<noteq> None"
  shows "evict 128 i s = None"
proof (rule evict_faults [of s n "- 1" 0])
  have n: "0 \<le> n" "n < 128" using pg by (simp_all add: paged_def paged_in_def)
  have "\<forall>u. u < 0 \<or> n \<le> u \<longrightarrow> pageTables s u = None \<or> pageTables s u = Some (- 1)" using pg by (simp add: paged_def paged_in_def)
  then show "pageTables s n = Some (- 1)" using sl by auto
  show "tables s (- 1) = None" using pg by (auto simp: paged_def paged_in_def)
  show "pageTables s k \<noteq> None" if "0 \<le> k" "k < n" for k using pg that unfolding paged_def paged_in_def by blast
  show "(0::int) \<le> n" "n < 128" "(128::nat) = nat (128 - 0)" by (simp_all add: n)
qed simp

lemma exit_blocked:
  assumes inv: "threads_inv s" and c: "current s = Some c" "threads s c = Some r" "thread_id r \<noteq> 0"
    and d: "d \<in> dom (threads s)" "d \<noteq> c" and sl: "pageTables s (threadIDS s) \<noteq> None"
  shows "a2_exit v s = None"
proof -
  let ?n = "threadIDS s" and ?p = "pages_of s"
  have "s \<noteq> a2_start" using c a2_start_fields by auto
  then obtain T1 T2 where st: "started ?n s T1 T2" "mainEnqueued s \<noteq> 0" "runs_front (current s, T1, T2)"
    using inv by (auto simp: threads_inv_def)
  obtain q1 q2 where rep: "ready_rep s q1 q2 T1 T2" by (rule started_rep [OF st(1)])
  obtain U b A where "os_room s U b" using st(1) by (auto simp: started_def)
  then obtain A where A: "owns_structures s A" by (rule os_room_owns)
  have set: "set (T1 @ T2) = dom (threads s)" by (rule started_set [OF st(1,2)])
  have ne: "T1 @ T2 \<noteq> []" using c(2) set by auto
  then have hc: "hd (T1 @ T2) = c" using st(3) c(1) by (simp add: runs_front_def ready_threads_def)
  obtain u q1' q2' where u: "a2_exit v s = a2_yield u" "ready_rep u q1' q2' (tl T1) (if T1 = [] then tl T2 else T2)"
    "threads u = (threads s)(c \<mapsto> completed r v)" "current u = None" "pages_of u = ?p"
    "paging_ok ?n (\<lambda>_. 1) u = paging_ok ?n (\<lambda>_. 1) s" "pageTables u = pageTables s"
    by (rule exit_leaves [OF rep ne _ hc c(2,3) A, of v]) (use c(1) hc in simp, rule that, assumption+)
  let ?T = "tl T1 @ (if T1 = [] then tl T2 else T2)"
  have tl: "?T = tl (T1 @ T2)" by (cases T1) simp_all
  then have "set (T1 @ T2) = insert c (set ?T)" using ne hc by (metis list.exhaust_sel list.simps(15))
  moreover have "c \<notin> set ?T" using ready_distinct [OF rep] ne hc unfolding tl by (metis distinct.simps(2) list.exhaust_sel)
  ultimately have T: "?T \<noteq> []" "set ?T \<subseteq> dom (threads s) - {c}" using set d by auto
  obtain e re where e: "hd ?T = e" "threads u e = Some re" "a2_yield u = a2_resume e re u"
    by (rule yield_resumes [OF u(2) T(1) u(4)]) (rule that [OF refl])
  have "e \<in> dom (threads s) - {c}" by (rule subsetD [OF T(2)]) (use hd_in_set [OF T(1)] in \<open>simp only: e(1)\<close>)
  then have ec: "e \<noteq> c" "threads s e = Some re" using e(2) by (auto simp: u(3))
  have rec: "records_of s" and yr: "yield_ready ?n 1 s" using st(1) by (simp_all add: started_def)
  then have id: "thread_id re \<noteq> thread_id r"
    using inj_onD [of "tid (threads s)" "dom (threads s)" e c] ec c(2) by (auto simp: records_of_def tid_def)
  have ok: "paging_ok ?n (\<lambda>_. 1) u" and inv: "page_inv ?n (\<lambda>_. 1) ?p" using yr u(6) by (simp_all add: yield_ready_def paging_ok_def)
  have ids: "0 \<le> thread_id re" "thread_id re < ?n" "0 \<le> thread_id r" "thread_id r < ?n" using yr ec(2) c(2) by (auto simp: yield_ready_def)
  have pgs: "is_page ?n (\<lambda>_. 1) (thread_id re) 0" "is_page ?n (\<lambda>_. 1) (thread_id r) 0" using ids by (simp_all add: is_page_def homes_def)
  have "en ?p (thread_id r) 0 = 0" using yr c by (auto simp: yield_ready_def at_home_def homes_def)
  then have v: "en ?p (thread_id re) 0 \<noteq> 0" "en ?p (thread_id re) 0 \<noteq> 6969"
    using owner_unique [OF inv pgs] id entry_range [OF inv pgs(1)] by auto
  have pg: "paged ?n u" using ok by (simp add: paging_ok_def)
  then have get: "pt_get u (thread_id re) 0 = Some (en ?p (thread_id re) 0)"
    using paged_get [of "pageTables u" ?n u "thread_id re" 0] ids by (simp add: paged_def u(5))
  let ?w = "a2_arm_timer 0 (u\<lparr>current := Some e\<rparr>)"
  have w: "pt_get ?w = pt_get u" "paged ?n ?w = paged ?n u" "pageTables ?w = pageTables u"
    by (simp_all add: a2_arm_timer_def setitimer_virtual_def pt_get_def pt_table_def paged_def paged_in_def fun_eq_iff cong: if_cong)
  have "resume_pages (thread_id re) ?w = None"
    by (rule resume_faults [OF _ v(2,1)]) (use get w pg slot_pointer [of ?n ?w 0] sl u(7) in simp_all)
  then show ?thesis by (simp add: u(1) e(3) a2_resume_def)
qed

subsection \<open>Properties\<close>

text \<open>A program that has created one thread, which runs.\<close>

lemma one_created:
  obtains s t r where "all_created zero_arena 968 s" "pageTables s (threadIDS s) = None" "current s = Some t" "threads s t = Some r" "thread_id r = 1"
    "sched_abs s = (Some t, [t, 9756], [])"
proof -
  have ok: "arena_ok zero_arena" "(0::int) < 968" "(968::int) \<le> 2000" by simp_all
  have inv: "threads_inv a2_start" by (simp add: threads_inv_def)
  have n: "threadIDS a2_start < 127" by (simp add: a2_start_fields)
  obtain t cx sw s where s: "a2_create zero_arena 968 False 7 8 a2_start = Some (0, t, sw, s)"
    "threads s t = Some \<lparr>thread_id = threadIDS a2_start, tcontext = cx, tstate = ACTIVE, return_value = None\<rparr>"
    "sched_abs s = (if memoryInitialized a2_start = 0 then (Some t, [t, 9756], [])
       else (case sched_abs a2_start of (c, T1, T2) \<Rightarrow> yield_spec (c, T1 @ [t], T2)))"
    "threadIDS s = threadIDS a2_start + 1" "\<And>u. 2 \<le> u \<Longrightarrow> pageTables s u = None"
    by (rule create_step [OF inv n ok, of 7 8]) (rule that, assumption+, simp)
  have "a2_threads zero_arena 968 s" by (rule a2_threads.create [OF a2_threads.start n s(1)])
  then have "all_created zero_arena 968 s" using ok s(2) by (auto simp: all_created_def)
  moreover have "pageTables s (threadIDS s) = None" using s(4,5) by (simp add: a2_start_fields)
  moreover have "sched_abs s = (Some t, [t, 9756], [])" using s(3) by (simp add: a2_start_fields)
  moreover from this have "current s = Some t" using sched_abs_current [of s] by simp
  ultimately show thesis using that s(2) by (auto simp: a2_start_fields)
qed

text \<open>C4: Take any state a program of creations and yields can reach, in which the slot of \<open>pageTables\<close> behind
  the last thread, which the code has never assigned, happens to hold NULL.  In every state that yields, exits and
  waiting joins reach from there, \<open>my_pthread_exit\<close>
  of Assignment2 called by a created thread returns control to the scheduler: the thread leaves the queues,
  the front of what remains runs next, the record is completed and stays, the block of its queue node,
  and no other, is given back, and every page of every thread keeps its bytes.\<close>

theorem a2_exit_refines:
  assumes "all_created arena uc s0" "pageTables s0 (threadIDS s0) = None" "a2_ending s0 s"
    "current s = Some c" "threads s c = Some r" "thread_id r \<noteq> 0"
  shows "\<exists>sw s' x A. a2_exit v s = Some (sw, s') \<and> sched_abs s' = yield_spec (remove_front (sched_abs s)) \<and>
    threads s' = (threads s)(c \<mapsto> completed r v) \<and>
    x \<in> dom (qnodes s) \<and> os_owned s A \<and> x \<in> A \<and> os_owned s' (A - {x}) \<and>
    same_views (threadIDS s) (\<lambda>_. 1) (pages_of s) (pages_of s')"
  by (rule ending_exit [OF a2_ending_inv [OF assms(1-3)] assms(4-6), of v]) blast

theorem a2_exit_refines_witness:
  "\<exists>t s sw s'. all_created zero_arena 968 s \<and> sched_abs s = (Some t, [t, 9756], []) \<and> a2_exit 5 s = Some (sw, s') \<and>
    sched_abs s' = (Some 9756, [9756], [])"
proof -
  obtain s t r where s: "all_created zero_arena 968 s" "pageTables s (threadIDS s) = None" "current s = Some t"
    "threads s t = Some r" "thread_id r = 1" "sched_abs s = (Some t, [t, 9756], [])" by (rule one_created)
  obtain sw s' where "a2_exit 5 s = Some (sw, s')" "sched_abs s' = yield_spec (remove_front (sched_abs s))"
    using a2_exit_refines [OF s(1,2) a2_ending.created s(3,4), of 5] s(5) by auto
  then show ?thesis using s(1,6) by (auto simp: remove_front_def)
qed

text \<open>C36: The NULL behind the last thread is needed.  When all threads have been created and one of them
  other than the main thread runs, the first exit returns if and only if the slot of \<open>pageTables\<close> behind the last thread holds NULL.
  The code assigns no value to that slot, so the bytes \<open>posix_memalign\<close> delivered decide; if they are not zero the loop that
  looks for the owner of a frame reads a page table through a pointer that was never assigned.\<close>

theorem a2_exit_needs_null:
  assumes "all_created arena uc s" "current s = Some c" "threads s c = Some r" "thread_id r \<noteq> 0"
    "threads s d \<noteq> None" "d \<noteq> c"
  shows "a2_exit v s \<noteq> None \<longleftrightarrow> pageTables s (threadIDS s) = None"
proof
  have inv: "threads_inv s" using assms(1) a2_threads_inv by (auto simp: all_created_def)
  have d: "d \<in> dom (threads s)" using assms(5) by blast
  show "pageTables s (threadIDS s) = None" if "a2_exit v s \<noteq> None"
    using exit_blocked [OF inv assms(2-4) d assms(6), of v] that by blast
  show "a2_exit v s \<noteq> None" if "pageTables s (threadIDS s) = None"
    by (rule ending_exit [OF a2_ending_inv [OF assms(1) that a2_ending.created] assms(2-4), of v]) simp
qed

theorem a2_exit_needs_null_witness:
  "\<exists>s t. all_created zero_arena 968 s \<and> sched_abs s = (Some t, [t, 9756], []) \<and> a2_exit 5 s \<noteq> None"
proof -
  obtain s t r where s: "all_created zero_arena 968 s" "pageTables s (threadIDS s) = None" "current s = Some t"
    "threads s t = Some r" "thread_id r = 1" "sched_abs s = (Some t, [t, 9756], [])" by (rule one_created)
  have inv: "threads_inv s" and ne: "threads s \<noteq> Map.empty" using s(1) a2_threads_inv by (auto simp: all_created_def)
  have "distinct [t, 9756]" "set [t, 9756] = dom (threads s)"
    using threads_run(1,2) [OF inv ne] unfolding s(6) ready_threads_def by simp_all
  then have "threads s 9756 \<noteq> None" "9756 \<noteq> t" by auto
  then have "a2_exit 5 s \<noteq> None" using a2_exit_needs_null [OF s(1,3,4), of 9756 5] s(2,5) by simp
  then show ?thesis using s(1,6) by blast
qed

text \<open>C14: When the slot of \<open>pageTables\<close> behind the last thread holds NULL, every value but NULL that a thread of
  Assignment2 exits with is the value \<open>my_pthread_join\<close> stores: when it is
  called right after the exit, or after any number of yields of the threads that remain.\<close>

theorem a2_exit_join_roundtrip:
  assumes "all_created arena uc s0" "pageTables s0 (threadIDS s0) = None" "a2_ending s0 s"
    "current s = Some c" "threads s c = Some r" "thread_id r \<noteq> 0" "v \<noteq> 0"
  shows "\<exists>sw s'. a2_exit v s = Some (sw, s') \<and>
    (\<forall>k. \<exists>q s''. a2_yields k s' = Some q \<and> a2_join c True q = Some (Joined 0 (Some (Some v)), s''))"
proof -
  obtain sw s' where e: "a2_exit v s = Some (sw, s')" "ending_inv s'" "threads s' = (threads s)(c \<mapsto> completed r v)"
    by (rule ending_exit [OF a2_ending_inv [OF assms(1-3)] assms(4-6), of v])
  have "\<exists>q s''. a2_yields k s' = Some q \<and> a2_join c True q = Some (Joined 0 (Some (Some v)), s'')" for k
  proof -
    obtain q where q: "a2_yields k s' = Some q" "ending_inv q" "threads q = threads s'" by (rule ending_yields [OF e(2)])
    then have t: "threads q c = Some (completed r v)" "return_value (completed r v) = Some v"
      using e(3) assms(7) by (simp_all add: completed_def)
    obtain s'' where "a2_join c True q = Some (Joined 0 (if True then Some (return_value (completed r v)) else None), s'')"
      by (rule ending_join [OF q(2) t(1), of True]) (use assms(6) in simp_all)
    then show ?thesis using q(1) t(2) by simp
  qed
  then show ?thesis using e(1) by blast
qed

theorem a2_exit_join_roundtrip_witness:
  "\<exists>s t sw s' q s''. all_created zero_arena 968 s \<and> a2_exit 5 s = Some (sw, s') \<and> a2_yields 3 s' = Some q \<and>
    a2_join t True q = Some (Joined 0 (Some (Some 5)), s'')"
proof -
  obtain s t r where s: "all_created zero_arena 968 s" "pageTables s (threadIDS s) = None" "current s = Some t"
    "threads s t = Some r" "thread_id r = 1" by (rule one_created)
  obtain sw s' where e: "a2_exit 5 s = Some (sw, s')"
    "\<forall>k. \<exists>q s''. a2_yields k s' = Some q \<and> a2_join t True q = Some (Joined 0 (Some (Some 5)), s'')"
    using a2_exit_join_roundtrip [OF s(1,2) a2_ending.created s(3,4), of 5] s(5) by auto
  from e(2) obtain q s'' where "a2_yields 3 s' = Some q" "a2_join t True q = Some (Joined 0 (Some (Some 5)), s'')" by blast
  with s(1) e(1) show ?thesis by (intro exI conjI)
qed

text \<open>C15: When the slot of \<open>pageTables\<close> behind the last thread held NULL, so that threads can end,
  joining an ended thread of Assignment2 returns 0 with the value of its record and releases what it
  had: the flags of its two frames, the blocks of its page table, stack, context and record, and no other
  block; the queues, the other records and the pages of all other threads stay.  But its slot of \<open>pageTables\<close> still
  points to the released block of its page table.\<close>

theorem a2_join_releases:
  assumes "all_created arena uc s0" "pageTables s0 (threadIDS s0) = None" "a2_ending s0 s"
    "threads s t = Some r" "tstate r = COMPLETED" "thread_id r \<noteq> 0"
  shows "\<exists>s' a cx sp A. a2_join t w s = Some (Joined 0 (if w then Some (return_value r) else None), s') \<and>
    threads s' = (threads s)(t := None) \<and> sched_abs s' = sched_abs s \<and>
    masterTable s' (en (pages_of s) (thread_id r) 0) = CHR ''0'' \<and> masterTable s' (en (pages_of s) (thread_id r) LAST) = CHR ''0'' \<and>
    (\<forall>u i. 0 \<le> u \<and> u < threadIDS s \<and> u \<noteq> thread_id r \<longrightarrow> view (pages_of s') u i = view (pages_of s) u i) \<and>
    pageTables s (thread_id r) = Some a \<and> contexts s (tcontext r) = Some cx \<and> ss_sp cx = Some sp \<and>
    os_owned s A \<and> {a, sp, tcontext r, t} \<subseteq> A \<and> os_owned s' (A - {a, sp, tcontext r, t}) \<and>
    pageTables s' (thread_id r) = Some a"
  by (rule ending_join [OF a2_ending_inv [OF assms(1-3)] assms(4-6), of w]) blast

theorem a2_join_releases_witness:
  "\<exists>s q t s' a. all_created zero_arena 968 s \<and> a2_ending s q \<and>
    a2_join t True q = Some (Joined 0 (Some (Some 5)), s') \<and> pageTables s' 1 = Some a"
proof -
  obtain s t r where s: "all_created zero_arena 968 s" "pageTables s (threadIDS s) = None" "current s = Some t"
    "threads s t = Some r" "thread_id r = 1" by (rule one_created)
  have ne: "thread_id r \<noteq> 0" using s(5) by simp
  obtain sw q where q: "a2_exit 5 s = Some (sw, q)" "threads q = (threads s)(t \<mapsto> completed r 5)"
    by (rule ending_exit [OF a2_ending_inv [OF s(1,2) a2_ending.created] s(3,4) ne, of 5])
  have e: "a2_ending s q" by (rule a2_ending.exit [OF a2_ending.created s(3,4) ne q(1)])
  have t: "threads q t = Some (completed r 5)" "return_value (completed r 5) = Some 5" using q(2) by (simp_all add: completed_def)
  obtain s' a where "a2_join t True q = Some (Joined 0 (Some (Some 5)), s')" "pageTables s' 1 = Some a"
    using a2_join_releases [OF s(1,2) e t(1), of True] t(2) ne s(5) by auto
  with s(1) e show ?thesis by (intro exI conjI)
qed

end
