(* ===== verification/Counter_Driver.thy ===== *)
theory Counter_Driver
  imports Ticket_Mutex
begin

section \<open>The counting loops\<close>

text \<open>
  The loop of \<open>counter\<close> in Assignment2/main.c: several threads add to the global \<open>c\<close> under the mutex
  \<open>lock\<close>.  The scheduler may interrupt a thread between any two of its accesses to the globals, so a
  thread is the point it has reached with the local variables that are live there, one step is one
  access, and the step relation interleaves the loops of \<open>n\<close> threads in every order.  A thread that
  has not started yet, or that the mutex makes yield, is one that takes no step.  What comes before
  and after the loops (main's creations and joins, each thread's allocation of 3 MB and its exit) is
  not part of this model; the library calls have models of their own in the theories of the
  scheduler and the pages.  \<open>pthread_mutex_init\<close> is not a function of the repository: the mutex it
  leaves is an argument.
\<close>

definition ITER :: int where
  "ITER = 1000000"

definition INT_MAX :: int where
  "INT_MAX = 2147483647"

subsection \<open>The threads\<close>

record counter_globals =
  lock :: my_pthread_mutex
  c :: int

text \<open>The arguments are \<open>i\<close>, the ticket a lock call holds, and \<open>temp\<close>.\<close>

datatype counter_point =
  Taking int | Testing int "32 word" | Loading int | Adding int int | Storing int int | Unlocking int | Finished

fun counter_step :: "counter_point \<Rightarrow> counter_globals \<Rightarrow> (counter_point \<times> counter_globals) option" where
  "counter_step (Taking i) g =
     (if i < ITER then let (myturn, m) = mutex_take (lock g) in Some (Testing i myturn, g\<lparr>lock := m\<rparr>)
      else Some (Finished, g))"
| "counter_step (Testing i myturn) g =
     (case mutex_test (lock g) myturn of None \<Rightarrow> Some (Testing i myturn, g) | Some _ \<Rightarrow> Some (Loading i, g))"
| "counter_step (Loading i) g = Some (Adding i (c g), g)"
| "counter_step (Adding i temp) g = (if temp < INT_MAX then Some (Storing i (temp + 1), g) else None)"
| "counter_step (Storing i temp) g = Some (Unlocking i, g\<lparr>c := temp\<rparr>)"
| "counter_step (Unlocking i) g = (let (_, m) = mutex_unlock (lock g) in Some (Taking (i + 1), g\<lparr>lock := m\<rparr>))"
| "counter_step Finished g = None"

subsection \<open>The interleaving\<close>

record counter_sys =
  workers :: "nat \<Rightarrow> counter_point option"
  globals :: counter_globals

text \<open>The global \<open>c\<close> starts with 0.\<close>

definition counter_start :: "nat \<Rightarrow> my_pthread_mutex \<Rightarrow> counter_sys" where
  "counter_start n m = \<lparr>workers = (\<lambda>t. if t < n then Some (Taking 0) else None), globals = \<lparr>lock = m, c = 0\<rparr>\<rparr>"

inductive counter_move :: "counter_sys \<Rightarrow> counter_sys \<Rightarrow> bool" where
  worker: "workers s t = Some p \<Longrightarrow> counter_step p (globals s) = Some (p', g) \<Longrightarrow>
    counter_move s (s\<lparr>workers := (workers s)(t \<mapsto> p'), globals := g\<rparr>)"

inductive counter_run :: "counter_sys \<Rightarrow> counter_sys \<Rightarrow> bool" for s0 where
  start: "counter_run s0 s0"
| move: "counter_run s0 s \<Longrightarrow> counter_move s s' \<Longrightarrow> counter_run s0 s'"

subsection \<open>The invariant\<close>

text \<open>A thread's part in the mutex, how many increments it has stored, and the value it has read.\<close>

fun point_status :: "counter_point option \<Rightarrow> lock_status" where
  "point_status None = Idle"
| "point_status (Some (Taking i)) = Idle"
| "point_status (Some (Testing i w)) = Spinning w"
| "point_status (Some (Loading i)) = Holding"
| "point_status (Some (Adding i v)) = Holding"
| "point_status (Some (Storing i v)) = Holding"
| "point_status (Some (Unlocking i)) = Holding"
| "point_status (Some Finished) = Idle"

fun stored :: "counter_point option \<Rightarrow> int" where
  "stored None = 0"
| "stored (Some (Taking i)) = i"
| "stored (Some (Testing i w)) = i"
| "stored (Some (Loading i)) = i"
| "stored (Some (Adding i v)) = i"
| "stored (Some (Storing i v)) = i"
| "stored (Some (Unlocking i)) = i + 1"
| "stored (Some Finished) = ITER"

fun point_ok :: "int \<Rightarrow> counter_point \<Rightarrow> bool" where
  "point_ok v (Taking i) = (0 \<le> i \<and> i \<le> ITER)"
| "point_ok v (Testing i w) = (0 \<le> i \<and> i < ITER)"
| "point_ok v (Loading i) = (0 \<le> i \<and> i < ITER)"
| "point_ok v (Adding i temp) = (0 \<le> i \<and> i < ITER \<and> temp = v)"
| "point_ok v (Storing i temp) = (0 \<le> i \<and> i < ITER \<and> temp = v + 1)"
| "point_ok v (Unlocking i) = (0 \<le> i \<and> i < ITER)"
| "point_ok v Finished = True"

definition lock_view :: "counter_sys \<Rightarrow> lock_sys" where
  "lock_view s = \<lparr>mutex = lock (globals s), status = (\<lambda>t. point_status (workers s t))\<rparr>"

definition counter_inv :: "nat \<Rightarrow> counter_sys \<Rightarrow> bool" where
  "counter_inv n s \<longleftrightarrow> (\<exists>qs. lock_rep n (lock_view s) qs) \<and> dom (workers s) = {..<n} \<and>
     (\<forall>t p. workers s t = Some p \<longrightarrow> point_ok (c (globals s)) p) \<and>
     c (globals s) = (\<Sum>t<n. stored (workers s t))"

lemma lock_view_unchanged:
  assumes "lock_rep n (lock_view s) qs" "lock g = lock (globals s)" "point_status (Some p) = point_status (workers s t)"
  shows "lock_rep n (lock_view (s\<lparr>workers := (workers s)(t \<mapsto> p), globals := g\<rparr>)) qs"
proof -
  have "lock_view (s\<lparr>workers := (workers s)(t \<mapsto> p), globals := g\<rparr>) = lock_view s"
    using assms(2,3) by (auto simp: lock_view_def)
  then show ?thesis using assms(1) by simp
qed

text \<open>A step of a thread is a step of the mutex or none.\<close>

lemma worker_lock_step:
  assumes "t < n" "workers s t = Some p" "counter_step p (globals s) = Some (p', g)"
  defines "s' \<equiv> s\<lparr>workers := (workers s)(t \<mapsto> p'), globals := g\<rparr>"
  shows "lock_step n (lock_view s) t (lock_view s') \<or> lock_view s' = lock_view s"
proof -
  define V where "V = lock_view s"
  have view: "lock_view s' = V\<lparr>mutex := lock g, status := (status V)(t := point_status (Some p'))\<rparr>"
    by (auto simp: lock_view_def s'_def V_def)
  have st: "status V t = point_status (Some p)" "mutex V = lock (globals s)"
    using assms(2) by (simp_all add: lock_view_def V_def)
  have idle: "V\<lparr>mutex := lock (globals s), status := f\<rparr> = V\<lparr>status := f\<rparr>" for f using st(2) by (cases V) simp
  have same: "status V t = x \<Longrightarrow> V\<lparr>status := (status V)(t := x)\<rparr> = V" for x by (cases V) auto
  show ?thesis unfolding view V_def [symmetric]
  proof (cases p)
    case (Taking i)
    then show "lock_step n V t (V\<lparr>mutex := lock g, status := (status V)(t := point_status (Some p'))\<rparr>) \<or>
        V\<lparr>mutex := lock g, status := (status V)(t := point_status (Some p'))\<rparr> = V"
      using assms(1,3) st lock_step.take [of t n V] by (cases "i < ITER") (auto simp: idle same mutex_take_def Let_def)
  next
    case (Testing i w)
    then show "lock_step n V t (V\<lparr>mutex := lock g, status := (status V)(t := point_status (Some p'))\<rparr>) \<or>
        V\<lparr>mutex := lock g, status := (status V)(t := point_status (Some p'))\<rparr> = V"
      using assms(3) st lock_step.acquire [of V t w _ n] lock_step.spin [of V t w n] by (auto simp: idle same split: option.splits)
  next
    case (Unlocking i)
    then show "lock_step n V t (V\<lparr>mutex := lock g, status := (status V)(t := point_status (Some p'))\<rparr>) \<or>
        V\<lparr>mutex := lock g, status := (status V)(t := point_status (Some p'))\<rparr> = V"
      using assms(3) st lock_step.unlock [of V t _ "lock g" n] by (auto simp: Let_def split: prod.splits)
  qed (use assms(3) st in \<open>auto simp: idle same split: if_splits\<close>)
qed

lemma stored_le: "point_ok v p \<Longrightarrow> 0 \<le> stored (Some p) \<and> stored (Some p) \<le> ITER"
  by (cases p) (auto simp: ITER_def)

lemma counter_point_ok: "counter_inv n s \<Longrightarrow> workers s t = Some p \<Longrightarrow> point_ok (c (globals s)) p"
  unfolding counter_inv_def by blast

lemma counter_bounds:
  assumes "counter_inv n s"
  shows "0 \<le> c (globals s)" "c (globals s) \<le> ITER * int n"
proof -
  have "0 \<le> stored (workers s t) \<and> stored (workers s t) \<le> ITER" for t
    using stored_le [OF counter_point_ok [OF assms]] by (cases "workers s t") (auto simp: ITER_def)
  then have "0 \<le> (\<Sum>t<n. stored (workers s t))" "(\<Sum>t<n. stored (workers s t)) \<le> (\<Sum>t<n. ITER)"
    by (auto intro: sum_nonneg sum_mono simp del: sum_constant)
  then show "0 \<le> c (globals s)" "c (globals s) \<le> ITER * int n" using assms by (simp_all add: counter_inv_def mult.commute)
qed

lemma counter_worker:
  assumes "counter_inv n s" "workers s t = Some p"
  shows "t < n" "point_ok (c (globals s)) p"
proof -
  have "t \<in> dom (workers s)" using assms(2) by blast
  then show "t < n" using assms(1) by (simp add: counter_inv_def)
  show "point_ok (c (globals s)) p" by (rule counter_point_ok [OF assms])
qed

text \<open>Only one thread is between a lock call and the unlock that follows it.\<close>

definition inside :: "counter_point option \<Rightarrow> bool" where
  "inside p = (point_status p = Holding)"

lemma inside_unique:
  assumes "counter_inv n s" "inside (workers s t)" "inside (workers s u)"
  shows "t = u"
proof -
  obtain qs where "lock_rep n (lock_view s) qs" using assms(1) by (auto simp: counter_inv_def)
  then show ?thesis using lock_holder [of n "lock_view s" qs] assms(2,3) by (auto simp: inside_def lock_view_def)
qed

lemma worker_returns:
  assumes "counter_inv n s" "n \<le> 2147" "workers s t = Some p" "p \<noteq> Finished"
  obtains p' g where "counter_step p (globals s) = Some (p', g)"
proof -
  have "c (globals s) < INT_MAX" using counter_bounds(2) [OF assms(1)] assms(2) by (simp add: ITER_def INT_MAX_def)
  then have "counter_step p (globals s) \<noteq> None" using assms(4) counter_worker(2) [OF assms(1,3)]
    by (cases p) (auto simp: Let_def mutex_take_def mutex_unlock_def split: option.split)
  then show thesis using that by auto
qed

text \<open>What a step does to the value and to the count of the thread.\<close>

lemma worker_effect:
  assumes "point_ok (c g) p" "counter_step p g = Some (p', g')"
  shows "point_ok (c g') p'" "stored (Some p') - stored (Some p) = c g' - c g" "p \<noteq> Finished"
    "c g' = c g \<or> point_status (Some p) = Holding"
  using assms by (cases p; auto simp: mutex_take_def mutex_unlock_def split: if_splits option.splits)+

lemma point_ok_other: "point_ok v p \<Longrightarrow> \<not> inside (Some p) \<Longrightarrow> point_ok w p"
  by (cases p) (simp_all add: inside_def)

lemma sum_upd:
  fixes f :: "'a \<Rightarrow> int"
  assumes "t < (n::nat)"
  shows "(\<Sum>u<n. f ((w(t := x)) u)) = (\<Sum>u<n. f (w u)) + (f x - f (w t))"
proof -
  have rest: "(\<Sum>u\<in>{..<n} - {t}. f ((w(t := x)) u)) = (\<Sum>u\<in>{..<n} - {t}. f (w u))" by (rule sum.cong) simp_all
  have split: "(\<Sum>u<n. f (v u)) = f (v t) + (\<Sum>u\<in>{..<n} - {t}. f (v u))" for v
    using assms by (intro sum.remove) simp_all
  show ?thesis unfolding split [of "w(t := x)"] split [of w] rest by simp
qed

lemma worker_inv:
  assumes inv: "counter_inv n s" and n: "n \<le> 2147" and w: "workers s t = Some p" "counter_step p (globals s) = Some (p', g)"
  shows "counter_inv n (s\<lparr>workers := (workers s)(t \<mapsto> p'), globals := g\<rparr>)" (is "counter_inv n ?s")
proof -
  obtain qs where qs: "lock_rep n (lock_view s) qs" using inv by (auto simp: counter_inv_def)
  note t = counter_worker [OF inv w(1)]
  note e = worker_effect [OF t(2) w(2)]
  have lock: "\<exists>qs. lock_rep n (lock_view ?s) qs"
    using worker_lock_step [OF t(1) w] lock_step_rep [OF qs] qs n by auto
  have dom: "dom (workers ?s) = dom (workers s)" using w(1) by auto
  have points: "point_ok (c g) q" if "workers ?s u = Some q" for u q
  proof (cases "u = t")
    case True
    then show ?thesis using that e(1) by simp
  next
    case False
    then have q: "workers s u = Some q" using that by simp
    show ?thesis
    proof (cases "inside (workers s t)")
      case True
      then have "\<not> inside (Some q)" using inside_unique [OF inv True, of u] False q by auto
      then show ?thesis using point_ok_other counter_worker(2) [OF inv q] by blast
    next
      case nt: False
      then show ?thesis using e(4) w(1) counter_worker(2) [OF inv q] by (simp add: inside_def)
    qed
  qed
  have "dom (workers ?s) = {..<n}"
    using inv unfolding dom counter_inv_def by blast
  moreover have "c g = (\<Sum>u<n. stored ((workers ?s) u))"
    using sum_upd [OF t(1), of stored "workers s" "Some p'"] e(2) w(1) inv by (simp add: counter_inv_def)
  ultimately show ?thesis using lock points by (simp add: counter_inv_def)
qed

lemma counter_start_inv:
  assumes "ticket m = turn m"
  shows "counter_inv n (counter_start n m)"
proof -
  have "lock_rep n (lock_view (counter_start n m)) []"
    using assms by (simp add: lock_rep_def lock_view_def counter_start_def)
  then show ?thesis by (auto simp: counter_inv_def counter_start_def ITER_def dom_def)
qed

lemma counter_run_inv:
  assumes "ticket m = turn m" "n \<le> 2147" "counter_run (counter_start n m) s"
  shows "counter_inv n s"
  using assms(3)
proof (induction rule: counter_run.induct)
  case start
  show ?case by (rule counter_start_inv [OF assms(1)])
next
  case (move s s')
  from move.hyps(2) show ?case
    by cases (use worker_inv move.IH assms(2) in blast)
qed

subsection \<open>Progress\<close>

text \<open>The steps the threads still have to make, apart from rounds of waiting.\<close>

fun point_work :: "counter_point option \<Rightarrow> int" where
  "point_work None = 0"
| "point_work (Some (Taking i)) = 6 * (ITER - i) + 1"
| "point_work (Some (Testing i w)) = 6 * (ITER - i)"
| "point_work (Some (Loading i)) = 6 * (ITER - i) - 1"
| "point_work (Some (Adding i v)) = 6 * (ITER - i) - 2"
| "point_work (Some (Storing i v)) = 6 * (ITER - i) - 3"
| "point_work (Some (Unlocking i)) = 6 * (ITER - i) - 4"
| "point_work (Some Finished) = 0"

definition counter_work :: "nat \<Rightarrow> counter_sys \<Rightarrow> int" where
  "counter_work n s = (\<Sum>t<n. point_work (workers s t))"

lemma point_work_nonneg: "point_ok v p \<Longrightarrow> 0 \<le> point_work (Some p)"
  by (cases p) simp_all

lemma counter_work_nonneg:
  assumes "counter_inv n s"
  shows "0 \<le> counter_work n s"
proof -
  have "0 \<le> point_work (workers s t)" for t
    using point_work_nonneg [OF counter_point_ok [OF assms]] by (cases "workers s t") auto
  then show ?thesis by (simp add: counter_work_def sum_nonneg)
qed

lemma worker_work:
  assumes "point_ok (c g) p" "counter_step p g = Some (p', g')"
  shows "(p' = p \<and> g' = g) \<or> point_work (Some p') = point_work (Some p) - 1"
  using assms by (cases p) (auto simp: mutex_take_def mutex_unlock_def Let_def split: if_splits option.splits)

lemma move_work:
  assumes "counter_inv n s" "counter_move s s'"
  shows "s' = s \<or> counter_work n s' < counter_work n s"
  using assms(2)
proof cases
  case (worker t p p' g)
  note t = counter_worker [OF assms(1) worker(2)]
  consider "p' = p" "g = globals s" | "point_work (Some p') = point_work (Some p) - 1"
    using worker_work [OF t(2) worker(3)] by blast
  then show ?thesis
  proof cases
    case 1
    then have "s' = s" using worker(1,2) by (simp add: fun_upd_idem)
    then show ?thesis by simp
  next
    case 2
    then show ?thesis using worker(1,2) sum_upd [OF t(1), of point_work "workers s" "Some p'"] by (simp add: counter_work_def)
  qed
qed

text \<open>A thread that can go on: the one whose ticket is up.\<close>

lemma worker_can_move:
  assumes inv: "counter_inv n s" and n: "n \<le> 2147" and w: "workers s t = Some p" "p \<noteq> Finished"
  obtains u q q' g where "workers s u = Some q" "counter_step q (globals s) = Some (q', g)" "q' \<noteq> q"
proof -
  obtain qs where qs: "lock_rep n (lock_view s) qs" using inv by (auto simp: counter_inv_def)
  note found = that
  have go: thesis if q: "workers s u = Some q" "q \<noteq> Finished" "\<forall>i w. q = Testing i w \<longrightarrow> w = turn (lock (globals s))" for u q
  proof -
    obtain q' g where s: "counter_step q (globals s) = Some (q', g)" by (rule worker_returns [OF inv n q(1,2)])
    then have "q' \<noteq> q" using q(3) by (cases q) (auto simp: mutex_test_def Let_def split: if_splits prod.splits)
    then show thesis using found [OF q(1) s] by blast
  qed
  show thesis
  proof (cases "\<exists>i w. p = Testing i w")
    case False
    then show ?thesis using go [OF w] by blast
  next
    case True
    then have "t \<in> set qs" using lock_rep_set [OF qs] w(1) by (auto simp: lock_view_def)
    then have "0 < length qs" by (cases qs) auto
    from lock_rep_front [OF qs this] obtain u where u: "point_status (workers s u) = Spinning (turn (lock (globals s))) \<or>
      point_status (workers s u) = Holding" by (auto simp: lock_view_def)
    then obtain q where q: "workers s u = Some q" by (cases "workers s u") auto
    have "q \<noteq> Finished" "\<forall>i w. q = Testing i w \<longrightarrow> w = turn (lock (globals s))" using u q by (cases q; simp)+
    then show ?thesis using go [OF q] by blast
  qed
qed

definition all_finished :: "nat \<Rightarrow> counter_sys \<Rightarrow> bool" where
  "all_finished n s = (\<forall>t<n. workers s t = Some Finished)"

lemma counter_can_move:
  assumes inv: "counter_inv n s" and n: "n \<le> 2147" and np: "\<not> all_finished n s"
  shows "\<exists>s'. counter_move s s' \<and> s' \<noteq> s"
proof -
  obtain k where j: "k < n" "workers s k \<noteq> Some Finished" using np by (auto simp: all_finished_def)
  then have "k \<in> dom (workers s)" using inv by (simp add: counter_inv_def)
  then obtain p where k: "workers s k = Some p" "p \<noteq> Finished" using j(2) by blast
  obtain u q q' g where u: "workers s u = Some q" "counter_step q (globals s) = Some (q', g)" "q' \<noteq> q"
    by (rule worker_can_move [OF inv n k])
  have "(s\<lparr>workers := (workers s)(u \<mapsto> q'), globals := g\<rparr>) \<noteq> s"
  proof
    assume e: "s\<lparr>workers := (workers s)(u \<mapsto> q'), globals := g\<rparr> = s"
    have "workers (s\<lparr>workers := (workers s)(u \<mapsto> q'), globals := g\<rparr>) u = Some q'" by simp
    then show False using u(1,3) unfolding e by simp
  qed
  then show ?thesis using counter_move.worker [OF u(1,2)] by blast
qed

lemma counter_run_before: "counter_run s' q \<Longrightarrow> counter_move s s' \<Longrightarrow> counter_run s q"
  by (induction rule: counter_run.induct) (blast intro: counter_run.intros)+

lemma counter_finishes_from:
  assumes "counter_inv n s" "n \<le> 2147"
  shows "\<exists>s'. counter_run s s' \<and> all_finished n s'"
  using assms
proof (induction "nat (counter_work n s)" arbitrary: s rule: less_induct)
  case less
  show ?case
  proof (cases "all_finished n s")
    case True
    then show ?thesis using counter_run.start by blast
  next
    case False
    then obtain s' where s': "counter_move s s'" "s' \<noteq> s" using counter_can_move [OF less.prems] by blast
    have inv: "counter_inv n s'" using s'(1) by cases (use worker_inv less.prems in blast)
    have "nat (counter_work n s') < nat (counter_work n s)"
      using move_work [OF less.prems(1) s'(1)] s'(2) counter_work_nonneg [OF inv] by simp
    from less.hyps [OF this inv less.prems(2)] show ?thesis using counter_run_before [OF _ s'(1)] by blast
  qed
qed

lemma finished_total:
  assumes "counter_inv n s" "all_finished n s"
  shows "c (globals s) = 1000000 * int n"
proof -
  have "c (globals s) = (\<Sum>t<n. ITER)" using assms by (simp add: counter_inv_def all_finished_def)
  then show ?thesis by (simp add: ITER_def)
qed

subsection \<open>Properties\<close>

text \<open>C10: No update of the counter is lost in the counting loops, in any interleaving of up to 128
  threads that start them with a free mutex: no loop gets stuck or overflows, at most one thread is
  between lock and unlock, the counter is the number of increments the threads have stored, and
  when all have left their loops it is 1000000 times the number of threads.\<close>

theorem counter_no_lost_update:
  assumes "ticket m = turn m" "n \<le> 128" "counter_run (counter_start n m) s"
  shows "c (globals s) = (\<Sum>t<n. stored (workers s t)) \<and>
    (\<forall>t u. inside (workers s t) \<and> inside (workers s u) \<longrightarrow> t = u) \<and>
    (\<forall>t p. workers s t = Some p \<and> p \<noteq> Finished \<longrightarrow> counter_step p (globals s) \<noteq> None) \<and>
    (all_finished n s \<longrightarrow> c (globals s) = 1000000 * int n)"
proof -
  have n: "n \<le> 2147" using assms(2) by simp
  have inv: "counter_inv n s" by (rule counter_run_inv [OF assms(1) n assms(3)])
  have "counter_step p (globals s) \<noteq> None" if "workers s t = Some p" "p \<noteq> Finished" for t p
    by (rule worker_returns [OF inv n that]) simp
  then show ?thesis using inv inside_unique [OF inv] finished_total [OF inv] by (auto simp: counter_inv_def)
qed

text \<open>C19: The counting loops of up to 128 threads that start them with a free mutex come to their end: in
  every reachable state a step changes nothing (a round of waiting for the mutex) or lowers the
  number of steps that are left, and as long as a thread is in its loop some step lowers it; so from
  every state all threads can leave their loops, and only endless rounds of waiting threads, with
  the one that can go on never scheduled, can delay it.\<close>

theorem counter_terminates:
  assumes "ticket m = turn m" "n \<le> 128" "counter_run (counter_start n m) s"
  shows "(\<forall>s'. counter_move s s' \<longrightarrow> s' = s \<or> 0 \<le> counter_work n s' \<and> counter_work n s' < counter_work n s) \<and>
    (all_finished n s \<or> (\<exists>s'. counter_move s s' \<and> s' \<noteq> s)) \<and>
    (\<exists>s'. counter_run s s' \<and> all_finished n s')"
proof -
  have n: "n \<le> 2147" using assms(2) by simp
  have inv: "counter_inv n s" by (rule counter_run_inv [OF assms(1) n assms(3)])
  have "counter_inv n s'" if "counter_move s s'" for s'
    by (rule counter_run_inv [OF assms(1) n counter_run.move [OF assms(3) that]])
  then show ?thesis
    using move_work [OF inv] counter_work_nonneg counter_can_move [OF inv n] counter_finishes_from [OF inv n] by blast
qed

text \<open>Three threads, with a mutex some tickets of which are used up.\<close>

definition used_mutex :: my_pthread_mutex where
  "used_mutex = \<lparr>ticket = 7, turn = 7\<rparr>"

lemma three_threads: "ticket used_mutex = turn used_mutex" "(3::nat) \<le> 128"
  by (simp_all add: used_mutex_def)

theorem counter_terminates_witness:
  "\<exists>s. counter_run (counter_start 3 used_mutex) s \<and> all_finished 3 s"
  using counter_terminates [OF three_threads counter_run.start] by blast

theorem counter_no_lost_update_witness:
  "\<exists>s. counter_run (counter_start 3 used_mutex) s \<and> all_finished 3 s \<and> c (globals s) = 3000000"
proof -
  obtain s where s: "counter_run (counter_start 3 used_mutex) s" "all_finished 3 s"
    using counter_finishes_from [OF counter_start_inv [OF three_threads(1), of 3]] by auto
  from counter_no_lost_update [OF three_threads s(1)] s show ?thesis by auto
qed

end
