(* ===== verification/Disk_Blocks.thy ===== *)
theory Disk_Blocks
  imports C_Memory
begin

section \<open>The disk file of assignment 3\<close>

text \<open>
  \<open>block.c\<close>: a file read and written in blocks of \<open>BLOCK_SIZE\<close> bytes.  The state has the contents of
  the file, the variable \<open>diskfile\<close> and the descriptor the operating system has open for the
  file.  \<open>open\<close>, \<open>close\<close>, \<open>pread\<close> and \<open>pwrite\<close> behave as documented: on a descriptor that is not open and at
  a negative offset they fail with -1, a read delivers the bytes there are up to the end of the
  file, a write lengthens the file.  A buffer is a function on byte offsets of which the first
  512 count.  An offset that overflows \<open>int\<close> is undefined and yields \<open>None\<close>.
\<close>

abbreviation (input) BLOCK_SIZE :: int where "BLOCK_SIZE \<equiv> 512"

type_synonym buf = "int \<Rightarrow> byte"

record disk =
  diskfile :: int
  open_fd :: "int option"
  content :: mem

definition pread :: "'a disk_scheme \<Rightarrow> int \<Rightarrow> buf \<Rightarrow> int \<Rightarrow> int \<times> buf" where
  "pread s fd buf offset =
     (if open_fd s = Some fd \<and> 0 \<le> offset then
        let n = max 0 (min BLOCK_SIZE (msize (content s) - offset)) in
        (n, \<lambda>x. if 0 \<le> x \<and> x < n then mbytes (content s) (offset + x) else buf x)
      else (-1, buf))"

definition pwrite :: "'a disk_scheme \<Rightarrow> int \<Rightarrow> buf \<Rightarrow> int \<Rightarrow> int \<times> 'a disk_scheme" where
  "pwrite s fd buf offset =
     (if open_fd s = Some fd \<and> 0 \<le> offset then
        (BLOCK_SIZE, s\<lparr>content := \<lparr>msize = max (msize (content s)) (offset + BLOCK_SIZE),
           mbytes = (\<lambda>x. if offset \<le> x \<and> x < offset + BLOCK_SIZE then buf (x - offset)
                         else if msize (content s) \<le> x \<and> x < offset then 0 else mbytes (content s) x)\<rparr>\<rparr>)
      else (-1, s))"

text \<open>\<open>open\<close> yields the descriptor \<open>fd\<close>; when it fails the process exits.\<close>

definition disk_open :: "int \<Rightarrow> 'a disk_scheme \<Rightarrow> 'a disk_scheme option" where
  "disk_open fd s =
     (if diskfile s \<ge> 0 then Some s
      else if fd < 0 then None
      else Some (s\<lparr>diskfile := fd, open_fd := Some fd\<rparr>))"

definition disk_close :: "'a disk_scheme \<Rightarrow> 'a disk_scheme" where
  "disk_close s =
     (if diskfile s \<ge> 0 then (if open_fd s = Some (diskfile s) then s\<lparr>open_fd := None\<rparr> else s) else s)"

definition block_offset :: "int \<Rightarrow> int option" where
  "block_offset block_num =
     (let p = block_num * BLOCK_SIZE in if -2147483648 \<le> p \<and> p < 2147483648 then Some p else None)"

definition block_read :: "'a disk_scheme \<Rightarrow> int \<Rightarrow> buf \<Rightarrow> (int \<times> buf) option" where
  "block_read s block_num buf =
     do { offset \<leftarrow> block_offset block_num;
          let (retstat, buf) = pread s (diskfile s) buf offset;
          let buf = (if retstat \<le> 0 then (\<lambda>x. if 0 \<le> x \<and> x < BLOCK_SIZE then 0 else buf x) else buf);
          Some (retstat, buf) }"

definition block_write :: "'a disk_scheme \<Rightarrow> int \<Rightarrow> buf \<Rightarrow> (int \<times> 'a disk_scheme) option" where
  "block_write s block_num buf =
     do { offset \<leftarrow> block_offset block_num;
          let (retstat, s) = pwrite s (diskfile s) buf offset;
          Some (retstat, s) }"

subsection \<open>Blocks of an open file\<close>

text \<open>The bytes of block \<open>b\<close>, and two buffers with the same 512 bytes.\<close>

definition blk :: "mem \<Rightarrow> int \<Rightarrow> buf" where
  "blk m b = (\<lambda>x. mbytes m (512 * b + x))"

definition same_block :: "buf \<Rightarrow> buf \<Rightarrow> bool" where
  "same_block f g \<longleftrightarrow> (\<forall>x. 0 \<le> x \<and> x < 512 \<longrightarrow> f x = g x)"

lemma same_block_refl [simp]: "same_block f f"
  by (simp add: same_block_def)

lemma same_block_trans: "same_block f g \<Longrightarrow> same_block g h \<Longrightarrow> same_block f h"
  by (simp add: same_block_def)

lemma same_block_sym: "same_block f g \<Longrightarrow> same_block g f"
  by (simp add: same_block_def)

text \<open>The file is open and has at least \<open>n\<close> blocks, and their offsets are \<open>int\<close>s.\<close>

definition disk_ok :: "int \<Rightarrow> 'a disk_scheme \<Rightarrow> bool" where
  "disk_ok n s \<longleftrightarrow> 0 \<le> diskfile s \<and> open_fd s = Some (diskfile s) \<and> 512 * n \<le> msize (content s) \<and> n \<le> 4194304"

definition set_blk :: "mem \<Rightarrow> int \<Rightarrow> buf \<Rightarrow> mem" where
  "set_blk m b buf = m\<lparr>mbytes := (\<lambda>x. if 512 * b \<le> x \<and> x < 512 * b + 512 then buf (x - 512 * b) else mbytes m x)\<rparr>"

lemma block_read_ok:
  assumes "disk_ok n s" "0 \<le> b" "b < n"
  obtains buf' where "block_read s b buf = Some (512, buf')" "same_block buf' (blk (content s) b)"
  using assms
  by (intro that [of "\<lambda>x. if 0 \<le> x \<and> x < 512 then mbytes (content s) (b * 512 + x) else buf x"])
    (auto simp: block_read_def block_offset_def pread_def disk_ok_def same_block_def blk_def fun_eq_iff mult.commute)

lemma block_write_ok:
  assumes "disk_ok n s" "0 \<le> b" "b < n"
  shows "block_write s b buf = Some (512, s\<lparr>content := set_blk (content s) b buf\<rparr>)"
  using assms
  by (cases "content s") (auto simp: block_write_def block_offset_def pwrite_def disk_ok_def set_blk_def mult.commute fun_eq_iff)

lemma set_blk_size [simp]: "msize (set_blk m b buf) = msize m"
  by (simp add: set_blk_def)

lemma blk_set_same: "same_block (blk (set_blk m b buf) b) buf"
  by (simp add: same_block_def blk_def set_blk_def)

lemma blk_set_other:
  "c \<noteq> b \<Longrightarrow> same_block (blk (set_blk m b buf) c) (blk m c)"
  by (auto simp: same_block_def blk_def set_blk_def)

lemma disk_ok_set [simp]: "disk_ok n (s\<lparr>content := set_blk (content s) b buf\<rparr>) = disk_ok n s"
  by (simp add: disk_ok_def)

end
