(* ===== verification/File_System.thy ===== *)
theory File_System
  imports Disk_Blocks "HOL-Library.Signed_Division"
begin

unbundle bit_operations_syntax

section \<open>The file system of assignment 3 (test/test.c)\<close>

text \<open>
  The on-disk structures: a superblock, a bitmap of data blocks, a bitmap of inodes, the inodes and the
  data blocks, in this order.  A directory is an inode whose direct pointers name data blocks, each with
  a name and the number of an inode.  The state is the disk with the globals \<open>buffer\<close>, \<open>entry_buffer\<close> and
  \<open>info\<close>.  Indexing outside a buffer, a shift by a negative number and following an unassigned
  variable yield \<open>None\<close>; so does leaving the process.
\<close>

abbreviation (input) BITS_PER_BLOCK :: int where "BITS_PER_BLOCK \<equiv> 4096"
abbreviation (input) BITS_PER_BYTE :: int where "BITS_PER_BYTE \<equiv> 8"
abbreviation (input) INODES_PER_BLOCK :: int where "INODES_PER_BLOCK \<equiv> 8"
abbreviation (input) ZERO_INDEX_BITS :: int where "ZERO_INDEX_BITS \<equiv> 7"
abbreviation (input) VALUE :: int where "VALUE \<equiv> 513"

subsection \<open>Structures\<close>

record inode =
  size_of :: int
  direct_ptrs :: "int list"
  indirect_ptr :: int
  test_field :: int
  flags :: int

record metadata_info =
  dataregion_bitmap_blocks :: int
  dataregion_bitmap_start :: int
  inode_bitmap_blocks :: int
  inode_bitmap_start :: int
  inode_blocks :: int
  inode_blocks_start :: int
  total_inodes :: int
  dataregion_blocks :: int
  dataregion_blocks_start :: int
  disksize :: int
  rootdirectory :: int

record fs = disk +
  buffer :: buf
  entry_buffer :: buf
  info :: metadata_info

text \<open>Integer fields at offsets of a block, least significant byte first.\<close>

definition get32 :: "buf \<Rightarrow> int \<Rightarrow> int" where
  "get32 f a = ld32 \<lparr>msize = 512, mbytes = f\<rparr> a"

definition put32 :: "buf \<Rightarrow> int \<Rightarrow> int \<Rightarrow> buf" where
  "put32 f a v = mbytes (st32 \<lparr>msize = 512, mbytes = f\<rparr> a v)"

definition get16 :: "buf \<Rightarrow> int \<Rightarrow> int" where
  "get16 f a = s16 (uint (f a) + 256 * uint (f (a + 1)))"

definition put16 :: "buf \<Rightarrow> int \<Rightarrow> int \<Rightarrow> buf" where
  "put16 f a v = f(a := word_of_int v, a + 1 := word_of_int (v div 256))"

text \<open>An inode takes 64 bytes, the last two of which are padding.  Assigning a structure leaves its
  padding unspecified; here it stays.\<close>

definition inode_at :: "buf \<Rightarrow> int \<Rightarrow> inode" where
  "inode_at f a = \<lparr>size_of = get32 f a, direct_ptrs = map (\<lambda>j. get32 f (a + 4 + 4 * int j)) [0..<12],
     indirect_ptr = get32 f (a + 52), test_field = get32 f (a + 56), flags = get16 f (a + 60)\<rparr>"

definition put_ptrs :: "buf \<Rightarrow> int \<Rightarrow> int list \<Rightarrow> buf" where
  "put_ptrs f a ps = fold (\<lambda>j f. put32 f (a + 4 * int j) (ps ! j)) [0..<12] f"

definition put_inode :: "buf \<Rightarrow> int \<Rightarrow> inode \<Rightarrow> buf" where
  "put_inode f a node =
     put16 (put32 (put32 (put_ptrs (put32 f a (size_of node)) (a + 4) (direct_ptrs node))
       (a + 52) (indirect_ptr node)) (a + 56) (test_field node)) (a + 60) (flags node)"

text \<open>A directory entry: a name of at most 507 characters ending in 0, then the number of the inode.\<close>

fun c_string :: "nat \<Rightarrow> buf \<Rightarrow> int \<Rightarrow> string option" where
  "c_string 0 f a = None"
| "c_string (Suc n) f a =
     (if f a = 0 then Some [] else map_option (\<lambda>cs. char_of (uint (f a)) # cs) (c_string n f (a + 1)))"

definition filepath :: "buf \<Rightarrow> string option" where
  "filepath f = c_string 508 f 0"

definition block_inode :: "buf \<Rightarrow> int" where
  "block_inode f = get32 f 508"

fun put_string :: "buf \<Rightarrow> int \<Rightarrow> string \<Rightarrow> buf" where
  "put_string f a [] = f(a := 0)"
| "put_string f a (c # cs) = put_string (f(a := word_of_int (of_char c))) (a + 1) cs"

definition strcpy_path :: "buf \<Rightarrow> string \<Rightarrow> buf option" where
  "strcpy_path f name = (if length name < 508 then Some (put_string f 0 name) else None)"

subsection \<open>Layout\<close>

text \<open>The product with 0.75 is exact in \<open>double\<close> and is truncated.\<close>

definition get_metadata_info :: "int \<Rightarrow> metadata_info" where
  "get_metadata_info total_size =
     (let data_size = (3 * total_size) sdiv 4;
          data_blocks = data_size sdiv BLOCK_SIZE;
          data_bitmap_blocks = data_blocks sdiv BITS_PER_BLOCK;
          metadata_size = total_size - data_size;
          num_metadata_blocks = metadata_size sdiv BLOCK_SIZE;
          num_metadata_blocks = num_metadata_blocks - data_bitmap_blocks - 1;
          inode_bitmap = num_metadata_blocks sdiv VALUE;
          inode_bitmap = (if inode_bitmap smod VALUE \<noteq> 0 then inode_bitmap + 1 else inode_bitmap);
          num_metadata_blocks = num_metadata_blocks - inode_bitmap
      in \<lparr>dataregion_bitmap_blocks = data_bitmap_blocks, dataregion_bitmap_start = 1,
          inode_bitmap_blocks = inode_bitmap, inode_bitmap_start = 1 + data_bitmap_blocks,
          inode_blocks = num_metadata_blocks, inode_blocks_start = 1 + data_bitmap_blocks + inode_bitmap,
          total_inodes = num_metadata_blocks * INODES_PER_BLOCK,
          dataregion_blocks = data_blocks,
          dataregion_blocks_start = 1 + data_bitmap_blocks + inode_bitmap + num_metadata_blocks,
          disksize = total_size, rootdirectory = 0\<rparr>)"

subsection \<open>Bitmaps\<close>

text \<open>The two bitmaps have the same code with another first block.  The byte is a signed \<open>char\<close>.\<close>

definition check_status :: "int \<Rightarrow> int \<Rightarrow> fs \<Rightarrow> (int \<times> fs) option" where
  "check_status start number s =
     do { let blk_number = number sdiv BITS_PER_BLOCK;
          (_, b) \<leftarrow> block_read s (start + blk_number) (buffer s);
          let s = s\<lparr>buffer := b\<rparr>;
          let byte_offset = (number - BITS_PER_BLOCK * blk_number) sdiv BITS_PER_BYTE;
          if 0 \<le> byte_offset \<and> byte_offset < 512 then
            do { let data_bits = sint (buffer s byte_offset);
                 let bit_offset = number - BITS_PER_BLOCK * blk_number - byte_offset * BITS_PER_BYTE;
                 let bit = ZERO_INDEX_BITS - bit_offset;
                 if 0 \<le> bit then Some (drop_bit (nat bit) (data_bits AND push_bit (nat bit) 1), s) else None }
          else None }"

definition set_status :: "int \<Rightarrow> int \<Rightarrow> int \<Rightarrow> fs \<Rightarrow> (int \<times> fs) option" where
  "set_status start number status s =
     do { let blk_number = number sdiv BITS_PER_BLOCK;
          (_, b) \<leftarrow> block_read s (start + blk_number) (buffer s);
          let s = s\<lparr>buffer := b\<rparr>;
          let byte_offset = (number - BITS_PER_BLOCK * blk_number) sdiv BITS_PER_BYTE;
          if 0 \<le> byte_offset \<and> byte_offset < 512 then
            do { let data_bits = sint (buffer s byte_offset);
                 let bit_offset = number - BITS_PER_BLOCK * blk_number - byte_offset * BITS_PER_BYTE;
                 let bit = ZERO_INDEX_BITS - bit_offset;
                 if 0 \<le> bit then
                   do { let data_bits = data_bits XOR ((- status XOR data_bits) AND push_bit (nat bit) 1);
                        let s = s\<lparr>buffer := (buffer s)(byte_offset := word_of_int data_bits)\<rparr>;
                        (_, s) \<leftarrow> block_write s (start + blk_number) (buffer s);
                        Some (0, s) }
                 else None }
          else None }"

definition check_inode_status :: "int \<Rightarrow> fs \<Rightarrow> (int \<times> fs) option" where
  "check_inode_status inode_number s = check_status (inode_bitmap_start (info s)) inode_number s"

definition set_inode_status :: "int \<Rightarrow> int \<Rightarrow> fs \<Rightarrow> (int \<times> fs) option" where
  "set_inode_status inode_number status s = set_status (inode_bitmap_start (info s)) inode_number status s"

definition check_dataregion_status :: "int \<Rightarrow> fs \<Rightarrow> (int \<times> fs) option" where
  "check_dataregion_status datablock_number s = check_status (dataregion_bitmap_start (info s)) datablock_number s"

definition set_dataregion_status :: "int \<Rightarrow> int \<Rightarrow> fs \<Rightarrow> (int \<times> fs) option" where
  "set_dataregion_status datablock_number status s =
     set_status (dataregion_bitmap_start (info s)) datablock_number status s"

text \<open>The first number below the total that is not allocated, or -1; the first argument counts the
  numbers left.\<close>

fun find_free :: "(int \<Rightarrow> fs \<Rightarrow> (int \<times> fs) option) \<Rightarrow> nat \<Rightarrow> int \<Rightarrow> fs \<Rightarrow> (int \<times> fs) option" where
  "find_free check 0 i s = Some (-1, s)"
| "find_free check (Suc n) i s =
     do { (b, s) \<leftarrow> check i s; if b = 0 then Some (i, s) else find_free check n (i + 1) s }"

definition find_free_datablock :: "fs \<Rightarrow> (int \<times> fs) option" where
  "find_free_datablock s = find_free check_dataregion_status (nat (dataregion_blocks (info s))) 0 s"

definition find_free_inode :: "fs \<Rightarrow> (int \<times> fs) option" where
  "find_free_inode s = find_free check_inode_status (nat (total_inodes (info s))) 0 s"

subsection \<open>Inodes\<close>

definition get_inode :: "int \<Rightarrow> fs \<Rightarrow> (inode \<times> fs) option" where
  "get_inode inode_number s =
     do { let blk_number = inode_number sdiv INODES_PER_BLOCK;
          (_, b) \<leftarrow> block_read s (inode_blocks_start (info s) + blk_number) (entry_buffer s);
          let s = s\<lparr>entry_buffer := b\<rparr>;
          let offset = inode_number - INODES_PER_BLOCK * blk_number;
          if 0 \<le> offset \<and> offset < 8 then Some (inode_at (entry_buffer s) (64 * offset), s) else None }"

definition set_inode :: "int \<Rightarrow> inode \<Rightarrow> fs \<Rightarrow> fs option" where
  "set_inode inode_number node s =
     do { let blk_number = inode_number sdiv INODES_PER_BLOCK;
          (_, b) \<leftarrow> block_read s (inode_blocks_start (info s) + blk_number) (entry_buffer s);
          let s = s\<lparr>entry_buffer := b\<rparr>;
          let offset = inode_number - INODES_PER_BLOCK * blk_number;
          if 0 \<le> offset \<and> offset < 8 then
            do { let s = s\<lparr>entry_buffer := put_inode (entry_buffer s) (64 * offset) node\<rparr>;
                 (_, s) \<leftarrow> block_write s (inode_blocks_start (info s) + blk_number) (entry_buffer s);
                 Some s }
          else None }"

subsection \<open>Making the file system\<close>

text \<open>\<open>count\<close> blocks from \<open>start\<close> on are written with the same contents.\<close>

fun write_blocks :: "nat \<Rightarrow> int \<Rightarrow> buf \<Rightarrow> fs \<Rightarrow> fs option" where
  "write_blocks 0 start b s = Some s"
| "write_blocks (Suc n) start b s = do { (_, s) \<leftarrow> block_write s start b; write_blocks n (start + 1) b s }"

definition empty_inode :: inode where
  "empty_inode = \<lparr>size_of = 0, direct_ptrs = replicate 12 0, indirect_ptr = 0, test_field = 0, flags = 0\<rparr>"

definition put_info :: "buf \<Rightarrow> metadata_info \<Rightarrow> buf" where
  "put_info f i = fold (\<lambda>j f. put32 f (4 * int j)
     ([dataregion_bitmap_blocks i, dataregion_bitmap_start i, inode_bitmap_blocks i, inode_bitmap_start i,
       inode_blocks i, inode_blocks_start i, total_inodes i, dataregion_blocks i, dataregion_blocks_start i,
       disksize i, rootdirectory i, 0, 0, 0, 0, 0] ! j)) [0..<16] f"

text \<open>The arguments are the descriptor \<open>open\<close> delivers and the contents of the local variables before
  they are assigned.\<close>

definition sfs_init :: "int \<Rightarrow> buf \<Rightarrow> buf \<Rightarrow> buf \<Rightarrow> fs \<Rightarrow> fs option" where
  "sfs_init fd block sblock fblock s =
     do { s \<leftarrow> disk_open fd s;
          let block = fold (\<lambda>i f. put_inode f (64 * int i) empty_inode) [0..<8] block;
          let s = s\<lparr>info := get_metadata_info (s32 (msize (content s)))\<rparr>;
          let sblock = put_info sblock (info s);
          (_, s) \<leftarrow> block_write s 0 sblock;
          s \<leftarrow> write_blocks (nat (dataregion_bitmap_blocks (info s))) 1 (buffer s) s;
          let count = 1 + int (nat (dataregion_bitmap_blocks (info s)));
          s \<leftarrow> write_blocks (nat (inode_bitmap_blocks (info s))) count (buffer s) s;
          let count = count + int (nat (inode_bitmap_blocks (info s)));
          s \<leftarrow> write_blocks (nat (inode_blocks (info s))) count block s;
          fblock \<leftarrow> strcpy_path fblock [];
          let fblock = put32 fblock 508 0;
          (firstNode, s) \<leftarrow> get_inode 0 s;
          let firstNode = firstNode\<lparr>size_of := 12 * BLOCK_SIZE, flags := 1\<rparr>;
          s \<leftarrow> set_inode 0 firstNode s;
          (_, s) \<leftarrow> set_inode_status 0 1 s;
          (_, s) \<leftarrow> set_dataregion_status 0 1 s;
          (_, s) \<leftarrow> block_write s (dataregion_blocks_start (info s)) fblock;
          Some s }"

subsection \<open>Paths\<close>

definition slash :: char where
  "slash = CHR ''/''"

definition get_num_dirs :: "string \<Rightarrow> nat" where
  "get_num_dirs path = length (filter (\<lambda>c. c = slash) path)"

definition slash_indices :: "string \<Rightarrow> nat list" where
  "slash_indices path = filter (\<lambda>i. path ! i = slash) [0..<length path] @ [length path]"

text \<open>The strings between the slashes; what precedes the first slash is dropped.\<close>

definition parsePath :: "string \<Rightarrow> string list" where
  "parsePath path =
     (let indices = slash_indices path in
      map (\<lambda>i. take (indices ! (i + 1) - indices ! i - 1) (drop (indices ! i + 1) path)) [0..<get_num_dirs path])"

text \<open>The search through the direct pointers of a directory: whether an entry has the name, and the block
  read last.  A name without an end in its block is not compared.\<close>

fun search_ptrs :: "int list \<Rightarrow> string \<Rightarrow> buf \<Rightarrow> fs \<Rightarrow> (bool \<times> buf) option" where
  "search_ptrs [] name path_block s = Some (False, path_block)"
| "search_ptrs (p # ps) name path_block s =
     (if p \<noteq> 0 then
        do { (_, path_block) \<leftarrow> block_read s p path_block;
             n \<leftarrow> filepath path_block;
             if name = n then Some (True, path_block) else search_ptrs ps name path_block s }
      else search_ptrs ps name path_block s)"

fun follow :: "string list \<Rightarrow> buf \<Rightarrow> buf \<Rightarrow> fs \<Rightarrow> (buf \<times> fs) option" where
  "follow [] path_block block_return s = Some (block_return, s)"
| "follow (name # names) path_block block_return s =
     do { (node, s) \<leftarrow> get_inode (block_inode block_return) s;
          (found, path_block) \<leftarrow> search_ptrs (direct_ptrs node) name path_block s;
          if found then follow names path_block path_block s else Some (block_return, s) }"

text \<open>\<open>find_path_block\<close> returns the entry of the last component that is found: of the whole path, or of
  the deepest directory on it.\<close>

definition find_path_block :: "buf \<Rightarrow> buf \<Rightarrow> string \<Rightarrow> fs \<Rightarrow> (buf \<times> fs) option" where
  "find_path_block path_block block_return path s =
     do { (_, block_return) \<leftarrow> block_read s (dataregion_blocks_start (info s)) block_return;
          follow (parsePath path) path_block block_return s }"

definition free_slot :: "inode \<Rightarrow> nat option" where
  "free_slot node = find (\<lambda>j. direct_ptrs node ! j = 0) [0..<12]"

definition create :: "buf \<Rightarrow> buf \<Rightarrow> buf \<Rightarrow> string \<Rightarrow> fs \<Rightarrow> (int \<times> fs) option" where
  "create path_block block_return fblock path s =
     (let numOfDirs = get_num_dirs path; fldrs = parsePath path in
      do { (block, s) \<leftarrow> find_path_block path_block block_return path s;
           if numOfDirs = 0 then None
           else
             do { n \<leftarrow> filepath block;
                  if fldrs ! (numOfDirs - 1) = n then Some (-1, s)
                  else
                    do { (newInodeNum, s) \<leftarrow> find_free_inode s;
                         (_, s) \<leftarrow> set_inode_status newInodeNum 1 s;
                         (newDataBlock, s) \<leftarrow> find_free_datablock s;
                         (_, s) \<leftarrow> set_dataregion_status newDataBlock 1 s;
                         fblock \<leftarrow> strcpy_path fblock (fldrs ! (numOfDirs - 1));
                         let fblock = put32 fblock 508 newInodeNum;
                         (node, s) \<leftarrow> get_inode (block_inode block) s;
                         ptr \<leftarrow> free_slot node;
                         let node = node\<lparr>direct_ptrs := (direct_ptrs node)
                           [ptr := dataregion_blocks_start (info s) + newDataBlock]\<rparr>;
                         s \<leftarrow> set_inode (block_inode block) node s;
                         (_, s) \<leftarrow> block_write s (dataregion_blocks_start (info s) + newDataBlock) fblock;
                         Some (0, s) } } })"

end
