(* ===== verification/FS_Bitmap.thy ===== *)
theory FS_Bitmap
  imports File_System
begin

section \<open>Bitmaps and layout of the file system\<close>

text \<open>
  One status bit, set and read back, and the search for a free one; the regions that
  \<open>get_metadata_info\<close> lays out.
\<close>

subsection \<open>Division of C\<close>

lemma sdiv_nonneg [simp]: "0 \<le> a \<Longrightarrow> 0 < b \<Longrightarrow> (a::int) sdiv b = a div b"
  by (cases "a = 0") (simp_all add: signed_divide_int_def)

lemma smod_nonneg [simp]: "0 \<le> a \<Longrightarrow> 0 < b \<Longrightarrow> (a::int) smod b = a mod b"
  by (cases "a = 0") (simp_all add: signed_modulo_int_def minus_div_mult_eq_mod)

subsection \<open>One bit of a bitmap\<close>

text \<open>Bit \<open>n\<close> of the bitmap that starts at block \<open>start\<close>, most significant bit first.\<close>

definition status_bit :: "mem \<Rightarrow> int \<Rightarrow> int \<Rightarrow> bool" where
  "status_bit m start n = bit (mbytes m (512 * start + n div 8)) (nat (7 - n mod 8))"

definition with_bit :: "byte \<Rightarrow> nat \<Rightarrow> bool \<Rightarrow> byte" where
  "with_bit w i v = (if v then set_bit i w else unset_bit i w)"

definition set_status_bit :: "mem \<Rightarrow> int \<Rightarrow> int \<Rightarrow> bool \<Rightarrow> mem" where
  "set_status_bit m start n v =
     m\<lparr>mbytes := (mbytes m)(512 * start + n div 8 := with_bit (mbytes m (512 * start + n div 8)) (nat (7 - n mod 8)) v)\<rparr>"

lemma set_status_bit_size [simp]: "msize (set_status_bit m start n v) = msize m"
  by (simp add: set_status_bit_def)

lemma status_bit_same: "status_bit (set_status_bit m start n v) start n = v"
proof -
  have "nat (7 - n mod 8) < 8" by (simp add: nat_less_iff)
  then show ?thesis
    by (simp add: status_bit_def set_status_bit_def with_bit_def bit_set_bit_iff bit_unset_bit_iff)
qed

lemma byte_bit_inj:
  assumes "(n::int) \<noteq> k" "n div 8 = k div 8"
  shows "nat (7 - n mod 8) \<noteq> nat (7 - k mod 8)"
proof
  assume "nat (7 - n mod 8) = nat (7 - k mod 8)"
  then have "n mod 8 = k mod 8" by (simp add: eq_nat_nat_iff)
  then show False using assms by (metis div_mult_mod_eq)
qed

lemma status_bit_other:
  "(start, n) \<noteq> (start', k) \<Longrightarrow> 512 * start + n div 8 \<noteq> 512 * start' + k div 8 \<or> start = start' \<Longrightarrow>
     status_bit (set_status_bit m start n v) start' k = status_bit m start' k"
proof (cases "512 * start + n div 8 = 512 * start' + k div 8")
  case False
  then show ?thesis by (simp add: status_bit_def set_status_bit_def)
next
  case True
  assume a: "(start, n) \<noteq> (start', k)" "512 * start + n div 8 \<noteq> 512 * start' + k div 8 \<or> start = start'"
  then have "n \<noteq> k" "n div 8 = k div 8" using True by auto
  from byte_bit_inj [OF this] show ?thesis using True
    by (cases v) (simp_all add: status_bit_def set_status_bit_def with_bit_def bit_set_bit_iff bit_unset_bit_iff)
qed

lemma read_bit: "drop_bit i (sint w AND push_bit i 1) = of_bool (bit (w :: byte) i)" if "i < 8"
proof -
  have "bit (drop_bit i (sint w AND push_bit i 1)) k = bit (of_bool (bit (sint w) i) :: int) k" for k
    unfolding bit_drop_bit_eq bit_and_iff bit_push_bit_iff comp_def bit_1_iff bit_of_bool_iff by auto
  then have "drop_bit i (sint w AND push_bit i 1) = of_bool (bit (sint w) i)" by (intro bit_eqI)
  also have "bit (sint w) i = bit w i"
    using that by (auto simp: bit_sint_iff)
  finally show ?thesis .
qed

lemma write_bit:
  assumes "i < 8" "v = (st = 1)" "st = 0 \<or> st = (1::int)"
  shows "word_of_int (sint w XOR ((- st XOR sint w) AND push_bit i 1)) = with_bit (w :: byte) i v"
proof (rule bit_word_eqI)
  fix k assume k: "k < LENGTH(8)"
  have m: "bit (- st) k = v" using assms(2,3) by auto
  have s: "bit (sint w) k = bit w k" using k by (auto simp: bit_sint_iff)
  show "bit (word_of_int (sint w XOR ((- st XOR sint w) AND push_bit i 1)) :: byte) k = bit (with_bit w i v) k"
    using k m s by (auto simp: bit_simps with_bit_def bit_set_bit_iff bit_unset_bit_iff)
qed

subsection \<open>The operations on one bit\<close>

lemma bit_position:
  assumes "(0::int) \<le> n"
  shows "(n - 4096 * (n div 4096)) div 8 = n div 8 - 512 * (n div 4096)" "0 \<le> n div 8 - 512 * (n div 4096)"
    "n div 8 - 512 * (n div 4096) < 512"
    "n - 4096 * (n div 4096) - (n div 8 - 512 * (n div 4096)) * 8 = n mod 8"
proof -
  have q: "n div 4096 = n div 8 div 512" using zdiv_zmult2_eq [of 512 n 8] by simp
  have m: "n div 8 - 512 * (n div 4096) = n div 8 mod 512" unfolding q by (simp add: minus_mult_div_eq_mod)
  show "0 \<le> n div 8 - 512 * (n div 4096)" "n div 8 - 512 * (n div 4096) < 512" unfolding m by simp_all
  show "n - 4096 * (n div 4096) - (n div 8 - 512 * (n div 4096)) * 8 = n mod 8"
    using minus_mult_div_eq_mod [of n 8] by simp
  have "n - 4096 * (n div 4096) = n + (- 512 * (n div 4096)) * 8" by simp
  then show "(n - 4096 * (n div 4096)) div 8 = n div 8 - 512 * (n div 4096)"
    by (simp only: div_mult_self1)
qed

text \<open>The code with its intermediate values named.\<close>

lemma check_status_eval:
  assumes "number sdiv 4096 = q" "block_read s (start + q) (buffer s) = Some (r, b)"
    "(number - 4096 * q) sdiv 8 = off" "0 \<le> off" "off < 512" "number - 4096 * q - off * 8 = k" "k \<le> 7"
  shows "check_status start number s =
    Some (drop_bit (nat (7 - k)) (sint (b off) AND push_bit (nat (7 - k)) 1), s\<lparr>buffer := b\<rparr>)"
  unfolding check_status_def Let_def assms(1) assms(2) bind.bind_lunit prod.case assms(3) assms(6)
  using assms(4,5,7) by simp

lemma set_status_eval:
  assumes "number sdiv 4096 = q" "block_read s (start + q) (buffer s) = Some (r, b)"
    "(number - 4096 * q) sdiv 8 = off" "0 \<le> off" "off < 512" "number - 4096 * q - off * 8 = k" "k \<le> 7"
    "word_of_int (sint (b off) XOR ((- status XOR sint (b off)) AND push_bit (nat (7 - k)) 1)) = w"
    "block_write (s\<lparr>buffer := b(off := w)\<rparr>) (start + q) (b(off := w)) = Some (r', s')"
  shows "set_status start number status s = Some (0, s')"
  unfolding set_status_def Let_def assms(1) assms(2) bind.bind_lunit prod.case assms(3) assms(6)
  using assms(4,5,7-9) by simp

lemma check_status_ok:
  assumes "disk_ok N s" "0 \<le> n" "0 \<le> start" "start + n div 4096 < N"
  obtains b where "check_status start n s = Some (of_bool (status_bit (content s) start n), s\<lparr>buffer := b\<rparr>)"
proof -
  have b0: "0 \<le> start + n div 4096" using assms(2,3) by simp
  obtain b where b: "block_read s (start + n div 4096) (buffer s) = Some (512, b)"
    "same_block b (blk (content s) (start + n div 4096))"
    by (rule block_read_ok [OF assms(1) b0 assms(4)])
  let ?o = "n div 8 - 512 * (n div 4096)"
  note pos = bit_position [OF assms(2)]
  have "0 \<le> n - 4096 * (n div 4096)" by presburger
  then have o: "(n - 4096 * (n div 4096)) sdiv 8 = ?o" using pos(1) by simp
  have "b ?o = mbytes (content s) (512 * start + n div 8)"
    using b(2) pos(2,3) by (simp add: same_block_def blk_def algebra_simps)
  moreover have k: "n mod 8 \<le> 7" "nat (7 - n mod 8) < 8" by (simp_all add: nat_less_iff)
  ultimately show thesis
    using that [of b] read_bit [OF k(2), of "b ?o"]
      check_status_eval [OF sdiv_nonneg [OF assms(2)] b(1) o pos(2,3,4) k(1)]
    by (simp add: status_bit_def)
qed

lemma set_status_ok:
  assumes "disk_ok N s" "0 \<le> n" "0 \<le> start" "start + n div 4096 < N" "st = 0 \<or> st = 1"
  obtains b where "set_status start n st s =
    Some (0, s\<lparr>buffer := b, content := set_status_bit (content s) start n (st = 1)\<rparr>)"
proof -
  let ?b = "start + n div 4096" and ?o = "n div 8 - 512 * (n div 4096)" and ?i = "nat (7 - n mod 8)"
  have b0: "0 \<le> ?b" using assms(2,3) by simp
  obtain b where b: "block_read s ?b (buffer s) = Some (512, b)" "same_block b (blk (content s) ?b)"
    by (rule block_read_ok [OF assms(1) b0 assms(4)])
  note pos = bit_position [OF assms(2)]
  have "0 \<le> n - 4096 * (n div 4096)" by presburger
  then have o: "(n - 4096 * (n div 4096)) sdiv 8 = ?o" using pos(1) by simp
  have bo: "b ?o = mbytes (content s) (512 * start + n div 8)"
    using b(2) pos(2,3) by (simp add: same_block_def blk_def algebra_simps)
  have i: "0 \<le> 7 - n mod 8" "?i < 8" by (simp_all add: nat_less_iff)
  let ?b' = "b(?o := with_bit (b ?o) ?i (st = 1))"
  have "set_blk (content s) ?b ?b' = set_status_bit (content s) start n (st = 1)"
  proof -
    have "mbytes (set_blk (content s) ?b ?b') x = mbytes (set_status_bit (content s) start n (st = 1)) x" for x
    proof (cases "512 * ?b \<le> x \<and> x < 512 * ?b + 512")
      case True
      then have "b (x - 512 * ?b) = mbytes (content s) x" using b(2) by (simp add: same_block_def blk_def)
      then show ?thesis using True bo by (auto simp: set_blk_def set_status_bit_def)
    next
      case False
      then have "x \<noteq> 512 * start + n div 8" using pos(2,3) by auto
      then show ?thesis using False by (auto simp: set_blk_def set_status_bit_def)
    qed
    then show ?thesis by (simp add: set_blk_def set_status_bit_def fun_eq_iff)
  qed
  moreover have "disk_ok N (s\<lparr>buffer := ?b'\<rparr>)" using assms(1) by (simp add: disk_ok_def)
  note block_write_ok [OF this b0 assms(4), of ?b']
  moreover have "n mod 8 \<le> 7" by simp
  ultimately show thesis
    using that [of ?b'] set_status_eval [OF sdiv_nonneg [OF assms(2)] b(1) o pos(2,3,4) _ write_bit [OF i(2) refl assms(5)]]
    by simp
qed

subsection \<open>Searching a bitmap\<close>

lemma find_free_ok:
  assumes "\<And>i s. R s \<Longrightarrow> lo \<le> i \<Longrightarrow> i < lo + int n \<Longrightarrow> \<exists>b. check i s = Some (of_bool (Q i), s\<lparr>buffer := b\<rparr>) \<and> R (s\<lparr>buffer := b\<rparr>)"
    and "R s"
  shows "\<exists>b r. find_free check n lo s = Some (r, s\<lparr>buffer := b\<rparr>) \<and>
    (r = -1 \<and> (\<forall>i. lo \<le> i \<and> i < lo + int n \<longrightarrow> Q i) \<or>
     lo \<le> r \<and> r < lo + int n \<and> \<not> Q r \<and> (\<forall>i. lo \<le> i \<and> i < r \<longrightarrow> Q i))"
  using assms
proof (induction n arbitrary: lo s)
  case 0
  show ?case by (intro exI [of _ "buffer s"] exI [of _ "-1"]) auto
next
  case (Suc n)
  obtain b where b: "check lo s = Some (of_bool (Q lo), s\<lparr>buffer := b\<rparr>)" "R (s\<lparr>buffer := b\<rparr>)"
    using Suc.prems(1) [of s lo] Suc.prems(2) by auto
  show ?case
  proof (cases "Q lo")
    case False
    then show ?thesis using b by (intro exI [of _ b] exI [of _ lo]) auto
  next
    case True
    have "\<exists>b' r. find_free check n (lo + 1) (s\<lparr>buffer := b\<rparr>) = Some (r, (s\<lparr>buffer := b\<rparr>)\<lparr>buffer := b'\<rparr>) \<and>
      (r = -1 \<and> (\<forall>i. lo + 1 \<le> i \<and> i < lo + 1 + int n \<longrightarrow> Q i) \<or>
       lo + 1 \<le> r \<and> r < lo + 1 + int n \<and> \<not> Q r \<and> (\<forall>i. lo + 1 \<le> i \<and> i < r \<longrightarrow> Q i))"
      using Suc.prems(1) b(2) by (intro Suc.IH) auto
    then obtain b' r where r: "find_free check n (lo + 1) (s\<lparr>buffer := b\<rparr>) = Some (r, s\<lparr>buffer := b'\<rparr>)"
      "r = -1 \<and> (\<forall>i. lo + 1 \<le> i \<and> i < lo + 1 + int n \<longrightarrow> Q i) \<or>
       lo + 1 \<le> r \<and> r < lo + 1 + int n \<and> \<not> Q r \<and> (\<forall>i. lo + 1 \<le> i \<and> i < r \<longrightarrow> Q i)" by auto
    have "find_free check (Suc n) lo s = Some (r, s\<lparr>buffer := b'\<rparr>)" using b(1) r(1) True by simp
    moreover have "r = -1 \<and> (\<forall>i. lo \<le> i \<and> i < lo + int (Suc n) \<longrightarrow> Q i) \<or>
       lo \<le> r \<and> r < lo + int (Suc n) \<and> \<not> Q r \<and> (\<forall>i. lo \<le> i \<and> i < r \<longrightarrow> Q i)"
      using r(2)
    proof (elim disjE conjE)
      assume h: "r = -1" "\<forall>i. lo + 1 \<le> i \<and> i < lo + 1 + int n \<longrightarrow> Q i"
      have "Q i" if "lo \<le> i" "i < lo + int (Suc n)" for i using that True h(2) by (cases "i = lo") auto
      then show ?thesis using h(1) by simp
    next
      assume h: "lo + 1 \<le> r" "r < lo + 1 + int n" "\<not> Q r" "\<forall>i. lo + 1 \<le> i \<and> i < r \<longrightarrow> Q i"
      have "Q i" if "lo \<le> i" "i < r" for i using that True h(4) by (cases "i = lo") auto
      then show ?thesis using h(1-3) by simp
    qed
    ultimately show ?thesis by blast
  qed
qed

subsection \<open>The layout\<close>

text \<open>The regions follow each other and the bitmaps have a bit for every block and every inode.\<close>

definition layout_ok :: "metadata_info \<Rightarrow> bool" where
  "layout_ok i \<longleftrightarrow> 0 \<le> dataregion_bitmap_blocks i \<and> 0 \<le> inode_bitmap_blocks i \<and> 0 \<le> inode_blocks i \<and>
     0 \<le> dataregion_blocks i \<and> dataregion_bitmap_start i = 1 \<and>
     inode_bitmap_start i = 1 + dataregion_bitmap_blocks i \<and>
     inode_blocks_start i = inode_bitmap_start i + inode_bitmap_blocks i \<and>
     dataregion_blocks_start i = inode_blocks_start i + inode_blocks i \<and>
     total_inodes i = 8 * inode_blocks i \<and>
     dataregion_blocks i \<le> 4096 * dataregion_bitmap_blocks i \<and> total_inodes i \<le> 4096 * inode_bitmap_blocks i"

definition fs_ok :: "fs \<Rightarrow> bool" where
  "fs_ok s \<longleftrightarrow> layout_ok (info s) \<and> disk_ok (dataregion_blocks_start (info s) + dataregion_blocks (info s)) s"

lemma layout_multiple:
  assumes "1 \<le> k" "k \<le> 192"
  shows "layout_ok (get_metadata_info (8388608 * k))" "dataregion_blocks_start (get_metadata_info (8388608 * k)) = 4096 * k"
    "dataregion_blocks (get_metadata_info (8388608 * k)) = 12288 * k" "0 < total_inodes (get_metadata_info (8388608 * k))"
proof -
  let ?n = "4093 * k - 1"
  define q where "q = ?n div 513"
  have q: "513 * q \<le> ?n" "?n < 513 * q + 513" unfolding q_def by simp_all
  have q0: "0 \<le> q" "q < 1539" using q assms by simp_all
  have "q mod 513 \<noteq> 0"
  proof
    assume "q mod 513 = 0"
    then obtain c where c: "q = 513 * c" by auto
    then have "c = 0 \<or> c = 1 \<or> c = 2" using q0 by auto
    then show False
    proof (elim disjE)
      assume "c = 1"
      then have "263170 \<le> 4093 * k" "4093 * k < 263683" using q c by simp_all
      then have "64 < k" "k < 65" by simp_all
      then show False by simp
    next
      assume "c = 2"
      then have "526339 \<le> 4093 * k" "4093 * k < 526852" using q c by simp_all
      then have "128 < k" "k < 129" by simp_all
      then show False by simp
    qed (use q c assms in simp)
  qed
  then have m: "q smod 513 \<noteq> 0" using q0 by simp
  have s: "3 * (8388608 * k) sdiv 4 = 6291456 * k" "6291456 * k sdiv 512 = 12288 * k" "12288 * k sdiv 4096 = 3 * k"
    "(8388608 * k - 6291456 * k) sdiv 512 = 4096 * k" "?n sdiv 513 = q"
    using assms by (simp_all add: q_def)
  have e: "4096 * k - 3 * k - 1 = ?n" by simp
  have i: "get_metadata_info (8388608 * k) =
    \<lparr>dataregion_bitmap_blocks = 3 * k, dataregion_bitmap_start = 1, inode_bitmap_blocks = q + 1,
     inode_bitmap_start = 1 + 3 * k, inode_blocks = ?n - (q + 1), inode_blocks_start = 1 + 3 * k + (q + 1),
     total_inodes = (?n - (q + 1)) * 8, dataregion_blocks = 12288 * k,
     dataregion_blocks_start = 1 + 3 * k + (q + 1) + (?n - (q + 1)), disksize = 8388608 * k, rootdirectory = 0\<rparr>"
    unfolding get_metadata_info_def Let_def s e using m by simp
  show "layout_ok (get_metadata_info (8388608 * k))" unfolding i layout_ok_def using q q0 assms by simp
  show "dataregion_blocks_start (get_metadata_info (8388608 * k)) = 4096 * k"
    "dataregion_blocks (get_metadata_info (8388608 * k)) = 12288 * k" "0 < total_inodes (get_metadata_info (8388608 * k))"
    unfolding i using q assms(1) by simp_all
qed

text \<open>For the odd multiples of 4 MB the bitmap of data blocks is half a block short.\<close>

lemma layout_odd:
  assumes "0 \<le> k" "k \<le> 100"
  shows "dataregion_bitmap_blocks (get_metadata_info (4194304 * (2 * k + 1))) = 3 * k + 1"
    "dataregion_blocks (get_metadata_info (4194304 * (2 * k + 1))) = 4096 * (3 * k + 1) + 2048"
    "dataregion_bitmap_start (get_metadata_info (4194304 * (2 * k + 1))) = 1"
    "inode_bitmap_start (get_metadata_info (4194304 * (2 * k + 1))) = 3 * k + 2"
proof -
  have s: "3 * (4194304 * (2 * k + 1)) sdiv 4 = 3145728 * (2 * k + 1)" "3145728 * (2 * k + 1) sdiv 512 = 6144 * (2 * k + 1)"
    "6144 * (2 * k + 1) sdiv 4096 = 3 * k + 1"
    using assms by (simp_all add: sdiv_nonneg)
  show "dataregion_bitmap_blocks (get_metadata_info (4194304 * (2 * k + 1))) = 3 * k + 1"
    "dataregion_blocks (get_metadata_info (4194304 * (2 * k + 1))) = 4096 * (3 * k + 1) + 2048"
    "dataregion_bitmap_start (get_metadata_info (4194304 * (2 * k + 1))) = 1"
    "inode_bitmap_start (get_metadata_info (4194304 * (2 * k + 1))) = 3 * k + 2"
    unfolding get_metadata_info_def Let_def s by simp_all
qed

end
