(* ===== verification/FS_Inode.thy ===== *)
theory FS_Inode
  imports FS_Bitmap
begin

section \<open>Inodes and directory entries\<close>

text \<open>
  The fields of inodes and directory entries in a block: what is read after a write.
\<close>

subsection \<open>Fields\<close>

named_theorems fields \<comment> \<open>reading a field after writing one\<close>

definition in32 :: "int \<Rightarrow> bool" where
  "in32 v \<longleftrightarrow> -2147483648 \<le> v \<and> v < 2147483648"

lemma get_put32 [fields]: "get32 (put32 f a v) a = s32 v"
proof -
  have "ld32 \<lparr>msize = 512, mbytes = mbytes m\<rparr> a = ld32 m a" for m :: mem by (simp add: ld32_def)
  then show ?thesis by (simp add: get32_def put32_def)
qed

lemma get_put32_other [fields]: "b + 4 \<le> a \<or> a + 4 \<le> b \<Longrightarrow> get32 (put32 f a v) b = get32 f b"
proof -
  assume "b + 4 \<le> a \<or> a + 4 \<le> b"
  moreover have "ld32 \<lparr>msize = 512, mbytes = mbytes m\<rparr> b = ld32 m b" for m :: mem by (simp add: ld32_def)
  ultimately show ?thesis by (simp add: get32_def put32_def ld32_st32_other)
qed

lemma put32_other [fields]: "x < a \<or> a + 4 \<le> x \<Longrightarrow> put32 f a v x = f x"
  by (simp add: put32_def mbytes_st32_other)

lemma put16_other [fields]: "x < a \<or> a + 2 \<le> x \<Longrightarrow> put16 f a v x = f x"
  by (auto simp: put16_def)

lemma get32_put16_other [fields]: "b + 4 \<le> a \<or> a + 2 \<le> b \<Longrightarrow> get32 (put16 f a v) b = get32 f b"
  by (auto simp: get32_def ld32_def put16_def)

lemma get_put16 [fields]: "get16 (put16 f a v) a = s16 v"
proof -
  have "uint (word_of_int v :: byte) + 256 * uint (word_of_int (v div 256) :: byte) = v mod 65536"
    using zmod_zmult2_eq [of 256 v 256] by (simp add: uint_word_of_int)
  moreover have "s16 (v mod 65536) = s16 v" by (simp add: s16_def mod_simps)
  ultimately show ?thesis by (simp add: get16_def put16_def)
qed

lemma get32_cong: "(\<And>x. 0 \<le> x \<Longrightarrow> x < 4 \<Longrightarrow> f (a + x) = g (c + x)) \<Longrightarrow> get32 f a = get32 g c"
proof -
  assume "\<And>x. 0 \<le> x \<Longrightarrow> x < 4 \<Longrightarrow> f (a + x) = g (c + x)"
  from this [of 0] this [of 1] this [of 2] this [of 3] show ?thesis by (simp add: get32_def ld32_def)
qed

subsection \<open>Inodes\<close>

lemma upto12: "[0..<12] = [0, 1, 2, 3, 4, 5, 6, 7, 8, 9, 10, 11 :: nat]"
  by (simp add: upt_conv_Cons)

lemma put_ptrs_other: "x < a \<or> a + 48 \<le> x \<Longrightarrow> put_ptrs f a ps x = f x"
  by (elim disjE) (simp_all add: put_ptrs_def upto12 fields)

lemma get_put_ptrs_other [fields]: "b + 4 \<le> a \<or> a + 48 \<le> b \<Longrightarrow> get32 (put_ptrs f a ps) b = get32 f b"
  by (rule get32_cong) (auto intro: put_ptrs_other)

lemma get_put_ptrs [fields]:
  assumes "j < 12"
  shows "get32 (put_ptrs f a ps) (a + 4 * int j) = s32 (ps ! j)"
proof -
  have "j \<in> set [0..<12]" using assms by simp
  then show ?thesis unfolding upto12 by (auto simp: put_ptrs_def upto12 fields)
qed

definition wf_inode :: "inode \<Rightarrow> bool" where
  "wf_inode node \<longleftrightarrow> in32 (size_of node) \<and> length (direct_ptrs node) = 12 \<and> (\<forall>p \<in> set (direct_ptrs node). in32 p) \<and>
     in32 (indirect_ptr node) \<and> in32 (test_field node) \<and> -32768 \<le> flags node \<and> flags node < 32768"

lemma s32_in: "in32 v \<Longrightarrow> s32 v = v"
  by (simp add: in32_def s32_id)

lemma inode_put [simp]:
  assumes "wf_inode node"
  shows "inode_at (put_inode f a node) a = node"
proof -
  have p: "get32 (put_inode f a node) (a + 4 + 4 * int j) = direct_ptrs node ! j" if "j < 12" for j
  proof -
    have "get32 (put_ptrs (put32 f a (size_of node)) (a + 4) (direct_ptrs node)) (a + 4 + 4 * int j) = direct_ptrs node ! j"
      using that assms get_put_ptrs [of j _ "a + 4"] by (simp add: wf_inode_def s32_in)
    then show ?thesis using that by (simp add: put_inode_def fields)
  qed
  have "map (\<lambda>j. get32 (put_inode f a node) (a + 4 + 4 * int j)) [0..<12] = direct_ptrs node"
    using assms p by (intro nth_equalityI) (auto simp: wf_inode_def)
  moreover have "get32 (put_inode f a node) a = size_of node" "get32 (put_inode f a node) (a + 52) = indirect_ptr node"
    "get32 (put_inode f a node) (a + 56) = test_field node" "get16 (put_inode f a node) (a + 60) = flags node"
    using assms by (simp_all add: put_inode_def fields wf_inode_def s32_in s16_id)
  ultimately show ?thesis by (simp add: inode_at_def)
qed

lemma put_inode_other: "x < a \<or> a + 62 \<le> x \<Longrightarrow> put_inode f a node x = f x"
  by (auto simp: put_inode_def fields put_ptrs_other)

lemma inode_at_cong:
  assumes "\<And>x. 0 \<le> x \<Longrightarrow> x < 64 \<Longrightarrow> f (a + x) = g (c + x)"
  shows "inode_at f a = inode_at g c"
proof -
  have g: "get32 f (a + k) = get32 g (c + k)" if "0 \<le> k" "k \<le> 60" for k
    using assms that by (intro get32_cong) (auto simp: add.assoc)
  have "get32 f (a + 4 + 4 * int j) = get32 g (c + 4 + 4 * int j)" if "j < 12" for j
    using g [of "4 + 4 * int j"] that by (simp add: add.assoc)
  moreover have "get16 f (a + 60) = get16 g (c + 60)"
    using assms [of 60] assms [of 61] by (simp add: get16_def add.assoc)
  ultimately show ?thesis using g [of 0] g [of 52] g [of 56] by (auto simp: inode_at_def)
qed

lemma put_inode_cong:
  assumes "\<And>x. 0 \<le> x \<Longrightarrow> x < 512 \<Longrightarrow> f x = g (c + x)" "0 \<le> a" "a + 64 \<le> 512" "0 \<le> x" "x < 512"
  shows "put_inode f a node x = put_inode g (c + a) node (c + x)"
proof -
  have st: "put32 f' b v x = put32 g' (c + b) v (c + x)" if "f' x = g' (c + x)" for f' g' b v
    using that by (auto simp: put32_def st32_def)
  have "put_ptrs f' b ps x = put_ptrs g' (c + b) ps (c + x)" if "f' x = g' (c + x)" for f' g' b ps
    using that by (simp add: put_ptrs_def upto12 st add.assoc)
  moreover have "put16 f' b v x = put16 g' (c + b) v (c + x)" if "f' x = g' (c + x)" for f' g' b v
    using that by (auto simp: put16_def)
  ultimately show ?thesis using assms(1) [OF assms(4,5)] by (simp add: put_inode_def st add.assoc)
qed

lemma length_inode_ptrs [simp]: "length (direct_ptrs (inode_at f a)) = 12"
  by (simp add: inode_at_def)

lemma wf_inode_at [simp]: "wf_inode (inode_at f a)"
  using s32_range by (auto simp: inode_at_def wf_inode_def in32_def get32_def ld32_def get16_def s16_def)

subsection \<open>The operations on inodes\<close>

text \<open>Inode \<open>n\<close> of the table that starts at block \<open>start\<close>.\<close>

definition ino :: "mem \<Rightarrow> int \<Rightarrow> int \<Rightarrow> inode" where
  "ino m start n = inode_at (mbytes m) (512 * start + 64 * n)"

definition set_ino :: "mem \<Rightarrow> int \<Rightarrow> int \<Rightarrow> inode \<Rightarrow> mem" where
  "set_ino m start n node = m\<lparr>mbytes := put_inode (mbytes m) (512 * start + 64 * n) node\<rparr>"

lemma set_ino_size [simp]: "msize (set_ino m start n node) = msize m"
  by (simp add: set_ino_def)

lemma ino_set_same [simp]: "wf_inode node \<Longrightarrow> ino (set_ino m start n node) start n = node"
  by (simp add: ino_def set_ino_def)

lemma ino_set_other: "k \<noteq> n \<Longrightarrow> ino (set_ino m start n node) start k = ino m start k"
  unfolding ino_def set_ino_def by (rule inode_at_cong) (auto intro!: put_inode_other)

lemma get_inode_ok:
  assumes "disk_ok N s" "0 \<le> n" "0 \<le> inode_blocks_start (info s)" "inode_blocks_start (info s) + n div 8 < N"
  obtains b where "get_inode n s = Some (ino (content s) (inode_blocks_start (info s)) n, s\<lparr>entry_buffer := b\<rparr>)"
proof -
  let ?st = "inode_blocks_start (info s)"
  have b0: "0 \<le> ?st + n div 8" using assms(2,3) by simp
  obtain b where b: "block_read s (?st + n div 8) (entry_buffer s) = Some (512, b)"
    "same_block b (blk (content s) (?st + n div 8))"
    by (rule block_read_ok [OF assms(1) b0 assms(4)])
  have o: "n - 8 * (n div 8) = n mod 8" by (simp add: minus_mult_div_eq_mod)
  have "inode_at b (64 * (n mod 8)) = ino (content s) ?st n" unfolding ino_def
  proof (rule inode_at_cong)
    fix x :: int assume x: "0 \<le> x" "x < 64"
    have "64 * (n mod 8) + x < 512" using x by simp
    then have "b (64 * (n mod 8) + x) = mbytes (content s) (512 * (?st + n div 8) + (64 * (n mod 8) + x))"
      using b(2) x by (simp add: same_block_def blk_def)
    also have "512 * (?st + n div 8) + (64 * (n mod 8) + x) = 512 * ?st + 64 * n + x"
      using div_mult_mod_eq [of n 8] by presburger
    finally show "b (64 * (n mod 8) + x) = mbytes (content s) (512 * ?st + 64 * n + x)" .
  qed
  then show thesis
    using that [of b] assms(2) b(1)
    unfolding get_inode_def Let_def sdiv_nonneg [OF assms(2) zero_less_numeral] o by simp
qed

lemma set_inode_ok:
  assumes "disk_ok N s" "0 \<le> n" "0 \<le> inode_blocks_start (info s)" "inode_blocks_start (info s) + n div 8 < N"
  obtains b where "set_inode n node s =
    Some (s\<lparr>entry_buffer := b, content := set_ino (content s) (inode_blocks_start (info s)) n node\<rparr>)"
proof -
  let ?st = "inode_blocks_start (info s)"
  let ?b = "?st + n div 8"
  have b0: "0 \<le> ?b" using assms(2,3) by simp
  obtain b where b: "block_read s ?b (entry_buffer s) = Some (512, b)" "same_block b (blk (content s) ?b)"
    by (rule block_read_ok [OF assms(1) b0 assms(4)])
  have o: "n - 8 * (n div 8) = n mod 8" by (simp add: minus_mult_div_eq_mod)
  let ?b' = "put_inode b (64 * (n mod 8)) node"
  have e: "512 * ?b + 64 * (n mod 8) = 512 * ?st + 64 * n" using div_mult_mod_eq [of n 8] by presburger
  have m8: "0 \<le> n mod 8" "n mod 8 < 8" by simp_all
  have "set_blk (content s) ?b ?b' = set_ino (content s) ?st n node"
  proof -
    have "mbytes (set_blk (content s) ?b ?b') x = mbytes (set_ino (content s) ?st n node) x" for x
    proof (cases "512 * ?b \<le> x \<and> x < 512 * ?b + 512")
      case True
      have "?b' (x - 512 * ?b) = put_inode (mbytes (content s)) (512 * ?b + 64 * (n mod 8)) node (512 * ?b + (x - 512 * ?b))"
        using b(2) True m8 by (intro put_inode_cong) (auto simp: same_block_def blk_def)
      then show ?thesis using True unfolding e by (simp add: set_blk_def set_ino_def)
    next
      case False
      then have "x < 512 * ?st + 64 * n \<or> 512 * ?st + 64 * n + 62 \<le> x" using e m8 by linarith
      then show ?thesis using False by (auto simp: set_blk_def set_ino_def put_inode_other)
    qed
    then show ?thesis by (simp add: set_blk_def set_ino_def fun_eq_iff)
  qed
  moreover have "disk_ok N (s\<lparr>entry_buffer := ?b'\<rparr>)" using assms(1) by (simp add: disk_ok_def)
  note block_write_ok [OF this b0 assms(4), of ?b']
  ultimately show thesis
    using that [of ?b'] b(1) m8
    unfolding set_inode_def Let_def sdiv_nonneg [OF assms(2) zero_less_numeral] o by simp
qed

subsection \<open>Names\<close>

definition name_ok :: "string \<Rightarrow> bool" where
  "name_ok name \<longleftrightarrow> CHR 0x00 \<notin> set name \<and> length name < 508"

lemma char_byte: "char_of (uint (word_of_int (of_char c) :: byte)) = c"
proof -
  have "uint (word_of_int (of_char c) :: byte) = of_char c" by (simp add: uint_word_of_int)
  then show ?thesis by simp
qed

lemma put_string_other: "x < a \<or> a + int (length cs) < x \<Longrightarrow> put_string f a cs x = f x"
  by (induction f a cs rule: put_string.induct) auto

lemma c_string_put:
  assumes "CHR 0x00 \<notin> set cs" "length cs < n"
  shows "c_string n (put_string f a cs) a = Some cs"
  using assms
proof (induction f a cs arbitrary: n rule: put_string.induct)
  case (1 f a)
  then show ?case by (cases n) simp_all
next
  case (2 f a c cs)
  obtain k where n: "n = Suc k" using 2 by (cases n) auto
  have "(word_of_int (of_char c) :: byte) \<noteq> 0"
  proof
    assume "(word_of_int (of_char c) :: byte) = 0"
    then have "c = char_of (0::int)" using char_byte [of c] by simp
    moreover have "char_of (0::int) = CHR 0x00" by (simp add: char_of_def)
    ultimately show False using 2 by simp
  qed
  moreover have "put_string (f(a := word_of_int (of_char c))) (a + 1) cs a = word_of_int (of_char c)"
    by (subst put_string_other) simp_all
  moreover have "c_string k (put_string (f(a := word_of_int (of_char c))) (a + 1) cs) (a + 1) = Some cs"
    using "2.prems" n by (intro "2.IH") simp_all
  ultimately show ?case using n char_byte by simp
qed

lemma c_string_cong:
  assumes "\<And>x. a \<le> x \<Longrightarrow> x < a + int n \<Longrightarrow> f x = g x"
  shows "c_string n f a = c_string n g a"
  using assms by (induction n arbitrary: a) auto

lemma filepath_same: "same_block f g \<Longrightarrow> filepath f = filepath g"
  unfolding filepath_def by (rule c_string_cong) (simp add: same_block_def)

lemma block_inode_same: "same_block f g \<Longrightarrow> block_inode f = block_inode g"
  unfolding block_inode_def by (rule get32_cong) (simp add: same_block_def)

lemma entry_ok:
  assumes "name_ok name"
  obtains f' where "strcpy_path f name = Some f'" "filepath (put32 f' 508 i) = Some name" "block_inode (put32 f' 508 i) = s32 i"
proof (rule that [of "put_string f 0 name"])
  show "strcpy_path f name = Some (put_string f 0 name)" using assms by (simp add: strcpy_path_def name_ok_def)
  have "c_string 508 (put32 (put_string f 0 name) 508 i) 0 = c_string 508 (put_string f 0 name) 0"
    by (rule c_string_cong) (simp add: fields)
  then show "filepath (put32 (put_string f 0 name) 508 i) = Some name"
    using assms c_string_put [of name 508 f 0] by (simp add: filepath_def name_ok_def)
qed (simp add: block_inode_def fields)

end
