(* ===== verification/FS_Path.thy ===== *)
theory FS_Path
  imports FS_Inode
begin

section \<open>Paths and the tree of directories\<close>

text \<open>
  The components of a path, the well-formed tree of directories and the walk along a path, which
  \<open>find_path_block\<close> makes.
\<close>

subsection \<open>Splitting a path\<close>

text \<open>The path with the given components.\<close>

definition path_of :: "string list \<Rightarrow> string" where
  "path_of ns = concat (map (\<lambda>n. slash # n) ns)"

lemma upt_split3: "[0..<Suc (a + b)] = 0 # map Suc [0..<a] @ map ((+) (Suc a)) [0..<b]"
proof -
  have "[0..<Suc (a + b)] = 0 # [1..<Suc a] @ [Suc a..<Suc a + b]"
    by (metis One_nat_def Suc_leI add_Suc upt_add_eq_append upt_conv_Cons zero_less_Suc)
  moreover have "[1..<Suc a] = map Suc [0..<a]" by (simp add: map_Suc_upt)
  moreover have "[Suc a..<Suc a + b] = map ((+) (Suc a)) [0..<b]" by (rule nth_equalityI) (simp_all del: upt_Suc)
  ultimately show ?thesis by simp
qed

lemma slash_indices_Cons:
  assumes "slash \<notin> set n"
  shows "slash_indices (slash # n @ rest) = 0 # map ((+) (Suc (length n))) (slash_indices rest)"
proof -
  let ?p = "slash # n @ rest"
  have "filter (\<lambda>i. ?p ! i = slash) (map Suc [0..<length n]) = []"
  proof -
    have "\<not> (?p ! Suc i = slash)" if "i < length n" for i
      using that assms by (auto simp: nth_append in_set_conv_nth)
    then show ?thesis by (auto simp: filter_empty_conv)
  qed
  moreover have "filter (\<lambda>i. ?p ! i = slash) (map ((+) (Suc (length n))) [0..<length rest]) =
      map ((+) (Suc (length n))) (filter (\<lambda>i. rest ! i = slash) [0..<length rest])"
    by (simp add: filter_map comp_def nth_append)
  ultimately show ?thesis
    by (simp add: slash_indices_def upt_split3 del: upt_Suc)
qed

lemma slash_indices_hd: "slash_indices (path_of ns) ! 0 = 0"
proof (cases ns)
  case Nil
  then show ?thesis by (simp add: slash_indices_def path_of_def)
next
  case (Cons n ms)
  then have l: "0 < length (path_of ns)" by (simp add: path_of_def)
  show ?thesis unfolding slash_indices_def upt_conv_Cons [OF l] using Cons by (simp add: path_of_def)
qed

lemma length_slash_indices: "length (slash_indices p) = Suc (get_num_dirs p)"
proof -
  have "length (filter (\<lambda>c. c = slash) p) = card {i. i < length p \<and> p ! i = slash}"
    by (rule length_filter_conv_card)
  also have "\<dots> = length (filter (\<lambda>i. p ! i = slash) [0..<length p])"
    by (subst distinct_card [symmetric]) (auto intro: arg_cong [of _ _ card])
  finally show ?thesis by (simp add: slash_indices_def get_num_dirs_def)
qed

lemma parsePath_Cons:
  assumes n: "slash \<notin> set n" and r: "slash_indices rest ! 0 = 0"
  shows "parsePath (slash # n @ rest) = n # parsePath rest"
proof -
  let ?ix = "slash_indices rest" and ?k = "Suc (length n)"
  have num: "get_num_dirs (slash # n @ rest) = Suc (get_num_dirs rest)"
    using n by (simp add: get_num_dirs_def filter_empty_conv) (metis (mono_tags, lifting) filter_False)
  have len: "length ?ix = Suc (get_num_dirs rest)" by (rule length_slash_indices)
  have ix: "slash_indices (slash # n @ rest) ! Suc i = ?k + ?ix ! i" if "i \<le> get_num_dirs rest" for i
    using that len by (simp add: slash_indices_Cons [OF n])
  have "parsePath (slash # n @ rest) = map (\<lambda>i. take (slash_indices (slash # n @ rest) ! (i + 1) - slash_indices (slash # n @ rest) ! i - 1)
      (drop (slash_indices (slash # n @ rest) ! i + 1) (slash # n @ rest))) (0 # map Suc [0..<get_num_dirs rest])"
    unfolding parsePath_def Let_def num by (simp add: upt_conv_Cons map_Suc_upt del: upt_Suc)
  also have "\<dots> = n # map (\<lambda>i. take (?ix ! (i + 1) - ?ix ! i - 1) (drop (?ix ! i + 1) rest)) [0..<get_num_dirs rest]"
    using ix r by (auto simp: slash_indices_Cons [OF n] len)
  finally show ?thesis by (simp add: parsePath_def Let_def)
qed

lemma parsePath_path_of: "\<forall>n \<in> set ns. slash \<notin> set n \<Longrightarrow> parsePath (path_of ns) = ns"
proof (induction ns)
  case Nil
  show ?case by (simp add: parsePath_def path_of_def get_num_dirs_def)
next
  case (Cons n ns)
  then show ?case using parsePath_Cons [of n "path_of ns"] slash_indices_hd [of ns] by (simp add: path_of_def)
qed

lemma length_parsePath [simp]: "length (parsePath p) = get_num_dirs p"
  by (simp add: parsePath_def Let_def)

subsection \<open>The tree of directories\<close>

text \<open>The entry of a directory with the given name: the first pointer whose block has it.\<close>

definition dir_entry :: "mem \<Rightarrow> int list \<Rightarrow> string \<Rightarrow> int option" where
  "dir_entry m ps name = find (\<lambda>p. p \<noteq> 0 \<and> filepath (blk m p) = Some name) ps"

text \<open>Block \<open>p\<close> holds an entry: it is an allocated data block with a name and an allocated inode.  In
  a well-formed tree the root is an entry with the empty name and inode 0, all that an inode points to is
  an entry, and an inode that is not allocated points to nothing.\<close>

definition inode_used :: "mem \<Rightarrow> metadata_info \<Rightarrow> int \<Rightarrow> bool" where
  "inode_used m i n \<longleftrightarrow> status_bit m (inode_bitmap_start i) n"

definition block_used :: "mem \<Rightarrow> metadata_info \<Rightarrow> int \<Rightarrow> bool" where
  "block_used m i n \<longleftrightarrow> status_bit m (dataregion_bitmap_start i) n"

definition ptrs :: "mem \<Rightarrow> metadata_info \<Rightarrow> int \<Rightarrow> int list" where
  "ptrs m i n = direct_ptrs (ino m (inode_blocks_start i) n)"

definition entry_in :: "mem \<Rightarrow> metadata_info \<Rightarrow> int \<Rightarrow> bool" where
  "entry_in m i p \<longleftrightarrow> dataregion_blocks_start i \<le> p \<and> p < dataregion_blocks_start i + dataregion_blocks i \<and>
     block_used m i (p - dataregion_blocks_start i) \<and> filepath (blk m p) \<noteq> None \<and>
     0 \<le> block_inode (blk m p) \<and> block_inode (blk m p) < total_inodes i \<and> inode_used m i (block_inode (blk m p))"

definition tree_ok :: "mem \<Rightarrow> metadata_info \<Rightarrow> bool" where
  "tree_ok m i \<longleftrightarrow> entry_in m i (dataregion_blocks_start i) \<and> filepath (blk m (dataregion_blocks_start i)) = Some [] \<and>
     block_inode (blk m (dataregion_blocks_start i)) = 0 \<and>
     (\<forall>n p. 0 \<le> n \<and> n < total_inodes i \<and> p \<in> set (ptrs m i n) \<and> p \<noteq> 0 \<longrightarrow> inode_used m i n \<and> entry_in m i p)"

text \<open>Following the components of a path from the entry in block \<open>p\<close>: the entry reached and the
  components that are left.\<close>

fun walk :: "mem \<Rightarrow> metadata_info \<Rightarrow> int \<Rightarrow> string list \<Rightarrow> int \<times> string list" where
  "walk m i p [] = (p, [])"
| "walk m i p (n # ns) =
     (case dir_entry m (ptrs m i (block_inode (blk m p))) n of
        None \<Rightarrow> (p, n # ns)
      | Some q \<Rightarrow> walk m i q ns)"

lemma dir_entry_Some: "dir_entry m ps n = Some q \<Longrightarrow> q \<in> set ps \<and> q \<noteq> 0 \<and> filepath (blk m q) = Some n"
  by (auto simp: dir_entry_def find_Some_iff)

lemma tree_entry:
  assumes "tree_ok m i" "entry_in m i p" "dir_entry m (ptrs m i (block_inode (blk m p))) n = Some q"
  shows "entry_in m i q"
  using assms dir_entry_Some [OF assms(3)] unfolding tree_ok_def entry_in_def [of m i p] by blast

subsection \<open>\<open>find_path_block\<close>\<close>

lemma fs_ok_disk: "fs_ok s \<Longrightarrow> disk_ok (dataregion_blocks_start (info s) + dataregion_blocks (info s)) s"
  by (simp add: fs_ok_def)

lemma fs_ok_buffers [simp]: "fs_ok (s\<lparr>buffer := b\<rparr>) = fs_ok s" "fs_ok (s\<lparr>entry_buffer := b\<rparr>) = fs_ok s"
  by (simp_all add: fs_ok_def disk_ok_def)

lemma search_ptrs_ok:
  assumes "fs_ok s" "\<And>p. p \<in> set ps \<Longrightarrow> p \<noteq> 0 \<Longrightarrow> entry_in (content s) (info s) p"
  shows "\<exists>found pb'. search_ptrs ps name pb s = Some (found, pb') \<and>
    (case dir_entry (content s) ps name of None \<Rightarrow> \<not> found | Some q \<Rightarrow> found \<and> same_block pb' (blk (content s) q))"
  using assms(2)
proof (induction ps arbitrary: pb)
  case Nil
  show ?case by (intro exI [of _ False] exI [of _ pb]) (simp add: dir_entry_def)
next
  case (Cons p ps)
  have IH: "\<exists>found pb'. search_ptrs ps name b s = Some (found, pb') \<and>
    (case dir_entry (content s) ps name of None \<Rightarrow> \<not> found | Some q \<Rightarrow> found \<and> same_block pb' (blk (content s) q))" for b
    using Cons.prems by (intro Cons.IH) auto
  show ?case
  proof (cases "p = 0")
    case True
    then show ?thesis using IH [of pb] by (simp add: dir_entry_def)
  next
    case False
    then have e: "entry_in (content s) (info s) p" using Cons.prems by simp
    have "layout_ok (info s)" using assms(1) by (simp add: fs_ok_def)
    then have p: "0 \<le> p" "p < dataregion_blocks_start (info s) + dataregion_blocks (info s)"
      using e by (auto simp: entry_in_def layout_ok_def)
    obtain b where b: "block_read s p pb = Some (512, b)" "same_block b (blk (content s) p)"
      by (rule block_read_ok [OF fs_ok_disk [OF assms(1)] p])
    obtain n where n: "filepath (blk (content s) p) = Some n" "filepath b = Some n"
      using e filepath_same [OF b(2)] by (auto simp: entry_in_def)
    show ?thesis
      using False b n IH [of b] by (cases "name = n") (auto simp: dir_entry_def)
  qed
qed

lemma get_inode_fs:
  assumes "fs_ok s" "0 \<le> n" "n < total_inodes (info s)"
  obtains b where "get_inode n s = Some (ino (content s) (inode_blocks_start (info s)) n, s\<lparr>entry_buffer := b\<rparr>)"
proof -
  have l: "layout_ok (info s)" using assms(1) by (simp add: fs_ok_def)
  have d: "n div 8 < inode_blocks (info s)" using l assms(3) by (simp add: layout_ok_def)
  have st: "0 \<le> inode_blocks_start (info s)" using l by (simp add: layout_ok_def)
  have "inode_blocks_start (info s) + n div 8 < dataregion_blocks_start (info s) + dataregion_blocks (info s)"
    using l d by (simp add: layout_ok_def)
  from get_inode_ok [OF fs_ok_disk [OF assms(1)] assms(2) st this] that show thesis by blast
qed

lemma follow_ok:
  assumes "fs_ok s" "tree_ok (content s) (info s)" "entry_in (content s) (info s) p" "same_block br (blk (content s) p)"
  shows "\<exists>b eb. follow ns pb br s = Some (b, s\<lparr>entry_buffer := eb\<rparr>) \<and>
    same_block b (blk (content s) (fst (walk (content s) (info s) p ns)))"
  using assms
proof (induction ns arbitrary: pb br p s)
  case Nil
  then show ?case by (intro exI [of _ br] exI [of _ "entry_buffer s"]) simp
next
  case (Cons n ns)
  let ?m = "content s" and ?st = "inode_blocks_start (info s)"
  have k: "block_inode br = block_inode (blk ?m p)" using Cons.prems(4) by (rule block_inode_same)
  have kr: "0 \<le> block_inode (blk ?m p)" "block_inode (blk ?m p) < total_inodes (info s)"
    using Cons.prems(3) by (simp_all add: entry_in_def)
  let ?ps = "ptrs ?m (info s) (block_inode (blk ?m p))"
  obtain eb where g: "get_inode (block_inode (blk ?m p)) s = Some (ino ?m ?st (block_inode (blk ?m p)), s\<lparr>entry_buffer := eb\<rparr>)"
    by (rule get_inode_fs [OF Cons.prems(1) kr])
  let ?s = "s\<lparr>entry_buffer := eb\<rparr>"
  have ents: "entry_in ?m (info s) q" if "q \<in> set ?ps" "q \<noteq> 0" for q
    using Cons.prems(2) kr that unfolding tree_ok_def by blast
  have c: "content ?s = ?m" by simp
  have "\<exists>found pb'. search_ptrs ?ps n pb ?s = Some (found, pb') \<and>
    (case dir_entry (content ?s) ?ps n of None \<Rightarrow> \<not> found | Some q \<Rightarrow> found \<and> same_block pb' (blk (content ?s) q))"
    by (rule search_ptrs_ok) (use Cons.prems(1) ents in simp_all)
  then obtain found pb' where f: "search_ptrs ?ps n pb ?s = Some (found, pb')"
    "case dir_entry ?m ?ps n of None \<Rightarrow> \<not> found | Some q \<Rightarrow> found \<and> same_block pb' (blk ?m q)"
    unfolding c by blast
  show ?case
  proof (cases "dir_entry ?m ?ps n")
    case None
    then show ?thesis using f g k Cons.prems(4) by (intro exI [of _ br] exI [of _ eb]) (simp add: ptrs_def)
  next
    case (Some q)
    have "entry_in ?m (info s) q" by (rule tree_entry [OF Cons.prems(2,3) Some])
    then have "\<exists>b eb'. follow ns pb' pb' ?s = Some (b, ?s\<lparr>entry_buffer := eb'\<rparr>) \<and>
      same_block b (blk (content ?s) (fst (walk (content ?s) (info ?s) q ns)))"
      using Cons.prems(1,2) f(2) Some by (intro Cons.IH) simp_all
    then show ?thesis using f g k Some by (auto simp: ptrs_def)
  qed
qed

lemma find_path_block_ok:
  assumes "fs_ok s" "tree_ok (content s) (info s)"
  shows "\<exists>b eb. find_path_block pb br path s = Some (b, s\<lparr>entry_buffer := eb\<rparr>) \<and>
    same_block b (blk (content s) (fst (walk (content s) (info s)
      (dataregion_blocks_start (info s)) (parsePath path))))"
proof -
  let ?r = "dataregion_blocks_start (info s)"
  have e: "entry_in (content s) (info s) ?r" using assms(2) by (simp add: tree_ok_def)
  have "layout_ok (info s)" using assms(1) by (simp add: fs_ok_def)
  then have r: "0 \<le> ?r" "?r < ?r + dataregion_blocks (info s)"
    using e by (auto simp: entry_in_def layout_ok_def)
  obtain b where b: "block_read s ?r br = Some (512, b)" "same_block b (blk (content s) ?r)"
    by (rule block_read_ok [OF fs_ok_disk [OF assms(1)] r])
  show ?thesis
    using follow_ok [OF assms e b(2), of "parsePath path" pb] b(1) by (simp add: find_path_block_def)
qed

end
