(* ===== verification/FS_Frames.thy ===== *)
theory FS_Frames
  imports FS_Path
begin

section \<open>What one write leaves alone\<close>

text \<open>
  The regions of the disk are disjoint: a write to a bitmap changes one status, writing an inode changes
  one inode and writing a data block changes one block.
\<close>

named_theorems frames \<comment> \<open>a view of the disk after a write to it\<close>

lemma status_bit_cong:
  "mbytes m' (512 * start + n div 8) = mbytes m (512 * start + n div 8) \<Longrightarrow> status_bit m' start n = status_bit m start n"
  by (simp add: status_bit_def)

lemma ino_cong:
  assumes "\<And>x. 512 * st + 64 * n \<le> x \<Longrightarrow> x < 512 * st + 64 * n + 64 \<Longrightarrow> mbytes m' x = mbytes m x"
  shows "ino m' st n = ino m st n"
  unfolding ino_def by (rule inode_at_cong) (simp add: assms)

lemma blk_cong:
  assumes "\<And>x. 512 * b \<le> x \<Longrightarrow> x < 512 * b + 512 \<Longrightarrow> mbytes m' x = mbytes m x"
  shows "same_block (blk m' b) (blk m b)"
  by (simp add: same_block_def blk_def assms)

text \<open>Where the views lie.\<close>

lemma inode_bit_place:
  assumes "layout_ok i" "0 \<le> n" "n < total_inodes i"
  shows "512 * inode_bitmap_start i \<le> 512 * inode_bitmap_start i + n div 8"
    "512 * inode_bitmap_start i + n div 8 < 512 * inode_blocks_start i"
  using assms by (auto simp: layout_ok_def)

lemma block_bit_place:
  assumes "layout_ok i" "0 \<le> n" "n < dataregion_blocks i"
  shows "512 * dataregion_bitmap_start i \<le> 512 * dataregion_bitmap_start i + n div 8"
    "512 * dataregion_bitmap_start i + n div 8 < 512 * inode_bitmap_start i"
  using assms by (auto simp: layout_ok_def)

lemma inode_place:
  assumes "layout_ok i" "0 \<le> n" "n < total_inodes i"
  shows "512 * inode_blocks_start i \<le> 512 * inode_blocks_start i + 64 * n"
    "512 * inode_blocks_start i + 64 * n + 64 \<le> 512 * dataregion_blocks_start i"
  using assms by (auto simp: layout_ok_def)

lemma places:
  assumes "layout_ok i"
  shows "512 * inode_bitmap_start i \<le> 512 * inode_blocks_start i" "512 * inode_blocks_start i \<le> 512 * dataregion_blocks_start i"
    "512 * dataregion_bitmap_start i \<le> 512 * inode_bitmap_start i" "0 < dataregion_bitmap_start i" "0 \<le> total_inodes i"
  using assms by (auto simp: layout_ok_def)

text \<open>Marking an inode.\<close>

lemma mark_inode [frames]:
  assumes "layout_ok i" "0 \<le> r" "r < total_inodes i" "m' = set_status_bit m (inode_bitmap_start i) r v"
  shows "0 \<le> n \<Longrightarrow> n < total_inodes i \<Longrightarrow> inode_used m' i n = (if n = r then v else inode_used m i n)"
    "0 \<le> n \<Longrightarrow> n < dataregion_blocks i \<Longrightarrow> block_used m' i n = block_used m i n"
    "0 \<le> n \<Longrightarrow> n < total_inodes i \<Longrightarrow> ino m' (inode_blocks_start i) n = ino m (inode_blocks_start i) n"
    "dataregion_blocks_start i \<le> b \<Longrightarrow> same_block (blk m' b) (blk m b)"
proof -
  note r = inode_bit_place [OF assms(1-3)] and pl = places [OF assms(1)]
  show "0 \<le> n \<Longrightarrow> n < total_inodes i \<Longrightarrow> inode_used m' i n = (if n = r then v else inode_used m i n)"
    by (simp add: inode_used_def assms(4) status_bit_same status_bit_other)
  show "block_used m' i n = block_used m i n" if "0 \<le> n" "n < dataregion_blocks i"
    unfolding block_used_def assms(4)
    using block_bit_place [OF assms(1) that] r by (intro status_bit_cong) (simp add: set_status_bit_def)
  show "ino m' (inode_blocks_start i) n = ino m (inode_blocks_start i) n" if "0 \<le> n" "n < total_inodes i"
    unfolding assms(4) using r that by (intro ino_cong) (simp add: set_status_bit_def)
  show "same_block (blk m' b) (blk m b)" if "dataregion_blocks_start i \<le> b"
    unfolding assms(4) using r pl that by (intro blk_cong) (simp add: set_status_bit_def)
qed

text \<open>Marking a data block.\<close>

lemma mark_block [frames]:
  assumes "layout_ok i" "0 \<le> d" "d < dataregion_blocks i" "m' = set_status_bit m (dataregion_bitmap_start i) d v"
  shows "0 \<le> n \<Longrightarrow> n < total_inodes i \<Longrightarrow> inode_used m' i n = inode_used m i n"
    "0 \<le> n \<Longrightarrow> n < dataregion_blocks i \<Longrightarrow> block_used m' i n = (if n = d then v else block_used m i n)"
    "0 \<le> n \<Longrightarrow> n < total_inodes i \<Longrightarrow> ino m' (inode_blocks_start i) n = ino m (inode_blocks_start i) n"
    "dataregion_blocks_start i \<le> b \<Longrightarrow> same_block (blk m' b) (blk m b)"
proof -
  note d = block_bit_place [OF assms(1-3)] and pl = places [OF assms(1)]
  show "inode_used m' i n = inode_used m i n" if "0 \<le> n" "n < total_inodes i"
    unfolding inode_used_def assms(4)
    using inode_bit_place [OF assms(1) that] d by (intro status_bit_cong) (simp add: set_status_bit_def)
  show "0 \<le> n \<Longrightarrow> n < dataregion_blocks i \<Longrightarrow> block_used m' i n = (if n = d then v else block_used m i n)"
    by (simp add: block_used_def assms(4) status_bit_same status_bit_other)
  show "ino m' (inode_blocks_start i) n = ino m (inode_blocks_start i) n" if "0 \<le> n" "n < total_inodes i"
    unfolding assms(4) using d pl that by (intro ino_cong) (simp add: set_status_bit_def)
  show "same_block (blk m' b) (blk m b)" if "dataregion_blocks_start i \<le> b"
    unfolding assms(4) using d pl that by (intro blk_cong) (simp add: set_status_bit_def)
qed

text \<open>Writing an inode.\<close>

lemma write_inode [frames]:
  assumes "layout_ok i" "0 \<le> k" "k < total_inodes i" "m' = set_ino m (inode_blocks_start i) k node" "wf_inode node"
  shows "0 \<le> n \<Longrightarrow> n < total_inodes i \<Longrightarrow> inode_used m' i n = inode_used m i n"
    "0 \<le> n \<Longrightarrow> n < dataregion_blocks i \<Longrightarrow> block_used m' i n = block_used m i n"
    "0 \<le> n \<Longrightarrow> n < total_inodes i \<Longrightarrow>
       ino m' (inode_blocks_start i) n = (if n = k then node else ino m (inode_blocks_start i) n)"
    "dataregion_blocks_start i \<le> b \<Longrightarrow> same_block (blk m' b) (blk m b)"
proof -
  note k = inode_place [OF assms(1-3)] and pl = places [OF assms(1)]
  show "inode_used m' i n = inode_used m i n" if "0 \<le> n" "n < total_inodes i"
    unfolding inode_used_def assms(4)
    using inode_bit_place [OF assms(1) that] k by (intro status_bit_cong) (simp add: set_ino_def put_inode_other)
  show "block_used m' i n = block_used m i n" if "0 \<le> n" "n < dataregion_blocks i"
    unfolding block_used_def assms(4)
    using block_bit_place [OF assms(1) that] k pl by (intro status_bit_cong) (simp add: set_ino_def put_inode_other)
  show "0 \<le> n \<Longrightarrow> n < total_inodes i \<Longrightarrow>
       ino m' (inode_blocks_start i) n = (if n = k then node else ino m (inode_blocks_start i) n)"
    by (simp add: assms(4,5) ino_set_other)
  show "same_block (blk m' b) (blk m b)" if "dataregion_blocks_start i \<le> b"
    unfolding assms(4) using k pl that by (intro blk_cong) (simp add: set_ino_def put_inode_other)
qed

text \<open>Writing a data block.\<close>

lemma write_block [frames]:
  assumes "layout_ok i" "dataregion_blocks_start i \<le> c" "m' = set_blk m c f"
  shows "0 \<le> n \<Longrightarrow> n < total_inodes i \<Longrightarrow> inode_used m' i n = inode_used m i n"
    "0 \<le> n \<Longrightarrow> n < dataregion_blocks i \<Longrightarrow> block_used m' i n = block_used m i n"
    "0 \<le> n \<Longrightarrow> n < total_inodes i \<Longrightarrow> ino m' (inode_blocks_start i) n = ino m (inode_blocks_start i) n"
    "same_block (blk m' b) (if b = c then f else blk m b)"
proof -
  note pl = places [OF assms(1)]
  show "inode_used m' i n = inode_used m i n" if "0 \<le> n" "n < total_inodes i"
    unfolding inode_used_def assms(3)
    using inode_bit_place [OF assms(1) that] pl assms(2) by (intro status_bit_cong) (simp add: set_blk_def)
  show "block_used m' i n = block_used m i n" if "0 \<le> n" "n < dataregion_blocks i"
    unfolding block_used_def assms(3)
    using block_bit_place [OF assms(1) that] pl assms(2) by (intro status_bit_cong) (simp add: set_blk_def)
  show "ino m' (inode_blocks_start i) n = ino m (inode_blocks_start i) n" if "0 \<le> n" "n < total_inodes i"
    unfolding assms(3) using inode_place [OF assms(1) that] pl assms(2) by (intro ino_cong) (simp add: set_blk_def)
  show "same_block (blk m' b) (if b = c then f else blk m b)"
    unfolding assms(3) by (simp add: blk_set_same blk_set_other)
qed

end
