(* ===== verification/FS_Tree.thy ===== *)
theory FS_Tree
  imports FS_Frames
begin

section \<open>The graph of directories\<close>

text \<open>
  What the disk stands for: for every inode the named entries of its directory, as a map from names to
  inodes.  Inode 0 is the root.  Creating a file is adding one entry.
\<close>

type_synonym dirs = "int \<Rightarrow> string \<rightharpoonup> int"

definition children :: "mem \<Rightarrow> metadata_info \<Rightarrow> dirs" where
  "children m i = (\<lambda>x n. if 0 \<le> x \<and> x < total_inodes i
     then map_option (\<lambda>q. block_inode (blk m q)) (dir_entry m (ptrs m i x) n) else None)"

definition link :: "dirs \<Rightarrow> int \<Rightarrow> string \<Rightarrow> int \<Rightarrow> dirs" where
  "link g k n r = g(k := (g k)(n \<mapsto> r))"

text \<open>Following a path as far as it goes: the inode reached and what is left of the path.\<close>

fun resolve :: "dirs \<Rightarrow> int \<Rightarrow> string list \<Rightarrow> int \<times> string list" where
  "resolve g x [] = (x, [])"
| "resolve g x (n # ns) = (case g x n of None \<Rightarrow> (x, n # ns) | Some y \<Rightarrow> resolve g y ns)"

text \<open>The last component that was found, the empty name when none was.\<close>

definition found_name :: "string list \<Rightarrow> string list \<Rightarrow> string" where
  "found_name ns rest = last ([] # take (length ns - length rest) ns)"

lemma resolve_suffix: "snd (resolve g x ns) = drop (length ns - length (snd (resolve g x ns))) ns
    \<and> length (snd (resolve g x ns)) \<le> length ns"
proof (induction ns arbitrary: x)
  case (Cons n ns)
  show ?case
  proof (cases "g x n")
    case (Some y)
    then show ?thesis using Cons.IH [of y] by (simp add: Suc_diff_le)
  qed simp
qed simp

lemma resolve_stops: "resolve g x ns = (k, n # rest) \<Longrightarrow> g k n = None"
  by (induction ns arbitrary: x) (auto split: option.splits)

text \<open>Adding an entry: a path that resolved does so as before, and the new one leads to the new inode.\<close>

lemma resolve_link_old:
  assumes "g k n = None" "resolve g x ns = (z, [])"
  shows "resolve (link g k n r) x ns = (z, [])"
  using assms(2)
proof (induction ns arbitrary: x)
  case (Cons a ns)
  then obtain y where y: "g x a = Some y" "resolve g y ns = (z, [])" by (auto split: option.splits)
  then have "link g k n r x a = Some y" using assms(1) by (auto simp: link_def)
  then show ?case using Cons.IH [OF y(2)] by simp
qed simp

lemma resolve_append:
  "resolve g x ns = (k, rest) \<Longrightarrow> rest = [] \<Longrightarrow> resolve g x (ns @ ms) = resolve g k ms"
  by (induction ns arbitrary: x) (auto split: option.splits)

lemma resolve_butlast:
  "resolve g x ns = (k, [n]) \<Longrightarrow> resolve g x (butlast ns) = (k, []) \<and> ns = butlast ns @ [n]"
proof (induction ns arbitrary: x)
  case (Cons a ns)
  show ?case
  proof (cases "g x a")
    case None
    then show ?thesis using Cons.prems by simp
  next
    case (Some y)
    then have r: "resolve g y ns = (k, [n])" using Cons.prems by simp
    then have "ns \<noteq> []" by auto
    then show ?thesis using Some Cons.IH [OF r] by simp
  qed
qed simp

lemma resolve_link_new:
  assumes "resolve g x ns = (k, [n])"
  shows "resolve (link g k n r) x ns = (r, [])"
proof -
  have g: "g k n = None" by (rule resolve_stops [OF assms])
  note b = resolve_butlast [OF assms]
  have "resolve (link g k n r) x (butlast ns @ [n]) = resolve (link g k n r) k [n]"
    by (rule resolve_append [OF resolve_link_old [of g k n, OF g] refl]) (use b in simp)
  then show ?thesis using b by (simp add: link_def)
qed

subsection \<open>Walking over the blocks follows the graph\<close>

lemma tree_root:
  assumes "tree_ok m i"
  shows "entry_in m i (dataregion_blocks_start i)" "block_inode (blk m (dataregion_blocks_start i)) = 0"
    "filepath (blk m (dataregion_blocks_start i)) = Some []"
  using assms by (simp_all add: tree_ok_def)

lemma walk_resolve:
  assumes "tree_ok m i" "entry_in m i p" "filepath (blk m p) = Some c"
  shows "\<exists>q rest. walk m i p ns = (q, rest) \<and> entry_in m i q \<and>
    resolve (children m i) (block_inode (blk m p)) ns = (block_inode (blk m q), rest) \<and>
    filepath (blk m q) = Some (last (c # take (length ns - length rest) ns)) \<and> length rest \<le> length ns"
  using assms(2,3)
proof (induction ns arbitrary: p c)
  case Nil
  then show ?case by simp
next
  case (Cons n ns)
  let ?x = "block_inode (blk m p)"
  have x: "0 \<le> ?x" "?x < total_inodes i" using Cons.prems(1) by (simp_all add: entry_in_def)
  show ?case
  proof (cases "dir_entry m (ptrs m i ?x) n")
    case None
    then show ?thesis using Cons.prems x by (simp add: children_def)
  next
    case (Some q)
    have q: "entry_in m i q" by (rule tree_entry [OF assms(1) Cons.prems(1) Some])
    have f: "filepath (blk m q) = Some n" using dir_entry_Some [OF Some] by simp
    obtain z rest where z: "walk m i q ns = (z, rest)" "entry_in m i z"
      "resolve (children m i) (block_inode (blk m q)) ns = (block_inode (blk m z), rest)"
      "filepath (blk m z) = Some (last (n # take (length ns - length rest) ns))" "length rest \<le> length ns"
      using Cons.IH [OF q f] by blast
    have c: "children m i ?x n = Some (block_inode (blk m q))" using Some x by (simp add: children_def)
    have "take (length (n # ns) - length rest) (n # ns) = n # take (length ns - length rest) ns"
      using z(5) by (simp add: Suc_diff_le)
    then show ?thesis using z Some c by simp
  qed
qed

text \<open>\<open>find_path_block\<close> delivers the entry where the path stops.\<close>

lemma find_path_block_resolve:
  assumes "fs_ok s" "tree_ok (content s) (info s)" "\<forall>n \<in> set ns. slash \<notin> set n"
    and "resolve (children (content s) (info s)) 0 ns = (k, rest)"
  obtains b eb q where "find_path_block pb br (path_of ns) s = Some (b, s\<lparr>entry_buffer := eb\<rparr>)"
    "filepath b = Some (found_name ns rest)" "block_inode b = k" "entry_in (content s) (info s) q"
    "block_inode (blk (content s) q) = k"
proof -
  let ?m = "content s" and ?i = "info s"
  note root = tree_root [OF assms(2)]
  obtain q where q: "walk ?m ?i (dataregion_blocks_start ?i) ns = (q, rest)" "entry_in ?m ?i q" "block_inode (blk ?m q) = k"
    "filepath (blk ?m q) = Some (found_name ns rest)"
    using walk_resolve [OF assms(2) root(1,3), of ns] assms(4) root(2) by (auto simp: found_name_def)
  obtain b eb where b: "find_path_block pb br (path_of ns) s = Some (b, s\<lparr>entry_buffer := eb\<rparr>)"
    "same_block b (blk ?m (fst (walk ?m ?i (dataregion_blocks_start ?i) (parsePath (path_of ns)))))"
    using find_path_block_ok [OF assms(1,2), of pb br "path_of ns"] by blast
  have "same_block b (blk ?m q)" using b(2) q(1) parsePath_path_of [OF assms(3)] by simp
  from filepath_same [OF this] block_inode_same [OF this] show thesis
    using that [OF b(1) _ _ q(2,3)] q(3,4) by simp
qed

end
