(* ===== verification/FS_Create.thy ===== *)
theory FS_Create
  imports FS_Tree
begin

section \<open>Creating a file\<close>

text \<open>
  Every operation as a step from one well-formed state to another with given disk contents, and
  \<open>create\<close> as the composition of such steps.
\<close>

subsection \<open>Steps of the disk\<close>

text \<open>A step that leaves the layout and has the disk contents \<open>m\<close> afterwards.\<close>

definition fs_step :: "fs \<Rightarrow> mem \<Rightarrow> fs \<Rightarrow> bool" where
  "fs_step s m s' \<longleftrightarrow> fs_ok s' \<and> info s' = info s \<and> content s' = m"

lemma fs_stepI:
  assumes "fs_ok s" "info s' = info s" "diskfile s' = diskfile s" "open_fd s' = open_fd s"
    "content s' = m" "msize m = msize (content s)"
  shows "fs_step s m s'"
  using assms by (simp add: fs_step_def fs_ok_def disk_ok_def)

lemma fs_step_local:
  assumes "fs_ok s"
  shows "fs_step s (content s) (s\<lparr>buffer := b\<rparr>)" "fs_step s (content s) (s\<lparr>entry_buffer := b\<rparr>)"
    "fs_step s (set_ino (content s) st n node) (s\<lparr>entry_buffer := b, content := set_ino (content s) st n node\<rparr>)"
    "fs_step s (set_blk (content s) c f) (s\<lparr>content := set_blk (content s) c f\<rparr>)"
  using assms by (auto intro!: fs_stepI)

lemma fs_stepD: "fs_step s m s' \<Longrightarrow> fs_ok s'" "fs_step s m s' \<Longrightarrow> info s' = info s" "fs_step s m s' \<Longrightarrow> content s' = m"
  by (simp_all add: fs_step_def)

lemma bitmap_block:
  assumes "layout_ok i"
  shows "n < total_inodes i \<Longrightarrow> inode_bitmap_start i + n div 4096 < dataregion_blocks_start i + dataregion_blocks i"
    "n < dataregion_blocks i \<Longrightarrow> dataregion_bitmap_start i + n div 4096 < dataregion_blocks_start i + dataregion_blocks i"
    "n < total_inodes i \<Longrightarrow> inode_blocks_start i + n div 8 < dataregion_blocks_start i + dataregion_blocks i"
    "0 \<le> inode_bitmap_start i" "0 \<le> dataregion_bitmap_start i" "0 \<le> inode_blocks_start i" "0 \<le> dataregion_blocks_start i"
proof -
  note l = assms [unfolded layout_ok_def]
  show "inode_bitmap_start i + n div 4096 < dataregion_blocks_start i + dataregion_blocks i" if "n < total_inodes i"
  proof -
    have "n < 4096 * inode_bitmap_blocks i" using l that by linarith
    then have "n div 4096 < inode_bitmap_blocks i" by linarith
    then show ?thesis using l by linarith
  qed
  show "dataregion_bitmap_start i + n div 4096 < dataregion_blocks_start i + dataregion_blocks i" if "n < dataregion_blocks i"
  proof -
    have "n < 4096 * dataregion_bitmap_blocks i" using l that by linarith
    then have "n div 4096 < dataregion_bitmap_blocks i" by linarith
    then show ?thesis using l by linarith
  qed
  show "inode_blocks_start i + n div 8 < dataregion_blocks_start i + dataregion_blocks i" if "n < total_inodes i"
  proof -
    have "n div 8 < inode_blocks i" using l that by simp
    then show ?thesis using l by linarith
  qed
qed (use assms in \<open>simp_all add: layout_ok_def\<close>)

lemma fs_ok_layout: "fs_ok s \<Longrightarrow> layout_ok (info s)"
  by (simp add: fs_ok_def)

lemma check_inode_fs:
  assumes "fs_ok s" "0 \<le> n" "n < total_inodes (info s)"
  shows "\<exists>b. check_inode_status n s = Some (of_bool (inode_used (content s) (info s) n), s\<lparr>buffer := b\<rparr>)"
  unfolding check_inode_status_def inode_used_def
  by (rule check_status_ok [OF fs_ok_disk [OF assms(1)] assms(2) bitmap_block(4) [OF fs_ok_layout [OF assms(1)]]
        bitmap_block(1) [OF fs_ok_layout [OF assms(1)] assms(3)]]) (rule exI)

lemma check_block_fs:
  assumes "fs_ok s" "0 \<le> n" "n < dataregion_blocks (info s)"
  shows "\<exists>b. check_dataregion_status n s = Some (of_bool (block_used (content s) (info s) n), s\<lparr>buffer := b\<rparr>)"
  unfolding check_dataregion_status_def block_used_def
  by (rule check_status_ok [OF fs_ok_disk [OF assms(1)] assms(2) bitmap_block(5) [OF fs_ok_layout [OF assms(1)]]
        bitmap_block(2) [OF fs_ok_layout [OF assms(1)] assms(3)]]) (rule exI)

lemma set_status_fs:
  assumes "fs_ok s" "0 \<le> n" "0 \<le> start" "start + n div 4096 < dataregion_blocks_start (info s) + dataregion_blocks (info s)"
  shows "\<exists>s'. set_status start n 1 s = Some (0, s') \<and> fs_step s (set_status_bit (content s) start n True) s'"
proof -
  obtain b where "set_status start n 1 s = Some (0, s\<lparr>buffer := b, content := set_status_bit (content s) start n True\<rparr>)"
    by (rule set_status_ok [OF fs_ok_disk [OF assms(1)] assms(2-4), of 1]) simp_all
  then show ?thesis using assms(1) by (auto intro!: fs_stepI)
qed

lemma set_inode_status_fs:
  assumes "fs_ok s" "0 \<le> n" "n < total_inodes (info s)"
  obtains s' where "set_inode_status n 1 s = Some (0, s')" "fs_step s (set_status_bit (content s) (inode_bitmap_start (info s)) n True) s'"
  using set_status_fs [OF assms(1,2), of "inode_bitmap_start (info s)"] bitmap_block [OF fs_ok_layout [OF assms(1)]] assms(3) that
  unfolding set_inode_status_def by blast

lemma set_block_status_fs:
  assumes "fs_ok s" "0 \<le> n" "n < dataregion_blocks (info s)"
  obtains s' where "set_dataregion_status n 1 s = Some (0, s')"
    "fs_step s (set_status_bit (content s) (dataregion_bitmap_start (info s)) n True) s'"
  using set_status_fs [OF assms(1,2), of "dataregion_bitmap_start (info s)"] bitmap_block [OF fs_ok_layout [OF assms(1)]] assms(3) that
  unfolding set_dataregion_status_def by blast

lemma get_inode_step:
  assumes "fs_ok s" "0 \<le> n" "n < total_inodes (info s)"
  obtains s' where "get_inode n s = Some (ino (content s) (inode_blocks_start (info s)) n, s')" "fs_step s (content s) s'"
  by (rule get_inode_fs [OF assms]) (rule that [OF _ fs_step_local(2) [OF assms(1)]])

lemma set_inode_step:
  assumes "fs_ok s" "0 \<le> n" "n < total_inodes (info s)"
  obtains s' where "set_inode n node s = Some s'" "fs_step s (set_ino (content s) (inode_blocks_start (info s)) n node) s'"
  by (rule set_inode_ok [OF fs_ok_disk [OF assms(1)] assms(2) bitmap_block(6) [OF fs_ok_layout [OF assms(1)]]
        bitmap_block(3) [OF fs_ok_layout [OF assms(1)] assms(3)]]) (rule that [OF _ fs_step_local(3) [OF assms(1)]])

lemma block_write_step:
  assumes "fs_ok s" "0 \<le> b" "b < dataregion_blocks_start (info s) + dataregion_blocks (info s)"
  obtains s' where "block_write s b f = Some (512, s')" "fs_step s (set_blk (content s) b f) s'" "buffer s' = buffer s"
  by (rule that [OF block_write_ok [OF fs_ok_disk [OF assms(1)] assms(2,3)] fs_step_local(4) [OF assms(1)]]) simp

subsection \<open>The bitmaps\<close>

text \<open>What the two bitmaps promise to the operations that allocate from them: reading and setting the status of
  each number below the total.\<close>

locale status_map =
  fixes total start :: "metadata_info \<Rightarrow> int"
    and used :: "mem \<Rightarrow> metadata_info \<Rightarrow> int \<Rightarrow> bool"
    and check :: "int \<Rightarrow> fs \<Rightarrow> (int \<times> fs) option"
    and mark :: "int \<Rightarrow> int \<Rightarrow> fs \<Rightarrow> (int \<times> fs) option"
  assumes used_eq: "used m i n = status_bit m (start i) n"
    and check_ok: "fs_ok s \<Longrightarrow> 0 \<le> n \<Longrightarrow> n < total (info s) \<Longrightarrow>
      \<exists>b. check n s = Some (of_bool (used (content s) (info s) n), s\<lparr>buffer := b\<rparr>)"
    and mark_ok: "fs_ok s \<Longrightarrow> 0 \<le> n \<Longrightarrow> n < total (info s) \<Longrightarrow>
      \<exists>s'. mark n 1 s = Some (0, s') \<and> fs_step s (set_status_bit (content s) (start (info s)) n True) s'"
begin

text \<open>The search finds the first number that is free.\<close>

lemma first_free:
  assumes "fs_ok s" "0 \<le> f" "f < total (info s)" "\<not> used (content s) (info s) f"
  obtains s' r where "find_free check (nat (total (info s))) 0 s = Some (r, s')" "fs_step s (content s) s'"
    "0 \<le> r" "r < total (info s)" "\<not> used (content s) (info s) r" "\<And>k. 0 \<le> k \<Longrightarrow> k < r \<Longrightarrow> used (content s) (info s) k"
proof -
  let ?R = "\<lambda>t. fs_ok t \<and> content t = content s \<and> info t = info s" and ?N = "total (info s)" and ?Q = "used (content s) (info s)"
  have N: "int (nat ?N) = ?N" using assms(2,3) by simp
  have "\<exists>b r. find_free check (nat ?N) 0 s = Some (r, s\<lparr>buffer := b\<rparr>) \<and>
    (r = -1 \<and> (\<forall>i. 0 \<le> i \<and> i < 0 + int (nat ?N) \<longrightarrow> ?Q i) \<or>
     0 \<le> r \<and> r < 0 + int (nat ?N) \<and> \<not> ?Q r \<and> (\<forall>i. 0 \<le> i \<and> i < r \<longrightarrow> ?Q i))"
  proof (rule find_free_ok [where R = ?R])
    show "\<exists>b. check i t = Some (of_bool (?Q i), t\<lparr>buffer := b\<rparr>) \<and> ?R (t\<lparr>buffer := b\<rparr>)"
      if "?R t" "0 \<le> i" "i < 0 + int (nat ?N)" for i t
      using that check_ok [of t i] N by fastforce
  qed (use assms(1) in simp)
  then obtain b r where r: "find_free check (nat ?N) 0 s = Some (r, s\<lparr>buffer := b\<rparr>)" "0 \<le> r" "r < ?N" "\<not> ?Q r"
    "\<forall>i. 0 \<le> i \<and> i < r \<longrightarrow> ?Q i"
    using assms(2-4) N by (metis add_0)
  then show thesis using that [OF r(1) fs_step_local(1) [OF assms(1)] r(2-4)] by blast
qed

text \<open>A number that was marked reads as allocated, and the others as before.\<close>

lemma marked:
  assumes "fs_ok s" "0 \<le> n" "n < total (info s)" "0 \<le> k" "k < total (info s)"
  obtains s1 s2 where "mark n 1 s = Some (0, s1)"
    "check k s1 = Some (if k = n then 1 else of_bool (used (content s) (info s) k), s2)"
proof -
  obtain s1 where s1: "mark n 1 s = Some (0, s1)" "fs_step s (set_status_bit (content s) (start (info s)) n True) s1"
    using mark_ok [OF assms(1-3)] by blast
  note m1 = fs_stepD [OF s1(2)]
  have "used (content s1) (info s1) k = (k = n \<or> used (content s) (info s) k)"
    unfolding used_eq m1 by (cases "k = n") (simp_all add: status_bit_same status_bit_other)
  moreover obtain b where "check k s1 = Some (of_bool (used (content s1) (info s1) k), s1\<lparr>buffer := b\<rparr>)"
    using check_ok [OF m1(1) assms(4)] assms(5) m1(2) by auto
  ultimately show thesis using that [OF s1(1)] by auto
qed

end

interpretation inodes: status_map total_inodes inode_bitmap_start inode_used check_inode_status set_inode_status
proof
  fix s n assume h: "fs_ok s" "0 \<le> n" "n < total_inodes (info s)"
  show "\<exists>b. check_inode_status n s = Some (of_bool (inode_used (content s) (info s) n), s\<lparr>buffer := b\<rparr>)"
    by (rule check_inode_fs [OF h])
  show "\<exists>s'. set_inode_status n 1 s = Some (0, s') \<and> fs_step s (set_status_bit (content s) (inode_bitmap_start (info s)) n True) s'"
    using set_inode_status_fs [OF h] by metis
qed (simp add: inode_used_def)

interpretation blocks: status_map dataregion_blocks dataregion_bitmap_start block_used check_dataregion_status set_dataregion_status
proof
  fix s n assume h: "fs_ok s" "0 \<le> n" "n < dataregion_blocks (info s)"
  show "\<exists>b. check_dataregion_status n s = Some (of_bool (block_used (content s) (info s) n), s\<lparr>buffer := b\<rparr>)"
    by (rule check_block_fs [OF h])
  show "\<exists>s'. set_dataregion_status n 1 s = Some (0, s') \<and> fs_step s (set_status_bit (content s) (dataregion_bitmap_start (info s)) n True) s'"
    using set_block_status_fs [OF h] by metis
qed (simp add: block_used_def)

lemma find_free_inode_step:
  assumes "fs_ok s" "0 \<le> f" "f < total_inodes (info s)" "\<not> inode_used (content s) (info s) f"
  obtains s' r where "find_free_inode s = Some (r, s')" "fs_step s (content s) s'" "0 \<le> r" "r < total_inodes (info s)"
    "\<not> inode_used (content s) (info s) r"
  by (rule inodes.first_free [OF assms]) (rule that, simp_all add: find_free_inode_def)

lemma find_free_block_step:
  assumes "fs_ok s" "0 \<le> f" "f < dataregion_blocks (info s)" "\<not> block_used (content s) (info s) f"
  obtains s' r where "find_free_datablock s = Some (r, s')" "fs_step s (content s) s'" "0 \<le> r" "r < dataregion_blocks (info s)"
    "\<not> block_used (content s) (info s) r"
  by (rule blocks.first_free [OF assms]) (rule that, simp_all add: find_free_datablock_def)

lemma free_slot_ok:
  assumes "length (direct_ptrs node) = 12" "0 \<in> set (direct_ptrs node)"
  obtains j where "free_slot node = Some j" "j < 12" "direct_ptrs node ! j = 0"
proof -
  have "find (\<lambda>j. direct_ptrs node ! j = 0) [0..<12] \<noteq> None"
    using assms by (auto simp: find_None_iff in_set_conv_nth)
  then obtain j where "free_slot node = Some j" by (auto simp: free_slot_def)
  then show thesis using that [of j] by (auto simp: free_slot_def find_Some_iff)
qed

subsection \<open>The disk after a creation\<close>

text \<open>Inode \<open>r\<close> and data block \<open>d\<close> are marked, slot \<open>j\<close> of inode \<open>k\<close> points to the block and the block has
  contents \<open>f\<close>.\<close>

definition created :: "mem \<Rightarrow> metadata_info \<Rightarrow> int \<Rightarrow> int \<Rightarrow> int \<Rightarrow> nat \<Rightarrow> buf \<Rightarrow> mem" where
  "created m i r d k j f =
     set_blk (set_ino (set_status_bit (set_status_bit m (inode_bitmap_start i) r True) (dataregion_bitmap_start i) d True)
         (inode_blocks_start i) k
         (ino m (inode_blocks_start i) k\<lparr>direct_ptrs := (ptrs m i k)[j := dataregion_blocks_start i + d]\<rparr>))
       (dataregion_blocks_start i + d) f"

lemma wf_inode_ptr:
  assumes "wf_inode node" "in32 v"
  shows "wf_inode (node\<lparr>direct_ptrs := (direct_ptrs node)[j := v]\<rparr>)"
  using assms set_update_subset_insert [of "direct_ptrs node" j v] by (auto simp: wf_inode_def)

lemma created_views:
  assumes "layout_ok i" "0 \<le> r" "r < total_inodes i" "0 \<le> d" "d < dataregion_blocks i" "0 \<le> k" "k < total_inodes i"
    "in32 (dataregion_blocks_start i + d)"
  shows "0 \<le> n \<Longrightarrow> n < total_inodes i \<Longrightarrow> inode_used (created m i r d k j f) i n = (n = r \<or> inode_used m i n)"
    "0 \<le> n \<Longrightarrow> n < dataregion_blocks i \<Longrightarrow> block_used (created m i r d k j f) i n = (n = d \<or> block_used m i n)"
    "0 \<le> n \<Longrightarrow> n < total_inodes i \<Longrightarrow> ptrs (created m i r d k j f) i n =
       (if n = k then (ptrs m i k)[j := dataregion_blocks_start i + d] else ptrs m i n)"
    "dataregion_blocks_start i \<le> b \<Longrightarrow>
       same_block (blk (created m i r d k j f) b) (if b = dataregion_blocks_start i + d then f else blk m b)"
proof -
  define m1 where "m1 = set_status_bit m (inode_bitmap_start i) r True"
  define m2 where "m2 = set_status_bit m1 (dataregion_bitmap_start i) d True"
  define node where "node = ino m (inode_blocks_start i) k\<lparr>direct_ptrs := (ptrs m i k)[j := dataregion_blocks_start i + d]\<rparr>"
  define m3 where "m3 = set_ino m2 (inode_blocks_start i) k node"
  have c: "created m i r d k j f = set_blk m3 (dataregion_blocks_start i + d) f"
    by (simp add: created_def m1_def m2_def m3_def node_def)
  have "wf_inode node"
    using wf_inode_ptr [OF wf_inode_at assms(8)] by (simp add: node_def ino_def ptrs_def)
  note v = mark_inode [OF assms(1-3) m1_def] mark_block [OF assms(1,4,5) m2_def]
    write_inode [OF assms(1,6,7) m3_def this] write_block [OF assms(1) _ c]
  have d: "dataregion_blocks_start i \<le> dataregion_blocks_start i + d" using assms(4) by simp
  show "inode_used (created m i r d k j f) i n = (n = r \<or> inode_used m i n)" if "0 \<le> n" "n < total_inodes i"
    unfolding v(13) [OF d that] v(9) [OF that] v(5) [OF that] v(1) [OF that] by simp
  show "block_used (created m i r d k j f) i n = (n = d \<or> block_used m i n)" if "0 \<le> n" "n < dataregion_blocks i"
    unfolding v(14) [OF d that] v(10) [OF that] v(6) [OF that] v(2) [OF that] by simp
  show "ptrs (created m i r d k j f) i n = (if n = k then (ptrs m i k)[j := dataregion_blocks_start i + d] else ptrs m i n)"
    if "0 \<le> n" "n < total_inodes i"
    unfolding ptrs_def v(15) [OF d that] v(11) [OF that] v(7) [OF that] v(3) [OF that]
    by (simp add: node_def ptrs_def)
  show "same_block (blk (created m i r d k j f) b) (if b = dataregion_blocks_start i + d then f else blk m b)"
    if "dataregion_blocks_start i \<le> b"
  proof -
    have "same_block (blk m3 b) (blk m b)"
      by (rule same_block_trans [OF v(12) [OF that] same_block_trans [OF v(8) [OF that] v(4) [OF that]]])
    then show ?thesis using v(16) [OF d, of b] by (auto intro: same_block_trans)
  qed
qed

lemma find_slot:
  assumes "j < length ps" "ps ! j = z" "\<not> P z" "\<And>p. p \<in> set ps \<Longrightarrow> P' p = P p"
  shows "\<not> P' v \<Longrightarrow> find P' (ps[j := v]) = find P ps" "P' v \<Longrightarrow> find P ps = None \<Longrightarrow> find P' (ps[j := v]) = Some v"
  using assms
proof (induction ps arbitrary: j)
  case (Cons p ps)
  {
    case 1
    then show ?case using Cons.IH(1) [of "j - 1"] by (cases j) (auto cong: find_cong)
  next
    case 2
    then show ?case using Cons.IH(2) [of "j - 1"] by (cases j) (auto split: if_splits)
  }
qed simp_all

text \<open>A creation in the graph, seen from the blocks.\<close>

lemma created_entry_old:
  assumes "layout_ok i" "0 \<le> r" "r < total_inodes i" "0 \<le> d" "d < dataregion_blocks i" "0 \<le> k" "k < total_inodes i"
    "in32 (dataregion_blocks_start i + d)" "\<not> block_used m i d" "entry_in m i p"
  shows "filepath (blk (created m i r d k j f) p) = filepath (blk m p)"
    "block_inode (blk (created m i r d k j f) p) = block_inode (blk m p)"
    "entry_in (created m i r d k j f) i p"
proof -
  note v = created_views [where m = m and j = j and f = f, OF assms(1-8)]
  have p: "dataregion_blocks_start i \<le> p" "p \<noteq> dataregion_blocks_start i + d"
    using assms(9,10) by (auto simp: entry_in_def)
  have b: "same_block (blk (created m i r d k j f) p) (blk m p)" using v(4) [OF p(1)] p(2) by simp
  note same = filepath_same [OF b] block_inode_same [OF b]
  show "filepath (blk (created m i r d k j f) p) = filepath (blk m p)"
    "block_inode (blk (created m i r d k j f) p) = block_inode (blk m p)" using same by auto
  show "entry_in (created m i r d k j f) i p"
    using assms(10) v(1,2) unfolding entry_in_def same by auto
qed

lemma created_tree:
  assumes "layout_ok i" "0 \<le> r" "r < total_inodes i" "0 \<le> d" "d < dataregion_blocks i" "0 \<le> k" "k < total_inodes i"
    "in32 (dataregion_blocks_start i + d)" "\<not> block_used m i d" "tree_ok m i" "\<not> inode_used m i r" "inode_used m i k"
    "filepath f = Some name" "block_inode f = r" "j < 12" "ptrs m i k ! j = 0" "children m i k name = None"
  shows "tree_ok (created m i r d k j f) i" "children (created m i r d k j f) i = link (children m i) k name r"
    "children m i r n = None" "inode_used (created m i r d k j f) i r"
proof -
  let ?m = "created m i r d k j f" and ?new = "dataregion_blocks_start i + d"
  note v = created_views [where m = m and j = j and f = f, OF assms(1-8)] and old = created_entry_old [where j = j and f = f, OF assms(1-9)]
  have ents: "entry_in m i p" "inode_used m i x" if "0 \<le> x" "x < total_inodes i" "p \<in> set (ptrs m i x)" "p \<noteq> 0" for x p
    using assms(10) that unfolding tree_ok_def by blast+
  have new: "?new \<noteq> 0" "same_block (blk ?m ?new) f"
    using v(4) [of ?new] assms(1,4) places [OF assms(1)] by (auto simp: layout_ok_def)
  note newf = filepath_same [OF new(2)] block_inode_same [OF new(2)]
  have new_entry: "entry_in ?m i ?new"
    unfolding entry_in_def newf using assms(2-5,13,14) v(1,2) by simp
  note root = tree_root [OF assms(10)]
  show "tree_ok ?m i" unfolding tree_ok_def
  proof (intro conjI allI impI)
    show "entry_in ?m i (dataregion_blocks_start i)" by (rule old(3) [OF root(1)])
    show "filepath (blk ?m (dataregion_blocks_start i)) = Some []" using old(1) [OF root(1)] root(3) by simp
    show "block_inode (blk ?m (dataregion_blocks_start i)) = 0" using old(2) [OF root(1)] root(2) by simp
  next
    fix x p assume h: "0 \<le> x \<and> x < total_inodes i \<and> p \<in> set (ptrs ?m i x) \<and> p \<noteq> 0"
    then have "p \<in> set (ptrs m i x) \<or> x = k \<and> p = ?new"
      using v(3) [of x] set_update_subset_insert [of "ptrs m i k" j ?new] by (auto split: if_splits)
    then show "inode_used ?m i x" "entry_in ?m i p"
      using h ents [of x p] old(3) new_entry v(1) [of x] assms(12) by auto
  qed
  have len: "length (ptrs m i k) = 12" by (simp add: ptrs_def ino_def)
  have dir: "dir_entry ?m (ptrs ?m i x) n = (if x = k \<and> n = name then Some ?new else dir_entry m (ptrs m i x) n)"
    if x: "0 \<le> x" "x < total_inodes i" for x n
  proof -
    let ?P = "\<lambda>p. p \<noteq> 0 \<and> filepath (blk m p) = Some n" and ?P' = "\<lambda>p. p \<noteq> 0 \<and> filepath (blk ?m p) = Some n"
    have P: "?P' p = ?P p" if "p \<in> set (ptrs m i x)" for p
      using that ents(1) [OF x that] old(1) [of p] by auto
    show ?thesis
    proof (cases "x = k")
      case False
      then show ?thesis using v(3) [OF x] P by (auto simp: dir_entry_def cong: find_cong)
    next
      case True
      note f = find_slot [of j "ptrs m i k" 0 ?P ?P' ?new]
      show ?thesis
      proof (cases "n = name")
        case True
        have "dir_entry m (ptrs m i k) name = None" using assms(6,7,17) by (simp add: children_def)
        then show ?thesis
          using f(2) P assms(13,15,16) new newf len v(3) [OF x] True \<open>x = k\<close> by (simp add: dir_entry_def)
      next
        case False
        then show ?thesis
          using f(1) P assms(13,15,16) newf len v(3) [OF x] \<open>x = k\<close> by (simp add: dir_entry_def)
      qed
    qed
  qed
  show "children ?m i = link (children m i) k name r"
  proof (intro ext)
    fix x n
    show "children ?m i x n = link (children m i) k name r x n"
    proof (cases "0 \<le> x \<and> x < total_inodes i")
      case True
      have e: "block_inode (blk ?m q) = block_inode (blk m q)" if "dir_entry m (ptrs m i x) n = Some q" for q
        using dir_entry_Some [OF that] ents(1) [of x q] True old(2) by blast
      show ?thesis
        using True dir [of x n] e newf assms(14)
        by (cases "dir_entry m (ptrs m i x) n") (auto simp: children_def link_def)
    next
      case False
      then show ?thesis using assms(6,7) by (auto simp: children_def link_def)
    qed
  qed
  have "p = 0" if "p \<in> set (ptrs m i r)" for p using ents(2) [OF assms(2,3) that] assms(11) by blast
  then show "children m i r n = None" by (auto simp: children_def dir_entry_def find_None_iff)
  show "inode_used ?m i r" using v(1) assms(2,3) by simp
qed

subsection \<open>\<open>create\<close>\<close>

text \<open>The code with its intermediate values named.\<close>

lemma create_eval:
  assumes "get_num_dirs path = Suc l" "parsePath path ! l = name"
    "find_path_block pb br path s = Some (be, s1)" "filepath be = Some n" "block_inode be = k" "name \<noteq> n"
    "find_free_inode s1 = Some (x, s2)" "set_inode_status x 1 s2 = Some (0, s3)"
    "find_free_datablock s3 = Some (d, s4)" "set_dataregion_status d 1 s4 = Some (0, s5)"
    "strcpy_path fb name = Some fb1" "get_inode k s5 = Some (node, s6)" "free_slot node = Some j"
    "set_inode k (node\<lparr>direct_ptrs := (direct_ptrs node)[j := dataregion_blocks_start (info s6) + d]\<rparr>) s6 = Some s7"
    "block_write s7 (dataregion_blocks_start (info s7) + d) (put32 fb1 508 x) = Some (c, s8)"
  shows "create pb br fb path s = Some (0, s8)"
  using assms by (simp add: create_def)

lemma create_refused_eval:
  assumes "get_num_dirs path = Suc l" "parsePath path ! l = name"
    "find_path_block pb br path s = Some (be, s1)" "filepath be = Some name"
  shows "create pb br fb path s = Some (-1, s1)"
  using assms by (simp add: create_def)

lemma path_of_last:
  assumes "ns \<noteq> []" "\<forall>n \<in> set ns. slash \<notin> set n"
  shows "get_num_dirs (path_of ns) = Suc (length ns - 1)" "parsePath (path_of ns) ! (length ns - 1) = last ns"
proof -
  have l: "length ns = get_num_dirs (path_of ns)"
    using parsePath_path_of [OF assms(2)] length_parsePath [of "path_of ns"] by simp
  moreover have "length ns \<noteq> 0" using assms(1) by simp
  ultimately show "get_num_dirs (path_of ns) = Suc (length ns - 1)" by linarith
  show "parsePath (path_of ns) ! (length ns - 1) = last ns"
    using parsePath_path_of [OF assms(2)] assms(1) by (simp add: last_conv_nth)
qed

lemma fs_ok_range:
  assumes "fs_ok s"
  shows "0 \<le> d \<Longrightarrow> d < dataregion_blocks (info s) \<Longrightarrow> in32 (dataregion_blocks_start (info s) + d)"
    "0 \<le> r \<Longrightarrow> r < total_inodes (info s) \<Longrightarrow> s32 r = r"
  using assms by (auto simp: fs_ok_def layout_ok_def disk_ok_def in32_def intro: s32_id)

lemma create_ok:
  assumes fs: "fs_ok s" and tree: "tree_ok (content s) (info s)"
    and ns: "ns \<noteq> []" "\<forall>n \<in> set ns. slash \<notin> set n" "name_ok (last ns)"
    and way: "resolve (children (content s) (info s)) 0 ns = (k, rest)" "found_name ns rest \<noteq> last ns"
    and none: "children (content s) (info s) k (last ns) = None"
    and free: "0 \<le> f" "f < total_inodes (info s)" "\<not> inode_used (content s) (info s) f"
      "0 \<le> e" "e < dataregion_blocks (info s)" "\<not> block_used (content s) (info s) e" "0 \<in> set (ptrs (content s) (info s) k)"
  obtains s' r where "create pb br fb (path_of ns) s = Some (0, s')" "fs_ok s'" "tree_ok (content s') (info s)" "info s' = info s"
    "0 \<le> r" "r < total_inodes (info s)" "\<not> inode_used (content s) (info s) r" "inode_used (content s') (info s) r"
    "children (content s) (info s) r = Map.empty"
    "children (content s') (info s) = link (children (content s) (info s)) k (last ns) r"
proof -
  let ?m = "content s" and ?i = "info s"
  have l: "layout_ok ?i" using fs by (simp add: fs_ok_def)
  obtain be eb q where b: "find_path_block pb br (path_of ns) s = Some (be, s\<lparr>entry_buffer := eb\<rparr>)"
    "filepath be = Some (found_name ns rest)" "block_inode be = k" "entry_in ?m ?i q" "block_inode (blk ?m q) = k"
    by (rule find_path_block_resolve [OF fs tree ns(2) way(1)])
  have k: "0 \<le> k" "k < total_inodes ?i" "inode_used ?m ?i k" using b(4,5) by (auto simp: entry_in_def)
  define s1 where "s1 = s\<lparr>entry_buffer := eb\<rparr>"
  have s1: "fs_ok s1" "info s1 = ?i" "content s1 = ?m" using fs by (simp_all add: s1_def)
  obtain s2 r where r: "find_free_inode s1 = Some (r, s2)" "fs_step s1 ?m s2" "0 \<le> r" "r < total_inodes ?i" "\<not> inode_used ?m ?i r"
    using find_free_inode_step [of s1 f] s1 free(1-3) by metis
  note s2 = fs_stepD [OF r(2)]
  obtain s3 where s3: "set_inode_status r 1 s2 = Some (0, s3)" "fs_step s2 (set_status_bit ?m (inode_bitmap_start ?i) r True) s3"
    using set_inode_status_fs [OF s2(1) r(3)] r(4) s1 s2 by metis
  note m3 = fs_stepD [OF s3(2)]
  note v3 = mark_inode [OF l r(3,4) m3(3)]
  obtain s4 d where d: "find_free_datablock s3 = Some (d, s4)" "fs_step s3 (content s3) s4" "0 \<le> d" "d < dataregion_blocks ?i"
    "\<not> block_used (content s3) ?i d"
    using find_free_block_step [OF m3(1), of e] m3 s2 s1 v3(2) [of e] free(4-6) by metis
  note s4 = fs_stepD [OF d(2)]
  obtain s5 where s5: "set_dataregion_status d 1 s4 = Some (0, s5)"
    "fs_step s4 (set_status_bit (content s3) (dataregion_bitmap_start ?i) d True) s5"
    using set_block_status_fs [OF s4(1) d(3)] d(4) s1 s2 m3 s4 by metis
  note m5 = fs_stepD [OF s5(2)]
  note v5 = mark_block [OF l d(3,4) m5(3)]
  have i5: "info s5 = ?i" using m5 s4 m3 s2 s1 by simp
  let ?node = "ino ?m (inode_blocks_start ?i) k"
  obtain s6 where g: "get_inode k s5 = Some (?node, s6)" "fs_step s5 (content s5) s6"
    using get_inode_step [OF m5(1) k(1)] k(2) v5(3) [OF k(1,2)] v3(3) [OF k(1,2)] i5 by metis
  note s6 = fs_stepD [OF g(2)]
  obtain j where j: "free_slot ?node = Some j" "j < 12" "ptrs ?m ?i k ! j = 0"
    using free_slot_ok [of ?node] free(7) by (auto simp: ino_def ptrs_def)
  let ?c = "dataregion_blocks_start ?i + d" and ?node' = "?node\<lparr>direct_ptrs := (direct_ptrs ?node)[j := dataregion_blocks_start (info s6) + d]\<rparr>"
  obtain s7 where s7: "set_inode k ?node' s6 = Some s7" "fs_step s6 (set_ino (content s5) (inode_blocks_start ?i) k ?node') s7"
    using set_inode_step [OF s6(1) k(1), of ?node'] k(2) s6 i5 by metis
  note m7 = fs_stepD [OF s7(2)]
  obtain fb1 where f: "strcpy_path fb (last ns) = Some fb1" "filepath (put32 fb1 508 r) = Some (last ns)"
    "block_inode (put32 fb1 508 r) = s32 r"
    by (rule entry_ok [OF ns(3)])
  have c: "0 \<le> dataregion_blocks_start (info s7) + d"
    "dataregion_blocks_start (info s7) + d < dataregion_blocks_start (info s7) + dataregion_blocks (info s7)"
    using d(3,4) bitmap_block(7) [OF l] m7 s6 i5 by simp_all
  obtain s8 where s8: "block_write s7 (dataregion_blocks_start (info s7) + d) (put32 fb1 508 r) = Some (512, s8)"
    "fs_step s7 (set_blk (content s7) (dataregion_blocks_start (info s7) + d) (put32 fb1 508 r)) s8"
    by (rule block_write_step [OF m7(1) c])
  note m8 = fs_stepD [OF s8(2)]
  have run: "create pb br fb (path_of ns) s = Some (0, s8)"
    by (rule create_eval [OF path_of_last [OF ns(1,2)] b(1) [folded s1_def] b(2,3) way(2) [symmetric]
          r(1) s3(1) d(1) s5(1) f(1) g(1) j(1) s7(1) s8(1)])
  have i8: "info s8 = ?i" using m8 m7 s6 i5 by simp
  have c8: "content s8 = created ?m ?i r d k j (put32 fb1 508 r)"
    using m8(3) m7 m5(3) m3(3) s6 i5 by (simp add: created_def ptrs_def)
  have d0: "\<not> block_used ?m ?i d" using v3(2) d(3-5) by simp
  have fi: "block_inode (put32 fb1 508 r) = r" using f(3) fs_ok_range(2) [OF fs r(3,4)] by simp
  note T = created_tree [OF l r(3,4) d(3,4) k(1,2) fs_ok_range(1) [OF fs d(3,4)] d0 tree r(5) k(3) f(2) fi j(2,3) none]
  show thesis
    by (rule that [OF run m8(1) _ i8 r(3-5)]) (use T in \<open>auto simp: c8\<close>)
qed

end
