(* ===== verification/FS_Init.thy ===== *)
theory FS_Init
  imports FS_Create
begin

section \<open>Making a file system\<close>

text \<open>
  Formatting a disk, as the composition of steps from the superblock to the entry of the root.
\<close>

subsection \<open>Filling regions\<close>

definition set_blks :: "mem \<Rightarrow> int \<Rightarrow> nat \<Rightarrow> buf \<Rightarrow> mem" where
  "set_blks m start n b =
     m\<lparr>mbytes := (\<lambda>x. if 512 * start \<le> x \<and> x < 512 * (start + int n) then b (x mod 512) else mbytes m x)\<rparr>"

lemma set_blks_size [simp]: "msize (set_blks m start n b) = msize m"
  by (simp add: set_blks_def)

lemma mod_block: "0 \<le> y \<Longrightarrow> y < 512 \<Longrightarrow> (512 * c + y) mod 512 = (y::int)"
  by (simp add: mod_pos_pos_trivial)

lemma set_blks_Suc: "set_blks (set_blk m start b) (start + 1) n b = set_blks m start (Suc n) b"
proof -
  have "mbytes (set_blks (set_blk m start b) (start + 1) n b) x = mbytes (set_blks m start (Suc n) b) x" for x
  proof (cases "512 * start \<le> x \<and> x < 512 * start + 512")
    case True
    then have "x mod 512 = x - 512 * start" using mod_block [of "x - 512 * start" start] by simp
    then show ?thesis using True by (simp add: set_blks_def set_blk_def)
  next
    case False
    then show ?thesis by (auto simp: set_blks_def set_blk_def)
  qed
  then show ?thesis by (simp add: set_blks_def set_blk_def fun_eq_iff)
qed

lemma write_blocks_ok:
  assumes "disk_ok N s" "0 \<le> start" "start + int n \<le> N"
  shows "write_blocks n start b s = Some (s\<lparr>content := set_blks (content s) start n b\<rparr>)"
  using assms
proof (induction n arbitrary: start s)
  case 0
  have "set_blks (content s) start 0 b = content s" by (cases "content s") (auto simp: set_blks_def fun_eq_iff)
  then show ?case by simp
next
  case (Suc n)
  let ?s = "s\<lparr>content := set_blk (content s) start b\<rparr>"
  have "block_write s start b = Some (512, ?s)" using Suc.prems by (intro block_write_ok [OF Suc.prems(1)]) auto
  moreover have "write_blocks n (start + 1) b ?s = Some (?s\<lparr>content := set_blks (content ?s) (start + 1) n b\<rparr>)"
    using Suc.prems by (intro Suc.IH) auto
  ultimately show ?case by (simp add: set_blks_Suc)
qed

lemma inode_at_other: "b + 64 \<le> a \<or> a + 64 \<le> b \<Longrightarrow> inode_at (put_inode f a node) b = inode_at f b"
  by (rule inode_at_cong) (auto intro!: put_inode_other)

lemma wf_empty_inode [simp]: "wf_inode empty_inode"
  by (simp add: wf_inode_def empty_inode_def in32_def)

text \<open>The block of eight cleared inodes.\<close>

lemma empty_block:
  assumes "0 \<le> j" "j < 8"
  shows "inode_at (fold (\<lambda>i f. put_inode f (64 * int i) empty_inode) [0..<8] f) (64 * j) = empty_inode"
proof -
  have "j \<in> {0, 1, 2, 3, 4, 5, 6, 7}" using assms by auto
  then show ?thesis by (auto simp: upt_conv_Cons inode_at_other)
qed

subsection \<open>The regions after formatting\<close>

lemma formatted_views:
  assumes "layout_ok i" "\<And>x. 0 \<le> x \<Longrightarrow> x < 512 \<Longrightarrow> z x = 0" "\<And>j. 0 \<le> j \<Longrightarrow> j < 8 \<Longrightarrow> inode_at f (64 * j) = empty_inode"
    and "m' = set_blks (set_blks (set_blks m 1 (nat (dataregion_bitmap_blocks i)) z)
        (inode_bitmap_start i) (nat (inode_bitmap_blocks i)) z) (inode_blocks_start i) (nat (inode_blocks i)) f"
  shows "0 \<le> n \<Longrightarrow> n < total_inodes i \<Longrightarrow> \<not> inode_used m' i n"
    "0 \<le> n \<Longrightarrow> n < dataregion_blocks i \<Longrightarrow> \<not> block_used m' i n"
    "0 \<le> n \<Longrightarrow> n < total_inodes i \<Longrightarrow> ino m' (inode_blocks_start i) n = empty_inode"
proof -
  have z: "z (x mod 512) = 0" for x by (rule assms(2)) simp_all
  have l: "dataregion_bitmap_start i = 1" "inode_bitmap_start i = 1 + int (nat (dataregion_bitmap_blocks i))"
    "inode_blocks_start i = inode_bitmap_start i + int (nat (inode_bitmap_blocks i))"
    "dataregion_blocks_start i = inode_blocks_start i + int (nat (inode_blocks i))"
    using assms(1) by (simp_all add: layout_ok_def)
  show "\<not> inode_used m' i n" if "0 \<le> n" "n < total_inodes i"
  proof -
    note p = inode_bit_place [OF assms(1) that]
    have "mbytes m' (512 * inode_bitmap_start i + n div 8) = 0"
      using p z l(3) by (simp add: assms(4) set_blks_def)
    then show ?thesis by (simp add: inode_used_def status_bit_def)
  qed
  show "\<not> block_used m' i n" if "0 \<le> n" "n < dataregion_blocks i"
  proof -
    note p = block_bit_place [OF assms(1) that] and pl = places [OF assms(1)]
    have "mbytes m' (512 * dataregion_bitmap_start i + n div 8) = 0"
      using p pl z l(1,2) by (simp add: assms(4) set_blks_def)
    then show ?thesis by (simp add: block_used_def status_bit_def)
  qed
  show "ino m' (inode_blocks_start i) n = empty_inode" if "0 \<le> n" "n < total_inodes i"
  proof -
    note p = inode_place [OF assms(1) that]
    have "ino m' (inode_blocks_start i) n = inode_at f (64 * (n mod 8))"
      unfolding ino_def
    proof (rule inode_at_cong)
      fix x :: int assume x: "0 \<le> x" "x < 64"
      define q r where "q = n div 8" and "r = n mod 8"
      then have n: "n = 8 * q + r" "0 \<le> r" "r < 8" by simp_all
      then have e: "512 * inode_blocks_start i + 64 * n + x = 512 * (inode_blocks_start i + q) + (64 * r + x)" by simp
      have "(512 * (inode_blocks_start i + q) + (64 * r + x)) mod 512 = 64 * r + x" using n x by (intro mod_block) linarith+
      then have "(512 * inode_blocks_start i + 64 * n + x) mod 512 = 64 * (n mod 8) + x" unfolding e r_def .
      then show "mbytes m' (512 * inode_blocks_start i + 64 * n + x) = f (64 * (n mod 8) + x)"
        using p x l(4) by (simp add: assms(4) set_blks_def)
    qed
    then show ?thesis using assms(3) [of "n mod 8"] by simp
  qed
qed

subsection \<open>\<open>sfs_init\<close>\<close>

lemma sfs_init_eval:
  assumes "disk_open fd s = Some s0" "get_metadata_info (s32 (msize (content s0))) = i" "s0\<lparr>info := i\<rparr> = s1" "info s1 = i"
    "block_write s1 0 (put_info sblock i) = Some (c0, s2)" "info s2 = i"
    "write_blocks (nat (dataregion_bitmap_blocks i)) 1 (buffer s2) s2 = Some s3" "info s3 = i"
    "write_blocks (nat (inode_bitmap_blocks i)) (1 + int (nat (dataregion_bitmap_blocks i))) (buffer s3) s3 = Some s4" "info s4 = i"
    "write_blocks (nat (inode_blocks i)) (1 + int (nat (dataregion_bitmap_blocks i)) + int (nat (inode_bitmap_blocks i)))
       (fold (\<lambda>i f. put_inode f (64 * int i) empty_inode) [0..<8] block) s4 = Some s5" "info s5 = i"
    "strcpy_path fblock [] = Some fb" "get_inode 0 s5 = Some (node, s6)"
    "set_inode 0 (node\<lparr>size_of := 12 * BLOCK_SIZE, flags := 1\<rparr>) s6 = Some s7" "set_inode_status 0 1 s7 = Some (0, s8)"
    "set_dataregion_status 0 1 s8 = Some (0, s9)" "info s9 = i"
    "block_write s9 (dataregion_blocks_start i) (put32 fb 508 0) = Some (c1, s10)"
  shows "sfs_init fd block sblock fblock s = Some s10"
  using assms(1-2,4-) by (simp add: sfs_init_def assms(3) Let_def del: int_nat_eq)

lemma write_blocks_step:
  assumes "fs_ok s" "0 \<le> start" "start + int n \<le> dataregion_blocks_start (info s) + dataregion_blocks (info s)"
  obtains s' where "write_blocks n start b s = Some s'" "fs_step s (set_blks (content s) start n b) s'" "buffer s' = buffer s"
  by (rule that [OF write_blocks_ok [OF fs_ok_disk [OF assms(1)] assms(2,3)]]) (use assms(1) in \<open>auto intro!: fs_stepI\<close>)

text \<open>The blocks before the data region.\<close>

lemma format_ok:
  assumes "fs_ok s" "info s = i" "\<And>x. 0 \<le> x \<Longrightarrow> x < 512 \<Longrightarrow> buffer s x = 0"
    "\<And>j. 0 \<le> j \<Longrightarrow> j < 8 \<Longrightarrow> inode_at f (64 * j) = empty_inode"
  obtains s1 s2 s' where
    "write_blocks (nat (dataregion_bitmap_blocks i)) 1 (buffer s) s = Some s1" "info s1 = i"
    "write_blocks (nat (inode_bitmap_blocks i)) (1 + int (nat (dataregion_bitmap_blocks i))) (buffer s1) s1 = Some s2" "info s2 = i"
    "write_blocks (nat (inode_blocks i)) (1 + int (nat (dataregion_bitmap_blocks i)) + int (nat (inode_bitmap_blocks i))) f s2 = Some s'"
    "info s' = i" "fs_ok s'"
    "\<And>n. 0 \<le> n \<Longrightarrow> n < total_inodes i \<Longrightarrow> \<not> inode_used (content s') i n"
    "\<And>n. 0 \<le> n \<Longrightarrow> n < dataregion_blocks i \<Longrightarrow> \<not> block_used (content s') i n"
    "\<And>n. 0 \<le> n \<Longrightarrow> n < total_inodes i \<Longrightarrow> ino (content s') (inode_blocks_start i) n = empty_inode"
proof -
  have l: "layout_ok i" using fs_ok_layout [OF assms(1)] assms(2) by simp
  have reg: "1 + int (nat (dataregion_bitmap_blocks i)) = inode_bitmap_start i"
    "inode_bitmap_start i + int (nat (inode_bitmap_blocks i)) = inode_blocks_start i"
    "inode_blocks_start i + int (nat (inode_blocks i)) = dataregion_blocks_start i" "0 \<le> dataregion_blocks i"
    using l by (simp_all add: layout_ok_def)
  obtain s1 where s1: "write_blocks (nat (dataregion_bitmap_blocks i)) 1 (buffer s) s = Some s1"
    "fs_step s (set_blks (content s) 1 (nat (dataregion_bitmap_blocks i)) (buffer s)) s1" "buffer s1 = buffer s"
    by (rule write_blocks_step [OF assms(1), of 1 "nat (dataregion_bitmap_blocks i)" "buffer s"]) (use reg assms(2) in \<open>simp_all del: int_nat_eq\<close>)
  note m1 = fs_stepD [OF s1(2)]
  obtain s2 where s2: "write_blocks (nat (inode_bitmap_blocks i)) (inode_bitmap_start i) (buffer s1) s1 = Some s2"
    "fs_step s1 (set_blks (content s1) (inode_bitmap_start i) (nat (inode_bitmap_blocks i)) (buffer s1)) s2"
    by (rule write_blocks_step [OF m1(1), of "inode_bitmap_start i" "nat (inode_bitmap_blocks i)" "buffer s1"])
      (use reg m1 assms(2) in \<open>simp_all del: int_nat_eq\<close>)
  note m2 = fs_stepD [OF s2(2)]
  obtain s3 where s3: "write_blocks (nat (inode_blocks i)) (inode_blocks_start i) f s2 = Some s3"
    "fs_step s2 (set_blks (content s2) (inode_blocks_start i) (nat (inode_blocks i)) f) s3"
    by (rule write_blocks_step [OF m2(1), of "inode_blocks_start i" "nat (inode_blocks i)" f]) (use reg m1 m2 assms(2) in \<open>simp_all del: int_nat_eq\<close>)
  note m3 = fs_stepD [OF s3(2)]
  have "content s3 = set_blks (set_blks (set_blks (content s) 1 (nat (dataregion_bitmap_blocks i)) (buffer s))
        (inode_bitmap_start i) (nat (inode_bitmap_blocks i)) (buffer s)) (inode_blocks_start i) (nat (inode_blocks i)) f"
    using m1 m2 m3 s1(3) by simp
  from formatted_views [OF l assms(3,4) this] show thesis
    using that [of s1 s2 s3] s1(1) s2(1) s3(1) m1 m2 m3 assms(2) reg by (simp del: int_nat_eq)
qed

text \<open>The root.\<close>

definition root_inode :: inode where
  "root_inode = empty_inode\<lparr>size_of := 12 * 512, flags := 1\<rparr>"

lemma wf_root_inode: "wf_inode root_inode"
  by (simp add: root_inode_def wf_inode_def empty_inode_def in32_def)

lemma root_ok:
  assumes s: "fs_ok s" "info s = i" and pos: "0 < total_inodes i" "0 < dataregion_blocks i"
    and v: "\<And>n. 0 \<le> n \<Longrightarrow> n < total_inodes i \<Longrightarrow> \<not> inode_used (content s) i n"
      "\<And>n. 0 \<le> n \<Longrightarrow> n < dataregion_blocks i \<Longrightarrow> \<not> block_used (content s) i n"
      "\<And>n. 0 \<le> n \<Longrightarrow> n < total_inodes i \<Longrightarrow> ino (content s) (inode_blocks_start i) n = empty_inode"
    and f: "filepath f = Some []" "block_inode f = 0"
  obtains s1 s2 s3 s4 s' where "get_inode 0 s = Some (empty_inode, s1)" "set_inode 0 root_inode s1 = Some s2"
    "set_inode_status 0 1 s2 = Some (0, s3)" "set_dataregion_status 0 1 s3 = Some (0, s4)" "info s4 = i"
    "block_write s4 (dataregion_blocks_start i) f = Some (512, s')" "fs_ok s'" "info s' = i"
    "\<And>n. 0 \<le> n \<Longrightarrow> n < total_inodes i \<Longrightarrow> inode_used (content s') i n = (n = 0)"
    "\<And>n. 0 \<le> n \<Longrightarrow> n < dataregion_blocks i \<Longrightarrow> block_used (content s') i n = (n = 0)"
    "\<And>n. 0 \<le> n \<Longrightarrow> n < total_inodes i \<Longrightarrow>
       ino (content s') (inode_blocks_start i) n = (if n = 0 then root_inode else empty_inode)"
    "same_block (blk (content s') (dataregion_blocks_start i)) f"
proof -
  have l: "layout_ok i" using fs_ok_layout [OF s(1)] s(2) by simp
  obtain s1 where s1: "get_inode 0 s = Some (empty_inode, s1)" "fs_step s (content s) s1"
    using get_inode_step [OF s(1), of 0] s(2) v(3) [of 0] pos(1) by (metis order_refl)
  note m1 = fs_stepD [OF s1(2)]
  obtain s2 where s2: "set_inode 0 root_inode s1 = Some s2" "fs_step s1 (set_ino (content s) (inode_blocks_start i) 0 root_inode) s2"
    using set_inode_step [OF m1(1), of 0 root_inode] m1 s(2) pos(1) by (metis order_refl)
  note m2 = fs_stepD [OF s2(2)]
  obtain s3 where s3: "set_inode_status 0 1 s2 = Some (0, s3)" "fs_step s2 (set_status_bit (content s2) (inode_bitmap_start i) 0 True) s3"
    using set_inode_status_fs [OF m2(1), of 0] m1 m2 s(2) pos(1) by (metis order_refl)
  note m3 = fs_stepD [OF s3(2)]
  obtain s4 where s4: "set_dataregion_status 0 1 s3 = Some (0, s4)"
    "fs_step s3 (set_status_bit (content s3) (dataregion_bitmap_start i) 0 True) s4"
    using set_block_status_fs [OF m3(1), of 0] m1 m2 m3 s(2) pos(2) by (metis order_refl)
  note m4 = fs_stepD [OF s4(2)]
  have i4: "info s4 = i" using m1 m2 m3 m4 s(2) by simp
  have d: "0 \<le> dataregion_blocks_start i" "dataregion_blocks_start i < dataregion_blocks_start (info s4) + dataregion_blocks (info s4)"
    using bitmap_block(7) [OF l] pos(2) i4 by simp_all
  obtain s5 where s5: "block_write s4 (dataregion_blocks_start i) f = Some (512, s5)"
    "fs_step s4 (set_blk (content s4) (dataregion_blocks_start i) f) s5"
    by (rule block_write_step [OF m4(1) d])
  note m5 = fs_stepD [OF s5(2)]
  note w = write_inode [OF l order_refl pos(1) m2(3) wf_root_inode] mark_inode [OF l order_refl pos(1) m3(3)]
    mark_block [OF l order_refl pos(2) m4(3)] write_block [OF l order_refl m5(3)]
  show thesis
  proof (rule that [OF s1(1) s2(1) s3(1) s4(1) i4 s5(1) m5(1)])
    show "info s5 = i" using m5 i4 by simp
    show "inode_used (content s5) i n = (n = 0)" if "0 \<le> n" "n < total_inodes i" for n
      unfolding w(13) [OF that] w(9) [OF that] w(5) [OF that] w(1) [OF that] using v(1) [OF that] by simp
    show "block_used (content s5) i n = (n = 0)" if "0 \<le> n" "n < dataregion_blocks i" for n
      unfolding w(14) [OF that] w(10) [OF that] w(6) [OF that] w(2) [OF that] using v(2) [OF that] by simp
    show "ino (content s5) (inode_blocks_start i) n = (if n = 0 then root_inode else empty_inode)"
      if "0 \<le> n" "n < total_inodes i" for n
      unfolding w(15) [OF that] w(11) [OF that] w(7) [OF that] w(3) [OF that] using v(3) [OF that] by simp
    show "same_block (blk (content s5) (dataregion_blocks_start i)) f" using w(16) [of "dataregion_blocks_start i"] by simp
  qed
qed

lemma fresh_tree:
  assumes "layout_ok i" "0 < total_inodes i" "0 < dataregion_blocks i"
    "\<And>n. 0 \<le> n \<Longrightarrow> n < total_inodes i \<Longrightarrow> inode_used m i n = (n = 0)"
    "\<And>n. 0 \<le> n \<Longrightarrow> n < dataregion_blocks i \<Longrightarrow> block_used m i n = (n = 0)"
    "\<And>n. 0 \<le> n \<Longrightarrow> n < total_inodes i \<Longrightarrow> ino m (inode_blocks_start i) n = (if n = 0 then root_inode else empty_inode)"
    "same_block (blk m (dataregion_blocks_start i)) f" "filepath f = Some []" "block_inode f = 0"
  shows "tree_ok m i" "children m i = (\<lambda>_. Map.empty)" "ptrs m i 0 = replicate 12 0"
proof -
  have p: "ptrs m i n = replicate 12 0" if "0 \<le> n" "n < total_inodes i" for n
    using assms(6) [OF that] by (simp add: ptrs_def root_inode_def empty_inode_def)
  have b: "filepath (blk m (dataregion_blocks_start i)) = Some []" "block_inode (blk m (dataregion_blocks_start i)) = 0"
    using filepath_same [OF assms(7)] block_inode_same [OF assms(7)] assms(8,9) by simp_all
  show "tree_ok m i" using p b assms(2-5) by (auto simp: tree_ok_def entry_in_def)
  show "children m i = (\<lambda>_. Map.empty)"
    using p by (auto simp: children_def dir_entry_def find_None_iff fun_eq_iff)
  show "ptrs m i 0 = replicate 12 0" using p [of 0] assms(2) by simp
qed

lemma sfs_init_ok:
  assumes s: "diskfile s < 0" "0 \<le> fd" "msize (content s) = 8388608 * k" "1 \<le> k" "k \<le> 192"
    and z: "\<And>x. 0 \<le> x \<Longrightarrow> x < 512 \<Longrightarrow> buffer s x = 0"
  obtains s' where "sfs_init fd block sblock fblock s = Some s'" "fs_ok s'" "info s' = get_metadata_info (8388608 * k)"
    "tree_ok (content s') (info s')" "children (content s') (info s') = (\<lambda>_. Map.empty)"
    "\<And>n. 0 \<le> n \<Longrightarrow> n < total_inodes (info s') \<Longrightarrow> inode_used (content s') (info s') n = (n = 0)"
    "\<And>n. 0 \<le> n \<Longrightarrow> n < dataregion_blocks (info s') \<Longrightarrow> block_used (content s') (info s') n = (n = 0)"
    "ptrs (content s') (info s') 0 = replicate 12 0"
proof -
  define i where "i = get_metadata_info (8388608 * k)"
  note lm = layout_multiple [OF s(4,5), folded i_def]
  define s0 where "s0 = s\<lparr>diskfile := fd, open_fd := Some fd\<rparr>"
  define s1 where "s1 = s0\<lparr>info := i\<rparr>"
  have op: "disk_open fd s = Some s0" using s(1,2) by (simp add: disk_open_def s0_def)
  have sz: "get_metadata_info (s32 (msize (content s0))) = i" using s(3-5) by (simp add: s0_def i_def s32_id)
  have ok1: "fs_ok s1" "info s1 = i" using lm s by (simp_all add: fs_ok_def disk_ok_def s1_def s0_def)
  have n0: "(0::int) \<le> 0" "0 < dataregion_blocks_start (info s1) + dataregion_blocks (info s1)"
    using lm s(4) ok1(2) by simp_all
  obtain s2 where s2: "block_write s1 0 (put_info sblock i) = Some (512, s2)"
    "fs_step s1 (set_blk (content s1) 0 (put_info sblock i)) s2" "buffer s2 = buffer s1"
    by (rule block_write_step [OF ok1(1) n0])
  note m2 = fs_stepD [OF s2(2)]
  have i2: "info s2 = i" using m2 ok1 by simp
  have z2: "buffer s2 x = 0" if "0 \<le> x" "x < 512" for x using z [OF that] s2(3) by (simp add: s1_def s0_def)
  let ?f = "fold (\<lambda>i f. put_inode f (64 * int i) empty_inode) [0..<8] block"
  obtain s3 s4 s5 where s5: "write_blocks (nat (dataregion_bitmap_blocks i)) 1 (buffer s2) s2 = Some s3" "info s3 = i"
    "write_blocks (nat (inode_bitmap_blocks i)) (1 + int (nat (dataregion_bitmap_blocks i))) (buffer s3) s3 = Some s4" "info s4 = i"
    "write_blocks (nat (inode_blocks i)) (1 + int (nat (dataregion_bitmap_blocks i)) + int (nat (inode_bitmap_blocks i))) ?f s4 = Some s5"
    and v5: "info s5 = i" "fs_ok s5"
    "\<And>n. 0 \<le> n \<Longrightarrow> n < total_inodes i \<Longrightarrow> \<not> inode_used (content s5) i n"
    "\<And>n. 0 \<le> n \<Longrightarrow> n < dataregion_blocks i \<Longrightarrow> \<not> block_used (content s5) i n"
    "\<And>n. 0 \<le> n \<Longrightarrow> n < total_inodes i \<Longrightarrow> ino (content s5) (inode_blocks_start i) n = empty_inode"
    by (rule format_ok [OF m2(1) i2 z2 empty_block [of _ block]]) (assumption+, rule that, (assumption | simp)+)
  have nm: "name_ok []" by (simp add: name_ok_def)
  obtain fb where fb: "strcpy_path fblock [] = Some fb" "filepath (put32 fb 508 0) = Some []" "block_inode (put32 fb 508 0) = s32 0"
    by (rule entry_ok [OF nm])
  have f0: "block_inode (put32 fb 508 0) = 0" using fb(3) by (simp add: s32_id)
  have db: "0 < dataregion_blocks i" using lm(3) s(4) by simp
  obtain s6 s7 s8 s9 s10 where s10: "get_inode 0 s5 = Some (empty_inode, s6)" "set_inode 0 root_inode s6 = Some s7"
    "set_inode_status 0 1 s7 = Some (0, s8)" "set_dataregion_status 0 1 s8 = Some (0, s9)" "info s9 = i"
    "block_write s9 (dataregion_blocks_start i) (put32 fb 508 0) = Some (512, s10)" and ok10: "fs_ok s10" "info s10 = i"
    and v10: "\<And>n. 0 \<le> n \<Longrightarrow> n < total_inodes i \<Longrightarrow> inode_used (content s10) i n = (n = 0)"
    "\<And>n. 0 \<le> n \<Longrightarrow> n < dataregion_blocks i \<Longrightarrow> block_used (content s10) i n = (n = 0)"
    "\<And>n. 0 \<le> n \<Longrightarrow> n < total_inodes i \<Longrightarrow>
       ino (content s10) (inode_blocks_start i) n = (if n = 0 then root_inode else empty_inode)"
    "same_block (blk (content s10) (dataregion_blocks_start i)) (put32 fb 508 0)"
    by (rule root_ok [OF v5(2,1) lm(4) db v5(3-5) fb(2) f0]) (assumption+, rule that, (assumption | simp)+)
  note T = fresh_tree [OF lm(1,4) db v10 fb(2) f0]
  have "sfs_init fd block sblock fblock s = Some s10"
    by (rule sfs_init_eval [OF op sz s1_def [symmetric] ok1(2) s2(1) i2 s5 v5(1) fb(1) s10(1)
          s10(2) [unfolded root_inode_def] s10(3-6)])
  then show thesis using that [of s10] ok10 T v10(1,2) by (simp add: i_def)
qed

end
