(* ===== verification/FS_Props.thy ===== *)
theory FS_Props
  imports FS_Init
begin

section \<open>Properties of the file system\<close>

text \<open>
  A file of \<open>8k\<close> MB becomes a well-formed empty file system, and every creation keeps it well-formed and
  adds one entry to the graph of directories.  The arguments \<open>pb\<close>, \<open>br\<close>, \<open>fb\<close> and the like are the contents
  of local variables before they are assigned.
\<close>

text \<open>The state of the process when it starts, with a file of \<open>n\<close> bytes all zero.\<close>

definition fresh_process :: "int \<Rightarrow> fs" where
  "fresh_process n = \<lparr>diskfile = -1, open_fd = None, content = \<lparr>msize = n, mbytes = (\<lambda>_. 0)\<rparr>,
     buffer = (\<lambda>_. 0), entry_buffer = (\<lambda>_. 0),
     info = \<lparr>dataregion_bitmap_blocks = 0, dataregion_bitmap_start = 0, inode_bitmap_blocks = 0, inode_bitmap_start = 0,
       inode_blocks = 0, inode_blocks_start = 0, total_inodes = 0, dataregion_blocks = 0, dataregion_blocks_start = 0,
       disksize = 0, rootdirectory = 0\<rparr>\<rparr>"

text \<open>The file system has room for another entry of directory \<open>k\<close>.\<close>

definition has_room :: "mem \<Rightarrow> metadata_info \<Rightarrow> int \<Rightarrow> bool" where
  "has_room m i k \<longleftrightarrow> (\<exists>f. 0 \<le> f \<and> f < total_inodes i \<and> \<not> inode_used m i f) \<and>
     (\<exists>e. 0 \<le> e \<and> e < dataregion_blocks i \<and> \<not> block_used m i e) \<and> 0 \<in> set (ptrs m i k)"

subsection \<open>The layout\<close>

text \<open>C17: On a disk of 8k MB, k at most 192, get_metadata_info lays out the regions one after the other
  up to the last block, three quarters of the blocks are data blocks, and each bitmap has a bit for each
  data block and for each inode.\<close>

theorem fs_layout:
  assumes "1 \<le> k" "k \<le> 192"
  shows "layout_ok (get_metadata_info (8388608 * k)) \<and>
    dataregion_blocks_start (get_metadata_info (8388608 * k)) = 4096 * k \<and>
    dataregion_blocks (get_metadata_info (8388608 * k)) = 12288 * k \<and>
    0 < total_inodes (get_metadata_info (8388608 * k))"
  using layout_multiple [OF assms] by simp

theorem fs_layout_witness: "layout_ok (get_metadata_info 8388608) \<and> dataregion_blocks (get_metadata_info 8388608) = 12288"
  using fs_layout [of 1] by simp

lemma overlap_bit:
  assumes "0 \<le> k" "k \<le> 100" "0 \<le> j" "j < 2048"
  shows "set_status 1 (4096 * (3 * k + 1) + j) st s = set_status (3 * k + 2) j st s"
    "check_status 1 (4096 * (3 * k + 1) + j) s = check_status (3 * k + 2) j s"
proof -
  have d: "(4096 * (3 * k + 1) + j) sdiv 4096 = 3 * k + 1" "j sdiv 4096 = 0" using assms by simp_all
  have e: "4096 * (3 * k + 1) + j - 4096 * (3 * k + 1) = j" "j - 4096 * 0 = j" "1 + (3 * k + 1) = 3 * k + 2 + 0" by simp_all
  show "set_status 1 (4096 * (3 * k + 1) + j) st s = set_status (3 * k + 2) j st s"
    unfolding set_status_def Let_def d e ..
  show "check_status 1 (4096 * (3 * k + 1) + j) s = check_status (3 * k + 2) j s"
    unfolding check_status_def Let_def d e ..
qed

text \<open>C20: On a disk whose size is an odd multiple of 4 MB the bitmap of data blocks is half a block short:
  for the first 2048 inodes, setting the status of data block 4096 * (3k + 1) + j, which the layout has,
  is setting the status of inode j.\<close>

theorem fs_bitmap_overlap:
  assumes "0 \<le> k" "k \<le> 100" "0 \<le> j" "j < 2048" "info s = get_metadata_info (4194304 * (2 * k + 1))"
  shows "4096 * (3 * k + 1) + j < dataregion_blocks (info s) \<and>
    set_dataregion_status (4096 * (3 * k + 1) + j) st s = set_inode_status j st s \<and>
    check_dataregion_status (4096 * (3 * k + 1) + j) s = check_inode_status j s"
proof -
  note l = layout_odd [OF assms(1,2), folded assms(5)]
  show ?thesis
    unfolding set_dataregion_status_def set_inode_status_def check_dataregion_status_def check_inode_status_def l
    using overlap_bit [OF assms(1-4)] assms(4) by simp
qed

theorem fs_bitmap_overlap_witness:
  "set_dataregion_status 4101 1 ((fresh_process 4194304)\<lparr>info := get_metadata_info 4194304\<rparr>) =
     set_inode_status 5 1 ((fresh_process 4194304)\<lparr>info := get_metadata_info 4194304\<rparr>)"
  using fs_bitmap_overlap [of 0 5 "(fresh_process 4194304)\<lparr>info := get_metadata_info 4194304\<rparr>"] by simp

subsection \<open>Making a file system\<close>

lemma init_state:
  assumes "diskfile s < 0" "0 \<le> fd" "msize (content s) = 8388608 * k" "1 \<le> k" "k \<le> 192" "\<And>x. 0 \<le> x \<Longrightarrow> x < 512 \<Longrightarrow> buffer s x = 0"
  obtains s' where "sfs_init fd block sblock fblock s = Some s'" "fs_ok s'" "tree_ok (content s') (info s')"
    "info s' = get_metadata_info (8388608 * k)" "children (content s') (info s') = (\<lambda>_. Map.empty)" "has_room (content s') (info s') 0"
    "\<And>n. 0 \<le> n \<Longrightarrow> n < total_inodes (info s') \<Longrightarrow> inode_used (content s') (info s') n = (n = 0)"
proof -
  obtain s' where r: "sfs_init fd block sblock fblock s = Some s'" "fs_ok s'" "info s' = get_metadata_info (8388608 * k)"
    "tree_ok (content s') (info s')" "children (content s') (info s') = (\<lambda>_. Map.empty)"
    "\<And>n. 0 \<le> n \<Longrightarrow> n < total_inodes (info s') \<Longrightarrow> inode_used (content s') (info s') n = (n = 0)"
    "\<And>n. 0 \<le> n \<Longrightarrow> n < dataregion_blocks (info s') \<Longrightarrow> block_used (content s') (info s') n = (n = 0)"
    "ptrs (content s') (info s') 0 = replicate 12 0"
    by (rule sfs_init_ok [OF assms(1-6)]) (assumption+, rule that, (assumption | simp)+)
  note l = layout_multiple [OF assms(4,5), folded r(3)]
  have "8 \<le> total_inodes (info s')" using l(1,4) by (auto simp: layout_ok_def)
  then have "has_room (content s') (info s') 0"
    using r(6) [of 1] r(7) [of 1] r(8) l(3) assms(4) unfolding has_room_def
    by (intro conjI exI [of _ 1]) simp_all
  then show thesis using that r by blast
qed

text \<open>C8: With the file of 8k MB, k at most 192, not opened before and the global buffer clear, sfs_init
  returns, whatever the file and the local variables contain: the state is well-formed and stands for
  the empty file system, in which the root has no entries and is the only inode and the only data block
  allocated.\<close>

theorem fs_init_ok:
  assumes "diskfile s < 0" "0 \<le> fd" "msize (content s) = 8388608 * k" "1 \<le> k" "k \<le> 192" "same_block (buffer s) (\<lambda>_. 0)"
  shows "\<exists>s'. sfs_init fd block sblock fblock s = Some s' \<and> fs_ok s' \<and> tree_ok (content s') (info s') \<and>
    info s' = get_metadata_info (8388608 * k) \<and> children (content s') (info s') = (\<lambda>_. Map.empty) \<and>
    {n. 0 \<le> n \<and> n < total_inodes (info s') \<and> inode_used (content s') (info s') n} = {0} \<and>
    {n. 0 \<le> n \<and> n < dataregion_blocks (info s') \<and> block_used (content s') (info s') n} = {0}"
proof -
  have z: "\<And>x. 0 \<le> x \<Longrightarrow> x < 512 \<Longrightarrow> buffer s x = 0" using assms(6) by (simp add: same_block_def)
  obtain s' where r: "sfs_init fd block sblock fblock s = Some s'" "fs_ok s'" "info s' = get_metadata_info (8388608 * k)"
    "tree_ok (content s') (info s')" "children (content s') (info s') = (\<lambda>_. Map.empty)"
    "\<And>n. 0 \<le> n \<Longrightarrow> n < total_inodes (info s') \<Longrightarrow> inode_used (content s') (info s') n = (n = 0)"
    "\<And>n. 0 \<le> n \<Longrightarrow> n < dataregion_blocks (info s') \<Longrightarrow> block_used (content s') (info s') n = (n = 0)"
    by (rule sfs_init_ok [OF assms(1-5) z]) (assumption+, rule that, (assumption | simp)+)
  note l = layout_multiple [OF assms(4,5), folded r(3)]
  have "{n. 0 \<le> n \<and> n < total_inodes (info s') \<and> inode_used (content s') (info s') n} = {0}"
    "{n. 0 \<le> n \<and> n < dataregion_blocks (info s') \<and> block_used (content s') (info s') n} = {0}"
    using r(6,7) l(3,4) assms(4) by auto
  then show ?thesis using r(1-5) by blast
qed

theorem fs_init_ok_witness:
  "\<exists>s'. sfs_init 3 (\<lambda>_. 7) (\<lambda>_. 7) (\<lambda>_. 7) (fresh_process 8388608) = Some s' \<and> fs_ok s'"
  using fs_init_ok [of "fresh_process 8388608" 3 1 "\<lambda>_. 7" "\<lambda>_. 7" "\<lambda>_. 7"] by (auto simp: fresh_process_def)

subsection \<open>Creating files\<close>

lemma create_room:
  assumes "fs_ok s" "tree_ok (content s) (info s)" "ns \<noteq> []" "\<forall>n \<in> set ns. slash \<notin> set n" "name_ok (last ns)"
    "resolve (children (content s) (info s)) 0 ns = (k, rest)" "found_name ns rest \<noteq> last ns"
    "children (content s) (info s) k (last ns) = None" "has_room (content s) (info s) k"
  shows "\<exists>s' r. create pb br fb (path_of ns) s = Some (0, s') \<and> fs_ok s' \<and> tree_ok (content s') (info s) \<and> info s' = info s \<and>
    0 \<le> r \<and> r < total_inodes (info s) \<and> \<not> inode_used (content s) (info s) r \<and> inode_used (content s') (info s) r \<and>
    children (content s) (info s) r = Map.empty \<and>
    children (content s') (info s) = link (children (content s) (info s)) k (last ns) r"
proof -
  obtain f e where "0 \<le> f" "f < total_inodes (info s)" "\<not> inode_used (content s) (info s) f"
    "0 \<le> e" "e < dataregion_blocks (info s)" "\<not> block_used (content s) (info s) e" "0 \<in> set (ptrs (content s) (info s) k)"
    using assms(9) unfolding has_room_def by blast
  from create_ok [OF assms(1-8) this, of pb br fb] show ?thesis by metis
qed

text \<open>C7: On a well-formed file system, when the path stops at directory k, which has no entry with the last
  name of the path, room for one, and was not reached by that same name, create returns 0 and links a free
  inode, itself without entries, under that name into k, and nothing else in the graph of directories
  changes; the file system stays well-formed.  When more than the last name was missing, k is the deepest
  directory that exists: the file is created there.\<close>

theorem fs_create_refines:
  assumes "fs_ok s" "tree_ok (content s) (info s)" "ns \<noteq> []" "\<forall>n \<in> set ns. slash \<notin> set n" "name_ok (last ns)"
    "resolve (children (content s) (info s)) 0 ns = (k, rest)" "found_name ns rest \<noteq> last ns"
    "children (content s) (info s) k (last ns) = None" "has_room (content s) (info s) k"
  shows "\<exists>s' r. create pb br fb (path_of ns) s = Some (0, s') \<and> fs_ok s' \<and> tree_ok (content s') (info s) \<and> info s' = info s \<and>
    0 \<le> r \<and> r < total_inodes (info s) \<and> \<not> inode_used (content s) (info s) r \<and> inode_used (content s') (info s) r \<and>
    children (content s) (info s) r = Map.empty \<and>
    children (content s') (info s) = link (children (content s) (info s)) k (last ns) r"
  by (rule create_room [OF assms])

lemma fresh_init:
  obtains s where "sfs_init 3 (\<lambda>_. 7) (\<lambda>_. 7) (\<lambda>_. 7) (fresh_process 8388608) = Some s" "fs_ok s" "tree_ok (content s) (info s)"
    "children (content s) (info s) = (\<lambda>_. Map.empty)" "has_room (content s) (info s) 0"
  by (rule init_state [of "fresh_process 8388608" 3 1]) (auto simp: fresh_process_def intro: that)

lemma one_name:
  "''a'' \<noteq> []" "\<forall>n \<in> set [''a'']. slash \<notin> set n" "name_ok (last [''a''])"
  by (simp_all add: slash_def name_ok_def)

text \<open>The file is created in the root although the directory on its path does not exist.\<close>

theorem fs_create_refines_witness:
  "\<exists>s s' r. sfs_init 3 (\<lambda>_. 7) (\<lambda>_. 7) (\<lambda>_. 7) (fresh_process 8388608) = Some s \<and>
     create (\<lambda>_. 7) (\<lambda>_. 7) (\<lambda>_. 7) (path_of [''b'', ''a'']) s = Some (0, s') \<and>
     children (content s') (info s) 0 = [''a'' \<mapsto> r]"
proof -
  obtain s where s: "sfs_init 3 (\<lambda>_. 7) (\<lambda>_. 7) (\<lambda>_. 7) (fresh_process 8388608) = Some s" "fs_ok s" "tree_ok (content s) (info s)"
    "children (content s) (info s) = (\<lambda>_. Map.empty)" "has_room (content s) (info s) 0"
    by (rule fresh_init)
  have "\<exists>s' r. create (\<lambda>_. 7) (\<lambda>_. 7) (\<lambda>_. 7) (path_of [''b'', ''a'']) s = Some (0, s') \<and>
      children (content s') (info s) = link (children (content s) (info s)) 0 (last [''b'', ''a'']) r"
    using fs_create_refines [OF s(2,3), of "[''b'', ''a'']" 0 "[''b'', ''a'']"] s(4,5)
    by (fastforce simp: slash_def name_ok_def found_name_def)
  then show ?thesis using s(1,4) by (auto simp: link_def)
qed

text \<open>C9: When only the last name of the path is missing, after create the path is found: find_path_block
  delivers an entry with the name and with an inode that was free, and every path that was complete before
  still leads to the same inode.\<close>

theorem fs_create_found:
  assumes "fs_ok s" "tree_ok (content s) (info s)" "\<forall>n \<in> set (ds @ [n]). slash \<notin> set n" "name_ok n"
    "resolve (children (content s) (info s)) 0 (ds @ [n]) = (k, [n])" "last ([] # ds) \<noteq> n" "has_room (content s) (info s) k"
  shows "\<exists>s' r b s''. create pb br fb (path_of (ds @ [n])) s = Some (0, s') \<and> \<not> inode_used (content s) (info s) r \<and>
    find_path_block pb' br' (path_of (ds @ [n])) s' = Some (b, s'') \<and> filepath b = Some n \<and> block_inode b = r \<and>
    content s'' = content s' \<and>
    (\<forall>ms z. resolve (children (content s) (info s)) 0 ms = (z, []) \<longrightarrow> resolve (children (content s') (info s)) 0 ms = (z, []))"
proof -
  let ?g = "children (content s) (info s)"
  have none: "?g k n = None" by (rule resolve_stops [OF assms(5)])
  obtain s' r where c: "create pb br fb (path_of (ds @ [n])) s = Some (0, s')" "fs_ok s'" "tree_ok (content s') (info s)" "info s' = info s"
    "\<not> inode_used (content s) (info s) r" "children (content s') (info s) = link ?g k n r"
    using create_room [OF assms(1,2) _ assms(3) _ assms(5), of pb br fb] assms(4,6,7) none by (auto simp: found_name_def)
  have way: "resolve (children (content s') (info s')) 0 (ds @ [n]) = (r, [])"
    unfolding c(4,6) by (rule resolve_link_new [OF assms(5)])
  have tree: "tree_ok (content s') (info s')" using c(3,4) by simp
  obtain b eb q where "find_path_block pb' br' (path_of (ds @ [n])) s' = Some (b, s'\<lparr>entry_buffer := eb\<rparr>)"
    "filepath b = Some (found_name (ds @ [n]) [])" "block_inode b = r"
    by (rule find_path_block_resolve [OF c(2) tree assms(3) way])
  moreover have "found_name (ds @ [n]) [] = n" by (simp add: found_name_def)
  moreover have "resolve (children (content s') (info s)) 0 ms = (z, [])" if "resolve ?g 0 ms = (z, [])" for ms z
    unfolding c(6) by (rule resolve_link_old [of ?g k n, OF none that])
  ultimately show ?thesis using c(1,5) by (intro exI [of _ s'] exI [of _ r] exI [of _ b] exI [of _ "s'\<lparr>entry_buffer := eb\<rparr>"]) auto
qed

theorem fs_create_found_witness:
  "\<exists>s s' b s''. sfs_init 3 (\<lambda>_. 7) (\<lambda>_. 7) (\<lambda>_. 7) (fresh_process 8388608) = Some s \<and>
     create (\<lambda>_. 7) (\<lambda>_. 7) (\<lambda>_. 7) (path_of [''a'']) s = Some (0, s') \<and>
     find_path_block (\<lambda>_. 7) (\<lambda>_. 7) (path_of [''a'']) s' = Some (b, s'') \<and> filepath b = Some ''a''"
proof -
  obtain s where s: "sfs_init 3 (\<lambda>_. 7) (\<lambda>_. 7) (\<lambda>_. 7) (fresh_process 8388608) = Some s" "fs_ok s" "tree_ok (content s) (info s)"
    "children (content s) (info s) = (\<lambda>_. Map.empty)" "has_room (content s) (info s) 0"
    by (rule fresh_init)
  then show ?thesis
    using fs_create_found [OF s(2,3), of "[]" "''a''" 0 "\<lambda>_. 7" "\<lambda>_. 7" "\<lambda>_. 7" "\<lambda>_. 7" "\<lambda>_. 7"] one_name
    by fastforce
qed

text \<open>C21: When the last entry found on the path has the last name of the path, create returns -1 and the disk
  is unchanged.  That is so for every file that exists, but also when a directory is to get an entry with its
  own name.\<close>

theorem fs_create_refuses:
  assumes "fs_ok s" "tree_ok (content s) (info s)" "ns \<noteq> []" "\<forall>n \<in> set ns. slash \<notin> set n"
    "resolve (children (content s) (info s)) 0 ns = (k, rest)" "rest = [] \<or> found_name ns rest = last ns"
  shows "\<exists>s'. create pb br fb (path_of ns) s = Some (-1, s') \<and> content s' = content s"
proof -
  have f: "found_name ns rest = last ns" using assms(3,6) by (auto simp: found_name_def)
  obtain b eb where "find_path_block pb br (path_of ns) s = Some (b, s\<lparr>entry_buffer := eb\<rparr>)" "filepath b = Some (last ns)"
    using find_path_block_resolve [OF assms(1,2,4,5)] f by metis
  from create_refused_eval [OF path_of_last [OF assms(3,4)] this] show ?thesis by auto
qed

text \<open>The directory exists and is empty, and the creation of a file with its name in it is refused.\<close>

theorem fs_create_refuses_witness:
  "\<exists>s s' r. children (content s) (info s) 0 = [''a'' \<mapsto> r] \<and> children (content s) (info s) r = Map.empty \<and>
     create (\<lambda>_. 7) (\<lambda>_. 7) (\<lambda>_. 7) (path_of [''a'', ''a'']) s = Some (-1, s') \<and> content s' = content s"
proof -
  obtain s where s: "fs_ok s" "tree_ok (content s) (info s)" "children (content s) (info s) = (\<lambda>_. Map.empty)" "has_room (content s) (info s) 0"
    by (rule fresh_init)
  have "resolve (children (content s) (info s)) 0 [''a''] = (0, [''a''])" "found_name [''a''] [''a''] \<noteq> last [''a'']"
    "children (content s) (info s) 0 (last [''a'']) = None"
    using s(3) by (simp_all add: found_name_def)
  from create_room [OF s(1,2) _ one_name(2,3) this s(4), of "\<lambda>_. 7" "\<lambda>_. 7" "\<lambda>_. 7"] obtain t r where
    t: "fs_ok t" "tree_ok (content t) (info s)" "info t = info s" "\<not> inode_used (content s) (info s) r"
    "children (content t) (info s) = link (\<lambda>_. Map.empty) 0 ''a'' r"
    using s(3) by auto
  have "inode_used (content s) (info s) 0" using tree_root(1,2) [OF s(2)] by (simp add: entry_in_def)
  then have "r \<noteq> 0" using t(4) by auto
  have g: "children (content t) (info t) 0 = [''a'' \<mapsto> r]" "children (content t) (info t) r = Map.empty"
    using t(3,5) \<open>r \<noteq> 0\<close> by (simp_all add: link_def)
  have "\<exists>s'. create (\<lambda>_. 7) (\<lambda>_. 7) (\<lambda>_. 7) (path_of [''a'', ''a'']) t = Some (-1, s') \<and> content s' = content t"
    by (rule fs_create_refuses [where k = r and rest = "[''a'']"]) (use t(1-3) g in \<open>simp_all add: slash_def found_name_def\<close>)
  then show ?thesis using g by blast
qed

end
