(* ===== verification/FS_Program.thy ===== *)
theory FS_Program
  imports FS_Props
begin

section \<open>The main program of the file system\<close>

text \<open>
  \<open>main\<close> of test/test.c: it formats the disk, builds the directories /home/vshenoy by hand, reads them
  back, looks the path up, creates /home/vshenoy/testfile and looks that up.  The result is what it
  prints, line by line, with the state.  The local variables before they are assigned are \<open>loc\<close>.
\<close>

definition newPath :: string where
  "newPath = ''/home/vshenoy''"

definition createPath :: string where
  "createPath = ''/home/vshenoy/testfile''"

text \<open>A name and the number of an inode in a block.\<close>

definition set_entry :: "buf \<Rightarrow> string \<Rightarrow> int \<Rightarrow> buf option" where
  "set_entry f name n = do { f \<leftarrow> strcpy_path f name; Some (put32 f 508 n) }"

text \<open>An entry with its inode and its block \<open>n\<close> marked as taken.\<close>

definition make_entry :: "int \<Rightarrow> string \<Rightarrow> buf \<Rightarrow> fs \<Rightarrow> (buf \<times> fs) option" where
  "make_entry n name test_filepath s =
     do { test_filepath \<leftarrow> set_entry test_filepath name n;
          (_, s) \<leftarrow> set_inode_status n 1 s;
          (_, s) \<leftarrow> block_write s (dataregion_blocks_start (info s) + n) test_filepath;
          (_, s) \<leftarrow> set_dataregion_status n 1 s;
          Some (test_filepath, s) }"

text \<open>The first pointer of inode \<open>n\<close> is set to data block \<open>d\<close>.\<close>

definition point_to :: "int \<Rightarrow> int \<Rightarrow> fs \<Rightarrow> fs option" where
  "point_to n d s =
     do { (node, s) \<leftarrow> get_inode n s;
          set_inode n (node\<lparr>direct_ptrs := (direct_ptrs node)[0 := dataregion_blocks_start (info s) + d]\<rparr>) s }"

text \<open>The name in the first block of inode \<open>n\<close>.\<close>

definition first_name :: "int \<Rightarrow> buf \<Rightarrow> fs \<Rightarrow> (string \<times> buf \<times> fs) option" where
  "first_name n test_filepath s =
     do { (node, s) \<leftarrow> get_inode n s;
          (_, test_filepath) \<leftarrow> block_read s (direct_ptrs node ! 0) test_filepath;
          name \<leftarrow> filepath test_filepath;
          Some (name, test_filepath, s) }"

text \<open>\<open>create\<close> prints on exactly one of its paths, the one that returns -1.\<close>

definition create_prints :: "int \<Rightarrow> string list" where
  "create_prints rv = (if rv = -1 then [''already exists\<newline>''] else [])"

definition fs_main :: "int \<Rightarrow> (nat \<Rightarrow> buf) \<Rightarrow> fs \<Rightarrow> (string list \<times> fs) option" where
  "fs_main fd loc s =
     do { s \<leftarrow> sfs_init fd (loc 0) (loc 1) (loc 2) s;
          (test_filepath, s) \<leftarrow> make_entry 1 ''home'' (loc 3) s;
          (test_filepath, s) \<leftarrow> make_entry 2 ''vshenoy'' test_filepath s;
          s \<leftarrow> point_to 0 1 s;
          s \<leftarrow> point_to 1 2 s;
          (a, test_filepath, s) \<leftarrow> first_name 0 test_filepath s;
          (b, test_filepath, s) \<leftarrow> first_name 1 test_filepath s;
          (block, s) \<leftarrow> find_path_block (loc 4) (loc 5) newPath s;
          let numOfDirs = get_num_dirs newPath;
          let fldrs = parsePath newPath;
          name \<leftarrow> filepath block;
          let found = (if fldrs ! (numOfDirs - 1) = name then [''Found the correct directory\<newline>''] else []);
          (rv, s) \<leftarrow> create (loc 6) (loc 7) (loc 8) createPath s;
          (block, s) \<leftarrow> find_path_block (loc 9) (loc 10) createPath s;
          new \<leftarrow> filepath block;
          Some ([''Directory is '' @ a @ ''\<newline>'', ''Directory is '' @ b @ ''\<newline>''] @ found @
                [''The filepath is '' @ name @ ''\<newline>''] @ create_prints rv @ [''The filepath is '' @ new @ ''\<newline>''], s) }"

subsection \<open>Views of the disk\<close>

text \<open>Which inodes and data blocks are taken, the pointers of the inodes and the data blocks.\<close>

definition views :: "mem \<Rightarrow> metadata_info \<Rightarrow> (int \<Rightarrow> bool) \<Rightarrow> (int \<Rightarrow> bool) \<Rightarrow> (int \<Rightarrow> int list) \<Rightarrow> (int \<Rightarrow> buf) \<Rightarrow> bool" where
  "views m i U B P F \<longleftrightarrow>
     (\<forall>n. 0 \<le> n \<and> n < total_inodes i \<longrightarrow> inode_used m i n = U n \<and> ptrs m i n = P n) \<and>
     (\<forall>n. 0 \<le> n \<and> n < dataregion_blocks i \<longrightarrow> block_used m i n = B n) \<and>
     (\<forall>b. dataregion_blocks_start i \<le> b \<longrightarrow> same_block (blk m b) (F b))"

lemma views_self: "views m i (inode_used m i) (block_used m i) (ptrs m i) (blk m)"
  by (simp add: views_def)

lemma views_frame:
  assumes "views m i U B P F" "\<And>n. 0 \<le> n \<Longrightarrow> n < total_inodes i \<Longrightarrow> inode_used m' i n = U' n \<and> ptrs m' i n = P' n"
    "\<And>n. 0 \<le> n \<Longrightarrow> n < dataregion_blocks i \<Longrightarrow> block_used m' i n = B' n"
    "\<And>b. dataregion_blocks_start i \<le> b \<Longrightarrow> same_block (blk m' b) (blk m b)"
  shows "views m' i U' B' P' F"
  using assms same_block_trans unfolding views_def by blast

lemma views_mark_inode:
  assumes "views m i U B P F" "layout_ok i" "0 \<le> r" "r < total_inodes i"
  shows "views (set_status_bit m (inode_bitmap_start i) r True) i (U(r := True)) B P F"
  by (rule views_frame [OF assms(1)]) (use assms(1) in \<open>simp_all add: mark_inode [OF assms(2-4) refl] views_def ptrs_def\<close>)

lemma views_mark_block:
  assumes "views m i U B P F" "layout_ok i" "0 \<le> d" "d < dataregion_blocks i"
  shows "views (set_status_bit m (dataregion_bitmap_start i) d True) i U (B(d := True)) P F"
  by (rule views_frame [OF assms(1)]) (use assms(1) in \<open>simp_all add: mark_block [OF assms(2-4) refl] views_def ptrs_def\<close>)

lemma views_write_ptrs:
  assumes "views m i U B P F" "layout_ok i" "0 \<le> k" "k < total_inodes i" "wf_inode node"
  shows "views (set_ino m (inode_blocks_start i) k node) i U B (P(k := direct_ptrs node)) F"
  by (rule views_frame [OF assms(1)]) (use assms(1) in \<open>simp_all add: write_inode [OF assms(2-4) refl assms(5)] views_def ptrs_def\<close>)

lemma views_write_block:
  assumes "views m i U B P F" "layout_ok i" "dataregion_blocks_start i \<le> c"
  shows "views (set_blk m c f) i U B P (F(c := f))"
proof -
  note f = write_block [OF assms(2,3) refl]
  have "same_block (blk (set_blk m c f) b) ((F(c := f)) b)" if "dataregion_blocks_start i \<le> b" for b
  proof (cases "b = c")
    case True
    then show ?thesis using f(4) [of m f b] by simp
  next
    case False
    then have "same_block (blk (set_blk m c f) b) (blk m b)" using f(4) [of m f b] by simp
    then show ?thesis using assms(1) that False same_block_trans by (fastforce simp: views_def)
  qed
  then show ?thesis using assms(1) by (simp add: views_def ptrs_def f)
qed

lemma make_entry_ok:
  assumes s: "fs_ok s" "views (content s) (info s) U B P F" and name: "name_ok name"
    and n: "0 \<le> n" "n < total_inodes (info s)" "n < dataregion_blocks (info s)"
  obtains f s' where "make_entry n name f0 s = Some (f, s')" "fs_ok s'" "info s' = info s" "filepath f = Some name" "block_inode f = n"
    "views (content s') (info s) (U(n := True)) (B(n := True)) P (F(dataregion_blocks_start (info s) + n := f))"
proof -
  note l = fs_ok_layout [OF s(1)]
  obtain f where f: "strcpy_path f0 name = Some f" "filepath (put32 f 508 n) = Some name" "block_inode (put32 f 508 n) = s32 n"
    by (rule entry_ok [OF name])
  let ?d = "dataregion_blocks_start (info s) + n"
  obtain s1 where s1: "set_inode_status n 1 s = Some (0, s1)" "fs_step s (set_status_bit (content s) (inode_bitmap_start (info s)) n True) s1"
    by (rule set_inode_status_fs [OF s(1) n(1,2)])
  note m1 = fs_stepD [OF s1(2)]
  obtain s2 where s2: "block_write s1 ?d (put32 f 508 n) = Some (512, s2)" "fs_step s1 (set_blk (content s1) ?d (put32 f 508 n)) s2"
    by (rule block_write_step [OF m1(1), of ?d "put32 f 508 n"]) (use n m1(2) bitmap_block(7) [OF l] in simp_all)
  note m2 = fs_stepD [OF s2(2)]
  obtain s3 where s3: "set_dataregion_status n 1 s2 = Some (0, s3)"
    "fs_step s2 (set_status_bit (content s2) (dataregion_bitmap_start (info s2)) n True) s3"
    by (rule set_block_status_fs [OF m2(1) n(1)]) (use n m1(2) m2(2) in simp_all)
  note m3 = fs_stepD [OF s3(2)]
  have i: "info s1 = info s" "info s2 = info s" "info s3 = info s" using m1 m2 m3 by simp_all
  have "views (content s1) (info s) (U(n := True)) B P F" unfolding m1(3) by (rule views_mark_inode [OF s(2) l n(1,2)])
  then have "views (content s2) (info s) (U(n := True)) B P (F(?d := put32 f 508 n))" unfolding m2(3)
    by (rule views_write_block [OF _ l]) (use n in simp)
  then have "views (content s3) (info s) (U(n := True)) (B(n := True)) P (F(?d := put32 f 508 n))" unfolding m3(3) i
    by (rule views_mark_block [OF _ l n(1,3)])
  moreover have "make_entry n name f0 s = Some (put32 f 508 n, s3)"
    using f(1) s1(1) s2(1) s3(1) i by (simp add: make_entry_def set_entry_def)
  moreover have "block_inode (put32 f 508 n) = n" using f(3) fs_ok_range(2) [OF s(1) n(1,2)] by simp
  ultimately show thesis using that m3(1) i f(2) by blast
qed

lemma point_to_ok:
  assumes s: "fs_ok s" "views (content s) (info s) U B P F" and n: "0 \<le> n" "n < total_inodes (info s)"
    and d: "0 \<le> d" "d < dataregion_blocks (info s)"
  obtains s' where "point_to n d s = Some s'" "fs_ok s'" "info s' = info s"
    "views (content s') (info s) U B (P(n := (P n)[0 := dataregion_blocks_start (info s) + d])) F"
proof -
  note l = fs_ok_layout [OF s(1)]
  let ?node = "ino (content s) (inode_blocks_start (info s)) n"
  let ?new = "?node\<lparr>direct_ptrs := (direct_ptrs ?node)[0 := dataregion_blocks_start (info s) + d]\<rparr>"
  obtain s1 where s1: "get_inode n s = Some (?node, s1)" "fs_step s (content s) s1" by (rule get_inode_step [OF s(1) n])
  note m1 = fs_stepD [OF s1(2)]
  obtain s2 where s2: "set_inode n ?new s1 = Some s2" "fs_step s1 (set_ino (content s1) (inode_blocks_start (info s1)) n ?new) s2"
    by (rule set_inode_step [OF m1(1) n(1), of ?new]) (use n m1(2) in simp_all)
  note m2 = fs_stepD [OF s2(2)]
  have wf: "wf_inode ?new" using wf_inode_ptr [OF _ fs_ok_range(1) [OF s(1) d], of ?node 0] by (simp add: ino_def)
  have "direct_ptrs ?node = P n" using s(2) n by (simp add: views_def ptrs_def)
  then have "views (content s2) (info s) U B (P(n := (P n)[0 := dataregion_blocks_start (info s) + d])) F"
    using views_write_ptrs [OF s(2) l n wf] m2(3) m1(2,3) by simp
  moreover have "point_to n d s = Some s2" using s1(1) s2(1) m1(2) by (simp add: point_to_def)
  ultimately show thesis using that m2(1,2) m1(2) by simp
qed

lemma first_name_ok:
  assumes s: "fs_ok s" "views (content s) (info s) U B P F" and n: "0 \<le> n" "n < total_inodes (info s)"
    and d: "0 \<le> d" "d < dataregion_blocks (info s)" "P n ! 0 = dataregion_blocks_start (info s) + d"
    and name: "filepath (F (dataregion_blocks_start (info s) + d)) = Some name"
  obtains f s' where "first_name n f0 s = Some (name, f, s')" "fs_ok s'" "info s' = info s" "content s' = content s"
proof -
  note l = fs_ok_layout [OF s(1)]
  let ?node = "ino (content s) (inode_blocks_start (info s)) n" and ?b = "dataregion_blocks_start (info s) + d"
  obtain s1 where s1: "get_inode n s = Some (?node, s1)" "fs_step s (content s) s1" by (rule get_inode_step [OF s(1) n])
  note m1 = fs_stepD [OF s1(2)]
  obtain f where f: "block_read s1 ?b f0 = Some (512, f)" "same_block f (blk (content s1) ?b)"
    by (rule block_read_ok [OF fs_ok_disk [OF m1(1)], of ?b]) (use d m1(2) bitmap_block(7) [OF l] in simp_all)
  have "same_block f (F ?b)" using f(2) s(2) d(1) m1(3) same_block_trans by (fastforce simp: views_def)
  then have "filepath f = Some name" using name filepath_same by metis
  moreover have "direct_ptrs ?node ! 0 = ?b" using s(2) n d(3) by (simp add: views_def ptrs_def)
  ultimately show thesis using that s1(1) f(1) m1 by (simp add: first_name_def)
qed

subsection \<open>The directories made by hand\<close>

definition home_dirs :: dirs where
  "home_dirs = (\<lambda>_. Map.empty)(0 := [''home'' \<mapsto> 1], 1 := [''vshenoy'' \<mapsto> 2])"

lemma home_views:
  assumes v: "views m i ((\<lambda>n. n = 0)(1 := True, 2 := True)) ((\<lambda>n. n = 0)(1 := True, 2 := True))
      ((\<lambda>_. replicate 12 0)(0 := (replicate 12 0)[0 := dataregion_blocks_start i + 1], 1 := (replicate 12 0)[0 := dataregion_blocks_start i + 2])) F"
    and l: "layout_ok i" "3 < total_inodes i" "3 < dataregion_blocks i"
    and root: "filepath (F (dataregion_blocks_start i)) = Some []" "block_inode (F (dataregion_blocks_start i)) = 0"
    and home: "filepath (F (dataregion_blocks_start i + 1)) = Some ''home''" "block_inode (F (dataregion_blocks_start i + 1)) = 1"
    and vshenoy: "filepath (F (dataregion_blocks_start i + 2)) = Some ''vshenoy''" "block_inode (F (dataregion_blocks_start i + 2)) = 2"
  shows "tree_ok m i" "children m i = home_dirs" "has_room m i 2"
proof -
  let ?d = "dataregion_blocks_start i"
  have d0: "0 < ?d" using l(1,2) by (auto simp: layout_ok_def)
  have used: "inode_used m i n = (n \<in> {0, 1, 2})" if "0 \<le> n" "n < total_inodes i" for n
    using v that by (auto simp: views_def)
  have taken: "block_used m i n = (n \<in> {0, 1, 2})" if "0 \<le> n" "n < dataregion_blocks i" for n
    using v that by (auto simp: views_def)
  have p: "ptrs m i n = (if n = 0 then (?d + 1) # replicate 11 0 else if n = 1 then (?d + 2) # replicate 11 0 else replicate 12 0)"
    if "0 \<le> n" "n < total_inodes i" for n
    using v that by (auto simp: views_def numeral_eq_Suc)
  have "same_block (blk m (?d + j)) (F (?d + j))" if "0 \<le> j" for j using v that by (simp add: views_def)
  then have b: "filepath (blk m (?d + j)) = filepath (F (?d + j))" "block_inode (blk m (?d + j)) = block_inode (F (?d + j))" if "0 \<le> j" for j
    using that filepath_same block_inode_same by blast+
  note names = b [of 0, simplified, unfolded root] b [of 1, simplified, unfolded home] b [of 2, simplified, unfolded vshenoy]
  have ent: "entry_in m i ?d" "entry_in m i (?d + 1)" "entry_in m i (?d + 2)"
    using names used [of 0] used [of 1] used [of 2] taken [of 0] taken [of 1] taken [of 2] l by (simp_all add: entry_in_def)
  show "tree_ok m i" unfolding tree_ok_def
  proof (intro conjI allI impI)
    fix n q assume h: "0 \<le> n \<and> n < total_inodes i \<and> q \<in> set (ptrs m i n) \<and> q \<noteq> 0"
    then have "n = 0 \<and> q = ?d + 1 \<or> n = 1 \<and> q = ?d + 2" using p [of n] by (auto split: if_splits)
    then show "inode_used m i n" "entry_in m i q" using used [of n] h ent by auto
  qed (use ent names in simp_all)
  have none: "find (\<lambda>q. q \<noteq> 0 \<and> Q q) (replicate k (0::int)) = None" for Q k by (simp add: find_None_iff)
  have "dir_entry m (ptrs m i n) x = (if n = 0 \<and> x = ''home'' then Some (?d + 1) else if n = 1 \<and> x = ''vshenoy'' then Some (?d + 2) else None)"
    if "0 \<le> n" "n < total_inodes i" for n x
    using names d0 unfolding dir_entry_def p [OF that] by (auto simp: none)
  then have "children m i n x = home_dirs n x" for n x
    using l(2) names by (auto simp: children_def home_dirs_def)
  then show "children m i = home_dirs" by (simp add: fun_eq_iff)
  show "has_room m i 2" unfolding has_room_def
    using used [of 3] taken [of 3] p [of 2] l by (intro conjI exI [of _ 3]) auto
qed

lemma init_views:
  assumes "diskfile s < 0" "0 \<le> fd" "msize (content s) = 8388608 * k" "1 \<le> k" "k \<le> 192" "\<And>x. 0 \<le> x \<Longrightarrow> x < 512 \<Longrightarrow> buffer s x = 0"
  obtains s' where "sfs_init fd block sblock fblock s = Some s'" "fs_ok s'" "info s' = get_metadata_info (8388608 * k)"
    "3 < total_inodes (info s')" "3 < dataregion_blocks (info s')"
    "views (content s') (info s') (\<lambda>n. n = 0) (\<lambda>n. n = 0) (\<lambda>_. replicate 12 0) (blk (content s'))"
    "filepath (blk (content s') (dataregion_blocks_start (info s'))) = Some []" "block_inode (blk (content s') (dataregion_blocks_start (info s'))) = 0"
proof -
  obtain s' where r: "sfs_init fd block sblock fblock s = Some s'" "fs_ok s'" "info s' = get_metadata_info (8388608 * k)"
    "tree_ok (content s') (info s')"
    "\<And>n. 0 \<le> n \<Longrightarrow> n < total_inodes (info s') \<Longrightarrow> inode_used (content s') (info s') n = (n = 0)"
    "\<And>n. 0 \<le> n \<Longrightarrow> n < dataregion_blocks (info s') \<Longrightarrow> block_used (content s') (info s') n = (n = 0)"
    "ptrs (content s') (info s') 0 = replicate 12 0"
    by (rule sfs_init_ok [OF assms(1-6)]) (assumption+, rule that, (assumption | simp)+)
  note l = layout_multiple [OF assms(4,5), folded r(3)]
  have "ptrs (content s') (info s') n = replicate 12 0" if n: "0 \<le> n" "n < total_inodes (info s')" for n
  proof (cases "n = 0")
    case False
    then have "\<forall>q \<in> set (ptrs (content s') (info s') n). q = 0" using r(4) r(5) [OF n] n by (auto simp: tree_ok_def)
    moreover have "length (ptrs (content s') (info s') n) = 12" by (simp add: ptrs_def ino_def)
    ultimately show ?thesis by (metis replicate_length_same)
  qed (use r(7) in simp)
  then have "views (content s') (info s') (\<lambda>n. n = 0) (\<lambda>n. n = 0) (\<lambda>_. replicate 12 0) (blk (content s'))"
    using r(5,6) by (simp add: views_def)
  moreover have "3 < total_inodes (info s')" "3 < dataregion_blocks (info s')" using l assms(4) by (auto simp: layout_ok_def)
  ultimately show thesis using that r(1-3) tree_root [OF r(4)] by blast
qed

lemma home_ok:
  assumes s: "fs_ok s" "info s = i" "3 < total_inodes i" "3 < dataregion_blocks i"
    and v: "views (content s) i (\<lambda>n. n = 0) (\<lambda>n. n = 0) (\<lambda>_. replicate 12 0) F"
    and root: "filepath (F (dataregion_blocks_start i)) = Some []" "block_inode (F (dataregion_blocks_start i)) = 0"
  obtains f1 f2 f3 f4 s1 s2 s3 s4 s5 s6 where "make_entry 1 ''home'' f0 s = Some (f1, s1)" "make_entry 2 ''vshenoy'' f1 s1 = Some (f2, s2)"
    "point_to 0 1 s2 = Some s3" "point_to 1 2 s3 = Some s4" "first_name 0 f2 s4 = Some (''home'', f3, s5)"
    "first_name 1 f3 s5 = Some (''vshenoy'', f4, s6)" "fs_ok s6" "info s6 = i" "tree_ok (content s6) i"
    "children (content s6) i = home_dirs" "has_room (content s6) i 2"
    "\<And>n. n \<in> {0, 1, 2} \<Longrightarrow> inode_used (content s6) i n"
proof -
  let ?d = "dataregion_blocks_start i"
  have nm: "name_ok ''home''" "name_ok ''vshenoy''" by (simp_all add: name_ok_def)
  have r: "(0::int) \<le> 0" "0 < total_inodes i" "0 < dataregion_blocks i" "(0::int) \<le> 1" "1 < total_inodes i" "1 < dataregion_blocks i"
    "(0::int) \<le> 2" "2 < total_inodes i" "2 < dataregion_blocks i" using s(3,4) by simp_all
  note v0 = v [folded s(2)]
  obtain f1 s1 where s1: "make_entry 1 ''home'' f0 s = Some (f1, s1)" "fs_ok s1" "info s1 = i" "filepath f1 = Some ''home''" "block_inode f1 = 1"
    "views (content s1) i ((\<lambda>n. n = 0)(1 := True)) ((\<lambda>n. n = 0)(1 := True)) (\<lambda>_. replicate 12 0) (F(?d + 1 := f1))"
    by (rule make_entry_ok [OF s(1) v0 nm(1), of 1 f0, unfolded s(2), OF r(4-6)]) (rule that, assumption+)
  note v1 = s1(6) [folded s1(3)]
  obtain f2 s2 where s2: "make_entry 2 ''vshenoy'' f1 s1 = Some (f2, s2)" "fs_ok s2" "info s2 = i" "filepath f2 = Some ''vshenoy''" "block_inode f2 = 2"
    "views (content s2) i ((\<lambda>n. n = 0)(1 := True, 2 := True)) ((\<lambda>n. n = 0)(1 := True, 2 := True)) (\<lambda>_. replicate 12 0) (F(?d + 1 := f1, ?d + 2 := f2))"
    by (rule make_entry_ok [OF s1(2) v1 nm(2), of 2 f1, unfolded s1(3), OF r(7-9)]) (rule that, assumption+)
  note v2 = s2(6) [folded s2(3)]
  obtain s3 where s3: "point_to 0 1 s2 = Some s3" "fs_ok s3" "info s3 = i"
    "views (content s3) i ((\<lambda>n. n = 0)(1 := True, 2 := True)) ((\<lambda>n. n = 0)(1 := True, 2 := True))
      ((\<lambda>_. replicate 12 0)(0 := (replicate 12 0)[0 := ?d + 1])) (F(?d + 1 := f1, ?d + 2 := f2))"
    by (rule point_to_ok [OF s2(2) v2, of 0 1, unfolded s2(3), OF r(1,2,4,6)]) (rule that, assumption+)
  note v3 = s3(4) [folded s3(3)]
  have z: "((\<lambda>_. replicate 12 0)(0 := (replicate 12 0)[0 := ?d + 1])) (1::int) = replicate 12 (0::int)" by simp
  obtain s4 where s4: "point_to 1 2 s3 = Some s4" "fs_ok s4" "info s4 = i"
    "views (content s4) i ((\<lambda>n. n = 0)(1 := True, 2 := True)) ((\<lambda>n. n = 0)(1 := True, 2 := True))
      ((\<lambda>_. replicate 12 0)(0 := (replicate 12 0)[0 := ?d + 1], 1 := (replicate 12 0)[0 := ?d + 2])) (F(?d + 1 := f1, ?d + 2 := f2))"
    by (rule point_to_ok [OF s3(2) v3, of 1 2, unfolded s3(3) z, OF r(4,5,7,9)]) (rule that, assumption+)
  note v4 = s4(4) [folded s4(3)]
  obtain f3 s5 where s5: "first_name 0 f2 s4 = Some (''home'', f3, s5)" "fs_ok s5" "info s5 = i" "content s5 = content s4"
    by (rule first_name_ok [OF s4(2) v4, of 0 1 "''home''" f2, unfolded s4(3), OF r(1,2,4,6)])
      (simp, simp add: s1(4), rule that, assumption+)
  note v5 = s4(4) [folded s5(3) s5(4)]
  obtain f4 s6 where s6: "first_name 1 f3 s5 = Some (''vshenoy'', f4, s6)" "fs_ok s6" "info s6 = i" "content s6 = content s5"
    by (rule first_name_ok [OF s5(2) v5, of 1 2 "''vshenoy''" f3, unfolded s5(3), OF r(4,5,7,9)])
      (simp, simp add: s2(4), rule that, assumption+)
  note w = s4(4) [folded s5(4), folded s6(4)]
  have tree: "tree_ok (content s6) i" "children (content s6) i = home_dirs" "has_room (content s6) i 2"
    by (rule home_views [OF w fs_ok_layout [OF s(1), unfolded s(2)] s(3,4)]; simp add: root s1(4,5) s2(4,5))+
  have used: "inode_used (content s6) i n" if "n \<in> {0, 1, 2}" for n using w s(3) that by (auto simp: views_def)
  show thesis by (rule that [OF s1(1) s2(1) s3(1) s4(1) s5(1) s6(1-3) tree used])
qed

subsection \<open>The program\<close>

lemma main_paths:
  "newPath = path_of [''home'', ''vshenoy'']" "createPath = path_of [''home'', ''vshenoy'', ''testfile'']"
  "\<forall>n \<in> set [''home'', ''vshenoy'']. slash \<notin> set n" "\<forall>n \<in> set [''home'', ''vshenoy'', ''testfile'']. slash \<notin> set n"
  by (simp_all add: newPath_def createPath_def path_of_def slash_def)

lemma main_resolves:
  "resolve home_dirs 0 [''home'', ''vshenoy''] = (2, [])" "resolve home_dirs 0 [''home'', ''vshenoy'', ''testfile''] = (2, [''testfile''])"
  "home_dirs 2 = Map.empty" "found_name [''home'', ''vshenoy''] [] = ''vshenoy''"
  "found_name [''home'', ''vshenoy'', ''testfile''] [''testfile''] = ''vshenoy''" "found_name [''home'', ''vshenoy'', ''testfile''] [] = ''testfile''"
  by (simp_all add: home_dirs_def found_name_def)

text \<open>C18: On a disk of 8k MB, k up to 192, the main program of the file system runs to its end, whatever the
  disk and its local variables hold at first: it prints the two directories it has made, finds
  /home/vshenoy, and after creating the file finds /home/vshenoy/testfile; the file system it leaves is
  well-formed and is the tree with these three entries, the file having an inode of its own.\<close>

theorem fs_main_ok:
  assumes "diskfile s < 0" "0 \<le> fd" "msize (content s) = 8388608 * k" "1 \<le> k" "k \<le> 192" "same_block (buffer s) (\<lambda>_. 0)"
  shows "\<exists>s' r. fs_main fd loc s = Some ([''Directory is home\<newline>'', ''Directory is vshenoy\<newline>'',
      ''Found the correct directory\<newline>'', ''The filepath is vshenoy\<newline>'', ''The filepath is testfile\<newline>''], s') \<and>
    fs_ok s' \<and> tree_ok (content s') (info s') \<and> r \<notin> {0, 1, 2} \<and>
    children (content s') (info s') = (\<lambda>_. Map.empty)(0 := [''home'' \<mapsto> 1], 1 := [''vshenoy'' \<mapsto> 2], 2 := [''testfile'' \<mapsto> r])"
proof -
  have z: "\<And>x. 0 \<le> x \<Longrightarrow> x < 512 \<Longrightarrow> buffer s x = 0" using assms(6) by (simp add: same_block_def)
  obtain s0 where s0: "sfs_init fd (loc 0) (loc 1) (loc 2) s = Some s0" "fs_ok s0" "3 < total_inodes (info s0)" "3 < dataregion_blocks (info s0)"
    "views (content s0) (info s0) (\<lambda>n. n = 0) (\<lambda>n. n = 0) (\<lambda>_. replicate 12 0) (blk (content s0))"
    "filepath (blk (content s0) (dataregion_blocks_start (info s0))) = Some []" "block_inode (blk (content s0) (dataregion_blocks_start (info s0))) = 0"
    by (rule init_views [where block = "loc 0" and sblock = "loc 1" and fblock = "loc 2", OF assms(1-5)])
      (erule (1) z, rule that, assumption+)
  obtain f1 f2 f3 f4 s1 s2 s3 s4 s5 s6 where s6: "make_entry 1 ''home'' (loc 3) s0 = Some (f1, s1)" "make_entry 2 ''vshenoy'' f1 s1 = Some (f2, s2)"
    "point_to 0 1 s2 = Some s3" "point_to 1 2 s3 = Some s4" "first_name 0 f2 s4 = Some (''home'', f3, s5)"
    "first_name 1 f3 s5 = Some (''vshenoy'', f4, s6)" and i6: "fs_ok s6" "info s6 = info s0" "tree_ok (content s6) (info s0)"
    "children (content s6) (info s0) = home_dirs" "has_room (content s6) (info s0) 2" "\<And>n. n \<in> {0, 1, 2} \<Longrightarrow> inode_used (content s6) (info s0) n"
    by (rule home_ok [OF s0(2) refl s0(3-7), of "loc 3"]) (rule that, assumption+)
  note ok6 = i6(1,2) i6(3-6) [folded i6(2)]
  obtain b eb q where b: "find_path_block (loc 4) (loc 5) newPath s6 = Some (b, s6\<lparr>entry_buffer := eb\<rparr>)" "filepath b = Some ''vshenoy''"
    by (rule find_path_block_resolve [OF ok6(1,3) main_paths(3), of 2 "[]" "loc 4" "loc 5"])
      (use ok6(4) main_resolves(1,4) main_paths(1) in auto)
  let ?t = "s6\<lparr>entry_buffer := eb\<rparr>" and ?ns = "[''home'', ''vshenoy'', ''testfile'']"
  have t: "fs_ok ?t" "tree_ok (content ?t) (info ?t)" "?ns \<noteq> []" "name_ok (last ?ns)"
    "resolve (children (content ?t) (info ?t)) 0 ?ns = (2, [''testfile''])" "found_name ?ns [''testfile''] \<noteq> last ?ns"
    "children (content ?t) (info ?t) 2 (last ?ns) = None" "has_room (content ?t) (info ?t) 2"
    using ok6 main_resolves(2,3,5) by (simp_all add: name_ok_def del: resolve.simps)
  obtain s' r where c: "create (loc 6) (loc 7) (loc 8) createPath ?t = Some (0, s')" "fs_ok s'" "tree_ok (content s') (info s6)" "info s' = info s6"
    "\<not> inode_used (content s6) (info s6) r" "children (content s') (info s6) = link home_dirs 2 ''testfile'' r"
    using create_room [OF t(1,2,3) main_paths(4) t(4-8), of "loc 6" "loc 7" "loc 8"] ok6(4) by (auto simp: main_paths(2))
  have way: "resolve (children (content s') (info s')) 0 [''home'', ''vshenoy'', ''testfile''] = (r, [])"
    unfolding c(4,6) by (rule resolve_link_new [OF main_resolves(2)])
  obtain b2 eb2 q2 where b2: "find_path_block (loc 9) (loc 10) createPath s' = Some (b2, s'\<lparr>entry_buffer := eb2\<rparr>)" "filepath b2 = Some ''testfile''"
    by (rule find_path_block_resolve [OF c(2) _ main_paths(4) way, of "loc 9" "loc 10"]) (use c(3,4) main_resolves(6) main_paths(2) in auto)
  have "parsePath newPath ! (get_num_dirs newPath - 1) = ''vshenoy''"
    using parsePath_path_of [OF main_paths(3)] path_of_last(1) [OF _ main_paths(3)] by (simp add: main_paths(1))
  then have "fs_main fd loc s = Some ([''Directory is home\<newline>'', ''Directory is vshenoy\<newline>'',
      ''Found the correct directory\<newline>'', ''The filepath is vshenoy\<newline>'', ''The filepath is testfile\<newline>''], s'\<lparr>entry_buffer := eb2\<rparr>)"
    using s0(1) s6 b c(1) b2 by (simp add: fs_main_def create_prints_def)
  moreover have "r \<notin> {0, 1, 2}" using c(5) ok6(6) by blast
  ultimately show ?thesis using c(2-4,6)
    by (intro exI [of _ "s'\<lparr>entry_buffer := eb2\<rparr>"] exI [of _ r]) (auto simp: link_def home_dirs_def fun_eq_iff)
qed

theorem fs_main_ok_witness:
  "\<exists>s'. fs_main 3 (\<lambda>_ _. 7) (fresh_process 8388608) = Some ([''Directory is home\<newline>'', ''Directory is vshenoy\<newline>'',
      ''Found the correct directory\<newline>'', ''The filepath is vshenoy\<newline>'', ''The filepath is testfile\<newline>''], s')"
  using fs_main_ok [of "fresh_process 8388608" 3 1 "\<lambda>_ _. 7"] by (auto simp: fresh_process_def)

end
