(* ===== verification/C_Print.thy ===== *)
theory C_Print
  imports OS_Prelude
begin

section \<open>Formatted output\<close>

text \<open>
  What the sources use of \<open>printf\<close>: texts with the conversions \<open>d\<close>, \<open>x\<close>, \<open>o\<close> and \<open>s\<close>, a flag 0, a width and the
  modifiers \<open>l\<close> and \<open>ll\<close>.  Arguments are passed in slots of eight bytes, as on x86-64, so that a conversion
  without modifier takes the lower 32 bits of a wider argument or of a pointer.  A missing argument, a
  conversion for another kind of argument and an unknown directive yield \<open>None\<close>.
\<close>

datatype c_arg = Num int | Str string

definition s64 :: "int \<Rightarrow> int" where
  "s64 x = (x + 9223372036854775808) mod 18446744073709551616 - 9223372036854775808"

definition u32 :: "int \<Rightarrow> int" where
  "u32 x = x mod 4294967296"

definition digit_char :: "nat \<Rightarrow> char" where
  "digit_char d = char_of (if d < 10 then 48 + d else 87 + d)"

fun digits :: "nat \<Rightarrow> nat \<Rightarrow> string" where
  "digits b n = (if n < b \<or> b < 2 then [digit_char n] else digits b (n div b) @ [digit_char (n mod b)])"

declare digits.simps [simp del]

text \<open>A number filled up to the width with zeros or, in front of its sign, with blanks.\<close>

definition fill :: "bool \<Rightarrow> nat \<Rightarrow> string \<Rightarrow> string \<Rightarrow> string" where
  "fill zero w sign cs =
     (let n = w - (length sign + length cs) in
      if zero then sign @ replicate n CHR ''0'' @ cs else replicate n CHR '' '' @ sign @ cs)"

definition print_arg :: "bool \<Rightarrow> nat \<Rightarrow> bool \<Rightarrow> char \<Rightarrow> c_arg \<Rightarrow> string option" where
  "print_arg zero w long conv a =
     (case a of
        Num v \<Rightarrow>
          if conv = CHR ''d'' then
            (let v = (if long then s64 v else s32 v) in
             Some (fill zero w (if v < 0 then ''-'' else []) (digits 10 (nat \<bar>v\<bar>))))
          else if conv = CHR ''x'' then Some (fill zero w [] (digits 16 (nat (if long then u64 v else u32 v))))
          else if conv = CHR ''o'' then Some (fill zero w [] (digits 8 (nat (if long then u64 v else u32 v))))
          else None
      | Str t \<Rightarrow> if conv = CHR ''s'' then Some (fill False w [] t) else None)"

text \<open>A directive behind its percent sign, without the conversion character.\<close>

fun read_width :: "nat \<Rightarrow> string \<Rightarrow> nat \<times> string" where
  "read_width w [] = (w, [])"
| "read_width w (x # xs) =
     (if x \<in> set ''0123456789'' then read_width (10 * w + (of_char x - 48)) xs else (w, x # xs))"

definition read_long :: "string \<Rightarrow> bool \<times> string" where
  "read_long xs =
     (if take 2 xs = ''ll'' then (True, drop 2 xs) else if take 1 xs = ''l'' then (True, drop 1 xs) else (False, xs))"

definition read_directive :: "string \<Rightarrow> (bool \<times> nat \<times> bool) \<times> string" where
  "read_directive xs =
     (let (zero, xs) = (if take 1 xs = ''0'' then (True, drop 1 xs) else (False, xs));
          (w, xs) = read_width 0 xs;
          (long, xs) = read_long xs
      in ((zero, w, long), xs))"

lemma read_width_length: "length (snd (read_width w xs)) \<le> length xs"
  by (induction w xs rule: read_width.induct) auto

lemma read_directive_length: "length (snd (read_directive xs)) \<le> length xs"
proof -
  define zs where "zs = (if take 1 xs = ''0'' then drop 1 xs else xs)"
  have "snd (read_directive xs) = snd (read_long (snd (read_width 0 zs)))"
    by (simp add: read_directive_def zs_def split: prod.splits)
  then show ?thesis using read_width_length [of 0 zs] by (auto simp: read_long_def zs_def)
qed

lemma read_directive_shorter: "((zero, w, long), conv # ys) = read_directive xs \<Longrightarrow> length ys < length xs"
  using read_directive_length [of xs] by (auto dest: sym)

function c_printf :: "string \<Rightarrow> c_arg list \<Rightarrow> string option" where
  "c_printf [] args = Some []"
| "c_printf (x # xs) args =
     (if x = CHR ''%'' then
        (case read_directive xs of
           ((zero, w, long), conv # ys) \<Rightarrow>
             (case args of
                [] \<Rightarrow> None
              | a # args \<Rightarrow> do { t \<leftarrow> print_arg zero w long conv a; u \<leftarrow> c_printf ys args; Some (t @ u) })
         | (_, []) \<Rightarrow> None)
      else map_option ((#) x) (c_printf xs args))"
  by pat_completeness auto
termination
  by (relation "measure (\<lambda>(xs, _). length xs)") (auto dest!: read_directive_shorter)

declare c_printf.simps(2) [simp del]

lemma c_printf_text:
  "CHR ''%'' \<notin> set xs \<Longrightarrow> c_printf (xs @ ys) args = (case c_printf ys args of None \<Rightarrow> None | Some u \<Rightarrow> Some (xs @ u))"
  by (induction xs) (auto simp: c_printf.simps(2) split: option.split)

subsection \<open>Reading numbers back\<close>

text \<open>The value of a row of digits; blanks in front count as zeros.\<close>

definition digit_value :: "char \<Rightarrow> nat" where
  "digit_value x = (let n = of_char x in if n = 32 then 0 else if n < 58 then n - 48 else n - 87)"

definition digits_value :: "nat \<Rightarrow> string \<Rightarrow> nat" where
  "digits_value b xs = foldl (\<lambda>v x. b * v + digit_value x) 0 xs"

lemma digit_value_char: "d < 16 \<Longrightarrow> digit_value (digit_char d) = d"
  by (simp add: digit_value_def digit_char_def Let_def)

lemma digit_char_ne: "d < 16 \<Longrightarrow> digit_char d \<noteq> CHR ''-'' \<and> digit_char d \<noteq> CHR 0x0A"
  by (auto simp: digit_char_def dest!: arg_cong [of _ _ "of_char :: char \<Rightarrow> nat"])

lemma digits_value_digits:
  assumes "2 \<le> b" "b \<le> 16"
  shows "digits_value b (digits b n) = n \<and> (\<forall>x \<in> set (digits b n). x \<noteq> CHR ''-'' \<and> x \<noteq> CHR 0x0A)"
  using assms
proof (induction b n rule: digits.induct)
  case (1 b n)
  have m: "n mod b < 16" using "1.prems" mod_less_divisor [of b n] by linarith
  show ?case
  proof (cases "n < b")
    case True
    then show ?thesis using "1.prems" digit_char_ne [of n] by (simp add: digits.simps [of b n] digits_value_def digit_value_char)
  next
    case False
    then have "digits_value b (digits b (n div b)) = n div b" "\<forall>x \<in> set (digits b (n div b)). x \<noteq> CHR ''-'' \<and> x \<noteq> CHR 0x0A"
      using 1 by simp_all
    then show ?thesis using False m "1.prems" digit_char_ne [OF m]
      by (simp add: digits.simps [of b n] digits_value_def digit_value_char)
  qed
qed

lemma digits_value_pad: "x = CHR ''0'' \<or> x = CHR '' '' \<Longrightarrow> digits_value b (replicate n x @ cs) = digits_value b cs"
proof -
  assume "x = CHR ''0'' \<or> x = CHR '' ''"
  then have "digit_value x = 0" by (auto simp: digit_value_def)
  then have "foldl (\<lambda>v x. b * v + digit_value x) 0 (replicate n x) = 0" by (induction n) simp_all
  then show ?thesis by (simp add: digits_value_def)
qed

definition text_value :: "nat \<Rightarrow> string \<Rightarrow> int" where
  "text_value b cs = (if CHR ''-'' \<in> set cs then -1 else 1) * int (digits_value b (filter (\<lambda>x. x \<noteq> CHR ''-'') cs))"

lemma text_value_fill:
  assumes "2 \<le> b" "b \<le> 16" "sign = (if v < 0 then ''-'' else [])"
  shows "text_value b (fill zero w sign (digits b (nat \<bar>v\<bar>))) = v" "CHR 0x0A \<notin> set (fill zero w sign (digits b (nat \<bar>v\<bar>)))"
proof -
  note d = digits_value_digits [OF assms(1,2), of "nat \<bar>v\<bar>"]
  have f: "filter (\<lambda>x. x \<noteq> CHR ''-'') (digits b (nat \<bar>v\<bar>)) = digits b (nat \<bar>v\<bar>)" using d by (simp add: filter_id_conv)
  have "digits_value b (filter (\<lambda>x. x \<noteq> CHR ''-'') (fill zero w sign (digits b (nat \<bar>v\<bar>)))) = nat \<bar>v\<bar>"
    using d f assms(3) by (auto simp: fill_def Let_def digits_value_pad)
  moreover have "(CHR ''-'' \<in> set (fill zero w sign (digits b (nat \<bar>v\<bar>)))) = (v < 0)"
    using d assms(3) by (auto simp: fill_def Let_def)
  ultimately show "text_value b (fill zero w sign (digits b (nat \<bar>v\<bar>))) = v" by (simp add: text_value_def)
  show "CHR 0x0A \<notin> set (fill zero w sign (digits b (nat \<bar>v\<bar>)))" using d assms(3) by (auto simp: fill_def Let_def)
qed

end
