(* ===== verification/Sfs_Skeleton.thy ===== *)
theory Sfs_Skeleton
  imports C_Print
begin

section \<open>The FUSE server (assignment3/src/sfs.c and log.c)\<close>

text \<open>
  The server of assignment 3 as it stands: every handler writes a line to the log and returns 0.  The
  state is the context FUSE keeps for a request, what its private data point to, and the texts of the
  log and of the standard error.  Pointers are addresses.  \<open>fuse_main\<close>, \<open>fopen\<close> and \<open>malloc\<close> are arguments of the
  main program; a process that aborts or exits yields \<open>None\<close>.
\<close>

record sfs_state =
  logfile :: int
  disk_path :: string

record fuse_context =
  fuse :: int
  uid :: int
  gid :: int
  pid :: int
  private_data :: int
  umask :: int

record fuse_conn_info =
  proto_major :: int
  proto_minor :: int
  async_read :: int
  max_write :: int
  max_readahead :: int
  capable :: int
  want :: int

record fuse_file_info =
  fi_flags :: int
  fh_old :: int
  writepage :: int
  direct_io :: int
  keep_cache :: int
  fh :: int
  lock_owner :: int

record stat =
  st_dev :: int
  st_ino :: int
  st_mode :: int
  st_nlink :: int
  st_uid :: int
  st_gid :: int
  st_rdev :: int
  st_size :: int
  st_blksize :: int
  st_blocks :: int
  st_atime :: int
  st_mtime :: int
  st_ctime :: int

record statvfs =
  f_bsize :: int
  f_frsize :: int
  f_blocks :: int
  f_bfree :: int
  f_bavail :: int
  f_files :: int
  f_ffree :: int
  f_favail :: int
  f_fsid :: int
  f_flag :: int
  f_namemax :: int

record utimbuf =
  actime :: int
  modtime :: int

record sfs =
  fuse_ctx :: fuse_context
  sfs_data :: sfs_state
  log :: string
  err :: string

subsection \<open>The log\<close>

text \<open>\<open>open_result\<close> is what \<open>fopen\<close> delivers for writing; the file is then empty.\<close>

definition log_open :: "int option \<Rightarrow> sfs \<Rightarrow> (int \<times> sfs) option" where
  "log_open open_result s = do { f \<leftarrow> open_result; Some (f, s\<lparr>log := []\<rparr>) }"

definition log_msg :: "string \<Rightarrow> c_arg list \<Rightarrow> sfs \<Rightarrow> sfs option" where
  "log_msg format args s = do { t \<leftarrow> c_printf format args; Some (s\<lparr>log := log s @ t\<rparr>) }"

definition err_msg :: "string \<Rightarrow> c_arg list \<Rightarrow> sfs \<Rightarrow> sfs option" where
  "err_msg format args s = do { t \<leftarrow> c_printf format args; Some (s\<lparr>err := err s @ t\<rparr>) }"

definition log_struct :: "string \<Rightarrow> string \<Rightarrow> c_arg \<Rightarrow> sfs \<Rightarrow> sfs option" where
  "log_struct field format v s = log_msg (''    '' @ field @ '' = '' @ format @ ''\<newline>'') [v] s"

text \<open>Several uses of the macro, one after the other.\<close>

fun log_structs :: "(string \<times> string \<times> c_arg) list \<Rightarrow> sfs \<Rightarrow> sfs option" where
  "log_structs [] s = Some s"
| "log_structs ((field, format, v) # fs) s = do { s \<leftarrow> log_struct field format v s; log_structs fs s }"

definition log_fuse_context :: "sfs \<Rightarrow> sfs option" where
  "log_fuse_context s =
     do { s \<leftarrow> log_msg ''    context:\<newline>'' [] s;
          log_structs [(''fuse'', ''%08x'', Num (fuse (fuse_ctx s))), (''uid'', ''%d'', Num (uid (fuse_ctx s))),
            (''gid'', ''%d'', Num (gid (fuse_ctx s))), (''pid'', ''%d'', Num (pid (fuse_ctx s))),
            (''private_data'', ''%08x'', Num (private_data (fuse_ctx s))), (''logfile'', ''%08x'', Num (logfile (sfs_data s))),
            (''diskfile'', ''%s'', Str (disk_path (sfs_data s))), (''umask'', ''%05o'', Num (umask (fuse_ctx s)))] s }"

definition log_conn :: "fuse_conn_info \<Rightarrow> sfs \<Rightarrow> sfs option" where
  "log_conn conn s =
     do { s \<leftarrow> log_msg ''    conn:\<newline>'' [] s;
          log_structs [(''proto_major'', ''%d'', Num (proto_major conn)), (''proto_minor'', ''%d'', Num (proto_minor conn)),
            (''async_read'', ''%d'', Num (async_read conn)), (''max_write'', ''%d'', Num (max_write conn)),
            (''max_readahead'', ''%d'', Num (max_readahead conn)), (''capable'', ''%08x'', Num (capable conn)),
            (''want'', ''%08x'', Num (want conn))] s }"

definition log_fi :: "fuse_file_info \<Rightarrow> sfs \<Rightarrow> sfs option" where
  "log_fi fi s =
     do { s \<leftarrow> log_msg ''    fi:\<newline>'' [] s;
          log_structs [(''flags'', ''0x%08x'', Num (fi_flags fi)), (''fh_old'', ''0x%08lx'', Num (fh_old fi)),
            (''writepage'', ''%d'', Num (writepage fi)), (''direct_io'', ''%d'', Num (direct_io fi)),
            (''keep_cache'', ''%d'', Num (keep_cache fi)), (''fh'', ''0x%016llx'', Num (fh fi)),
            (''lock_owner'', ''0x%016llx'', Num (lock_owner fi))] s }"

definition log_stat :: "stat \<Rightarrow> sfs \<Rightarrow> sfs option" where
  "log_stat si s =
     do { s \<leftarrow> log_msg ''    si:\<newline>'' [] s;
          log_structs [(''st_dev'', ''%lld'', Num (st_dev si)), (''st_ino'', ''%lld'', Num (st_ino si)),
            (''st_mode'', ''0%o'', Num (st_mode si)), (''st_nlink'', ''%d'', Num (st_nlink si)),
            (''st_uid'', ''%d'', Num (st_uid si)), (''st_gid'', ''%d'', Num (st_gid si)),
            (''st_rdev'', ''%lld'', Num (st_rdev si)), (''st_size'', ''%lld'', Num (st_size si)),
            (''st_blksize'', ''%ld'', Num (st_blksize si)), (''st_blocks'', ''%lld'', Num (st_blocks si)),
            (''st_atime'', ''0x%08lx'', Num (st_atime si)), (''st_mtime'', ''0x%08lx'', Num (st_mtime si)),
            (''st_ctime'', ''0x%08lx'', Num (st_ctime si))] s }"

definition log_statvfs :: "statvfs \<Rightarrow> sfs \<Rightarrow> sfs option" where
  "log_statvfs sv s =
     do { s \<leftarrow> log_msg ''    sv:\<newline>'' [] s;
          log_structs [(''f_bsize'', ''%ld'', Num (f_bsize sv)), (''f_frsize'', ''%ld'', Num (f_frsize sv)),
            (''f_blocks'', ''%lld'', Num (f_blocks sv)), (''f_bfree'', ''%lld'', Num (f_bfree sv)),
            (''f_bavail'', ''%lld'', Num (f_bavail sv)), (''f_files'', ''%lld'', Num (f_files sv)),
            (''f_ffree'', ''%lld'', Num (f_ffree sv)), (''f_favail'', ''%lld'', Num (f_favail sv)),
            (''f_fsid'', ''%ld'', Num (f_fsid sv)), (''f_flag'', ''0x%08lx'', Num (f_flag sv)),
            (''f_namemax'', ''%ld'', Num (f_namemax sv))] s }"

definition log_utime :: "utimbuf \<Rightarrow> sfs \<Rightarrow> sfs option" where
  "log_utime b s =
     do { s \<leftarrow> log_msg ''    buf:\<newline>'' [] s;
          log_structs [(''actime'', ''0x%08lx'', Num (actime b)), (''modtime'', ''0x%08lx'', Num (modtime b))] s }"

subsection \<open>The handlers\<close>

text \<open>A handler with a buffer to fill takes its contents and returns them.\<close>

definition fuse_sfs_init :: "fuse_conn_info \<Rightarrow> sfs \<Rightarrow> (int \<times> sfs) option" where
  "fuse_sfs_init conn s =
     do { s \<leftarrow> err_msg ''in bb-init\<newline>'' [] s;
          s \<leftarrow> log_msg ''\<newline>sfs_init()\<newline>'' [] s;
          s \<leftarrow> log_conn conn s;
          s \<leftarrow> log_fuse_context s;
          Some (private_data (fuse_ctx s), s) }"

definition sfs_destroy :: "int \<Rightarrow> sfs \<Rightarrow> sfs option" where
  "sfs_destroy userdata s = log_msg ''\<newline>sfs_destroy(userdata=0x%08x)\<newline>'' [Num userdata] s"

definition sfs_getattr :: "string \<Rightarrow> int \<Rightarrow> 'b \<Rightarrow> sfs \<Rightarrow> (int \<times> 'b \<times> sfs) option" where
  "sfs_getattr path statbuf st s =
     do { let retstat = 0;
          s \<leftarrow> log_msg ''\<newline>sfs_getattr(path=\"%s\", statbuf=0x%08x)\<newline>'' [Str path, Num statbuf] s;
          Some (retstat, st, s) }"

definition sfs_create :: "string \<Rightarrow> int \<Rightarrow> int \<Rightarrow> sfs \<Rightarrow> (int \<times> sfs) option" where
  "sfs_create path mode fi s =
     do { let retstat = 0;
          s \<leftarrow> log_msg ''\<newline>sfs_create(path=\"%s\", mode=0%03o, fi=0x%08x)\<newline>'' [Str path, Num mode, Num fi] s;
          Some (retstat, s) }"

definition sfs_unlink :: "string \<Rightarrow> sfs \<Rightarrow> (int \<times> sfs) option" where
  "sfs_unlink path s =
     do { let retstat = 0; s \<leftarrow> log_msg ''sfs_unlink(path=\"%s\")\<newline>'' [Str path] s; Some (retstat, s) }"

definition sfs_open :: "string \<Rightarrow> int \<Rightarrow> sfs \<Rightarrow> (int \<times> sfs) option" where
  "sfs_open path fi s =
     do { let retstat = 0; s \<leftarrow> log_msg ''\<newline>sfs_open(path\"%s\", fi=0x%08x)\<newline>'' [Str path, Num fi] s; Some (retstat, s) }"

definition sfs_release :: "string \<Rightarrow> int \<Rightarrow> sfs \<Rightarrow> (int \<times> sfs) option" where
  "sfs_release path fi s =
     do { let retstat = 0; s \<leftarrow> log_msg ''\<newline>sfs_release(path=\"%s\", fi=0x%08x)\<newline>'' [Str path, Num fi] s; Some (retstat, s) }"

definition sfs_read :: "string \<Rightarrow> int \<Rightarrow> 'b \<Rightarrow> int \<Rightarrow> int \<Rightarrow> int \<Rightarrow> sfs \<Rightarrow> (int \<times> 'b \<times> sfs) option" where
  "sfs_read path buf bytes sz offset fi s =
     do { let retstat = 0;
          s \<leftarrow> log_msg ''\<newline>sfs_read(path=\"%s\", buf=0x%08x, size=%d, offset=%lld, fi=0x%08x)\<newline>''
            [Str path, Num buf, Num sz, Num offset, Num fi] s;
          Some (retstat, bytes, s) }"

definition sfs_write :: "string \<Rightarrow> int \<Rightarrow> int \<Rightarrow> int \<Rightarrow> int \<Rightarrow> sfs \<Rightarrow> (int \<times> sfs) option" where
  "sfs_write path buf sz offset fi s =
     do { let retstat = 0;
          s \<leftarrow> log_msg ''\<newline>sfs_write(path=\"%s\", buf=0x%08x, size=%d, offset=%lld, fi=0x%08x)\<newline>''
            [Str path, Num buf, Num sz, Num offset, Num fi] s;
          Some (retstat, s) }"

definition sfs_mkdir :: "string \<Rightarrow> int \<Rightarrow> sfs \<Rightarrow> (int \<times> sfs) option" where
  "sfs_mkdir path mode s =
     do { let retstat = 0; s \<leftarrow> log_msg ''\<newline>sfs_mkdir(path=\"%s\", mode=0%3o)\<newline>'' [Str path, Num mode] s; Some (retstat, s) }"

definition sfs_rmdir :: "string \<Rightarrow> sfs \<Rightarrow> (int \<times> sfs) option" where
  "sfs_rmdir path s =
     do { let retstat = 0; s \<leftarrow> log_msg ''sfs_rmdir(path=\"%s\")\<newline>'' [Str path] s; Some (retstat, s) }"

definition sfs_opendir :: "string \<Rightarrow> int \<Rightarrow> sfs \<Rightarrow> (int \<times> sfs) option" where
  "sfs_opendir path fi s =
     do { let retstat = 0; s \<leftarrow> log_msg ''\<newline>sfs_opendir(path=\"%s\", fi=0x%08x)\<newline>'' [Str path, Num fi] s; Some (retstat, s) }"

definition sfs_readdir :: "string \<Rightarrow> int \<Rightarrow> 'b \<Rightarrow> int \<Rightarrow> int \<Rightarrow> int \<Rightarrow> sfs \<Rightarrow> (int \<times> 'b \<times> sfs) option" where
  "sfs_readdir path buf entries filler offset fi s = (let retstat = 0 in Some (retstat, entries, s))"

definition sfs_releasedir :: "string \<Rightarrow> int \<Rightarrow> sfs \<Rightarrow> (int \<times> sfs) option" where
  "sfs_releasedir path fi s = (let retstat = 0 in Some (retstat, s))"

text \<open>The table of handlers: a request of the kernel and the handler that serves it.  \<open>b\<close> is what the buffer
  of the request holds.\<close>

datatype request =
    Getattr string int | Create string int int | Unlink string | Open string int | Release string int
  | Read string int int int int | Write string int int int int | Mkdir string int | Rmdir string
  | Opendir string int | Readdir string int int int int | Releasedir string int

definition no_buffer :: "'b \<Rightarrow> (int \<times> sfs) option \<Rightarrow> (int \<times> 'b \<times> sfs) option" where
  "no_buffer b r = map_option (\<lambda>(v, s). (v, b, s)) r"

fun sfs_oper :: "request \<Rightarrow> 'b \<Rightarrow> sfs \<Rightarrow> (int \<times> 'b \<times> sfs) option" where
  "sfs_oper (Getattr path statbuf) b s = sfs_getattr path statbuf b s"
| "sfs_oper (Create path mode fi) b s = no_buffer b (sfs_create path mode fi s)"
| "sfs_oper (Unlink path) b s = no_buffer b (sfs_unlink path s)"
| "sfs_oper (Open path fi) b s = no_buffer b (sfs_open path fi s)"
| "sfs_oper (Release path fi) b s = no_buffer b (sfs_release path fi s)"
| "sfs_oper (Read path buf sz offset fi) b s = sfs_read path buf b sz offset fi s"
| "sfs_oper (Write path buf sz offset fi) b s = no_buffer b (sfs_write path buf sz offset fi s)"
| "sfs_oper (Mkdir path mode) b s = no_buffer b (sfs_mkdir path mode s)"
| "sfs_oper (Rmdir path) b s = no_buffer b (sfs_rmdir path s)"
| "sfs_oper (Opendir path fi) b s = no_buffer b (sfs_opendir path fi s)"
| "sfs_oper (Readdir path buf filler offset fi) b s = sfs_readdir path buf b filler offset fi s"
| "sfs_oper (Releasedir path fi) b s = no_buffer b (sfs_releasedir path fi s)"

subsection \<open>The main program\<close>

text \<open>\<open>data\<close> is what \<open>malloc\<close> delivers, and \<open>fuse_main\<close> runs the server with the arguments and the private data
  it is given.  The result is that of \<open>fuse_main\<close> with the state it leaves.\<close>

definition sfs_usage :: "'a option" where
  "sfs_usage = None"

definition sfs_main :: "string list \<Rightarrow> int option \<Rightarrow> int option \<Rightarrow>
    (string list \<Rightarrow> int \<Rightarrow> sfs \<Rightarrow> (int \<times> sfs) option) \<Rightarrow> sfs \<Rightarrow> (int \<times> sfs) option" where
  "sfs_main argv data open_result fuse_main s =
     (let argc = length argv in
      if argc < 3 \<or> take 1 (argv ! (argc - 2)) = ''-'' \<or> take 1 (argv ! (argc - 1)) = ''-'' then sfs_usage
      else
        do { data \<leftarrow> data;
             let s = s\<lparr>sfs_data := (sfs_data s)\<lparr>disk_path := argv ! (argc - 2)\<rparr>\<rparr>;
             let argv = argv[argc - 2 := argv ! (argc - 1)];
             let argv = take (argc - 1) argv;
             (f, s) \<leftarrow> log_open open_result s;
             let s = s\<lparr>sfs_data := (sfs_data s)\<lparr>logfile := f\<rparr>\<rparr>;
             s \<leftarrow> err_msg ''about to call fuse_main, %s \<newline>'' [Str (disk_path (sfs_data s))] s;
             (fuse_stat, s) \<leftarrow> fuse_main argv data s;
             s \<leftarrow> err_msg ''fuse_main returned %d\<newline>'' [Num fuse_stat] s;
             Some (fuse_stat, s) })"

subsection \<open>What is logged\<close>

definition hex8 :: "int \<Rightarrow> string" where
  "hex8 v = fill True 8 [] (digits 16 (nat (u32 v)))"

definition hex16 :: "nat \<Rightarrow> int \<Rightarrow> string" where
  "hex16 w v = fill True w [] (digits 16 (nat (u64 v)))"

definition octal :: "bool \<Rightarrow> nat \<Rightarrow> int \<Rightarrow> string" where
  "octal zero w v = fill zero w [] (digits 8 (nat (u32 v)))"

definition decimal :: "int \<Rightarrow> string" where
  "decimal v = fill False 0 (if v < 0 then ''-'' else []) (digits 10 (nat \<bar>v\<bar>))"

lemma print_arg_eqs:
  "print_arg True 8 False CHR ''x'' (Num v) = Some (hex8 v)"
  "print_arg True w True CHR ''x'' (Num v) = Some (hex16 w v)"
  "print_arg zero w False CHR ''o'' (Num v) = Some (octal zero w v)"
  "print_arg False 0 False CHR ''d'' (Num v) = Some (decimal (s32 v))"
  "print_arg False 0 True CHR ''d'' (Num v) = Some (decimal (s64 v))"
  "print_arg False 0 False CHR ''s'' (Str t) = Some t"
  by (simp_all add: print_arg_def hex8_def hex16_def octal_def decimal_def fill_def Let_def)

lemmas format_simps = c_printf.simps(2) read_directive_def read_long_def print_arg_eqs Let_def

text \<open>Numbers in the log can be read back, and end at the end of their line.\<close>

lemma line_split:
  assumes "CHR 0x0A \<notin> set x" "CHR 0x0A \<notin> set y"
  shows "x @ CHR 0x0A # u = y @ CHR 0x0A # v \<longleftrightarrow> x = y \<and> u = v"
  using assms
proof (induction x arbitrary: y)
  case Nil
  then show ?case by (cases y) auto
next
  case (Cons a x)
  then show ?case by (cases y) auto
qed

lemma decimal_text: "CHR 0x0A \<notin> set (decimal v)" "text_value 10 (decimal v) = v"
  unfolding decimal_def by (rule text_value_fill; simp)+

lemma unsigned_text:
  assumes "0 \<le> v" "2 \<le> b" "b \<le> 16"
  shows "CHR 0x0A \<notin> set (fill zero w [] (digits b (nat v)))" "text_value b (fill zero w [] (digits b (nat v))) = v"
  using text_value_fill [OF assms(2,3), of "[]" v zero w] assms(1) by simp_all

lemma number_lines [simp]:
  "CHR 0x0A \<notin> set (hex8 v)" "CHR 0x0A \<notin> set (hex16 w v)" "CHR 0x0A \<notin> set (octal zero w v)" "CHR 0x0A \<notin> set (decimal v)"
  unfolding hex8_def hex16_def octal_def by (rule unsigned_text decimal_text; simp add: u32_def u64_def)+

lemma number_values:
  "text_value 16 (hex8 v) = u32 v" "text_value 16 (hex16 w v) = u64 v" "text_value 8 (octal zero w v) = u32 v"
  unfolding hex8_def hex16_def octal_def by (rule unsigned_text; simp add: u32_def u64_def)+

lemma number_eqs:
  "decimal v = decimal v' \<longleftrightarrow> v = v'" "hex8 v = hex8 v' \<longleftrightarrow> u32 v = u32 v'" "hex16 w v = hex16 w v' \<longleftrightarrow> u64 v = u64 v'"
  "octal zero w v = octal zero w v' \<longleftrightarrow> u32 v = u32 v'"
proof -
  show "decimal v = decimal v' \<longleftrightarrow> v = v'" by (metis decimal_text(2))
  show "hex8 v = hex8 v' \<longleftrightarrow> u32 v = u32 v'" by (metis number_values(1) hex8_def)
  show "hex16 w v = hex16 w v' \<longleftrightarrow> u64 v = u64 v'" by (metis number_values(2) hex16_def)
  show "octal zero w v = octal zero w v' \<longleftrightarrow> u32 v = u32 v'" by (metis number_values(3) octal_def)
qed

lemma log_eq: "s\<lparr>log := x\<rparr> = s\<lparr>log := y\<rparr> \<longleftrightarrow> x = y"
  by (auto dest: arg_cong [of _ _ log])

lemmas log_simps = log_struct_def log_msg_def format_simps log_eq line_split number_eqs

subsection \<open>Properties\<close>

text \<open>C39: The log of a structure tells its fields: two structures leave the same log exactly when their fields
  agree as far as their conversions print them, which is all of a file system's statistics and of the
  times, but only the lower 32 bits of the number of links of a file.\<close>

theorem sfs_log_determines:
  "(log_utime x s = log_utime x' s \<longleftrightarrow> u64 (actime x) = u64 (actime x') \<and> u64 (modtime x) = u64 (modtime x')) \<and>
   (log_statvfs v s = log_statvfs v' s \<longleftrightarrow> s64 (f_bsize v) = s64 (f_bsize v') \<and> s64 (f_frsize v) = s64 (f_frsize v') \<and>
     s64 (f_blocks v) = s64 (f_blocks v') \<and> s64 (f_bfree v) = s64 (f_bfree v') \<and> s64 (f_bavail v) = s64 (f_bavail v') \<and>
     s64 (f_files v) = s64 (f_files v') \<and> s64 (f_ffree v) = s64 (f_ffree v') \<and> s64 (f_favail v) = s64 (f_favail v') \<and>
     s64 (f_fsid v) = s64 (f_fsid v') \<and> u64 (f_flag v) = u64 (f_flag v') \<and> s64 (f_namemax v) = s64 (f_namemax v')) \<and>
   (log_stat a s = log_stat a' s \<longleftrightarrow> s64 (st_dev a) = s64 (st_dev a') \<and> s64 (st_ino a) = s64 (st_ino a') \<and>
     u32 (st_mode a) = u32 (st_mode a') \<and> s32 (st_nlink a) = s32 (st_nlink a') \<and> s32 (st_uid a) = s32 (st_uid a') \<and>
     s32 (st_gid a) = s32 (st_gid a') \<and> s64 (st_rdev a) = s64 (st_rdev a') \<and> s64 (st_size a) = s64 (st_size a') \<and>
     s64 (st_blksize a) = s64 (st_blksize a') \<and> s64 (st_blocks a) = s64 (st_blocks a') \<and> u64 (st_atime a) = u64 (st_atime a') \<and>
     u64 (st_mtime a) = u64 (st_mtime a') \<and> u64 (st_ctime a) = u64 (st_ctime a')) \<and>
   (log_conn c s = log_conn c' s \<longleftrightarrow> s32 (proto_major c) = s32 (proto_major c') \<and> s32 (proto_minor c) = s32 (proto_minor c') \<and>
     s32 (async_read c) = s32 (async_read c') \<and> s32 (max_write c) = s32 (max_write c') \<and>
     s32 (max_readahead c) = s32 (max_readahead c') \<and> u32 (capable c) = u32 (capable c') \<and> u32 (want c) = u32 (want c')) \<and>
   (log_fi f s = log_fi f' s \<longleftrightarrow> u32 (fi_flags f) = u32 (fi_flags f') \<and> u64 (fh_old f) = u64 (fh_old f') \<and>
     s32 (writepage f) = s32 (writepage f') \<and> s32 (direct_io f) = s32 (direct_io f') \<and> s32 (keep_cache f) = s32 (keep_cache f') \<and>
     u64 (fh f) = u64 (fh f') \<and> u64 (lock_owner f) = u64 (lock_owner f'))"
  by (intro conjI) (simp_all add: log_utime_def log_statvfs_def log_stat_def log_conn_def log_fi_def log_simps)

text \<open>The arguments of the program.\<close>

lemma last_two:
  assumes "3 \<le> length argv"
  obtains opts disk mnt where "argv = opts @ [disk, mnt]" "opts \<noteq> []" "length argv = length opts + 2"
proof -
  have "drop (length argv - 2) argv = [argv ! (length argv - 2), argv ! (length argv - 1)]"
    using assms Cons_nth_drop_Suc [of "length argv - 2" argv] Cons_nth_drop_Suc [of "length argv - 1" argv]
    by (simp add: Suc_diff_Suc numeral_2_eq_2)
  then have "argv = take (length argv - 2) argv @ [argv ! (length argv - 2), argv ! (length argv - 1)]"
    by (metis append_take_drop_id)
  then show thesis using assms that [of "take (length argv - 2) argv"] by force
qed

text \<open>What FUSE is started with: the disk file taken out of the arguments, an empty log, a line on the
  standard error.\<close>

definition sfs_started :: "int \<Rightarrow> string \<Rightarrow> sfs \<Rightarrow> sfs" where
  "sfs_started f disk s = s\<lparr>log := [], sfs_data := (sfs_data s)\<lparr>disk_path := disk, logfile := f\<rparr>,
     err := err s @ ''about to call fuse_main, '' @ disk @ '' \<newline>''\<rparr>"

lemma sfs_main_args:
  assumes "opts \<noteq> []"
  shows "sfs_main (opts @ [disk, mnt]) data open_result fuse_main s =
    (if take 1 disk = ''-'' \<or> take 1 mnt = ''-'' then None
     else do { p \<leftarrow> data; f \<leftarrow> open_result; (r, s) \<leftarrow> fuse_main (opts @ [mnt]) p (sfs_started f disk s);
               Some (r, s\<lparr>err := err s @ ''fuse_main returned '' @ decimal (s32 r) @ ''\<newline>''\<rparr>) })"
proof -
  let ?argv = "opts @ [disk, mnt]"
  have n: "length ?argv - 2 = length opts" "length ?argv - 1 = Suc (length opts)" "\<not> length ?argv < 3" using assms by (cases opts; simp)+
  have i: "?argv ! length opts = disk" "?argv ! Suc (length opts) = mnt" by (simp_all add: nth_append)
  have t: "take (Suc (length opts)) (?argv[length opts := mnt]) = opts @ [mnt]" by simp
  show ?thesis unfolding sfs_main_def Let_def n i t sfs_usage_def
    using assms by (cases data; cases open_result) (simp_all add: log_open_def err_msg_def format_simps sfs_started_def split: prod.splits)
qed

text \<open>C38: The server runs exactly when it is called with at least two arguments of which the last two, the disk
  file and the mount point, do not begin with a dash, and memory and the log file are there: FUSE then
  gets the arguments without the disk file, which is in the private data, starts with an empty log, and
  its result is the result of the program.\<close>

theorem sfs_main_runs:
  "sfs_main argv data open_result fuse_main s = Some (r, s') \<longleftrightarrow>
     (\<exists>opts disk mnt p f t. argv = opts @ [disk, mnt] \<and> opts \<noteq> [] \<and> take 1 disk \<noteq> ''-'' \<and> take 1 mnt \<noteq> ''-'' \<and>
       data = Some p \<and> open_result = Some f \<and> fuse_main (opts @ [mnt]) p (sfs_started f disk s) = Some (r, t) \<and>
       s' = t\<lparr>err := err t @ ''fuse_main returned '' @ decimal (s32 r) @ ''\<newline>''\<rparr>)"
    (is "?l = ?r")
proof
  assume l: ?l
  then have "3 \<le> length argv" by (simp add: sfs_main_def sfs_usage_def Let_def split: if_splits)
  then obtain opts disk mnt where a: "argv = opts @ [disk, mnt]" "opts \<noteq> []" by (rule last_two)
  have b: "take 1 disk \<noteq> ''-'' \<and> take 1 mnt \<noteq> ''-''" using l unfolding a(1) sfs_main_args [OF a(2)] by (metis option.distinct(1))
  then have "do { p \<leftarrow> data; f \<leftarrow> open_result; (r, s) \<leftarrow> fuse_main (opts @ [mnt]) p (sfs_started f disk s);
      Some (r, s\<lparr>err := err s @ ''fuse_main returned '' @ decimal (s32 r) @ ''\<newline>''\<rparr>) } = Some (r, s')"
    using l unfolding a(1) sfs_main_args [OF a(2)] by (metis (no_types, lifting))
  then obtain p f t where "data = Some p" "open_result = Some f" "fuse_main (opts @ [mnt]) p (sfs_started f disk s) = Some (r, t)"
    "s' = t\<lparr>err := err t @ ''fuse_main returned '' @ decimal (s32 r) @ ''\<newline>''\<rparr>"
    unfolding bind_eq_Some_conv by auto
  then show ?r using a b by blast
next
  assume ?r
  then obtain opts disk mnt p f t where a: "argv = opts @ [disk, mnt]" "opts \<noteq> []" "take 1 disk \<noteq> ''-''" "take 1 mnt \<noteq> ''-''"
    "data = Some p" "open_result = Some f" "fuse_main (opts @ [mnt]) p (sfs_started f disk s) = Some (r, t)"
    "s' = t\<lparr>err := err t @ ''fuse_main returned '' @ decimal (s32 r) @ ''\<newline>''\<rparr>" by blast
  show ?l unfolding a(1) sfs_main_args [OF a(2)] using a(3-) by simp
qed

end
