(* ===== verification/Spec2Isabelle.thy ===== *)
theory Spec2Isabelle
  imports VS_Memgrind A1_History Ticket_Mutex A2_Props A2_Alloc_Props A2_Join Counter_Driver FS_Program Sfs_Skeleton
begin

section \<open>RutgersOS\<close>

text \<open>
  The repository holds the assignments of an operating systems course, in C.  These parts have
  state and algorithms of their own and are modelled here:

  \<^item> VSmymalloc/mymalloc.c: a first-fit allocator with boundary tags on the array \<open>myBlock\<close>.
  \<^item> Assignment1/my_pthread.c: user-level threads with a two-level round robin driven by a timer
    signal, and a ticket mutex.
  \<^item> Assignment2/my_pthread.c and mymalloc.c: the same library over an arena of 8 MB, in which every
    thread sees its own pages.  A switch moves pages between frames and a swap file, pages are
    protected and opened by the SIGSEGV handler, and the allocator serves both the library (from the
    operating-system region) and the threads (from the user region).
  \<^item> assignment3/src/block.c and test/test.c: a file used as a disk of 512-byte blocks, and on it a file
    system with bitmaps, inodes and directories.
  \<^item> the programs that use them: VSmymalloc/memgrind.c (workloads of the allocator), Assignment2/main.c (the loops
    that count under the mutex), the main program of test.c, and assignment3/src/sfs.c with log.c, a FUSE server whose
    handlers log their requests.

  \<^bold>\<open>How C is modelled.\<close>  A function of C is a function on the state it works on; \<open>None\<close> is undefined behaviour
  (leaving an array, following a pointer to nothing, reading a variable that is not assigned), a process
  that exits, or a loop that does not end.  A statement that a call yields \<open>Some\<close> is therefore a statement that
  it returns without a fault.  Integers are \<open>int\<close> with the conversions of C written where the code narrows
  a value (\<open>OS_Prelude\<close>); bytes and the mutex counters are machine words.  Memory of the allocators is a
  sequence of bytes (\<open>C_Memory\<close>); the structures the thread libraries link by pointers are in explicit
  stores, as they are shared and mutated.

  \<^bold>\<open>Theories and sources.\<close>

  \<^item> \<open>OS_Prelude\<close>, \<open>C_Memory\<close>: conversions, generic lemmas, byte memory with words of four bytes.
  \<^item> \<open>Block_List\<close>: the specification of an allocator, on lists of blocks: first fit with splitting, freeing
    with merging.  \<open>Boundary_Tags\<close>: how such a list lies in memory, and the locales \<open>tag_codec\<close> and \<open>boundary_tags\<close>
    with the laws of the accessors and of the navigation, under which coalescing and the search implement
    the specification.  \<open>Heap_Client\<close>: the locale \<open>heap_client\<close>, what any program may conclude from the contract
    of an allocator (areas are disjoint, contents stay, no call faults, all is free at the end).
  \<^item> \<open>VS_Malloc\<close>, \<open>VS_History\<close>: VSmymalloc/mymalloc.c.  \<open>vs_mymalloc\<close> and \<open>vs_myfree\<close> are \<open>mymalloc\<close> and \<open>myfree\<close>, and the
    other operations have the names of the source with the prefix \<open>vs\<close>.  Interpretations \<open>vs\<close> of
    \<open>boundary_tags\<close> and \<open>vsc\<close> of \<open>heap_client\<close>.  \<open>VS_Memgrind\<close>: the workloads of VSmymalloc/memgrind.c, as clients.
  \<^item> \<open>Thread_Queue\<close>: \<open>enqueue\<close>, \<open>dequeue\<close>, \<open>peek\<close> of my_pthread.c (the same text in both assignments), and the
    locale \<open>fifo\<close>, interpreted as \<open>tq\<close>.  \<open>Sched_State\<close>: the globals and the parts of yield, create and exit that work
    on the ready queues, for any extension of the state.  \<open>Ready_Queues\<close>: the abstract scheduler (a running
    thread and two lists) and the refinement of these parts.
  \<^item> \<open>Sched_A1\<close>, \<open>A1_Invariant\<close>, \<open>A1_History\<close>: Assignment1/my_pthread.c.  \<open>a1_create\<close>, \<open>a1_yield\<close>, \<open>a1_exit\<close>, \<open>a1_join\<close> are the
    functions of the API; the inductive \<open>a1_run\<close> are the states a program of any calls can reach.
  \<^item> \<open>Ticket_Mutex\<close>: the mutex functions, and the inductive step relation \<open>lock_step\<close> that interleaves the
    calls of any number of threads below \<open>2 ^ 32\<close>.
  \<^item> \<open>A2_Tags\<close>: the allocator of Assignment2/mymalloc.c over a machine whose word accesses may fault.  \<open>A2_Paging\<close>:
    arena, frames, page tables, swap file, SIGSEGV handler, \<open>initializeMemory\<close>.  \<open>A2_Sched\<close>: \<open>myallocate\<close>,
    \<open>mydeallocate\<close> and Assignment2/my_pthread.c.
  \<^item> \<open>A2_Frames\<close>, \<open>A2_Memory\<close>, \<open>A2_Yield\<close>, \<open>A2_Runs\<close>, \<open>A2_Props\<close>: the page moves of a switch, as rules of total
    correctness on frames and tables; what they do to the memory of each thread; that
    the scheduler is that of Assignment1, but for the timer it sets.
  \<^item> \<open>A2_Structures\<close>, \<open>A2_Create\<close>, \<open>A2_Threads\<close>: thread creation in Assignment2.  The structures of the library are
    blocks of the operating-system region, a creation takes four or five more and two frames; the inductive
    \<open>a2_threads\<close> are the states that programs of creations and yields reach from the start of the process, and their
    invariant \<open>threads_inv\<close> is the well-formedness that the theorems on paging assume.  \<open>A2_Exit\<close>, \<open>A2_Join\<close>: the threads
    of such a program may end; \<open>a2_ending\<close> are the states reached with yields, exits and waiting joins once all threads
    have been created, and their
    invariant \<open>ending_inv\<close> says that every structure still is an allocated block, so that exit and join can release it.
  \<^item> \<open>A2_Sim\<close> (locale \<open>mem_sim\<close>), \<open>A2_Heap\<close>, \<open>A2_User\<close>, \<open>A2_Start\<close>, \<open>A2_Program\<close>, \<open>A2_Alloc_Props\<close>: a machine that
    simulates plain memory runs the allocator as on plain memory.  This is used for the
    operating-system region (\<open>os\<close>) and for the protected user region of a program with one
    thread (\<open>usr\<close>), whose histories satisfy \<open>heap_client\<close> (\<open>prog\<close>).
  \<^item> \<open>Counter_Driver\<close>: the loop of \<open>counter\<close> in Assignment2/main.c.  A thread is the point of the loop it has reached, a step is one
    access to the globals, and \<open>counter_move\<close> interleaves the threads; the lock calls are the steps of \<open>Ticket_Mutex\<close>.
  \<^item> \<open>Disk_Blocks\<close>: block.c.  \<open>File_System\<close>: the functions of test.c under their names.  \<open>FS_Bitmap\<close>, \<open>FS_Inode\<close>, \<open>FS_Path\<close>,
    \<open>FS_Frames\<close>: what each access means, and that the regions of the disk do not disturb each other.
    \<open>FS_Tree\<close>: the graph of directories the disk stands for.  \<open>FS_Create\<close>, \<open>FS_Init\<close>, \<open>FS_Props\<close>: formatting a
    disk and creating files; the locale \<open>status_map\<close> holds the laws of the two bitmaps, and \<open>inodes\<close> and \<open>blocks\<close>
    interpret it.  \<open>FS_Program\<close>: the main program of test.c.
  \<^item> \<open>C_Print\<close>: the part of \<open>printf\<close> the log uses.  \<open>Sfs_Skeleton\<close>: sfs.c and log.c; \<open>sfs_oper\<close> is the table of handlers.

  \<^bold>\<open>How the parts interact.\<close>  The allocators implement \<open>Block_List\<close> through \<open>Boundary_Tags\<close>.  The two thread libraries
  share \<open>Thread_Queue\<close>, \<open>Sched_State\<close> and \<open>Ticket_Mutex\<close>; in Assignment2 a switch of \<open>Sched_State\<close> is followed by the page
  moves of \<open>A2_Sched\<close>, which work on the frames of \<open>A2_Paging\<close>; the first call of the Assignment2 allocator
  sets up paging and scheduler and every later one maps the pages of the block it found.  The file
  system reaches the disk only through \<open>block_read\<close> and \<open>block_write\<close>.

  \<^bold>\<open>What is shown.\<close>  For the allocators: refinement of first fit with splitting and merging, and for every
  history of a client, safety of areas and contents and the absence of faults.  For the thread
  libraries: every call in every reachable state returns and is one step of the abstract scheduler, no
  thread is lost, every ready thread runs; the mutex excludes and serves its callers in the order of their tickets.  For paging: under which page counts a switch keeps the memory of all threads, and a run in
  which it does not.  Exit and join of Assignment2 give back what belongs to the thread and nothing else, provided that a word
  of the arena that the code never assigns is zero (see below), but a
  join leaves a pointer to the released page table behind.  For the file system: bounds of the layout, well-formedness after formatting and after each
  creation, and creation as the addition of one entry to the graph of directories, found again by
  path; the main program of test.c ends with the tree it describes.  For the counting loops: no update is lost
  in any interleaving, and every run can be completed.  For the FUSE server: which arguments it accepts and what it
  hands on, and what its log tells of the structures it prints.  Several theorems state what the code does where it does something other than its comments or
  its callers expect.

  \<^bold>\<open>Bounds, loops and parameters.\<close>  Loops over memory and over linked nodes are partial functions whose
  value \<open>None\<close> stands for not ending, and their ending is proved; loops that count are recursions over
  what is left.  The counts are those of the source: 128 page tables and 1536 entries each, the
  frames of the 8 MB arena and of the 16 MB swap file, 12 pointers for an inode, names of at most 507
  characters, which is what fits before the inode number of an entry.  The
  disk of the file system has at most 1536 MB, as its size is read into an \<open>int\<close>.  The bytes \<open>arena\<close> that
  \<open>posix_memalign\<close> delivers, with the success of \<open>open\<close> for the swap file, the size \<open>uc\<close> of a \<open>ucontext_t\<close> (at most 2000000), the
  failure of \<open>getcontext\<close>, the
  descriptor of \<open>open\<close> and the contents of local variables before they are assigned are arguments.

  \<^bold>\<open>What the code does not initialise.\<close>  The array \<open>pageTables\<close> of Assignment2 is a block of the arena and is never cleared: each
  creation assigns one slot, and the others keep the bytes \<open>posix_memalign\<close> delivered (\<open>fresh_slots\<close>: NULL for eight zero bytes, else
  a pointer to no page table).  The loops that run while \<open>pageTables[j]\<close> is not NULL read the slot behind the last thread.  They are
  run when a thread is resumed after an exit, so the theorems on exit and join have the hypothesis that this slot
  holds NULL, and it is shown that without it the first exit does not return.  An uninitialised counter (\<open>grindA\<close>) and an
  uninitialised array of pointers (\<open>grindE\<close>) of memgrind.c are arguments, too.

  \<^bold>\<open>Not modelled.\<close>  Contexts are opaque: a library call ends with the switch it makes.  Printing and the clock
  are left out, except for what the main program of test.c and the FUSE server print.  Assignment2/memgrind.c
  calls a function \<open>mymalloc\<close> that Assignment2 does not have; its main program only initialises the arena
  (\<open>memgrind_main\<close>), and the workloads it does not call are those of VSmymalloc/memgrind.c.  fuse.h and config.h are
  headers of a library and of the build.  Assignment0/undead_code.c changes a return address on the stack, so that its
  effect depends on the compiled code.  Runs of Assignment2 with exits are followed up to the first join that
  releases a thread, as what comes after it may read the released page table, and threads are created before
  the first exit.  A structure that has been released has no meaning in the model, though its bytes stay in the
  arena until they are used again.  Signals arrive only as calls of the handlers between library
  calls.  Assignment2 sets \<open>ITIMER_VIRTUAL\<close> and handles the signal of \<open>ITIMER_REAL\<close>: its runs are followed as long as the virtual
  timer does not expire, since the signal it then raises ends the process, and all yields are calls.  The counters of the mutex
  are words that wrap; in C the increment of \<open>turn\<close> at \<open>INT_MAX\<close> is undefined.
\<close>

end
